(* ===== verification/Hub_Prelude.thy ===== *)
theory Hub_Prelude
  imports Complex_Main "HOL-Library.AList"
begin

text \<open>
  Shared vocabulary of the development: the exceptions the modelled code raises, results as
  sums, text operations with the meaning of Python's \<open>str\<close> methods, insertion-ordered
  dictionaries, and the generic lemmas and fact collections the component theories use.

  Text is a \<open>string\<close>, a list of bytes: an ASCII character is itself, and any other
  character stands as its UTF-8 bytes, which no whitespace, digit or case operation touches.
\<close>

section \<open>Fact collections\<close>

named_theorems text_simps \<open>equations of the text operations\<close>
named_theorems dict_simps \<open>lookup after an update of an insertion-ordered dictionary\<close>
named_theorems step_intros \<open>introduction rules for invariants that steps preserve\<close>

section \<open>Exceptions and results\<close>

datatype py_error =
    ValueError
  | TypeError
  | OverflowError
  | RuntimeError
  | ApiError string

type_synonym 'a result = "py_error + 'a"

definition bind_ok :: "'e + 'a \<Rightarrow> ('a \<Rightarrow> 'e + 'b) \<Rightarrow> 'e + 'b" where
  "bind_ok m f = (case m of Inl e \<Rightarrow> Inl e | Inr x \<Rightarrow> f x)"

lemma bind_ok_simps [simp]:
  "bind_ok (Inl e) f = Inl e"
  "bind_ok (Inr x) f = f x"
  by (simp_all add: bind_ok_def)

lemma bind_ok_Inr_iff: "bind_ok m f = Inr y \<longleftrightarrow> (\<exists>x. m = Inr x \<and> f x = Inr y)"
  by (cases m) auto

text \<open>A loop that computes each element and stops at the first exception.\<close>

fun map_ok :: "('a \<Rightarrow> 'e + 'b) \<Rightarrow> 'a list \<Rightarrow> 'e + 'b list" where
  "map_ok f [] = Inr []"
| "map_ok f (x # xs) =
     (case f x of Inl e \<Rightarrow> Inl e
      | Inr y \<Rightarrow> (case map_ok f xs of Inl e \<Rightarrow> Inl e | Inr ys \<Rightarrow> Inr (y # ys)))"

lemma map_ok_cong [fundef_cong]:
  "xs = ys \<Longrightarrow> (\<And>x. x \<in> set ys \<Longrightarrow> f x = g x) \<Longrightarrow> map_ok f xs = map_ok g ys"
  by (induction xs arbitrary: ys) (auto split: sum.splits)

lemma map_ok_length: "map_ok f xs = Inr ys \<Longrightarrow> length ys = length xs"
  by (induction xs arbitrary: ys) (auto split: sum.splits)

lemma map_ok_Cons_Inr:
  "map_ok f (x # xs) = Inr zs \<longleftrightarrow> (\<exists>y ys. zs = y # ys \<and> f x = Inr y \<and> map_ok f xs = Inr ys)"
  by (auto split: sum.splits)

lemma map_ok_all: "map_ok f xs = Inr ys \<Longrightarrow> y \<in> set ys \<Longrightarrow> \<exists>x \<in> set xs. f x = Inr y"
  by (induction xs arbitrary: ys) (auto split: sum.splits)

section \<open>Characters\<close>

definition ordc :: "char \<Rightarrow> nat" where
  "ordc c = of_char c"

definition is_digit :: "char \<Rightarrow> bool" where
  "is_digit c \<longleftrightarrow> 48 \<le> ordc c \<and> ordc c \<le> 57"

definition is_space :: "char \<Rightarrow> bool" where
  \<comment> \<open>the ASCII characters for which \<open>str.isspace()\<close> holds\<close>
  "is_space c \<longleftrightarrow> (9 \<le> ordc c \<and> ordc c \<le> 13) \<or> (28 \<le> ordc c \<and> ordc c \<le> 32)"

definition is_ascii :: "char \<Rightarrow> bool" where
  "is_ascii c \<longleftrightarrow> ordc c < 128"

definition is_control :: "char \<Rightarrow> bool" where
  "is_control c \<longleftrightarrow> ordc c < 32 \<or> ordc c = 127"

definition lower_char :: "char \<Rightarrow> char" where
  "lower_char c = (if 65 \<le> ordc c \<and> ordc c \<le> 90 then char_of (ordc c + 32) else c)"

definition upper_char :: "char \<Rightarrow> char" where
  "upper_char c = (if 97 \<le> ordc c \<and> ordc c \<le> 122 then char_of (ordc c - 32) else c)"

definition digit_char :: "nat \<Rightarrow> char" where
  "digit_char d = char_of (48 + d)"

lemma ordc_char_of: "n < 256 \<Longrightarrow> ordc (char_of n) = n"
  by (simp add: ordc_def)

lemma ordc_bound: "ordc c < 256"
  using nat_of_char_less_256 by (simp add: ordc_def)

lemma ordc_inj: "ordc c = ordc d \<longleftrightarrow> c = d"
  by (simp add: ordc_def)

lemma ordc_digit_char: "d < 10 \<Longrightarrow> ordc (digit_char d) = 48 + d"
  by (simp add: digit_char_def ordc_char_of)

lemma is_digit_digit_char: "d < 10 \<Longrightarrow> is_digit (digit_char d)"
  by (simp add: is_digit_def ordc_digit_char)

lemma is_digit_not_space: "is_digit c \<Longrightarrow> \<not> is_space c"
  by (auto simp: is_digit_def is_space_def)

lemma lower_char_idem [text_simps]: "lower_char (lower_char c) = lower_char c"
  by (auto simp: lower_char_def ordc_char_of)

lemma is_digit_lower [text_simps]: "is_digit c \<Longrightarrow> lower_char c = c"
  by (auto simp: is_digit_def lower_char_def)

section \<open>Text operations\<close>

definition lower :: "string \<Rightarrow> string" where
  "lower s = map lower_char s"

definition upper :: "string \<Rightarrow> string" where
  "upper s = map upper_char s"

definition lstrip :: "string \<Rightarrow> string" where
  "lstrip s = dropWhile is_space s"

definition rstrip :: "string \<Rightarrow> string" where
  "rstrip s = rev (dropWhile is_space (rev s))"

definition strip :: "string \<Rightarrow> string" where
  "strip s = rstrip (lstrip s)"

definition isdigit :: "string \<Rightarrow> bool" where
  "isdigit s \<longleftrightarrow> s \<noteq> [] \<and> list_all is_digit s"

definition remove_char :: "char \<Rightarrow> string \<Rightarrow> string" where
  \<comment> \<open>\<open>s.replace(c, "")\<close>\<close>
  "remove_char c s = filter (\<lambda>x. x \<noteq> c) s"

definition rstrip_char :: "char \<Rightarrow> string \<Rightarrow> string" where
  \<comment> \<open>\<open>s.rstrip(c)\<close>\<close>
  "rstrip_char c s = rev (dropWhile (\<lambda>x. x = c) (rev s))"

definition startswith :: "string \<Rightarrow> string \<Rightarrow> bool" where
  "startswith s p \<longleftrightarrow> take (length p) s = p"

fun contains_text :: "string \<Rightarrow> string \<Rightarrow> bool" where
  \<comment> \<open>\<open>needle in hay\<close>\<close>
  "contains_text [] n = (n = [])"
| "contains_text (c # cs) n = (startswith (c # cs) n \<or> contains_text cs n)"

fun split_on :: "char \<Rightarrow> string \<Rightarrow> string list" where
  \<comment> \<open>\<open>s.split(c)\<close>\<close>
  "split_on c [] = [[]]"
| "split_on c (x # xs) =
     (if x = c then [] # split_on c xs
      else (case split_on c xs of [] \<Rightarrow> [[x]] | h # t \<Rightarrow> (x # h) # t))"

fun join_on :: "string \<Rightarrow> string list \<Rightarrow> string" where
  \<comment> \<open>\<open>sep.join(parts)\<close>\<close>
  "join_on sep [] = []"
| "join_on sep [x] = x"
| "join_on sep (x # y # ys) = x @ sep @ join_on sep (y # ys)"

definition split_ws :: "string \<Rightarrow> string list" where
  \<comment> \<open>\<open>s.split()\<close>: the maximal runs of non-space characters\<close>
  "split_ws s = filter (\<lambda>w. w \<noteq> [])
     (split_on (CHR '' '') (map (\<lambda>c. if is_space c then CHR '' '' else c) s))"

definition partition_on :: "char \<Rightarrow> string \<Rightarrow> string \<times> bool \<times> string" where
  \<comment> \<open>\<open>s.partition(c)\<close>; the flag says whether the separator occurs\<close>
  "partition_on c s =
     (if c \<in> set s then (takeWhile (\<lambda>x. x \<noteq> c) s, True, tl (dropWhile (\<lambda>x. x \<noteq> c) s))
      else (s, False, []))"

definition rpartition_on :: "char \<Rightarrow> string \<Rightarrow> (string \<times> string) option" where
  \<comment> \<open>the text before and after the last separator, when there is one\<close>
  "rpartition_on c s =
     (if c \<in> set s
      then Some (rev (tl (dropWhile (\<lambda>x. x \<noteq> c) (rev s))), rev (takeWhile (\<lambda>x. x \<noteq> c) (rev s)))
      else None)"

definition zfill :: "nat \<Rightarrow> string \<Rightarrow> string" where
  "zfill n s = replicate (n - length s) (CHR ''0'') @ s"

text \<open>
  Lengths and slices count characters, not bytes: a character is a byte and the UTF-8
  continuation bytes that follow it.
\<close>

definition continuation :: "char \<Rightarrow> bool" where
  "continuation c \<longleftrightarrow> 128 \<le> ordc c \<and> ordc c < 192"

function text_chars :: "string \<Rightarrow> string list" where
  "text_chars [] = []"
| "text_chars (c # cs) = (c # takeWhile continuation cs) # text_chars (dropWhile continuation cs)"
  by pat_completeness auto
termination
  by (relation "measure length") (auto simp: le_imp_less_Suc length_dropWhile_le)

definition py_len :: "string \<Rightarrow> nat" where
  \<comment> \<open>\<open>len(s)\<close>\<close>
  "py_len s = length (text_chars s)"

definition py_take :: "nat \<Rightarrow> string \<Rightarrow> string" where
  \<comment> \<open>\<open>s[:n]\<close>\<close>
  "py_take n s = concat (take n (text_chars s))"

definition py_tail :: "nat \<Rightarrow> string \<Rightarrow> string" where
  \<comment> \<open>\<open>s[-n:]\<close> for a positive \<open>n\<close>\<close>
  "py_tail n s = concat (drop (py_len s - n) (text_chars s))"

lemma concat_text_chars: "concat (text_chars s) = s"
  by (induction s rule: text_chars.induct) simp_all

lemma text_chars_ascii: "list_all is_ascii s \<Longrightarrow> text_chars s = map (\<lambda>c. [c]) s"
proof (induction s rule: text_chars.induct)
  case (2 c cs)
  then have t: "takeWhile continuation cs = []" "dropWhile continuation cs = cs"
    by (cases cs; simp add: continuation_def is_ascii_def)+
  then show ?case using 2 by simp
qed simp

lemma py_len_ascii: "list_all is_ascii s \<Longrightarrow> py_len s = length s"
  by (simp add: py_len_def text_chars_ascii)

lemma split_on_nonempty [simp]: "split_on c s \<noteq> []"
  by (induction s) (auto split: list.splits)

lemma join_split_on: "join_on [c] (split_on c s) = s"
proof (induction s)
  case Nil
  then show ?case by simp
next
  case (Cons x xs)
  obtain h t where ht: "split_on c xs = h # t" by (cases "split_on c xs") simp_all
  then show ?case using Cons by (cases t) auto
qed

lemma split_on_pieces: "p \<in> set (split_on c s) \<Longrightarrow> c \<notin> set p"
proof (induction s arbitrary: p)
  case Nil
  then show ?case by simp
next
  case (Cons x xs)
  obtain h t where ht: "split_on c xs = h # t" by (cases "split_on c xs") simp_all
  have "c \<notin> set h" and "q \<in> set t \<Longrightarrow> c \<notin> set q" for q
    using Cons.IH ht by auto
  then show ?case using Cons.prems ht by (cases "x = c") auto
qed

lemma split_on_no_sep: "c \<notin> set s \<Longrightarrow> split_on c s = [s]"
  by (induction s) auto

lemma split_on_append: "c \<notin> set a \<Longrightarrow> split_on c (a @ c # b) = a # split_on c b"
  by (induction a) auto

lemma split_join_on:
  "ps \<noteq> [] \<Longrightarrow> (\<And>p. p \<in> set ps \<Longrightarrow> c \<notin> set p) \<Longrightarrow> split_on c (join_on [c] ps) = ps"
proof (induction ps rule: induct_list012)
  case (3 x y ys)
  then show ?case by (simp add: split_on_append)
qed (auto simp: split_on_no_sep)

lemma rpartition_on_append: "c \<notin> set b \<Longrightarrow> rpartition_on c (a @ c # b) = Some (a, b)"
  by (auto simp: rpartition_on_def dropWhile_append takeWhile_append)

lemma rpartition_on_None [simp]: "rpartition_on c s = None \<longleftrightarrow> c \<notin> set s"
  by (simp add: rpartition_on_def)

lemma rpartition_on_Some: "rpartition_on c s = Some (a, b) \<longleftrightarrow> s = a @ c # b \<and> c \<notin> set b"
proof
  assume r: "rpartition_on c s = Some (a, b)"
  then have "c \<in> set s" by (auto simp: rpartition_on_def split: if_splits)
  then obtain u v where uv: "s = u @ c # v" "c \<notin> set v"
    by (metis split_list_last)
  then have "rpartition_on c s = Some (u, v)" by (simp add: rpartition_on_append)
  with r uv show "s = a @ c # b \<and> c \<notin> set b" by simp
qed (auto simp: rpartition_on_append)

lemma partition_on_append: "c \<notin> set a \<Longrightarrow> partition_on c (a @ c # b) = (a, True, b)"
  by (auto simp: partition_on_def dropWhile_append takeWhile_append)

lemma rstrip_char_append: "(\<And>x. x \<in> set s \<Longrightarrow> x \<noteq> c) \<Longrightarrow> rstrip_char c (s @ replicate p c) = s"
  by (cases s rule: rev_cases) (auto simp: rstrip_char_def dropWhile_append)

lemma remove_char_id: "c \<notin> set s \<Longrightarrow> remove_char c s = s"
  by (induction s) (auto simp: remove_char_def)

lemma lower_lower [text_simps]: "lower (lower s) = lower s"
  by (simp add: lower_def lower_char_idem)

lemma length_zfill: "length s \<le> n \<Longrightarrow> length (zfill n s) = n"
  by (simp add: zfill_def)

lemma set_strip: "set (strip s) \<subseteq> set s"
proof -
  have "set (rstrip u) \<subseteq> set u" and "set (lstrip u) \<subseteq> set u" for u
    using set_dropWhileD[of _ is_space "rev u"] set_dropWhileD[of _ is_space u]
    by (auto simp: rstrip_def lstrip_def)
  then show ?thesis by (auto simp: strip_def)
qed

lemma rstrip_id: "s = [] \<or> \<not> is_space (last s) \<Longrightarrow> rstrip s = s"
  by (cases s rule: rev_cases) (auto simp: rstrip_def)

lemma lstrip_id: "s = [] \<or> \<not> is_space (hd s) \<Longrightarrow> lstrip s = s"
  by (cases s) (auto simp: lstrip_def)

lemma strip_id: "s = [] \<or> (\<not> is_space (hd s) \<and> \<not> is_space (last s)) \<Longrightarrow> strip s = s"
  by (auto simp: strip_def lstrip_id rstrip_id)

lemma strip_no_space: "list_all (\<lambda>c. \<not> is_space c) s \<Longrightarrow> strip s = s"
  by (rule strip_id) (cases s; auto simp: list_all_iff)

lemma rstrip_prefix: "\<exists>t. s = rstrip s @ t"
proof -
  have "rev s = takeWhile is_space (rev s) @ dropWhile is_space (rev s)" by simp
  then have "s = rev (takeWhile is_space (rev s) @ dropWhile is_space (rev s))" by simp
  then show ?thesis unfolding rstrip_def rev_append by blast
qed

lemma strip_ends:
  assumes "strip s \<noteq> []"
  shows "\<not> is_space (hd (strip s))" "\<not> is_space (last (strip s))"
proof -
  have ne: "rstrip (lstrip s) \<noteq> []" using assms by (simp add: strip_def)
  obtain t where t: "lstrip s = rstrip (lstrip s) @ t" using rstrip_prefix by blast
  then have "lstrip s \<noteq> []" using ne by auto
  moreover have "hd (rstrip (lstrip s)) = hd (lstrip s)" using t ne by (metis hd_append2)
  ultimately show "\<not> is_space (hd (strip s))"
    using hd_dropWhile[of is_space s] by (simp add: strip_def lstrip_def)
  have "dropWhile is_space (rev (lstrip s)) \<noteq> []" using ne by (simp add: rstrip_def)
  then show "\<not> is_space (last (strip s))"
    using hd_dropWhile[of is_space "rev (lstrip s)"] by (simp add: strip_def rstrip_def last_rev)
qed

lemma strip_strip [text_simps, simp]: "strip (strip s) = strip s"
  using strip_ends[of s] by (cases "strip s = []") (auto intro: strip_id)

lemma join_on_ends:
  assumes "ps \<noteq> []" and "\<And>p. p \<in> set ps \<Longrightarrow> p \<noteq> []"
  shows "join_on sep ps \<noteq> [] \<and> hd (join_on sep ps) = hd (hd ps) \<and> last (join_on sep ps) = last (last ps)"
  using assms by (induction ps rule: induct_list012) auto

lemma set_join_on: "set (join_on sep ps) \<subseteq> set sep \<union> (\<Union>p \<in> set ps. set p)"
  by (induction ps rule: induct_list012) auto

section \<open>Decimal numbers\<close>

fun show_nat :: "nat \<Rightarrow> string" where
  "show_nat n = (if n < 10 then [digit_char n] else show_nat (n div 10) @ [digit_char (n mod 10)])"

declare show_nat.simps [simp del]

definition show_int :: "int \<Rightarrow> string" where
  "show_int i = (if i < 0 then CHR ''-'' # show_nat (nat (- i)) else show_nat (nat i))"

definition digits_val :: "string \<Rightarrow> nat" where
  "digits_val s = foldl (\<lambda>a c. a * 10 + (ordc c - 48)) 0 s"

lemma digits_val_snoc: "digits_val (s @ [c]) = digits_val s * 10 + (ordc c - 48)"
  by (simp add: digits_val_def)

lemma show_nat_digits: "list_all is_digit (show_nat n)"
proof (induction n rule: show_nat.induct)
  case (1 n)
  then show ?case by (subst show_nat.simps) (auto simp: is_digit_digit_char)
qed

lemma show_nat_nonempty [simp]: "show_nat n \<noteq> []"
  by (subst show_nat.simps) simp

lemma isdigit_show_nat [simp]: "isdigit (show_nat n)"
  by (simp add: isdigit_def show_nat_digits)

lemma digits_val_show_nat [simp]: "digits_val (show_nat n) = n"
proof (induction n rule: show_nat.induct)
  case (1 n)
  show ?case
  proof (cases "n < 10")
    case True
    then show ?thesis by (subst show_nat.simps) (simp add: digits_val_def ordc_digit_char)
  next
    case False
    with "1.IH" have "digits_val (show_nat (n div 10)) = n div 10" by simp
    with False show ?thesis
      by (subst show_nat.simps) (simp add: digits_val_snoc ordc_digit_char)
  qed
qed

lemma length_show_nat: "0 < d \<Longrightarrow> n < 10 ^ d \<Longrightarrow> length (show_nat n) \<le> d"
proof (induction d arbitrary: n)
  case (Suc d)
  show ?case
  proof (cases "n < 10")
    case False
    then have "0 < d" using Suc.prems by (cases d) auto
    moreover have "n div 10 < 10 ^ d" using Suc.prems by (simp add: div_less_iff_less_mult mult.commute)
    ultimately show ?thesis using Suc.IH[of "n div 10"] False by (subst show_nat.simps) simp
  qed (subst show_nat.simps, simp)
qed simp

lemma show_nat_inj: "show_nat a = show_nat b \<longleftrightarrow> a = b"
  by (metis digits_val_show_nat)

lemma show_nat_no_char: "\<not> is_digit c \<Longrightarrow> c \<notin> set (show_nat n)"
  using show_nat_digits[of n] by (auto simp: list_all_iff)

lemma strip_show_nat [text_simps]: "strip (show_nat n) = show_nat n"
proof -
  have "\<not> is_space (hd (show_nat n))" "\<not> is_space (last (show_nat n))"
    using show_nat_digits[of n] is_digit_not_space by (auto simp: list_all_iff)
  then show ?thesis by (simp add: strip_id)
qed

section \<open>Integers from text\<close>

text \<open>
  \<open>int(text)\<close>: surrounding whitespace, an optional sign, then digits in groups that single
  underscores separate; any other shape, and more digits than CPython's conversion limit,
  raises ValueError. \<open>str(n)\<close> has the same limit on its digits.
\<close>

definition int_max_str_digits :: nat where
  "int_max_str_digits = 4300"

definition int_of_digits :: "string \<Rightarrow> int result" where
  "int_of_digits s =
     (let groups = split_on (CHR ''_'') s; ds = concat groups
      in if list_all isdigit groups \<and> length ds \<le> int_max_str_digits
         then Inr (int (digits_val ds)) else Inl ValueError)"

definition py_int_of_str :: "string \<Rightarrow> int result" where
  "py_int_of_str s =
     (case strip s of
        [] \<Rightarrow> Inl ValueError
      | c # cs \<Rightarrow>
          if c = CHR ''-'' then bind_ok (int_of_digits cs) (\<lambda>n. Inr (- n))
          else if c = CHR ''+'' then int_of_digits cs
          else int_of_digits (c # cs))"

definition py_str_of_int :: "int \<Rightarrow> string result" where
  "py_str_of_int i =
     (if length (show_nat (nat \<bar>i\<bar>)) \<le> int_max_str_digits then Inr (show_int i) else Inl ValueError)"

lemma int_of_digits_isdigit:
  "isdigit s \<Longrightarrow> length s \<le> int_max_str_digits \<Longrightarrow> int_of_digits s = Inr (int (digits_val s))"
proof -
  assume d: "isdigit s" and l: "length s \<le> int_max_str_digits"
  have "CHR ''_'' \<notin> set s"
    using d by (auto simp: isdigit_def list_all_iff is_digit_def ordc_def)
  then show ?thesis using d l by (simp add: int_of_digits_def split_on_no_sep)
qed

lemma py_int_of_str_digits:
  assumes "isdigit s" and "length s \<le> int_max_str_digits"
  shows "py_int_of_str s = Inr (int (digits_val s))"
proof -
  obtain c cs where s: "s = c # cs" using assms(1) by (cases s) (auto simp: isdigit_def)
  have dig: "is_digit x" if "x \<in> set s" for x
    using assms(1) that by (auto simp: isdigit_def list_all_iff)
  have "\<not> is_space (hd s)" "\<not> is_space (last s)"
    using dig is_digit_not_space s by auto
  then have "strip s = s" by (simp add: strip_id)
  moreover have "c \<noteq> CHR ''-''" "c \<noteq> CHR ''+''"
    using dig[of c] s by (auto simp: is_digit_def ordc_def)
  ultimately show ?thesis using s assms by (simp add: py_int_of_str_def int_of_digits_isdigit)
qed

lemma py_int_of_str_show_nat:
  "length (show_nat n) \<le> int_max_str_digits \<Longrightarrow> py_int_of_str (show_nat n) = Inr (int n)"
  by (simp add: py_int_of_str_digits)

section \<open>Insertion-ordered dictionaries\<close>

text \<open>
  A Python dict keeps insertion order: assigning an existing key replaces its value in place,
  a new key goes to the end. \<open>AList.update\<close> does exactly that.
\<close>

type_synonym ('k, 'v) dict = "('k \<times> 'v) list"

definition dict_get :: "('k, 'v) dict \<Rightarrow> 'k \<Rightarrow> 'v option" where
  "dict_get d k = map_of d k"

definition dict_set :: "'k \<Rightarrow> 'v \<Rightarrow> ('k, 'v) dict \<Rightarrow> ('k, 'v) dict" where
  "dict_set k v d = AList.update k v d"

definition dict_del :: "'k \<Rightarrow> ('k, 'v) dict \<Rightarrow> ('k, 'v) dict" where
  "dict_del k d = filter (\<lambda>p. fst p \<noteq> k) d"

definition dict_ok :: "('k, 'v) dict \<Rightarrow> bool" where
  "dict_ok d \<longleftrightarrow> distinct (map fst d)"

lemma dict_get_set [dict_simps]: "dict_get (dict_set k v d) k' = (if k' = k then Some v else dict_get d k')"
  by (simp add: dict_get_def dict_set_def update_conv')

lemma dict_get_del [dict_simps]: "dict_get (dict_del k d) k' = (if k' = k then None else dict_get d k')"
  by (induction d) (auto simp: dict_get_def dict_del_def)

lemma dict_get_Nil [dict_simps]: "dict_get [] k = None"
  by (simp add: dict_get_def)

lemma dict_ok_set [step_intros]: "dict_ok d \<Longrightarrow> dict_ok (dict_set k v d)"
  by (simp add: dict_ok_def dict_set_def distinct_update)

lemma dict_ok_del [step_intros]: "dict_ok d \<Longrightarrow> dict_ok (dict_del k d)"
  by (simp add: dict_ok_def dict_del_def distinct_map_filter)

lemma dict_get_snoc:
  "dict_get (d @ [q]) k = (case dict_get d k of None \<Rightarrow> if fst q = k then Some (snd q) else None | Some v \<Rightarrow> Some v)"
  by (cases q) (simp add: dict_get_def map_add_def split: option.split)

lemma dict_get_in: "dict_get d k = Some v \<Longrightarrow> (k, v) \<in> set d"
  by (simp add: dict_get_def map_of_SomeD)

lemma in_dict_set: "p \<in> set (dict_set k v d) \<Longrightarrow> p = (k, v) \<or> p \<in> set d"
  by (induction d) (auto simp: dict_set_def split: if_splits)

lemma dict_get_ok: "dict_ok d \<Longrightarrow> (k, v) \<in> set d \<Longrightarrow> dict_get d k = Some v"
  by (simp add: dict_ok_def dict_get_def)

text \<open>
  The promise of a keyed collection to its clients, as an interface: on well-formed states,
  for well-formed keys and entries, a lookup sees exactly the last write of its key.
\<close>

locale store =
  fixes get :: "'s \<Rightarrow> 'k \<Rightarrow> 'v option"
    and put :: "'k \<Rightarrow> 'v \<Rightarrow> 's \<Rightarrow> 's"
    and del :: "'k \<Rightarrow> 's \<Rightarrow> 's"
    and ok :: "'s \<Rightarrow> bool"
    and key :: "'k \<Rightarrow> bool"
    and entry :: "'k \<Rightarrow> 'v \<Rightarrow> bool"
  assumes get_put: "ok s \<Longrightarrow> key k \<Longrightarrow> key k' \<Longrightarrow> entry k v \<Longrightarrow>
      get (put k v s) k' = (if k' = k then Some v else get s k')"
    and get_del: "ok s \<Longrightarrow> key k \<Longrightarrow> key k' \<Longrightarrow> get (del k s) k' = (if k' = k then None else get s k')"
    and ok_put: "ok s \<Longrightarrow> key k \<Longrightarrow> entry k v \<Longrightarrow> ok (put k v s)"
    and ok_del: "ok s \<Longrightarrow> key k \<Longrightarrow> ok (del k s)"
begin

lemma put_put_get:
  "ok s \<Longrightarrow> key k \<Longrightarrow> key k' \<Longrightarrow> entry k v \<Longrightarrow> entry k w \<Longrightarrow>
    get (put k v (put k w s)) k' = get (put k v s) k'"
  by (simp add: get_put ok_put)

lemma put_commute_get:
  "ok s \<Longrightarrow> key k \<Longrightarrow> key l \<Longrightarrow> key k' \<Longrightarrow> entry k v \<Longrightarrow> entry l w \<Longrightarrow> k \<noteq> l \<Longrightarrow>
    get (put k v (put l w s)) k' = get (put l w (put k v s)) k'"
  by (simp add: get_put ok_put)

lemma put_del_get:
  "ok s \<Longrightarrow> key k \<Longrightarrow> key k' \<Longrightarrow> entry k v \<Longrightarrow> get (put k v (del k s)) k' = get (put k v s) k'"
  by (simp add: get_put get_del ok_del)

lemma del_put_get:
  "ok s \<Longrightarrow> key k \<Longrightarrow> key k' \<Longrightarrow> entry k v \<Longrightarrow> get (del k (put k v s)) k' = get (del k s) k'"
  by (simp add: get_put get_del ok_put)

lemmas store_laws = get_put get_del ok_put ok_del

end

interpretation dict: store dict_get dict_set dict_del dict_ok "\<lambda>_. True" "\<lambda>_ _. True"
  by unfold_locales (auto simp: dict_simps intro: step_intros)

section \<open>Lists\<close>

lemma map_filter_cong [fundef_cong]:
  "xs = ys \<Longrightarrow> (\<And>x. x \<in> set ys \<Longrightarrow> f x = g x) \<Longrightarrow> List.map_filter f xs = List.map_filter g ys"
  by (induction xs arbitrary: ys) (auto simp: List.map_filter_simps split: option.splits)

lemma map_filter_id: "(\<And>x. x \<in> set xs \<Longrightarrow> f x = Some x) \<Longrightarrow> List.map_filter f xs = xs"
  by (induction xs) (simp_all add: List.map_filter_simps)

lemma butlast_last_split: "xs \<noteq> [] \<Longrightarrow> \<exists>ys y. xs = ys @ [y]"
  by (cases xs rule: rev_cases) auto

end
