(* ===== verification/Py_Value.thy ===== *)
theory Py_Value
  imports Hub_Prelude
begin

text \<open>
  Python values as the services read them out of YAML, JSON and HTTP bodies, with the
  operations the code applies to them: truth value, \<open>isinstance\<close> tests, \<open>dict.get\<close>,
  \<open>str\<close> and \<open>int\<close>. \<open>PHostile\<close> is an object whose every hook (\<open>__class__\<close>, \<open>__bool__\<close>,
  \<open>__str__\<close>, \<open>__int__\<close>, \<open>__iter__\<close>, \<open>__eq__\<close>) raises an exception that is not
  KeyboardInterrupt or SystemExit: the guards of the code are there for it. The text inside a
  value encodes strictly unless a definition looks at its surrogates (\<open>utf8_ok\<close>).
\<close>

section \<open>Values\<close>

text \<open>
  A finite float is the decimal \<open>m * 10 ^ e\<close> of its shortest representation
  (\<open>FDec m e\<close>, \<open>m\<close> not a multiple of ten unless it is zero).
\<close>

datatype pyfloat = FDec int int | FInf | FNegInf | FNan

datatype pyval =
    PNone
  | PBool bool
  | PInt int
  | PFloat pyfloat
  | PStr string
  | PBytes string
  | PList "pyval list"
  | PTuple "pyval list"
  | PDict "(string \<times> pyval) list"
  | PHostile

type_synonym pydict = "(string \<times> pyval) list"

fun is_str :: "pyval \<Rightarrow> bool" where
  "is_str (PStr _) = True"
| "is_str _ = False"

fun is_dict :: "pyval \<Rightarrow> bool" where
  "is_dict (PDict _) = True"
| "is_dict _ = False"

fun is_list :: "pyval \<Rightarrow> bool" where
  "is_list (PList _) = True"
| "is_list _ = False"

fun is_finite_float :: "pyfloat \<Rightarrow> bool" where
  "is_finite_float (FDec _ _) = True"
| "is_finite_float _ = False"

definition float_rat :: "int \<Rightarrow> int \<Rightarrow> rat" where
  "float_rat m e = (if 0 \<le> e then of_int m * 10 ^ nat e else of_int m / 10 ^ nat (- e))"

text \<open>\<open>float.is_integer()\<close> and \<open>int(x)\<close>, which truncates towards zero, of a finite float.\<close>

definition float_is_integer :: "int \<Rightarrow> int \<Rightarrow> bool" where
  "float_is_integer m e \<longleftrightarrow> 0 \<le> e \<or> m mod 10 ^ nat (- e) = 0"

text \<open>
  The double nearest to a non-negative number, ties to even: 53 significant bits. Below one half
  the grain is \<open>2 ^ - 53\<close>, finer than any truncation needs.
\<close>

fun bit_width :: "nat \<Rightarrow> nat" where
  "bit_width n = (if n = 0 then 0 else Suc (bit_width (n div 2)))"

declare bit_width.simps [simp del]

lemma bit_width_le: "m < 2 ^ k \<Longrightarrow> bit_width m \<le> k"
proof (induction m arbitrary: k rule: bit_width.induct)
  case (1 m)
  show ?case
  proof (cases "m = 0")
    case False
    then obtain k' where k: "k = Suc k'" using 1(2) by (cases k) auto
    then have "m div 2 < 2 ^ k'" using 1(2) by auto
    then show ?thesis using 1(1)[OF False, of k'] False k by (simp add: bit_width.simps[of m])
  qed (simp add: bit_width.simps)
qed

definition round_half_even :: "rat \<Rightarrow> int" where
  "round_half_even x =
     (let f = \<lfloor>x\<rfloor>; r = x - of_int f in if r < 1 / 2 \<or> (r = 1 / 2 \<and> even f) then f else f + 1)"

definition double_nearest :: "rat \<Rightarrow> rat" where
  "double_nearest x =
     (let n = bit_width (nat \<lfloor>x\<rfloor>)
      in if n \<le> 53 then of_int (round_half_even (x * 2 ^ (53 - n))) / 2 ^ (53 - n)
         else of_int (round_half_even (x / 2 ^ (n - 53))) * 2 ^ (n - 53))"

definition float_trunc :: "int \<Rightarrow> int \<Rightarrow> int" where
  "float_trunc m e = sgn m * \<lfloor>double_nearest \<bar>float_rat m e\<bar>\<rfloor>"

definition rat_int :: "rat \<Rightarrow> int" where
  \<comment> \<open>the same truncation of a float that stands as the rational it denotes\<close>
  "rat_int x = (if 0 \<le> x then \<lfloor>x\<rfloor> else \<lceil>x\<rceil>)"

text \<open>A clock reading: a finite float from the epoch on. Adding a lifetime keeps it printable.\<close>

definition reading :: "rat \<Rightarrow> bool" where
  "reading t \<longleftrightarrow> 0 \<le> t \<and> t < 2 ^ 1024"

lemma reading_digits:
  assumes "reading t" "0 \<le> k" "k \<le> 1000000000"
  shows "0 \<le> rat_int t + k" "length (show_nat (nat (rat_int t + k))) \<le> 400"
proof -
  have c: "rat_int t = \<lfloor>t\<rfloor>" "0 \<le> \<lfloor>t\<rfloor>" using assms(1) by (simp_all add: rat_int_def reading_def)
  obtain B :: int where B: "B = 2 ^ 1024" by blast
  have "\<lfloor>t\<rfloor> < B" using assms(1) unfolding B by (simp add: reading_def floor_less_iff)
  then have e: "0 \<le> rat_int t + k" "rat_int t + k < B + 1000000001" using assms(2,3) c by linarith+
  have "nat (rat_int t + k) < 2 ^ 1024 + 1000000001" using e unfolding B by (simp add: nat_less_iff)
  also have "\<dots> < (10::nat) ^ 400" by simp
  finally show "length (show_nat (nat (rat_int t + k))) \<le> 400" by (rule length_show_nat[rotated]) simp
  show "0 \<le> rat_int t + k" by (rule e(1))
qed

text \<open>\<open>repr\<close> of a float: positional while the decimal point is near, else with an exponent.\<close>

definition show_exponent :: "int \<Rightarrow> string" where
  "show_exponent x = (if x < 0 then ''-'' else ''+'') @ zfill 2 (show_nat (nat \<bar>x\<bar>))"

definition show_decimal :: "nat \<Rightarrow> int \<Rightarrow> string" where
  "show_decimal m e =
     (let ds = show_nat m; n = int (length ds); point = n + e
      in if m = 0 then ''0.0''
         else if - 4 < point \<and> point \<le> 16
         then (if 0 \<le> e then ds @ replicate (nat e) (CHR ''0'') @ ''.0''
               else if 0 < point then take (nat point) ds @ ''.'' @ drop (nat point) ds
               else ''0.'' @ replicate (nat (- point)) (CHR ''0'') @ ds)
         else take 1 ds @ (if 1 < n then CHR ''.'' # drop 1 ds else []) @ ''e''
              @ show_exponent (point - 1))"

fun show_float :: "pyfloat \<Rightarrow> string" where
  "show_float (FDec m e) = (if m < 0 then ''-'' else []) @ show_decimal (nat \<bar>m\<bar>) e"
| "show_float FInf = ''inf''"
| "show_float FNegInf = ''-inf''"
| "show_float FNan = ''nan''"

section \<open>Operations\<close>

text \<open>\<open>bool(v)\<close> raises for a hostile object; \<open>truthy\<close> is the guarded form, which reads it as False.\<close>

fun py_bool :: "pyval \<Rightarrow> bool result" where
  "py_bool PNone = Inr False"
| "py_bool (PBool b) = Inr b"
| "py_bool (PInt i) = Inr (i \<noteq> 0)"
| "py_bool (PFloat f) = Inr (case f of FDec m _ \<Rightarrow> m \<noteq> 0 | _ \<Rightarrow> True)"
| "py_bool (PStr s) = Inr (s \<noteq> [])"
| "py_bool (PBytes s) = Inr (s \<noteq> [])"
| "py_bool (PList xs) = Inr (xs \<noteq> [])"
| "py_bool (PTuple xs) = Inr (xs \<noteq> [])"
| "py_bool (PDict d) = Inr (d \<noteq> [])"
| "py_bool PHostile = Inl RuntimeError"

definition truthy :: "pyval \<Rightarrow> bool" where
  "truthy v = (case py_bool v of Inl _ \<Rightarrow> False | Inr b \<Rightarrow> b)"

definition pyget :: "pydict \<Rightarrow> string \<Rightarrow> pyval" where
  \<comment> \<open>\<open>d.get(k)\<close>: None when the key is missing\<close>
  "pyget d k = (case dict_get d k of None \<Rightarrow> PNone | Some v \<Rightarrow> v)"

text \<open>
  \<open>str(v)\<close>. A container's text is its \<open>repr\<close>, which starts with a bracket; the code never
  parses it, so the model keeps the brackets and the elements' own text.
\<close>

fun py_str :: "pyval \<Rightarrow> string result" where
  "py_str PNone = Inr ''None''"
| "py_str (PBool b) = Inr (if b then ''True'' else ''False'')"
| "py_str (PInt i) = py_str_of_int i"
| "py_str (PFloat f) = Inr (show_float f)"
| "py_str (PStr s) = Inr s"
| "py_str (PBytes s) = Inr (''b'' @ [CHR 39] @ s @ [CHR 39])"
| "py_str (PList xs) =
     bind_ok (map_ok py_str xs) (\<lambda>ss. Inr (''['' @ join_on '', '' ss @ '']''))"
| "py_str (PTuple xs) =
     bind_ok (map_ok py_str xs) (\<lambda>ss. Inr (''('' @ join_on '', '' ss @ '')''))"
| "py_str (PDict d) =
     bind_ok (map_ok (\<lambda>p. bind_ok (py_str (snd p)) (\<lambda>v. Inr (fst p @ '': '' @ v))) d)
       (\<lambda>ss. Inr (''{'' @ join_on '', '' ss @ ''}''))"
| "py_str PHostile = Inl RuntimeError"

text \<open>\<open>int(v)\<close>.\<close>

fun py_int :: "pyval \<Rightarrow> int result" where
  "py_int (PBool b) = Inr (if b then 1 else 0)"
| "py_int (PInt i) = Inr i"
| "py_int (PFloat (FDec m e)) = Inr (float_trunc m e)"
| "py_int (PFloat FNan) = Inl ValueError"
| "py_int (PFloat _) = Inl OverflowError"
| "py_int (PStr s) = py_int_of_str s"
| "py_int (PBytes s) = py_int_of_str s"
| "py_int PHostile = Inl RuntimeError"
| "py_int _ = Inl TypeError"

text \<open>
  The shared text coercion \<open>_utf8_text\<close>: bytes decode, text stays, a hostile object gives the
  empty text, and any other value goes through \<open>str\<close>, an exception giving the empty text.
\<close>

fun utf8_text :: "pyval \<Rightarrow> string" where
  "utf8_text (PBytes s) = s"
| "utf8_text (PStr s) = s"
| "utf8_text v = (case py_str v of Inl _ \<Rightarrow> [] | Inr s \<Rightarrow> s)"

text \<open>The guarded readers of a mapping: a row as a plain dict, and a field of what may not be one.\<close>

fun plain_dict :: "pyval \<Rightarrow> pydict option" where
  "plain_dict (PDict d) = Some d"
| "plain_dict _ = None"

fun mapping_get :: "pyval \<Rightarrow> string \<Rightarrow> pyval" where
  "mapping_get (PDict d) k = pyget d k"
| "mapping_get _ k = PNone"

lemma truthy_simps [simp]:
  "truthy PNone = False" "truthy (PBool b) = b" "truthy (PInt i) = (i \<noteq> 0)"
  "truthy (PStr s) = (s \<noteq> [])" "truthy (PList xs) = (xs \<noteq> [])" "truthy (PDict d) = (d \<noteq> [])"
  "truthy PHostile = False"
  by (simp_all add: truthy_def)

lemma pyget_set [dict_simps]: "pyget (dict_set k v d) k' = (if k' = k then v else pyget d k')"
  by (simp add: pyget_def dict_simps)

lemma pyget_del [dict_simps]: "pyget (dict_del k d) k' = (if k' = k then PNone else pyget d k')"
  by (simp add: pyget_def dict_simps)

lemma pyget_Nil [dict_simps]: "pyget [] k = PNone"
  by (simp add: pyget_def dict_simps)

lemma utf8_text_PHostile [simp]: "utf8_text PHostile = []"
  by simp

end
