(* ===== verification/Calendar.thy ===== *)
theory Calendar
  imports Hub_Prelude "HOL-Library.Product_Lexorder"
begin

text \<open>
  The naive dates of Python's \<open>datetime\<close> module that the scheduler computes with: the
  proleptic Gregorian calendar from year 1 to 9999, ordinals, weekdays and the addition of
  days and minutes. A wall-clock minute is a date with an hour and a minute, ordered by its
  key. \<open>next_day\<close> has no result past 9999-12-31, where Python raises OverflowError.
\<close>

section \<open>Dates\<close>

record cdate =
  d_yr :: nat
  d_mo :: nat
  d_dy :: nat

definition leap :: "nat \<Rightarrow> bool" where
  "leap y \<longleftrightarrow> y mod 4 = 0 \<and> (y mod 100 \<noteq> 0 \<or> y mod 400 = 0)"

definition days_in_month :: "nat \<Rightarrow> nat \<Rightarrow> nat" where
  "days_in_month y m =
     (if m = 2 then (if leap y then 29 else 28)
      else if m = 4 \<or> m = 6 \<or> m = 9 \<or> m = 11 then 30 else 31)"

definition valid_date :: "cdate \<Rightarrow> bool" where
  "valid_date d \<longleftrightarrow> 1 \<le> d_yr d \<and> d_yr d \<le> 9999 \<and> 1 \<le> d_mo d \<and> d_mo d \<le> 12
     \<and> 1 \<le> d_dy d \<and> d_dy d \<le> days_in_month (d_yr d) (d_mo d)"

definition days_before_year :: "nat \<Rightarrow> nat" where
  "days_before_year y = (let k = y - 1 in k * 365 + k div 4 + k div 400 - k div 100)"

definition days_before_month :: "nat \<Rightarrow> nat \<Rightarrow> nat" where
  "days_before_month y m = sum_list (map (days_in_month y) [1..<m])"

definition ordinal :: "cdate \<Rightarrow> nat" where
  "ordinal d = days_before_year (d_yr d) + days_before_month (d_yr d) (d_mo d) + d_dy d"

text \<open>\<open>date.weekday()\<close>: Monday is 0.\<close>

definition weekday :: "cdate \<Rightarrow> nat" where
  "weekday d = (ordinal d + 6) mod 7"

definition next_day :: "cdate \<Rightarrow> cdate option" where
  "next_day d =
     (if d_dy d < days_in_month (d_yr d) (d_mo d) then Some (d\<lparr>d_dy := d_dy d + 1\<rparr>)
      else if d_mo d < 12 then Some (d\<lparr>d_mo := d_mo d + 1, d_dy := 1\<rparr>)
      else if d_yr d < 9999 then Some (d\<lparr>d_yr := d_yr d + 1, d_mo := 1, d_dy := 1\<rparr>)
      else None)"

lemma days_in_month_pos: "1 \<le> days_in_month y m"
  by (simp add: days_in_month_def)

lemma days_in_month_le: "days_in_month y m \<le> 31"
  by (simp add: days_in_month_def)

lemma year_length_arith:
  fixes a b c k :: nat
  assumes "C \<Longrightarrow> B" "B \<Longrightarrow> A" "b \<le> k"
  shows "Suc k * 365 + (if A then Suc a else a) + (if C then Suc c else c) - (if B then Suc b else b)
    = k * 365 + a + c - b + (if A \<and> (\<not> B \<or> C) then 366 else 365)"
  using assms by (cases A; cases B; cases C) auto

lemma days_before_year_Suc:
  assumes "1 \<le> y"
  shows "days_before_year (Suc y) = days_before_year y + (if leap y then 366 else 365)"
proof -
  obtain k where y: "y = Suc k" using assms by (cases y) auto
  have mods: "Suc k mod 400 = 0 \<Longrightarrow> Suc k mod 100 = 0" "Suc k mod 100 = 0 \<Longrightarrow> Suc k mod 4 = 0"
    using dvd_trans[of 100 400 "Suc k"] dvd_trans[of 4 100 "Suc k"]
    by (simp_all add: mod_eq_0_iff_dvd)
  have le: "k div 100 \<le> k" by simp
  show ?thesis
    unfolding y days_before_year_def leap_def Let_def diff_Suc_1 div_Suc
    by (rule year_length_arith[OF mods le])
qed

lemma days_before_month_Suc: "1 \<le> m \<Longrightarrow> days_before_month y (Suc m) = days_before_month y m + days_in_month y m"
  by (simp add: days_before_month_def)

lemma days_of_year: "days_before_month y 12 + days_in_month y 12 = (if leap y then 366 else 365)"
  by (simp add: days_before_month_def days_in_month_def upt_rec)

lemma days_before_month_mono: "1 \<le> a \<Longrightarrow> a < b \<Longrightarrow> days_before_month y a + days_in_month y a \<le> days_before_month y b"
proof (induction b)
  case 0
  then show ?case by simp
next
  case (Suc b)
  then show ?case by (cases "a = b") (auto simp: days_before_month_Suc)
qed

lemma days_before_month_1 [simp]: "days_before_month y 1 = 0" "days_before_month y (Suc 0) = 0"
  by (simp_all add: days_before_month_def)

lemma next_day_valid [step_intros]:
  "valid_date d \<Longrightarrow> next_day d = Some d' \<Longrightarrow> valid_date d'"
  using days_in_month_pos by (auto simp: next_day_def valid_date_def split: if_splits)

lemma next_day_ordinal:
  assumes v: "valid_date d" and n: "next_day d = Some d'"
  shows "ordinal d' = Suc (ordinal d)"
proof -
  consider (day) "d_dy d < days_in_month (d_yr d) (d_mo d)" "d' = d\<lparr>d_dy := d_dy d + 1\<rparr>"
    | (month) "d_dy d = days_in_month (d_yr d) (d_mo d)" "d_mo d < 12" "d' = d\<lparr>d_mo := d_mo d + 1, d_dy := 1\<rparr>"
    | (year) "d_dy d = days_in_month (d_yr d) (d_mo d)" "d_mo d = 12" "d' = d\<lparr>d_yr := d_yr d + 1, d_mo := 1, d_dy := 1\<rparr>"
    using v n by (auto simp: next_day_def valid_date_def split: if_splits)
  then show ?thesis
  proof cases
    case day
    then show ?thesis by (simp add: ordinal_def)
  next
    case month
    then show ?thesis using v by (simp add: ordinal_def days_before_month_Suc valid_date_def)
  next
    case year
    then show ?thesis
      using v days_of_year[of "d_yr d"]
      by (simp add: ordinal_def valid_date_def days_before_year_Suc)
  qed
qed

text \<open>A valid date is determined by its ordinal.\<close>

lemma ordinal_less_year:
  assumes "valid_date d"
  shows "days_before_year (d_yr d) < ordinal d" and "ordinal d \<le> days_before_year (Suc (d_yr d))"
proof -
  have "days_before_month (d_yr d) (d_mo d) + days_in_month (d_yr d) (d_mo d)
      \<le> days_before_month (d_yr d) 12 + days_in_month (d_yr d) 12"
    using assms days_before_month_mono[of "d_mo d" 12 "d_yr d"]
    by (cases "d_mo d = 12") (auto simp: valid_date_def)
  then show "ordinal d \<le> days_before_year (Suc (d_yr d))"
    using assms days_of_year[of "d_yr d"] by (simp add: ordinal_def valid_date_def days_before_year_Suc)
  show "days_before_year (d_yr d) < ordinal d"
    using assms by (simp add: ordinal_def valid_date_def)
qed

lemma days_before_year_mono: "1 \<le> a \<Longrightarrow> a \<le> b \<Longrightarrow> days_before_year a \<le> days_before_year b"
proof (induction b)
  case 0
  then show ?case by simp
next
  case (Suc b)
  show ?case
  proof (cases "a = Suc b")
    case False
    with Suc have "days_before_year a \<le> days_before_year b" "1 \<le> b" by auto
    then show ?thesis using days_before_year_Suc[of b] by auto
  qed simp
qed

lemma ordinal_inj:
  assumes "valid_date a" "valid_date b" "ordinal a = ordinal b"
  shows "a = b"
proof -
  have year: "d_yr a = d_yr b"
  proof (rule ccontr)
    assume "d_yr a \<noteq> d_yr b"
    then consider "Suc (d_yr a) \<le> d_yr b" | "Suc (d_yr b) \<le> d_yr a" by linarith
    then show False
    proof cases
      case 1
      then have "days_before_year (Suc (d_yr a)) \<le> days_before_year (d_yr b)"
        by (simp add: days_before_year_mono)
      then show False using ordinal_less_year(2)[OF assms(1)] ordinal_less_year(1)[OF assms(2)] assms(3)
        by simp
    next
      case 2
      then have "days_before_year (Suc (d_yr b)) \<le> days_before_year (d_yr a)"
        by (simp add: days_before_year_mono)
      then show False using ordinal_less_year(2)[OF assms(2)] ordinal_less_year(1)[OF assms(1)] assms(3)
        by simp
    qed
  qed
  have month: "d_mo a = d_mo b"
  proof (rule ccontr)
    assume "d_mo a \<noteq> d_mo b"
    then consider "d_mo a < d_mo b" | "d_mo b < d_mo a" by linarith
    then show False
      using assms year days_before_month_mono[of "d_mo a" "d_mo b" "d_yr a"]
        days_before_month_mono[of "d_mo b" "d_mo a" "d_yr a"]
      by cases (auto simp: ordinal_def valid_date_def)
  qed
  show ?thesis using assms year month by (simp add: ordinal_def)
qed

lemma next_day_weekday:
  "valid_date d \<Longrightarrow> next_day d = Some d' \<Longrightarrow> weekday d' = (weekday d + 1) mod 7"
  by (simp add: weekday_def next_day_ordinal mod_simps)

section \<open>Wall-clock minutes\<close>

record wall =
  w_date :: cdate
  w_hour :: nat
  w_min :: nat

definition valid_wall :: "wall \<Rightarrow> bool" where
  "valid_wall w \<longleftrightarrow> valid_date (w_date w) \<and> w_hour w < 24 \<and> w_min w < 60"

definition wall_key :: "wall \<Rightarrow> nat \<times> nat \<times> nat" where
  "wall_key w = (ordinal (w_date w), w_hour w, w_min w)"

definition next_minute :: "wall \<Rightarrow> wall option" where
  \<comment> \<open>\<open>w + timedelta(minutes=1)\<close>\<close>
  "next_minute w =
     (if w_min w < 59 then Some (w\<lparr>w_min := w_min w + 1\<rparr>)
      else if w_hour w < 23 then Some (w\<lparr>w_hour := w_hour w + 1, w_min := 0\<rparr>)
      else map_option (\<lambda>d. \<lparr>w_date = d, w_hour = 0, w_min = 0\<rparr>) (next_day (w_date w)))"

lemma wall_key_inj: "valid_wall a \<Longrightarrow> valid_wall b \<Longrightarrow> wall_key a = wall_key b \<Longrightarrow> a = b"
  using ordinal_inj by (auto simp: wall_key_def valid_wall_def)

lemma next_minute_valid [step_intros]: "valid_wall w \<Longrightarrow> next_minute w = Some w' \<Longrightarrow> valid_wall w'"
  by (auto simp: next_minute_def valid_wall_def next_day_valid split: if_splits)

text \<open>\<open>next_minute\<close> is the successor in the order of the keys.\<close>

lemma next_minute_key:
  assumes "valid_wall w" "next_minute w = Some w'" "valid_wall v"
  shows "wall_key w' \<le> wall_key v \<longleftrightarrow> wall_key w < wall_key v"
proof -
  consider (m) "w_min w < 59" "w' = w\<lparr>w_min := w_min w + 1\<rparr>"
    | (h) "w_min w = 59" "w_hour w < 23" "w' = w\<lparr>w_hour := w_hour w + 1, w_min := 0\<rparr>"
    | (d) d where "w_min w = 59" "w_hour w = 23" "next_day (w_date w) = Some d"
        "w' = \<lparr>w_date = d, w_hour = 0, w_min = 0\<rparr>"
    using assms by (force simp: next_minute_def valid_wall_def split: if_splits)
  then show ?thesis
  proof cases
    case m
    then show ?thesis by (auto simp: wall_key_def less_eq_prod_def less_prod_def)
  next
    case h
    then show ?thesis using assms by (auto simp: wall_key_def less_eq_prod_def less_prod_def valid_wall_def)
  next
    case d
    then have "ordinal (w_date w') = Suc (ordinal (w_date w))"
      using assms next_day_ordinal by (auto simp: valid_wall_def)
    then show ?thesis using d assms
      by (auto simp: wall_key_def less_eq_prod_def less_prod_def valid_wall_def)
  qed
qed

end
