(* ===== verification/Cron.thy ===== *)
theory Cron
  imports Py_Value Calendar
begin

text \<open>
  Cron expressions of the scheduler (\<open>hub/scheduler_svc.py\<close>, parsing and matching): the five
  field tokens, the parser of one field, the day rule, matching of a wall-clock minute and the
  search for the next matching minute. A field is parsed into the set of its values and a flag
  for a bare star. An abstract syntax of fields with its denotation is the reference the parser
  is proved against; \<open>next_run\<close> is proved to give the earliest matching minute.
\<close>

section \<open>Parsing\<close>

definition field_ranges :: "(string \<times> nat \<times> nat) list" where
  "field_ranges = [(''minute'', 0, 59), (''hour'', 0, 23), (''dom'', 1, 31), (''month'', 1, 12), (''dow'', 0, 7)]"

definition cron_field_tokens :: "pyval \<Rightarrow> string list result" where
  "cron_field_tokens expr =
     (case (case expr of PList xs \<Rightarrow> Some xs | PTuple xs \<Rightarrow> Some xs | _ \<Rightarrow> None) of
        Some parts \<Rightarrow>
          if length parts \<noteq> 5 then Inl ValueError
          else (case map_ok py_str parts of Inl _ \<Rightarrow> Inl ValueError | Inr ss \<Rightarrow> Inr (map strip ss))
      | None \<Rightarrow>
          (case expr of
             PStr s \<Rightarrow> (let fields = split_ws s in if length fields \<noteq> 5 then Inl ValueError else Inr fields)
           | _ \<Rightarrow> Inl ValueError))"

text \<open>\<open>range(start, stop, step)\<close> for a positive step.\<close>

definition py_range :: "nat \<Rightarrow> nat \<Rightarrow> nat \<Rightarrow> nat list" where
  "py_range start stop step = map (\<lambda>k. start + k * step) [0..<(stop - start + step - 1) div step]"

text \<open>A number of the field: \<open>isdigit()\<close> first, then \<open>int()\<close>.\<close>

definition nat_of_text :: "string \<Rightarrow> nat result" where
  "nat_of_text s = (if isdigit s then bind_ok (py_int_of_str s) (\<lambda>i. Inr (nat i)) else Inl ValueError)"

definition item_step :: "bool \<Rightarrow> string \<Rightarrow> nat result" where
  "item_step slash step_s =
     (if slash then bind_ok (nat_of_text step_s) (\<lambda>n. if n < 1 then Inl ValueError else Inr n)
      else Inr 1)"

definition item_bounds :: "nat \<Rightarrow> nat \<Rightarrow> bool \<Rightarrow> string \<Rightarrow> (nat \<times> nat) result" where
  "item_bounds lo hi slash rng =
     (if rng = ''*'' then Inr (lo, hi)
      else if CHR ''-'' \<in> set rng then
        (case partition_on (CHR ''-'') rng of (a, _, b) \<Rightarrow>
           if \<not> (isdigit a \<and> isdigit b) then Inl ValueError
           else bind_ok (nat_of_text a) (\<lambda>start. bind_ok (nat_of_text b) (\<lambda>end.
             if start > end then Inl ValueError else Inr (start, end))))
      else if isdigit rng then
        bind_ok (nat_of_text rng) (\<lambda>start. Inr (start, if slash then hi else start))
      else Inl ValueError)"

definition parse_item :: "nat \<Rightarrow> nat \<Rightarrow> string \<Rightarrow> nat set result" where
  "parse_item lo hi raw =
     (let part = strip raw in
      if part = [] then Inl ValueError
      else
        (case partition_on (CHR ''/'') part of (rng, slash, step_s) \<Rightarrow>
           bind_ok (item_step slash step_s) (\<lambda>step.
             bind_ok (item_bounds lo hi slash rng) (\<lambda>(start, end).
               if start < lo \<or> end > hi then Inl ValueError
               else Inr (set (py_range start (end + 1) step))))))"

fun parse_items :: "nat \<Rightarrow> nat \<Rightarrow> string list \<Rightarrow> nat set \<Rightarrow> nat set result" where
  "parse_items lo hi [] values = Inr values"
| "parse_items lo hi (part # parts) values =
     bind_ok (parse_item lo hi part) (\<lambda>vs. parse_items lo hi parts (values \<union> vs))"

definition parse_field :: "string \<Rightarrow> nat \<Rightarrow> nat \<Rightarrow> (nat set \<times> bool) result" where
  "parse_field raw lo hi =
     (let spec = strip raw in
      if spec = [] then Inl ValueError
      else bind_ok (parse_items lo hi (split_on (CHR '','') spec) {}) (\<lambda>values. Inr (values, spec = ''*'')))"

record cron =
  c_minute :: "nat set"
  c_hour :: "nat set"
  c_dom :: "nat set"
  c_month :: "nat set"
  c_dow :: "nat set"
  c_minute_star :: bool
  c_hour_star :: bool
  c_dom_star :: bool
  c_month_star :: bool
  c_dow_star :: bool

definition parse_fields :: "string list \<Rightarrow> (nat set \<times> bool) list result" where
  \<comment> \<open>the loop over \<open>zip(_FIELD_RANGES, fields)\<close>\<close>
  "parse_fields toks = map_ok (\<lambda>((name, lo, hi), field). parse_field field lo hi) (zip field_ranges toks)"

definition parse_cron :: "pyval \<Rightarrow> cron result" where
  "parse_cron expr =
     bind_ok (cron_field_tokens expr) (\<lambda>toks. bind_ok (parse_fields toks) (\<lambda>ps.
       case ps of
         [(mi, mis), (h, hs), (d, ds), (mo, mos), (w, ws)] \<Rightarrow>
           Inr \<lparr>c_minute = mi, c_hour = h, c_dom = d, c_month = mo, c_dow = (\<lambda>v. v mod 7) ` w,
                c_minute_star = mis, c_hour_star = hs, c_dom_star = ds, c_month_star = mos, c_dow_star = ws\<rparr>
       | _ \<Rightarrow> Inl ValueError))"

definition valid_cron :: "pyval \<Rightarrow> bool" where
  "valid_cron expr = (case parse_cron expr of Inl _ \<Rightarrow> False | Inr _ \<Rightarrow> True)"

section \<open>Matching\<close>

definition in_field :: "nat \<Rightarrow> nat set \<Rightarrow> bool" where
  "in_field n values \<longleftrightarrow> n \<in> values"

definition day_matches :: "cron \<Rightarrow> nat \<Rightarrow> nat \<Rightarrow> nat \<Rightarrow> bool" where
  "day_matches parsed month dom_n dow =
     (if \<not> in_field month (c_month parsed) then False
      else
        (let dom_ok = in_field dom_n (c_dom parsed); dow_ok = in_field dow (c_dow parsed) in
         if c_dom_star parsed \<and> c_dow_star parsed then True
         else if c_dom_star parsed then dow_ok
         else if c_dow_star parsed then dom_ok
         else dom_ok \<or> dow_ok))"

text \<open>The argument of \<open>cron_matches\<close>: a raw expression, or a product of \<open>parse_cron\<close>.\<close>

datatype cron_arg = Raw pyval | Parsed cron

fun parsed_matcher :: "cron_arg \<Rightarrow> cron option" where
  "parsed_matcher (Parsed c) = Some c"
| "parsed_matcher (Raw _) = None"

definition matches_parsed :: "cron \<Rightarrow> wall \<Rightarrow> bool" where
  "matches_parsed parsed t =
     (if \<not> in_field (w_min t) (c_minute parsed) \<or> \<not> in_field (w_hour t) (c_hour parsed) then False
      else day_matches parsed (d_mo (w_date t)) (d_dy (w_date t)) ((weekday (w_date t) + 1) mod 7))"

definition cron_matches :: "cron_arg \<Rightarrow> wall \<Rightarrow> bool result" where
  "cron_matches expr t =
     bind_ok (case parsed_matcher expr of Some c \<Rightarrow> Inr c
              | None \<Rightarrow> (case expr of Raw v \<Rightarrow> parse_cron v | Parsed c \<Rightarrow> Inr c))
       (\<lambda>parsed. Inr (matches_parsed parsed t))"

section \<open>The next matching minute\<close>

fun first_minute :: "wall \<Rightarrow> bool \<Rightarrow> nat \<Rightarrow> nat list \<Rightarrow> nat option" where
  "first_minute cur same_day h [] = None"
| "first_minute cur same_day h (m # ms) =
     (if same_day \<and> h = w_hour cur \<and> m < w_min cur then first_minute cur same_day h ms else Some m)"

fun first_time :: "wall \<Rightarrow> bool \<Rightarrow> nat list \<Rightarrow> nat list \<Rightarrow> (nat \<times> nat) option" where
  "first_time cur same_day [] ms = None"
| "first_time cur same_day (h # hs) ms =
     (if same_day \<and> h < w_hour cur then first_time cur same_day hs ms
      else (case first_minute cur same_day h ms of
              Some m \<Rightarrow> Some (h, m)
            | None \<Rightarrow> first_time cur same_day hs ms))"

text \<open>One round per day offset; a day past year 9999 raises OverflowError.\<close>

fun scan_days :: "cron \<Rightarrow> wall \<Rightarrow> nat list \<Rightarrow> nat list \<Rightarrow> cdate option \<Rightarrow> nat \<Rightarrow> wall option result" where
  "scan_days parsed cur hours minutes day 0 = Inr None"
| "scan_days parsed cur hours minutes None (Suc n) = Inl OverflowError"
| "scan_days parsed cur hours minutes (Some day) (Suc n) =
     (if \<not> day_matches parsed (d_mo day) (d_dy day) ((weekday day + 1) mod 7)
      then scan_days parsed cur hours minutes (next_day day) n
      else (case first_time cur (day = w_date cur) hours minutes of
              Some (h, m) \<Rightarrow> Inr (Some \<lparr>w_date = day, w_hour = h, w_min = m\<rparr>)
            | None \<Rightarrow> scan_days parsed cur hours minutes (next_day day) n))"

definition horizon_days :: nat where
  "horizon_days = 366 * 4"

text \<open>\<open>base\<close> is the local wall-clock minute of \<open>after_ts\<close>.\<close>

definition next_run :: "pyval \<Rightarrow> wall \<Rightarrow> wall option result" where
  "next_run expr base =
     (case parse_cron expr of
        Inl _ \<Rightarrow> Inr None
      | Inr parsed \<Rightarrow>
          (case next_minute base of
             None \<Rightarrow> Inl OverflowError
           | Some cur \<Rightarrow>
               scan_days parsed cur (sorted_list_of_set (c_hour parsed)) (sorted_list_of_set (c_minute parsed))
                 (Some (w_date cur)) horizon_days))"

text \<open>
  \<open>next_run_ts\<close> converts at both ends: \<open>fromtimestamp\<close> gives the local minute of an epoch
  time, or nothing where the conversion raises, and \<open>timestamp\<close> the epoch seconds of a local
  minute; both depend on the host's time zone and are parameters.
\<close>

definition next_run_ts ::
  "(pyval \<Rightarrow> wall option) \<Rightarrow> (wall \<Rightarrow> int) \<Rightarrow> pyval \<Rightarrow> pyval \<Rightarrow> int option result" where
  "next_run_ts fromtimestamp timestamp expr after_ts =
     (case parse_cron expr of
        Inl _ \<Rightarrow> Inr None
      | Inr _ \<Rightarrow>
          (case fromtimestamp after_ts of
             None \<Rightarrow> Inr None
           | Some base \<Rightarrow> bind_ok (next_run expr base) (\<lambda>r. Inr (map_option timestamp r))))"

section \<open>Facts about the parser\<close>

lemma set_py_range:
  assumes "0 < step"
  shows "set (py_range start stop step) = {x. start \<le> x \<and> x < stop \<and> step dvd (x - start)}"
proof -
  have k: "k < (d + step - 1) div step \<longleftrightarrow> k * step < d" for k d
    using assms less_eq_div_iff_mult_less_eq[of step "Suc k" "d + step - 1"] by auto
  have elem: "x \<in> set (py_range start stop step) \<longleftrightarrow> (\<exists>j < (stop - start + step - 1) div step. x = start + j * step)" for x
    by (auto simp: py_range_def)
  show ?thesis
  proof (rule set_eqI)
    fix x
    have "(\<exists>j. j * step < stop - start \<and> x = start + j * step) \<longleftrightarrow> start \<le> x \<and> x < stop \<and> step dvd (x - start)"
    proof
      assume "start \<le> x \<and> x < stop \<and> step dvd (x - start)"
      then obtain j where "x - start = step * j" "start \<le> x" "x < stop" by (auto elim: dvdE)
      then have "j * step < stop - start \<and> x = start + j * step"
        using mult.commute[of step j] by linarith
      then show "\<exists>j. j * step < stop - start \<and> x = start + j * step" by blast
    qed auto
    then show "x \<in> set (py_range start stop step) \<longleftrightarrow> x \<in> {x. start \<le> x \<and> x < stop \<and> step dvd (x - start)}"
      by (simp only: elem k mem_Collect_eq)
  qed
qed

lemma nat_of_text_show [simp]:
  "length (show_nat n) \<le> int_max_str_digits \<Longrightarrow> nat_of_text (show_nat n) = Inr n"
  by (simp add: nat_of_text_def py_int_of_str_show_nat)

lemma item_step_pos: "item_step slash s = Inr step \<Longrightarrow> 0 < step"
  by (auto simp: item_step_def bind_ok_Inr_iff split: if_splits)

lemma parse_item_range:
  assumes "parse_item lo hi part = Inr vs"
  shows "vs \<subseteq> {lo..hi}"
proof -
  obtain slash s start last step where step: "item_step slash s = Inr step"
    and b: "lo \<le> start" "last \<le> hi" and vs: "vs = set (py_range start (Suc last) step)"
    using assms
    by (auto simp: parse_item_def Let_def bind_ok_Inr_iff not_less split: if_splits prod.splits)
  then show ?thesis using item_step_pos[OF step] by (auto simp: vs set_py_range)
qed

lemma parse_items_range:
  assumes "parse_items lo hi parts acc = Inr vs" and "acc \<subseteq> {lo..hi}"
  shows "vs \<subseteq> {lo..hi}"
  using assms
proof (induction parts arbitrary: acc)
  case (Cons p ps)
  then obtain us where us: "parse_item lo hi p = Inr us" "parse_items lo hi ps (acc \<union> us) = Inr vs"
    by (auto simp: bind_ok_Inr_iff)
  with Cons parse_item_range show ?case by (meson Un_least)
qed simp

lemma parse_field_range:
  assumes "parse_field spec lo hi = Inr (vs, star)"
  shows "vs \<subseteq> {lo..hi}"
  using assms parse_items_range[of lo hi "split_on (CHR '','') (strip spec)" "{}"]
  by (auto simp: parse_field_def Let_def bind_ok_Inr_iff split: if_splits)

lemma parse_field_range_fst: "parse_field spec lo hi = Inr p \<Longrightarrow> fst p \<subseteq> {lo..hi}"
  using parse_field_range[of spec lo hi "fst p" "snd p"] by simp

section \<open>An abstract syntax of fields\<close>

text \<open>
  What a field means, independent of its text: a list of items, each a star, a number or a
  range, with an optional step. A number with a step runs to the end of the field's range.
\<close>

datatype item_base = Any | One nat | Span nat nat

type_synonym item = "item_base \<times> nat option"

fun render_item :: "item \<Rightarrow> string" where
  "render_item (b, st) =
     (case b of Any \<Rightarrow> ''*'' | One n \<Rightarrow> show_nat n | Span a c \<Rightarrow> show_nat a @ ''-'' @ show_nat c)
     @ (case st of None \<Rightarrow> [] | Some n \<Rightarrow> ''/'' @ show_nat n)"

definition render_field :: "item list \<Rightarrow> string" where
  "render_field its = join_on '','' (map render_item its)"

fun item_span :: "nat \<Rightarrow> nat \<Rightarrow> item \<Rightarrow> nat \<times> nat" where
  "item_span lo hi (Any, st) = (lo, hi)"
| "item_span lo hi (One n, st) = (n, if st = None then n else hi)"
| "item_span lo hi (Span a b, st) = (a, b)"

definition denote_item :: "nat \<Rightarrow> nat \<Rightarrow> item \<Rightarrow> nat set" where
  "denote_item lo hi it =
     (case item_span lo hi it of (a, b) \<Rightarrow>
        {x. a \<le> x \<and> x \<le> b \<and> (case snd it of None \<Rightarrow> True | Some s \<Rightarrow> s dvd (x - a))})"

fun item_ok :: "nat \<Rightarrow> nat \<Rightarrow> item \<Rightarrow> bool" where
  "item_ok lo hi (b, st) =
     ((case b of Any \<Rightarrow> True | One n \<Rightarrow> lo \<le> n \<and> n \<le> hi | Span a c \<Rightarrow> lo \<le> a \<and> a \<le> c \<and> c \<le> hi)
      \<and> (case st of None \<Rightarrow> True | Some s \<Rightarrow> 1 \<le> s \<and> length (show_nat s) \<le> int_max_str_digits))"

text \<open>A number beyond the range with a step: the code lets it pass, and it means nothing.\<close>

fun stray :: "nat \<Rightarrow> item \<Rightarrow> bool" where
  "stray hi (One n, Some s) =
     (hi < n \<and> length (show_nat n) \<le> int_max_str_digits \<and> 1 \<le> s \<and> length (show_nat s) \<le> int_max_str_digits)"
| "stray hi it = False"

definition item_char :: "char \<Rightarrow> bool" where
  "item_char c \<longleftrightarrow> is_digit c \<or> c = CHR ''*'' \<or> c = CHR ''-'' \<or> c = CHR ''/''"

lemma length_show_nat_le: "length (show_nat n) \<le> Suc n"
proof (induction n rule: show_nat.induct)
  case (1 n)
  show ?case
  proof (cases "n < 10")
    case True
    then show ?thesis by (subst show_nat.simps) simp
  next
    case False
    then have "length (show_nat (n div 10)) \<le> Suc (n div 10)" by (rule "1.IH")
    moreover have "Suc (n div 10) \<le> n" using False by linarith
    ultimately show ?thesis using False by (subst show_nat.simps) simp
  qed
qed

lemma render_item_chars: "list_all item_char (render_item it)"
  using show_nat_digits
  by (cases it; cases "fst it"; cases "snd it") (auto simp: list_all_iff item_char_def)

lemma item_char_not_space: "item_char c \<Longrightarrow> \<not> is_space c"
  by (auto simp: item_char_def is_digit_not_space) (auto simp: is_space_def ordc_def)

lemma item_char_not_comma: "\<not> item_char (CHR '','')"
  by (simp add: item_char_def is_digit_def ordc_def)

lemma render_item_nonempty: "render_item it \<noteq> []"
  by (cases it; cases "fst it") (auto split: option.splits)

lemma strip_render_item: "strip (render_item it) = render_item it"
  by (rule strip_no_space, rule list.pred_mono_strong[OF render_item_chars])
    (simp add: item_char_not_space)

lemma show_nat_no_sep [simp]:
  "CHR ''/'' \<notin> set (show_nat n)" "CHR ''-'' \<notin> set (show_nat n)" "CHR '','' \<notin> set (show_nat n)"
  by (rule show_nat_no_char, simp add: is_digit_def ordc_def)+

lemma show_nat_not_star [simp]: "show_nat n \<noteq> ''*''" "show_nat n \<noteq> CHR ''*'' # xs"
  "show_nat n @ ys \<noteq> CHR ''*'' # xs"
proof -
  have "CHR ''*'' \<notin> set (show_nat n)" by (rule show_nat_no_char) (simp add: is_digit_def ordc_def)
  then have "hd (show_nat n) \<noteq> CHR ''*''"
    using hd_in_set[OF show_nat_nonempty, of n] by metis
  moreover have "hd (show_nat n @ ys) = hd (show_nat n)" by simp
  ultimately show "show_nat n \<noteq> ''*''" "show_nat n \<noteq> CHR ''*'' # xs" "show_nat n @ ys \<noteq> CHR ''*'' # xs"
    by (metis list.sel(1))+
qed

lemma partition_on_none: "c \<notin> set s \<Longrightarrow> partition_on c s = (s, False, [])"
  by (simp add: partition_on_def)

definition render_base :: "item_base \<Rightarrow> string" where
  "render_base b = (case b of Any \<Rightarrow> ''*'' | One n \<Rightarrow> show_nat n | Span a c \<Rightarrow> show_nat a @ ''-'' @ show_nat c)"

lemma render_base_no_slash: "CHR ''/'' \<notin> set (render_base b)"
  by (simp add: render_base_def split: item_base.splits)

lemma item_bounds_render:
  assumes ok: "item_ok lo hi (b, st)" and hi: "hi < int_max_str_digits"
  shows "item_bounds lo hi (st \<noteq> None) (render_base b) = Inr (item_span lo hi (b, st))"
proof -
  have len: "n \<le> hi \<Longrightarrow> length (show_nat n) \<le> int_max_str_digits" for n
    using length_show_nat_le[of n] hi by simp
  show ?thesis
  proof (cases b)
    case (Span a c)
    then have "partition_on (CHR ''-'') (show_nat a @ ''-'' @ show_nat c) = (show_nat a, True, show_nat c)"
      by (simp add: partition_on_append)
    with Span ok len[of a] len[of c] show ?thesis
      by (simp add: item_bounds_def render_base_def)
  qed (use ok len in \<open>auto simp: item_bounds_def render_base_def\<close>)
qed

lemma item_span_bounds:
  "item_ok lo hi it \<Longrightarrow> item_span lo hi it = (a, b) \<Longrightarrow> lo \<le> hi \<Longrightarrow> lo \<le> a \<and> b \<le> hi"
  by (induction lo hi it rule: item_span.induct) (auto split: if_splits)

lemma parse_item_render:
  assumes ok: "item_ok lo hi it" and hi: "hi < int_max_str_digits" and le: "lo \<le> hi"
  shows "parse_item lo hi (render_item it) = Inr (denote_item lo hi it)"
proof -
  obtain b st where it: "it = (b, st)" by (cases it)
  obtain start last where span: "item_span lo hi (b, st) = (start, last)" by fastforce
  have bounds: "lo \<le> start" "last \<le> hi" using item_span_bounds ok le span it by blast+
  have base: "item_bounds lo hi (st \<noteq> None) (render_base b) = Inr (start, last)"
    using item_bounds_render ok hi span it by simp
  have part: "partition_on (CHR ''/'') (render_item it)
      = (render_base b, st \<noteq> None, case st of None \<Rightarrow> [] | Some n \<Rightarrow> show_nat n)"
    using render_base_no_slash[of b] unfolding it
    by (cases st) (auto simp: partition_on_none partition_on_append simp flip: render_base_def)
  have step: "item_step (st \<noteq> None) (case st of None \<Rightarrow> [] | Some n \<Rightarrow> show_nat n) = Inr (case st of None \<Rightarrow> 1 | Some n \<Rightarrow> n)"
    using ok it by (auto simp: item_step_def split: option.splits)
  have pos: "0 < (case st of None \<Rightarrow> 1 | Some n \<Rightarrow> n)"
    using ok it by (auto split: option.splits)
  have "denote_item lo hi it = set (py_range start (last + 1) (case st of None \<Rightarrow> 1 | Some n \<Rightarrow> n))"
    by (auto simp: denote_item_def it span set_py_range[OF pos] split: option.splits)
  then show ?thesis
    using base step bounds by (simp add: parse_item_def strip_render_item render_item_nonempty part)
qed

lemma stray_nothing: "stray hi it \<Longrightarrow> denote_item lo hi it = {}"
  by (induction hi it rule: stray.induct) (auto simp: denote_item_def)

lemma parse_item_stray:
  assumes "stray hi it" and le: "lo \<le> hi"
  shows "parse_item lo hi (render_item it) = Inr (denote_item lo hi it)"
proof -
  obtain n s where it: "it = (One n, Some s)" using assms(1) by (cases "(hi, it)" rule: stray.cases) auto
  have st: "hi < n" "length (show_nat n) \<le> int_max_str_digits" "1 \<le> s" "length (show_nat s) \<le> int_max_str_digits"
    using assms(1) by (simp_all add: it)
  have part: "partition_on (CHR ''/'') (render_item it) = (show_nat n, True, show_nat s)"
    by (simp add: it partition_on_append)
  have step: "item_step True (show_nat s) = Inr s" using st(3,4) by (simp add: item_step_def)
  have bounds: "item_bounds lo hi True (show_nat n) = Inr (n, hi)" using st(2) by (simp add: item_bounds_def)
  have "set (py_range n (hi + 1) s) = {}" using st(1,3) by (simp add: set_py_range)
  then show ?thesis
    using step bounds part le st(1) stray_nothing[OF assms(1)]
    by (simp add: parse_item_def strip_render_item render_item_nonempty)
qed

lemma parse_items_render:
  assumes "\<And>it. it \<in> set its \<Longrightarrow> item_ok lo hi it \<or> stray hi it" and "hi < int_max_str_digits" and "lo \<le> hi"
  shows "parse_items lo hi (map render_item its) acc = Inr (acc \<union> (\<Union>it \<in> set its. denote_item lo hi it))"
  using assms
proof (induction its arbitrary: acc)
  case (Cons it its)
  have "parse_item lo hi (render_item it) = Inr (denote_item lo hi it)"
    using Cons.prems(1)[OF list.set_intros(1)] parse_item_render[OF _ Cons.prems(2,3)] parse_item_stray[OF _ Cons.prems(3)] by blast
  then show ?case using Cons by (simp add: Un_assoc)
qed simp

lemma render_item_star: "render_item it = ''*'' \<longleftrightarrow> it = (Any, None)"
  by (cases it; cases "fst it"; cases "snd it") auto

lemma render_field_chars: "list_all (\<lambda>c. item_char c \<or> c = CHR '','') (render_field its)"
  unfolding render_field_def
proof (induction its rule: induct_list012)
  case (3 x y its)
  then show ?case using render_item_chars[of x] by (auto simp: list_all_iff)
qed (use render_item_chars in \<open>auto simp: list_all_iff\<close>)

lemma strip_render_field: "strip (render_field its) = render_field its"
  by (rule strip_no_space, rule list.pred_mono_strong[OF render_field_chars])
    (use item_char_not_space in \<open>auto simp: is_space_def ordc_def\<close>)

lemma split_render_field:
  assumes "its \<noteq> []"
  shows "split_on (CHR '','') (render_field its) = map render_item its"
  unfolding render_field_def
proof (rule split_join_on)
  show "map render_item its \<noteq> []" using assms by simp
  fix p assume "p \<in> set (map render_item its)"
  then show "CHR '','' \<notin> set p"
    using render_item_chars item_char_not_comma by (auto simp: list_all_iff)
qed

lemma render_field_star:
  assumes "its \<noteq> []"
  shows "render_field its = ''*'' \<longleftrightarrow> its = [(Any, None)]"
proof
  assume star: "render_field its = ''*''"
  then have "map render_item its = [''*'']"
    using split_render_field[OF assms] by simp
  then obtain it where "its = [it]" "render_item it = ''*''" by auto
  then show "its = [(Any, None)]" by (simp only: render_item_star)
qed (simp add: render_field_def)

lemma render_field_nonempty: "its \<noteq> [] \<Longrightarrow> render_field its \<noteq> []"
proof
  assume "its \<noteq> []" "render_field its = []"
  then have "map render_item its = [[]]" using split_render_field[of its] by simp
  then show False using render_item_nonempty by auto
qed

text \<open>The parser of a field computes its denotation, on every well-formed field.\<close>

lemma parse_render_field:
  assumes "its \<noteq> []" and "\<And>it. it \<in> set its \<Longrightarrow> item_ok lo hi it \<or> stray hi it"
    and "hi < int_max_str_digits" and "lo \<le> hi"
  shows "parse_field (render_field its) lo hi
    = Inr (\<Union>it \<in> set its. denote_item lo hi it, its = [(Any, None)])"
  using assms
  by (simp add: parse_field_def strip_render_field render_field_nonempty split_render_field
      parse_items_render render_field_star)

section \<open>Facts about parsed expressions\<close>

definition cron_ok :: "cron \<Rightarrow> bool" where
  "cron_ok c \<longleftrightarrow> c_minute c \<subseteq> {0..59} \<and> c_hour c \<subseteq> {0..23} \<and> c_dom c \<subseteq> {1..31}
     \<and> c_month c \<subseteq> {1..12} \<and> c_dow c \<subseteq> {0..6}"

lemma cron_field_tokens_length: "cron_field_tokens expr = Inr toks \<Longrightarrow> length toks = 5"
  by (cases expr) (auto simp: cron_field_tokens_def Let_def map_ok_length split: if_splits sum.splits)

lemma parse_cron_ok:
  assumes "parse_cron expr = Inr c"
  shows "cron_ok c"
proof -
  obtain toks ps where t: "cron_field_tokens expr = Inr toks" "parse_fields toks = Inr ps"
    using assms by (auto simp: parse_cron_def bind_ok_Inr_iff)
  obtain t1 t2 t3 t4 t5 where toks: "toks = [t1, t2, t3, t4, t5]"
    using cron_field_tokens_length[OF t(1)] by (auto simp: length_Suc_conv numeral_eq_Suc)
  have "length ps = 5" using map_ok_length[OF t(2)[unfolded parse_fields_def]] toks
    by (simp add: field_ranges_def)
  then obtain p1 p2 p3 p4 p5 where ps: "ps = [p1, p2, p3, p4, p5]"
    by (auto simp: length_Suc_conv numeral_eq_Suc)
  have parts: "parse_field t1 0 59 = Inr p1" "parse_field t2 0 23 = Inr p2" "parse_field t3 1 31 = Inr p3"
    "parse_field t4 1 12 = Inr p4" "parse_field t5 0 7 = Inr p5"
    using t(2) by (auto simp: toks ps parse_fields_def field_ranges_def map_ok_Cons_Inr simp del: map_ok.simps(2))
  have c: "c = \<lparr>c_minute = fst p1, c_hour = fst p2, c_dom = fst p3, c_month = fst p4,
      c_dow = (\<lambda>v. v mod 7) ` fst p5, c_minute_star = snd p1, c_hour_star = snd p2,
      c_dom_star = snd p3, c_month_star = snd p4, c_dow_star = snd p5\<rparr>"
    using assms t by (auto simp: parse_cron_def ps split: prod.splits)
  have "(\<lambda>v. v mod 7) ` fst p5 \<subseteq> {0..6}" by (auto simp: less_Suc_eq_le[symmetric])
  then show ?thesis
    using parts[THEN parse_field_range_fst]
    by (simp add: cron_ok_def c)
qed

section \<open>The search finds the earliest minute\<close>

lemma first_minute_Some:
  assumes "first_minute cur same h ms = Some m" and "sorted ms"
  shows "m \<in> set ms \<and> (same \<and> h = w_hour cur \<longrightarrow> w_min cur \<le> m)
    \<and> (\<forall>k \<in> set ms. (same \<and> h = w_hour cur \<longrightarrow> w_min cur \<le> k) \<longrightarrow> m \<le> k)"
  using assms by (induction cur same h ms rule: first_minute.induct) (auto split: if_splits)

lemma first_minute_None:
  assumes "first_minute cur same h ms = None" and "k \<in> set ms"
  shows "same \<and> h = w_hour cur \<and> k < w_min cur"
  using assms by (induction cur same h ms rule: first_minute.induct) (auto split: if_splits)

definition not_past :: "wall \<Rightarrow> bool \<Rightarrow> nat \<Rightarrow> nat \<Rightarrow> bool" where
  "not_past cur same h m \<longleftrightarrow> (same \<longrightarrow> (w_hour cur, w_min cur) \<le> (h, m))"

lemma first_time_Some:
  assumes "first_time cur same hs ms = Some (h, m)" and "sorted hs" "sorted ms"
  shows "h \<in> set hs \<and> m \<in> set ms \<and> not_past cur same h m
    \<and> (\<forall>h' \<in> set hs. \<forall>m' \<in> set ms. not_past cur same h' m' \<longrightarrow> (h, m) \<le> (h', m'))"
  using assms
proof (induction cur same hs ms rule: first_time.induct)
  case (2 cur same x hs ms)
  show ?case
  proof (cases "same \<and> x < w_hour cur")
    case True
    with 2 show ?thesis by (auto simp: not_past_def)
  next
    case False
    show ?thesis
    proof (cases "first_minute cur same x ms")
      case None
      with 2 False have IH: "h \<in> set hs \<and> m \<in> set ms \<and> not_past cur same h m
          \<and> (\<forall>h' \<in> set hs. \<forall>m' \<in> set ms. not_past cur same h' m' \<longrightarrow> (h, m) \<le> (h', m'))"
        by simp
      moreover have "\<not> not_past cur same x k" if "k \<in> set ms" for k
        using first_minute_None[OF None that] by (simp add: not_past_def)
      ultimately show ?thesis by auto
    next
      case (Some k)
      with 2 False have "h = x" "m = k" by auto
      with first_minute_Some[OF Some 2(5)] 2(4) False show ?thesis
        by (auto simp: not_past_def)
    qed
  qed
qed simp

lemma first_time_None:
  assumes "first_time cur same hs ms = None" and "h \<in> set hs" "m \<in> set ms"
  shows "\<not> not_past cur same h m"
  using assms
proof (induction cur same hs ms rule: first_time.induct)
  case (2 cur same x hs ms)
  then show ?case using first_minute_None[of cur same x ms m]
    by (auto simp: not_past_def split: if_splits option.splits)
qed simp

text \<open>The day part and the time part of a match.\<close>

definition day_match :: "cron \<Rightarrow> cdate \<Rightarrow> bool" where
  "day_match p d = day_matches p (d_mo d) (d_dy d) ((weekday d + 1) mod 7)"

lemma matches_parsed_iff:
  "matches_parsed p w \<longleftrightarrow> w_min w \<in> c_minute p \<and> w_hour w \<in> c_hour p \<and> day_match p (w_date w)"
  by (auto simp: matches_parsed_def in_field_def day_match_def)

lemma key_split:
  assumes "ordinal (w_date cur) \<le> ordinal d" "valid_date d" "valid_wall cur" "w_date v = d"
  shows "wall_key cur \<le> wall_key v \<longleftrightarrow> not_past cur (d = w_date cur) (w_hour v) (w_min v)"
  using assms ordinal_inj[of d "w_date cur"]
  by (auto simp: wall_key_def not_past_def valid_wall_def)

text \<open>What the scan promises from a given day on, for its result and for no result.\<close>

lemma scan_days_spec:
  assumes "valid_date d" "ordinal (w_date cur) \<le> ordinal d" "valid_wall cur" "cron_ok p"
    and hs: "sorted hs" "set hs = c_hour p" and ms: "sorted ms" "set ms = c_minute p"
    and "scan_days p cur hs ms (Some d) n = Inr r"
  shows "case r of
      Some w \<Rightarrow> valid_wall w \<and> wall_key cur \<le> wall_key w \<and> matches_parsed p w
        \<and> ordinal d \<le> ordinal (w_date w) \<and> ordinal (w_date w) < ordinal d + n
        \<and> (\<forall>v. valid_wall v \<longrightarrow> wall_key cur \<le> wall_key v \<longrightarrow> ordinal d \<le> ordinal (w_date v)
              \<longrightarrow> matches_parsed p v \<longrightarrow> wall_key w \<le> wall_key v)
    | None \<Rightarrow> (\<forall>v. valid_wall v \<longrightarrow> wall_key cur \<le> wall_key v \<longrightarrow> ordinal d \<le> ordinal (w_date v)
              \<longrightarrow> ordinal (w_date v) < ordinal d + n \<longrightarrow> \<not> matches_parsed p v)"
  using assms
proof (induction n arbitrary: d)
  case 0
  then show ?case by simp
next
  case (Suc n)
  have today: "\<not> matches_parsed p v"
    if "\<not> day_match p d \<or> first_time cur (d = w_date cur) hs ms = None"
      and "w_date v = d" "wall_key cur \<le> wall_key v" for v
    using that first_time_None[of cur "d = w_date cur" hs ms "w_hour v" "w_min v"]
      key_split[OF Suc.prems(2,1,3), of v] hs ms
    by (auto simp: matches_parsed_iff)
  show ?case
  proof (cases "day_match p d \<and> first_time cur (d = w_date cur) hs ms \<noteq> None")
    case True
    then obtain h m where hm: "first_time cur (d = w_date cur) hs ms = Some (h, m)" by auto
    let ?w = "\<lparr>w_date = d, w_hour = h, w_min = m\<rparr>"
    have r: "r = Some ?w" using Suc.prems(9) True hm by (simp add: day_match_def)
    note ft = first_time_Some[OF hm hs(1) ms(1)]
    have in_range: "h < 24" "m < 60"
      using ft hs ms \<open>cron_ok p\<close> by (auto simp: cron_ok_def less_Suc_eq_le[symmetric] dest!: subsetD)
    have "wall_key ?w \<le> wall_key v"
      if v: "valid_wall v" "wall_key cur \<le> wall_key v" "ordinal d \<le> ordinal (w_date v)" "matches_parsed p v" for v
    proof (cases "w_date v = d")
      case same: True
      then show ?thesis
        using ft v key_split[OF Suc.prems(2,1,3) same] hs ms
        by (auto simp: wall_key_def matches_parsed_iff)
    next
      case False
      with v have "ordinal d < ordinal (w_date v)"
        using ordinal_inj[OF Suc.prems(1), of "w_date v"] by (auto simp: valid_wall_def less_le)
      then show ?thesis by (simp add: wall_key_def)
    qed
    then show ?thesis
      using r ft True in_range hs ms Suc.prems(1) key_split[OF Suc.prems(2,1,3), of ?w]
      by (simp add: valid_wall_def matches_parsed_iff)
  next
    case False
    then have skip: "\<not> day_match p d \<or> first_time cur (d = w_date cur) hs ms = None" by blast
    from False have next': "scan_days p cur hs ms (next_day d) n = Inr r"
      using Suc.prems(9) by (auto simp: day_match_def split: if_splits option.splits)
    show ?thesis
    proof (cases n)
      case 0
      with next' have "r = None" by simp
      moreover have "w_date v = d" if "valid_wall v" "ordinal d \<le> ordinal (w_date v)" "ordinal (w_date v) < ordinal d + 1" for v
        using that ordinal_inj[OF Suc.prems(1), of "w_date v"] by (simp add: valid_wall_def)
      ultimately show ?thesis using today[OF skip] 0 by auto
    next
      case (Suc k)
      with next' obtain d' where d': "next_day d = Some d'" by (cases "next_day d") auto
      have v': "valid_date d'" and o': "ordinal d' = Suc (ordinal d)"
        using next_day_valid next_day_ordinal d' Suc.prems(1) by blast+
      have tomorrow: "ordinal d' \<le> ordinal (w_date v)"
        if "valid_wall v" "wall_key cur \<le> wall_key v" "ordinal d \<le> ordinal (w_date v)" "matches_parsed p v" for v
        using that today[OF skip, of v] ordinal_inj[OF Suc.prems(1), of "w_date v"] o'
        by (auto simp: valid_wall_def Suc_le_eq less_le)
      have le': "ordinal (w_date cur) \<le> ordinal d'" using Suc.prems(2) o' by simp
      note IH = Suc.IH[OF v' le' Suc.prems(3-8) next'[unfolded d']]
      show ?thesis using IH tomorrow o' by (cases r) auto
    qed
  qed
qed

lemma sorted_field:
  assumes "S \<subseteq> {a..b::nat}"
  shows "set (sorted_list_of_set S) = S" "sorted (sorted_list_of_set S)"
  using assms finite_subset[OF assms] by auto

lemma next_run_spec:
  assumes p: "parse_cron expr = Inr p" and base: "valid_wall base" and r: "next_run expr base = Inr r"
  shows "case r of
      Some w \<Rightarrow> valid_wall w \<and> wall_key base < wall_key w \<and> matches_parsed p w
        \<and> ordinal (w_date w) \<le> ordinal (w_date base) + horizon_days
        \<and> (\<forall>v. valid_wall v \<longrightarrow> wall_key base < wall_key v \<longrightarrow> matches_parsed p v \<longrightarrow> wall_key w \<le> wall_key v)
    | None \<Rightarrow> (\<forall>v. valid_wall v \<longrightarrow> wall_key base < wall_key v
              \<longrightarrow> ordinal (w_date v) < ordinal (w_date base) + horizon_days \<longrightarrow> \<not> matches_parsed p v)"
proof -
  have ok: "cron_ok p" by (rule parse_cron_ok[OF p])
  then have sets: "c_hour p \<subseteq> {0..23}" "c_minute p \<subseteq> {0..59}" by (simp_all add: cron_ok_def)
  obtain cur where cur: "next_minute base = Some cur"
    and scan: "scan_days p cur (sorted_list_of_set (c_hour p)) (sorted_list_of_set (c_minute p))
        (Some (w_date cur)) horizon_days = Inr r"
    using p r by (auto simp: next_run_def split: option.splits)
  have vc: "valid_wall cur" using next_minute_valid[OF base cur] .
  have vd: "valid_date (w_date cur)" using vc by (simp add: valid_wall_def)
  note key = next_minute_key[OF base cur]
  have later: "ordinal (w_date cur) \<le> ordinal (w_date v)" if "valid_wall v" "wall_key base < wall_key v" for v
    using key[OF that(1)] that by (auto simp: wall_key_def less_eq_prod_def)
  have ord: "ordinal (w_date base) \<le> ordinal (w_date cur)"
    using key[OF vc] by (auto simp: wall_key_def less_prod_def)
  have ord': "ordinal (w_date cur) \<le> Suc (ordinal (w_date base))"
    using cur next_day_ordinal base by (auto simp: next_minute_def valid_wall_def split: if_splits)
  note spec = scan_days_spec[OF vd order_refl vc ok sorted_field(2)[OF sets(1)] sorted_field(1)[OF sets(1)]
      sorted_field(2)[OF sets(2)] sorted_field(1)[OF sets(2)] scan]
  show ?thesis
  proof (cases r)
    case None
    with spec later key ord show ?thesis by fastforce
  next
    case (Some w)
    with spec later key ord' show ?thesis by auto
  qed
qed

section \<open>Whole expressions\<close>

definition denote_field :: "nat \<Rightarrow> nat \<Rightarrow> item list \<Rightarrow> nat set" where
  "denote_field lo hi its = (\<Union>it \<in> set its. denote_item lo hi it)"

definition field_ok :: "nat \<Rightarrow> nat \<Rightarrow> item list \<Rightarrow> bool" where
  "field_ok lo hi its \<longleftrightarrow> its \<noteq> [] \<and> list_all (item_ok lo hi) its"

text \<open>A field the code accepts: each item is in range or strays beyond it; and one with nothing in range.\<close>

definition lenient :: "nat \<Rightarrow> nat \<Rightarrow> item list \<Rightarrow> bool" where
  "lenient lo hi its \<longleftrightarrow> its \<noteq> [] \<and> list_all (\<lambda>it. item_ok lo hi it \<or> stray hi it) its"

definition barren :: "nat \<Rightarrow> item list \<Rightarrow> bool" where
  "barren hi its \<longleftrightarrow> its \<noteq> [] \<and> list_all (stray hi) its"

lemma field_ok_lenient: "field_ok lo hi its \<Longrightarrow> lenient lo hi its"
  by (auto simp: field_ok_def lenient_def list_all_iff)

lemma barren_nothing: "barren hi its \<Longrightarrow> denote_field lo hi its = {}"
  by (simp add: barren_def denote_field_def list_all_iff stray_nothing)

lemma barren_no_star: "barren hi its \<Longrightarrow> its \<noteq> [(Any, None)]"
  by (auto simp: barren_def)

lemma parse_field_ok:
  "lenient lo hi its \<Longrightarrow> hi < int_max_str_digits \<Longrightarrow> lo \<le> hi \<Longrightarrow>
    parse_field (render_field its) lo hi = Inr (denote_field lo hi its, its = [(Any, None)])"
  by (simp add: lenient_def denote_field_def list_all_iff parse_render_field)

lemma split_ws_join:
  assumes "ws \<noteq> []" and "\<And>w. w \<in> set ws \<Longrightarrow> w \<noteq> [] \<and> list_all (\<lambda>c. \<not> is_space c) w"
  shows "split_ws (join_on '' '' ws) = ws"
proof -
  have sp: "is_space (CHR '' '')" by (simp add: is_space_def ordc_def)
  let ?norm = "map (\<lambda>c. if is_space c then CHR '' '' else c)"
  have keep: "?norm w = w" if "w \<in> set ws" for w
    using assms(2)[OF that] by (induction w) auto
  have "?norm (join_on '' '' us) = join_on '' '' us" if "set us \<subseteq> set ws" for us
    using that sp by (induction us rule: induct_list012) (auto simp: keep)
  then have "?norm (join_on '' '' ws) = join_on [CHR '' ''] ws" by simp
  moreover have "split_on (CHR '' '') (join_on [CHR '' ''] ws) = ws"
  proof (rule split_join_on[OF assms(1)])
    fix p assume "p \<in> set ws"
    then show "CHR '' '' \<notin> set p" using assms(2)[of p] by (auto simp: list_all_iff is_space_def ordc_def)
  qed
  moreover have "filter (\<lambda>w. w \<noteq> []) ws = ws" using assms(2) by (simp add: filter_id_conv)
  ultimately show ?thesis by (simp add: split_ws_def)
qed

lemma render_field_token: "its \<noteq> [] \<Longrightarrow> render_field its \<noteq> [] \<and> list_all (\<lambda>c. \<not> is_space c) (render_field its)"
  using render_field_nonempty render_field_chars[of its] item_char_not_space
  by (auto simp: list_all_iff is_space_def ordc_def)

lemma star_field: "field_ok lo hi [(Any, None)]" "denote_field lo hi [(Any, None)] = {lo..hi}"
  by (auto simp: field_ok_def denote_field_def denote_item_def)

lemma parse_star: "lo \<le> hi \<Longrightarrow> hi < int_max_str_digits \<Longrightarrow> parse_field ''*'' lo hi = Inr ({lo..hi}, True)"
  using parse_field_ok[OF field_ok_lenient, OF star_field(1)[of lo hi]] star_field(2)[of lo hi] by (simp add: render_field_def)

section \<open>The search succeeds\<close>

text \<open>The last date of the calendar, and the days on which the search cannot overflow.\<close>

definition last_ordinal :: nat where
  "last_ordinal = days_before_year 10000"

lemma next_day_None: "valid_date d \<Longrightarrow> next_day d = None \<Longrightarrow> ordinal d = last_ordinal"
proof -
  assume v: "valid_date d" and n: "next_day d = None"
  then have d: "d_yr d = 9999" "d_mo d = 12" "d_dy d = days_in_month 9999 12"
    by (auto simp: next_day_def valid_date_def split: if_splits)
  have "days_before_year 10000 = days_before_year 9999 + 365"
    using days_before_year_Suc[of 9999] by (simp add: leap_def)
  then show ?thesis
    using d days_of_year[of 9999] by (simp add: ordinal_def last_ordinal_def leap_def)
qed

lemma scan_days_total:
  assumes "valid_date d" "ordinal d + n \<le> Suc last_ordinal"
  shows "\<exists>r. scan_days p cur hs ms (Some d) n = Inr r"
  using assms
proof (induction n arbitrary: d)
  case (Suc n)
  have "\<exists>r. scan_days p cur hs ms (next_day d) n = Inr r"
  proof (cases "next_day d")
    case None
    with next_day_None Suc.prems have "n = 0" by fastforce
    then show ?thesis by simp
  next
    case (Some d')
    then have "valid_date d'" "ordinal d' = Suc (ordinal d)"
      using next_day_valid next_day_ordinal Suc.prems(1) by blast+
    with Suc Some show ?thesis by auto
  qed
  then show ?case by (auto split: option.split)
qed simp

definition search_safe :: "wall \<Rightarrow> bool" where
  "search_safe base \<longleftrightarrow> ordinal (w_date base) + horizon_days \<le> last_ordinal"

lemma next_run_total:
  assumes "valid_wall base" "search_safe base"
  shows "\<exists>r. next_run expr base = Inr r"
proof (cases "parse_cron expr")
  case (Inr p)
  have vd: "valid_date (w_date base)" using assms(1) by (simp add: valid_wall_def)
  have pos: "0 < horizon_days" by (simp add: horizon_days_def)
  obtain cur where cur: "next_minute base = Some cur"
    using next_day_None[OF vd] assms(2) pos
    by (cases "next_minute base") (auto simp: next_minute_def search_safe_def split: if_splits)
  have vc: "valid_date (w_date cur)" using next_minute_valid[OF assms(1) cur] by (simp add: valid_wall_def)
  have "ordinal (w_date cur) \<le> Suc (ordinal (w_date base))"
    using cur next_day_ordinal[OF vd] by (auto simp: next_minute_def split: if_splits)
  then show ?thesis
    using scan_days_total[OF vc, of horizon_days] assms(2) cur Inr
    by (simp add: next_run_def search_safe_def)
qed (simp add: next_run_def)

lemma next_run_some:
  assumes "valid_wall base" "search_safe base" "cron_matches (Raw expr) v = Inr True" "valid_wall v"
    and "wall_key base < wall_key v" "ordinal (w_date v) < ordinal (w_date base) + horizon_days"
  shows "\<exists>w. next_run expr base = Inr (Some w)"
proof -
  obtain p where p: "parse_cron expr = Inr p" "matches_parsed p v"
    using assms(3) by (auto simp: cron_matches_def bind_ok_Inr_iff)
  obtain r where r: "next_run expr base = Inr r" using next_run_total assms(1,2) by blast
  show ?thesis
  proof (cases r)
    case None
    with next_run_spec[OF p(1) assms(1) r] p(2) assms(4-6) show ?thesis by auto
  qed (use r in auto)
qed

lemma stars_match:
  assumes "valid_wall v"
  shows "cron_matches (Raw (PStr ''* * * * *'')) v = Inr True"
proof -
  have t: "cron_field_tokens (PStr ''* * * * *'') = Inr [''*'', ''*'', ''*'', ''*'', ''*'']" by code_simp
  have "parse_cron (PStr ''* * * * *'') = Inr \<lparr>c_minute = {0..59}, c_hour = {0..23}, c_dom = {1..31}, c_month = {1..12},
      c_dow = (\<lambda>v. v mod 7) ` {0..7}, c_minute_star = True, c_hour_star = True, c_dom_star = True,
      c_month_star = True, c_dow_star = True\<rparr>"
    unfolding parse_cron_def t by (simp add: parse_fields_def field_ranges_def parse_star int_max_str_digits_def)
  then show ?thesis
    using assms by (simp add: cron_matches_def matches_parsed_def in_field_def day_matches_def
        valid_wall_def valid_date_def)
qed

definition noon :: "nat \<Rightarrow> nat \<Rightarrow> nat \<Rightarrow> wall" where
  "noon y m d = \<lparr>w_date = \<lparr>d_yr = y, d_mo = m, d_dy = d\<rparr>, w_hour = 12, w_min = 0\<rparr>"

lemma noon_2024: "valid_wall (noon 2024 2 28)" "search_safe (noon 2024 2 28)"
  "valid_wall ((noon 2024 2 28)\<lparr>w_min := 1\<rparr>)" "wall_key (noon 2024 2 28) < wall_key ((noon 2024 2 28)\<lparr>w_min := 1\<rparr>)"
  by (simp_all add: noon_def valid_wall_def valid_date_def days_in_month_def search_safe_def horizon_days_def
      last_ordinal_def ordinal_def days_before_year_def days_before_month_def upt_rec wall_key_def leap_def)

lemma parse_cron_fields:
  assumes "lenient 0 59 mi" "lenient 0 23 h" "lenient 1 31 d" "lenient 1 12 mn" "lenient 0 7 w"
  shows "parse_cron (PStr (join_on '' '' (map render_field [mi, h, d, mn, w]))) =
    Inr \<lparr>c_minute = denote_field 0 59 mi, c_hour = denote_field 0 23 h, c_dom = denote_field 1 31 d,
         c_month = denote_field 1 12 mn, c_dow = (\<lambda>v. v mod 7) ` denote_field 0 7 w,
         c_minute_star = (mi = [(Any, None)]), c_hour_star = (h = [(Any, None)]),
         c_dom_star = (d = [(Any, None)]), c_month_star = (mn = [(Any, None)]), c_dow_star = (w = [(Any, None)])\<rparr>"
proof -
  have ne: "its \<in> set [mi, h, d, mn, w] \<Longrightarrow> its \<noteq> []" for its using assms by (auto simp: lenient_def)
  have "split_ws (join_on '' '' (map render_field [mi, h, d, mn, w])) = map render_field [mi, h, d, mn, w]"
    by (rule split_ws_join) (use ne render_field_token in auto)
  then have "cron_field_tokens (PStr (join_on '' '' (map render_field [mi, h, d, mn, w])))
      = Inr (map render_field [mi, h, d, mn, w])"
    by (simp add: cron_field_tokens_def Let_def del: join_on.simps)
  moreover have "parse_fields (map render_field [mi, h, d, mn, w]) =
      Inr [(denote_field 0 59 mi, mi = [(Any, None)]), (denote_field 0 23 h, h = [(Any, None)]),
           (denote_field 1 31 d, d = [(Any, None)]), (denote_field 1 12 mn, mn = [(Any, None)]),
           (denote_field 0 7 w, w = [(Any, None)])]"
    using assms by (simp add: parse_fields_def field_ranges_def parse_field_ok int_max_str_digits_def)
  ultimately show ?thesis by (simp add: parse_cron_def del: join_on.simps)
qed

section \<open>Properties\<close>

text \<open>
  C11: a well-formed expression (five fields, each a list of stars, numbers and ranges with
  optional steps) parses to its meaning: the values of each field, with day-of-week 7 read as
  0, and the star flags of the fields that are a bare star.
\<close>

theorem parse_cron_denotes:
  assumes "field_ok 0 59 mi" "field_ok 0 23 h" "field_ok 1 31 d" "field_ok 1 12 mn" "field_ok 0 7 w"
  shows "parse_cron (PStr (join_on '' '' (map render_field [mi, h, d, mn, w]))) =
    Inr \<lparr>c_minute = denote_field 0 59 mi, c_hour = denote_field 0 23 h, c_dom = denote_field 1 31 d,
         c_month = denote_field 1 12 mn, c_dow = (\<lambda>v. v mod 7) ` denote_field 0 7 w,
         c_minute_star = (mi = [(Any, None)]), c_hour_star = (h = [(Any, None)]),
         c_dom_star = (d = [(Any, None)]), c_month_star = (mn = [(Any, None)]), c_dow_star = (w = [(Any, None)])\<rparr>"
  using assms by (intro parse_cron_fields field_ok_lenient)

lemma parse_cron_denotes_witness:
  "parse_cron (PStr ''*/15 0 1-5 * 7'') =
    Inr \<lparr>c_minute = denote_field 0 59 [(Any, Some 15)], c_hour = denote_field 0 23 [(One 0, None)],
         c_dom = denote_field 1 31 [(Span 1 5, None)], c_month = denote_field 1 12 [(Any, None)],
         c_dow = (\<lambda>v. v mod 7) ` denote_field 0 7 [(One 7, None)], c_minute_star = False, c_hour_star = False,
         c_dom_star = False, c_month_star = True, c_dow_star = False\<rparr>"
proof -
  have "join_on '' '' (map render_field [[(Any, Some 15)], [(One 0, None)], [(Span 1 5, None)], [(Any, None)], [(One 7, None)]])
      = ''*/15 0 1-5 * 7''"
    by code_simp
  moreover have "length (show_nat 15) \<le> int_max_str_digits"
    by (rule order_trans[OF length_show_nat_le]) (simp add: int_max_str_digits_def)
  ultimately show ?thesis
    using parse_cron_denotes[of "[(Any, Some 15)]" "[(One 0, None)]" "[(Span 1 5, None)]" "[(Any, None)]" "[(One 7, None)]"]
    by (simp add: field_ok_def del: join_on.simps)
qed

text \<open>
  C12: when the search for the next run of a parsable expression gives a minute, it is a valid
  minute strictly after the given one, the expression matches it, and no earlier minute after
  the given one matches.
\<close>

theorem next_run_earliest:
  assumes "valid_wall base" and "valid_cron expr" and "next_run expr base = Inr (Some w)"
  shows "valid_wall w \<and> wall_key base < wall_key w \<and> cron_matches (Raw expr) w = Inr True
    \<and> (\<forall>v. valid_wall v \<and> wall_key base < wall_key v \<and> wall_key v < wall_key w
          \<longrightarrow> cron_matches (Raw expr) v = Inr False)"
proof -
  obtain p where p: "parse_cron expr = Inr p" using assms(2) by (auto simp: valid_cron_def split: sum.splits)
  then have m: "cron_matches (Raw expr) v = Inr (matches_parsed p v)" for v by (simp add: cron_matches_def)
  show ?thesis using next_run_spec[OF p assms(1,3)] by (auto simp: m not_le[symmetric])
qed

lemma next_run_earliest_witness:
  "\<exists>w. next_run (PStr ''* * * * *'') (noon 2024 2 28) = Inr (Some w)
    \<and> cron_matches (Raw (PStr ''* * * * *'')) w = Inr True"
proof -
  have v: "valid_cron (PStr ''* * * * *'')"
    using stars_match[OF noon_2024(1)] by (auto simp: valid_cron_def cron_matches_def split: sum.splits)
  obtain w where w: "next_run (PStr ''* * * * *'') (noon 2024 2 28) = Inr (Some w)"
    using next_run_some[OF noon_2024(1,2) stars_match[OF noon_2024(3)] noon_2024(3,4)]
    by (auto simp: noon_def horizon_days_def)
  then show ?thesis using next_run_earliest[OF noon_2024(1) v w] by blast
qed

text \<open>
  C13: before the last four years of the calendar the search never raises, and it finds a run
  whenever some minute after the given one, within the horizon of 1464 days, matches.
\<close>

theorem next_run_finds:
  assumes "valid_wall base" and "search_safe base"
  shows "(\<exists>r. next_run expr base = Inr r)
    \<and> (\<forall>v. valid_wall v \<and> wall_key base < wall_key v \<and> ordinal (w_date v) < ordinal (w_date base) + horizon_days
          \<and> cron_matches (Raw expr) v = Inr True \<longrightarrow> (\<exists>w. next_run expr base = Inr (Some w)))"
  using next_run_total[OF assms] next_run_some[OF assms] by blast

lemma next_run_finds_witness:
  "\<exists>w. next_run (PStr ''* * * * *'') (noon 2024 2 28) = Inr (Some w)"
  using next_run_finds[OF noon_2024(1,2), of "PStr ''* * * * *''"] noon_2024(3,4) stars_match[OF noon_2024(3)]
  by (auto simp: noon_def horizon_days_def)

text \<open>
  C21: a number with a step whose number lies beyond the field's range is accepted and means
  nothing. An expression of five fields of items in range and of such strays parses, whichever
  fields the strays are in; and when the minute, the hour or the month has nothing but strays, or
  a day field has nothing but strays while the other one is a bare star or has nothing but strays either,
  no minute ever matches it and the search for the next run finds none: the job never fires.
\<close>

theorem step_beyond_range_never_fires:
  assumes "lenient 0 59 mi" "lenient 0 23 h" "lenient 1 31 d" "lenient 1 12 mn" "lenient 0 7 w"
    and "barren 59 mi \<or> barren 23 h \<or> barren 12 mn \<or> (barren 31 d \<and> (w = [(Any, None)] \<or> barren 7 w))
      \<or> (d = [(Any, None)] \<and> barren 7 w)"
    and "valid_wall base" "search_safe base"
  shows "valid_cron (PStr (join_on '' '' (map render_field [mi, h, d, mn, w])))
    \<and> cron_matches (Raw (PStr (join_on '' '' (map render_field [mi, h, d, mn, w])))) v = Inr False
    \<and> next_run (PStr (join_on '' '' (map render_field [mi, h, d, mn, w]))) base = Inr None"
proof -
  let ?e = "PStr (join_on '' '' (map render_field [mi, h, d, mn, w]))"
  obtain c where p: "parse_cron ?e = Inr c" and c: "c_minute c = denote_field 0 59 mi" "c_hour c = denote_field 0 23 h"
    "c_dom c = denote_field 1 31 d" "c_month c = denote_field 1 12 mn" "c_dow c = (\<lambda>v. v mod 7) ` denote_field 0 7 w"
    "c_dom_star c = (d = [(Any, None)])" "c_dow_star c = (w = [(Any, None)])"
    using parse_cron_fields[OF assms(1-5)] by (simp del: join_on.simps list.map)
  have never: "\<not> matches_parsed c x" for x
    using assms(6) barren_no_star
    by (elim disjE conjE) (auto simp: matches_parsed_def in_field_def day_matches_def c barren_nothing Let_def)
  obtain r where r: "next_run ?e base = Inr r" using next_run_total[OF assms(7,8)] by blast
  have "r = None" using next_run_spec[OF p assms(7) r] never by (cases r) auto
  then show ?thesis using p r never by (simp add: valid_cron_def cron_matches_def del: join_on.simps list.map)
qed

lemma step_beyond_range_never_fires_witness:
  "valid_cron (PStr ''0 25/2 * * 1-5'') \<and> next_run (PStr ''0 25/2 * * 1-5'') (noon 2024 2 28) = Inr None"
proof -
  have e: "join_on '' '' (map render_field [[(One 0, None)], [(One 25, Some 2)], [(Any, None)], [(Any, None)], [(Span 1 5, None)]])
      = ''0 25/2 * * 1-5''"
    by code_simp
  have "length (show_nat n) \<le> int_max_str_digits" if "n \<le> 25" for n
    using length_show_nat_le[of n] that by (simp add: int_max_str_digits_def)
  then have l: "lenient 0 59 [(One 0, None)]" "lenient 0 23 [(One 25, Some 2)]" "lenient 1 31 [(Any, None)]"
    "lenient 1 12 [(Any, None)]" "lenient 0 7 [(Span 1 5, None)]" and b: "barren 23 [(One 25, Some 2)]"
    by (simp_all add: lenient_def barren_def)
  show ?thesis
    using step_beyond_range_never_fires[OF l disjI2[OF disjI1[OF b]] noon_2024(1,2), unfolded e] by blast
qed

text \<open>
  The horizon of four years does not cover a leap-day schedule everywhere: across a
  century year without a leap day (here from 1 March 2097) the 29 February expression has no
  next run, although 29 February 2104 matches it.
\<close>

theorem leap_day_missed:
  "next_run (PStr ''0 0 29 2 *'') (noon 2097 3 1) = Inr None
    \<and> cron_matches (Raw (PStr ''0 0 29 2 *'')) \<lparr>w_date = \<lparr>d_yr = 2104, d_mo = 2, d_dy = 29\<rparr>, w_hour = 0, w_min = 0\<rparr> = Inr True"
proof -
  have t: "cron_field_tokens (PStr ''0 0 29 2 *'') = Inr [''0'', ''0'', ''29'', ''2'', ''*'']" by code_simp
  have f: "parse_field ''0'' 0 59 = Inr (set [0], False)" "parse_field ''0'' 0 23 = Inr (set [0], False)"
    "parse_field ''29'' 1 31 = Inr (set [29], False)" "parse_field ''2'' 1 12 = Inr (set [2], False)"
    by code_simp+
  obtain c where c: "parse_cron (PStr ''0 0 29 2 *'') = Inr c"
    and cs: "c_minute c = {0}" "c_hour c = {0}" "c_dom c = {29}" "c_month c = {2}" "\<not> c_dom_star c" "c_dow_star c"
    unfolding parse_cron_def t
    using f by (simp add: parse_fields_def field_ranges_def parse_star int_max_str_digits_def)
  have m: "matches_parsed c v \<longleftrightarrow> w_min v = 0 \<and> w_hour v = 0 \<and> d_mo (w_date v) = 2 \<and> d_dy (w_date v) = 29" for v
    using cs by (auto simp: matches_parsed_def in_field_def day_matches_def)
  let ?b = "noon 2097 3 1"
  have b: "valid_wall ?b" "search_safe ?b" "ordinal (w_date ?b) + horizon_days < days_before_year 2102"
    "days_before_year 2097 < ordinal (w_date ?b)"
    by (simp_all add: noon_def valid_wall_def valid_date_def days_in_month_def search_safe_def horizon_days_def
        last_ordinal_def ordinal_def days_before_year_def days_before_month_def upt_rec leap_def)
  obtain r where r: "next_run (PStr ''0 0 29 2 *'') ?b = Inr r" using next_run_total[OF b(1,2)] by blast
  have "r = None"
  proof (cases r)
    case (Some w)
    with next_run_spec[OF c b(1) r] have w: "valid_date (w_date w)" "wall_key ?b < wall_key w" "matches_parsed c w"
      "ordinal (w_date w) \<le> ordinal (w_date ?b) + horizon_days"
      by (auto simp: valid_wall_def)
    have o: "ordinal (w_date ?b) \<le> ordinal (w_date w)" using w(2) by (auto simp: wall_key_def less_prod_def)
    have "d_yr (w_date w) < 2102"
      using ordinal_less_year(1)[OF w(1)] days_before_year_mono[of 2102 "d_yr (w_date w)"] w(4) b(3) by linarith
    moreover have "2097 \<le> d_yr (w_date w)"
      using ordinal_less_year(2)[OF w(1)] days_before_year_mono[of "Suc (d_yr (w_date w))" 2097] o b(4) by linarith
    ultimately have "d_yr (w_date w) = 2097 \<or> d_yr (w_date w) = 2098 \<or> d_yr (w_date w) = 2099
        \<or> d_yr (w_date w) = 2100 \<or> d_yr (w_date w) = 2101" by linarith
    then have "\<not> leap (d_yr (w_date w))" by (auto simp: leap_def)
    then show ?thesis using w m by (simp add: valid_date_def days_in_month_def)
  qed simp
  moreover have "matches_parsed c \<lparr>w_date = \<lparr>d_yr = 2104, d_mo = 2, d_dy = 29\<rparr>, w_hour = 0, w_min = 0\<rparr>"
    by (simp add: m)
  ultimately show ?thesis using r by (simp add: cron_matches_def c)
qed

end
