(* ===== verification/Sched_Jobs.thy ===== *)
theory Sched_Jobs
  imports Cron
begin

text \<open>
  The job records of the scheduler (\<open>hub/scheduler_svc.py\<close>, job storage) and the validation of
  the HTTP routes (\<open>hub/routers/scheduler_api.py\<close>). A configuration is the parsed services.yaml;
  its \<open>schedules\<close> key holds the list of job rows. Every write is a function of the configuration
  that \<open>mutate\<close> applies under the write lock; a body that raises \<open>_NoChange\<close> leaves it alone.
\<close>

section \<open>Reading job rows\<close>

definition list_jobs :: "pyval \<Rightarrow> pydict list" where
  "list_jobs data =
     (let raw = mapping_get data ''schedules'';
          rows = (case raw of PList xs \<Rightarrow> xs | PTuple xs \<Rightarrow> xs | _ \<Rightarrow> [])
      in List.map_filter plain_dict rows)"

text \<open>The identity of a job: a number, a whole float or a text; anything else is no identity.\<close>

definition job_id :: "pydict \<Rightarrow> string" where
  "job_id job =
     (case pyget job ''id'' of
        PInt i \<Rightarrow> (case py_str_of_int i of Inl _ \<Rightarrow> [] | Inr s \<Rightarrow> s)
      | PFloat (FDec m e) \<Rightarrow>
          if float_is_integer m e
          then (case py_str_of_int (float_trunc m e) of Inl _ \<Rightarrow> [] | Inr s \<Rightarrow> s) else []
      | PStr s \<Rightarrow> strip (utf8_text (PStr s))
      | _ \<Rightarrow> [])"

definition job_enabled :: "pydict \<Rightarrow> bool" where
  "job_enabled job =
     (case pyget job ''enabled'' of
        PStr s \<Rightarrow> lower (strip s) \<notin> {'''', ''0'', ''false'', ''no'', ''off'', ''n'', ''f''}
      | PBool b \<Rightarrow> b
      | PInt i \<Rightarrow> i \<noteq> 0
      | PFloat (FDec m e) \<Rightarrow> m \<noteq> 0
      | _ \<Rightarrow> False)"

definition matches_id :: "pydict \<Rightarrow> string \<Rightarrow> bool" where
  "matches_id job jid =
     (if pyget job ''id'' = PStr jid then True
      else if jid = [] then False
      else (let coerced = job_id job in coerced \<noteq> [] \<and> coerced = jid))"

definition get_job :: "pyval \<Rightarrow> string \<Rightarrow> pydict option" where
  "get_job data jid = List.find (\<lambda>j. matches_id j jid) (list_jobs data)"

section \<open>Writing job rows\<close>

text \<open>\<open>mutate(apply)\<close>, with the body's \<open>_NoChange\<close> as None.\<close>

definition mutate :: "(pydict \<Rightarrow> pydict option) \<Rightarrow> pydict \<Rightarrow> bool \<times> pydict" where
  "mutate apply data = (case apply data of None \<Rightarrow> (False, data) | Some data' \<Rightarrow> (True, data'))"

datatype save_mode = Upsert | Create | Update

definition names_row :: "string \<Rightarrow> pyval \<Rightarrow> bool" where
  \<comment> \<open>\<open>_isinst(j, dict) and _matches_id(j, job_id)\<close>\<close>
  "names_row jid j = (case plain_dict j of None \<Rightarrow> False | Some d \<Rightarrow> matches_id d jid)"

fun replace_first :: "string \<Rightarrow> pydict \<Rightarrow> pyval list \<Rightarrow> pyval list option" where
  \<comment> \<open>the row that names the id, replaced; None when no row does\<close>
  "replace_first jid r [] = None"
| "replace_first jid r (j # js) =
     (if names_row jid j then Some (PDict r # js)
      else map_option ((#) j) (replace_first jid r js))"

definition rows_for_write :: "pydict \<Rightarrow> pyval list" where
  "rows_for_write data = (case pyget data ''schedules'' of PList xs \<Rightarrow> xs | _ \<Rightarrow> [])"

definition save_job_apply :: "string \<Rightarrow> pydict \<Rightarrow> save_mode \<Rightarrow> pydict \<Rightarrow> pydict option" where
  "save_job_apply jid r mode data =
     (let jobs = rows_for_write data in
      case replace_first jid r jobs of
        Some jobs' \<Rightarrow> if mode = Create then None else Some (dict_set ''schedules'' (PList jobs') data)
      | None \<Rightarrow> if mode = Update then None else Some (dict_set ''schedules'' (PList (jobs @ [PDict r])) data))"

text \<open>\<open>jid\<close> is the record's own \<open>id\<close>.\<close>

definition save_job :: "string \<Rightarrow> pydict \<Rightarrow> save_mode \<Rightarrow> pydict \<Rightarrow> bool \<times> pydict" where
  "save_job jid r mode data = mutate (save_job_apply jid r mode) data"

text \<open>
  Iterating \<open>data.get("schedules") or []\<close>, whatever a hand-edited file holds there: a mapping
  yields its keys, a text its characters, a number raises.
\<close>

definition iter_rows :: "pyval \<Rightarrow> pyval list result" where
  "iter_rows v =
     bind_ok (py_bool v) (\<lambda>b.
       if \<not> b then Inr []
       else (case v of
               PList xs \<Rightarrow> Inr xs
             | PTuple xs \<Rightarrow> Inr xs
             | PDict d \<Rightarrow> Inr (map (\<lambda>p. PStr (fst p)) d)
             | PStr s \<Rightarrow> Inr (map (\<lambda>c. PStr [c]) s)
             | PBytes s \<Rightarrow> Inr (map (\<lambda>c. PInt (int (ordc c))) s)
             | _ \<Rightarrow> Inl TypeError))"

definition delete_job :: "string \<Rightarrow> pydict \<Rightarrow> bool result \<times> pydict" where
  "delete_job jid data =
     (case iter_rows (pyget data ''schedules'') of
        Inl e \<Rightarrow> (Inl e, data)
      | Inr jobs \<Rightarrow>
          (let kept = filter (\<lambda>j. \<not> names_row jid j) jobs
           in (Inr (length kept \<noteq> length jobs), dict_set ''schedules'' (PList kept) data)))"

fun enable_first :: "string \<Rightarrow> bool \<Rightarrow> pyval list \<Rightarrow> (pydict \<times> pyval list) option" where
  "enable_first jid en [] = None"
| "enable_first jid en (j # js) =
     (case (case plain_dict j of None \<Rightarrow> None | Some d \<Rightarrow> if matches_id d jid then Some d else None) of
        Some d \<Rightarrow> (let d' = dict_set ''enabled'' (PBool en) d in Some (d', PDict d' # js))
      | None \<Rightarrow> map_option (\<lambda>(d, rest). (d, j # rest)) (enable_first jid en js))"

definition set_enabled :: "string \<Rightarrow> bool \<Rightarrow> pydict \<Rightarrow> pydict option \<times> pydict" where
  "set_enabled jid en data =
     (case enable_first jid en (rows_for_write data) of
        None \<Rightarrow> (None, data)
      | Some (d, rows) \<Rightarrow> (Some d, dict_set ''schedules'' (PList rows) data))"

section \<open>Commands and parameters\<close>

definition job_params :: "pydict \<Rightarrow> pydict" where
  "job_params job = (case plain_dict (pyget job ''params'') of Some p \<Rightarrow> p | None \<Rightarrow> [])"

definition default_timeout :: int where "default_timeout = 3600"

definition max_timeout :: int where "max_timeout = 24 * 3600"

definition job_timeout :: "pydict \<Rightarrow> int" where
  "job_timeout job =
     (let t = (case py_bool (pyget job ''timeout'') of
                 Inl _ \<Rightarrow> default_timeout
               | Inr False \<Rightarrow> default_timeout
               | Inr True \<Rightarrow> (case py_int (pyget job ''timeout'') of Inl _ \<Rightarrow> default_timeout | Inr n \<Rightarrow> n))
      in max 1 (min t max_timeout))"

text \<open>
  \<open>_command_text\<close>. A part that is no text, or holds a control character, makes the whole
  command empty; empty parts are skipped. (Text of the model always encodes as UTF-8.)
\<close>

fun command_parts :: "pyval list \<Rightarrow> string list \<Rightarrow> string option" where
  "command_parts [] parts = Some (join_on '' '' parts)"
| "command_parts (p # ps) parts =
     (case p of
        PStr s \<Rightarrow>
          (let text = strip s in
           if text = [] then command_parts ps parts
           else if list_ex is_control text then None
           else command_parts ps (parts @ [text]))
      | _ \<Rightarrow> None)"

definition command_text :: "pyval \<Rightarrow> string" where
  "command_text raw =
     (case raw of
        PList xs \<Rightarrow> (case command_parts xs [] of None \<Rightarrow> [] | Some s \<Rightarrow> s)
      | PTuple xs \<Rightarrow> (case command_parts xs [] of None \<Rightarrow> [] | Some s \<Rightarrow> s)
      | PStr s \<Rightarrow> if list_ex is_control s then [] else strip s
      | _ \<Rightarrow> [])"

section \<open>Validation at the routes\<close>

definition is_alnum :: "char \<Rightarrow> bool" where
  "is_alnum c \<longleftrightarrow> is_digit c \<or> (65 \<le> ordc c \<and> ordc c \<le> 90) \<or> (97 \<le> ordc c \<and> ordc c \<le> 122)"

definition valid_job_id :: "string \<Rightarrow> bool" where
  "valid_job_id s \<longleftrightarrow>
     (case s of [] \<Rightarrow> False
      | c # cs \<Rightarrow> is_alnum c \<and> length cs \<le> 63 \<and> list_all (\<lambda>x. is_alnum x \<or> x \<in> {CHR ''.'', CHR ''_'', CHR ''-''}) cs)"

definition valid_stack_id :: "string \<Rightarrow> bool" where
  "valid_stack_id s \<longleftrightarrow>
     (case s of [] \<Rightarrow> False
      | c # cs \<Rightarrow> is_alnum c \<and> length cs \<le> 40 \<and> list_all (\<lambda>x. is_alnum x \<or> x \<in> {CHR ''_'', CHR ''-''}) cs)"

record job_body =
  b_id :: "string option"
  b_name :: string
  b_type :: string
  b_cron :: string
  b_enabled :: bool
  b_timeout :: "int option"
  b_params :: pydict

definition max_command_len :: nat where "max_command_len = 4000"

definition api_error :: "string \<Rightarrow> 'a result" where
  "api_error code = Inl (ApiError code)"

definition job_types :: "string list" where
  "job_types = [''command'', ''rsync'', ''stack_backup'', ''snapshot'']"

text \<open>The body is JSON, which holds no object whose conversion raises anything else.\<close>

definition validated_retain :: "pyval \<Rightarrow> int option result" where
  "validated_retain retain =
     (if retain = PNone \<or> retain = PStr [] then Inr None
      else (case py_int retain of
              Inl _ \<Rightarrow> api_error ''scheduler.bad_params''
            | Inr n \<Rightarrow> if \<not> (1 \<le> n \<and> n \<le> 365) then api_error ''scheduler.bad_params'' else Inr (Some n)))"

text \<open>\<open>rsync_validated\<close> is \<open>rsync_svc.validated\<close>.\<close>

definition validated_params :: "(pydict \<Rightarrow> pydict result) \<Rightarrow> string \<Rightarrow> pydict \<Rightarrow> pydict result" where
  "validated_params rsync_validated job_type params =
     (if job_type = ''command'' then
        (let command = command_text (pyget params ''command'') in
         if command = [] \<or> py_len command > max_command_len then api_error ''scheduler.bad_params''
         else Inr [(''command'', PStr command)])
      else if job_type = ''rsync'' then rsync_validated params
      else if job_type = ''stack_backup'' then
        bind_ok (bind_ok (py_bool (pyget params ''stack_id''))
                  (\<lambda>b. if b then py_str (pyget params ''stack_id'') else Inr []))
          (\<lambda>raw. let stack_id = strip raw in
             if \<not> valid_stack_id stack_id then api_error ''scheduler.bad_params''
             else bind_ok (validated_retain (pyget params ''retain''))
               (\<lambda>r. Inr ((''stack_id'', PStr stack_id) #
                          (case r of None \<Rightarrow> [] | Some n \<Rightarrow> [(''retain'', PInt n)]))))
      else if job_type = ''snapshot'' then Inr []
      else api_error ''scheduler.bad_type'')"

definition validated_record :: "(pydict \<Rightarrow> pydict result) \<Rightarrow> job_body \<Rightarrow> string \<Rightarrow> pydict result" where
  "validated_record rsync_validated body jid =
     (let name = strip (b_name body) in
      if name = [] then api_error ''scheduler.bad_name''
      else if b_type body \<notin> set job_types then api_error ''scheduler.bad_type''
      else
        (let cron = strip (b_cron body) in
         if \<not> valid_cron (PStr cron) then api_error ''scheduler.bad_cron''
         else bind_ok (validated_params rsync_validated (b_type body) (b_params body))
           (\<lambda>params.
             let r = [(''id'', PStr jid), (''name'', PStr name), (''type'', PStr (b_type body)),
                      (''cron'', PStr cron), (''enabled'', PBool (b_enabled body)), (''params'', PDict params)]
             in case b_timeout body of
                  None \<Rightarrow> Inr r
                | Some t \<Rightarrow>
                    if \<not> (1 \<le> t \<and> t \<le> max_timeout) then api_error ''scheduler.bad_params''
                    else Inr (r @ [(''timeout'', PInt t)]))))"

text \<open>The routes: \<open>fresh\<close> is the id \<open>new_job_id\<close> draws. The answer is the stored record.\<close>

definition create_job :: "(pydict \<Rightarrow> pydict result) \<Rightarrow> string \<Rightarrow> job_body \<Rightarrow> pydict \<Rightarrow> pydict result \<times> pydict" where
  "create_job rsync_validated fresh body data =
     (let jid = strip (case b_id body of Some s \<Rightarrow> if s = [] then fresh else s | None \<Rightarrow> fresh) in
      if \<not> valid_job_id jid then (api_error ''scheduler.bad_id'', data)
      else (case validated_record rsync_validated body jid of
              Inl e \<Rightarrow> (Inl e, data)
            | Inr r \<Rightarrow>
                (case save_job jid r Create data of
                   (False, data') \<Rightarrow> (api_error ''scheduler.exists'', data')
                 | (True, data') \<Rightarrow> (Inr r, data'))))"

definition update_job :: "(pydict \<Rightarrow> pydict result) \<Rightarrow> string \<Rightarrow> job_body \<Rightarrow> pydict \<Rightarrow> pydict result \<times> pydict" where
  "update_job rsync_validated jid body data =
     (if \<not> valid_job_id jid then (api_error ''scheduler.bad_id'', data)
      else (case validated_record rsync_validated body jid of
              Inl e \<Rightarrow> (Inl e, data)
            | Inr r \<Rightarrow>
                (case save_job jid r Update data of
                   (False, data') \<Rightarrow> (api_error ''scheduler.not_found'', data')
                 | (True, data') \<Rightarrow> (Inr r, data'))))"

definition delete_job_route :: "string \<Rightarrow> pydict \<Rightarrow> unit result \<times> pydict" where
  "delete_job_route jid data =
     (if \<not> valid_job_id jid then (api_error ''scheduler.bad_id'', data)
      else (case get_job (PDict data) jid of
              None \<Rightarrow> (api_error ''scheduler.not_found'', data)
            | Some _ \<Rightarrow>
                (case delete_job jid data of
                   (Inl e, data') \<Rightarrow> (Inl e, data')
                 | (Inr False, data') \<Rightarrow> (api_error ''scheduler.not_found'', data')
                 | (Inr True, data') \<Rightarrow> (Inr (), data'))))"

definition enable_job :: "string \<Rightarrow> bool \<Rightarrow> pydict \<Rightarrow> pydict result \<times> pydict" where
  "enable_job jid en data =
     (if \<not> valid_job_id jid then (api_error ''scheduler.bad_id'', data)
      else (case set_enabled jid en data of
              (None, data') \<Rightarrow> (api_error ''scheduler.not_found'', data')
            | (Some job, data') \<Rightarrow> (Inr job, data')))"

section \<open>The job list as a keyed collection\<close>

definition jobs_ok :: "pydict \<Rightarrow> bool" where
  "jobs_ok data \<longleftrightarrow> pyget data ''schedules'' = PNone \<or> is_list (pyget data ''schedules'')"

definition job_key :: "string \<Rightarrow> bool" where
  "job_key k \<longleftrightarrow> k \<noteq> [] \<and> strip k = k"

definition job_entry :: "string \<Rightarrow> pydict \<Rightarrow> bool" where
  "job_entry k r \<longleftrightarrow> pyget r ''id'' = PStr k"

lemma jobs_ok_cases:
  assumes "jobs_ok data"
  obtains "pyget data ''schedules'' = PNone" | xs where "pyget data ''schedules'' = PList xs"
  using assms by (cases "pyget data ''schedules''") (auto simp: jobs_ok_def)

lemma job_id_PStr: "pyget r ''id'' = PStr k \<Longrightarrow> job_id r = strip k"
  by (simp add: job_id_def)

lemma matches_id_key: "job_key k \<Longrightarrow> matches_id j k \<longleftrightarrow> job_id j = k"
  by (auto simp: matches_id_def job_key_def job_id_PStr Let_def)

lemma names_row_key: "job_key k \<Longrightarrow> names_row k j \<longleftrightarrow> (\<exists>d. j = PDict d \<and> job_id d = k)"
  by (cases j) (auto simp: names_row_def matches_id_key)

lemma list_jobs_rows: "jobs_ok data \<Longrightarrow> list_jobs (PDict data) = List.map_filter plain_dict (rows_for_write data)"
  by (erule jobs_ok_cases) (simp_all add: list_jobs_def rows_for_write_def)

lemma rows_set [simp]: "rows_for_write (dict_set ''schedules'' (PList js) data) = js"
  by (simp add: rows_for_write_def dict_simps)

lemma jobs_ok_set [simp, step_intros]: "jobs_ok (dict_set ''schedules'' (PList js) data)"
  by (simp add: jobs_ok_def dict_simps)

lemma iter_rows_ok: "jobs_ok data \<Longrightarrow> iter_rows (pyget data ''schedules'') = Inr (rows_for_write data)"
  by (erule jobs_ok_cases) (simp_all add: iter_rows_def rows_for_write_def)

definition find_job :: "string \<Rightarrow> pyval list \<Rightarrow> pydict option" where
  "find_job k js = List.find (\<lambda>j. job_id j = k) (List.map_filter plain_dict js)"

lemma find_job_simps [simp]:
  "find_job k [] = None"
  "find_job k (j # js) = (case j of PDict d \<Rightarrow> if job_id d = k then Some d else find_job k js | _ \<Rightarrow> find_job k js)"
  by (simp_all add: find_job_def map_filter_simps split: pyval.split)

lemma get_job_find: "jobs_ok data \<Longrightarrow> job_key k \<Longrightarrow> get_job (PDict data) k = find_job k (rows_for_write data)"
  by (simp add: get_job_def find_job_def list_jobs_rows matches_id_key)

lemma find_job_append: "find_job k (js @ ks) = (case find_job k js of Some d \<Rightarrow> Some d | None \<Rightarrow> find_job k ks)"
  by (induction js) (auto split: pyval.split)

lemma replace_first_Some:
  "job_key k \<Longrightarrow> job_id r = k \<Longrightarrow> replace_first k r js = Some js' \<Longrightarrow>
    find_job k' js' = (if k' = k then Some r else find_job k' js) \<and> find_job k js \<noteq> None"
proof (induction js arbitrary: js')
  case (Cons j js)
  then show ?case
    by (cases j) (auto simp: names_row_key split: if_splits)
qed simp

lemma replace_first_None: "job_key k \<Longrightarrow> replace_first k r js = None \<longleftrightarrow> find_job k js = None"
  by (induction js) (auto simp: names_row_key split: pyval.splits)

lemma find_job_delete:
  "job_key k \<Longrightarrow> find_job k' (filter (\<lambda>j. \<not> names_row k j) js) = (if k' = k then None else find_job k' js)"
  by (induction js) (auto simp: names_row_key split: pyval.splits)

lemma save_job_rows:
  assumes "jobs_ok data" "job_key k" "job_entry k r"
  shows "\<exists>js. snd (save_job k r Upsert data) = dict_set ''schedules'' (PList js) data
    \<and> (\<forall>k'. find_job k' js = (if k' = k then Some r else find_job k' (rows_for_write data)))"
proof -
  have id: "job_id r = k" using assms by (simp add: job_entry_def job_key_def job_id_PStr)
  show ?thesis
  proof (cases "replace_first k r (rows_for_write data)")
    case None
    then have "find_job k (rows_for_write data) = None" using assms(2) replace_first_None by blast
    with None id show ?thesis
      by (auto simp: save_job_def mutate_def save_job_apply_def find_job_append split: option.split)
  next
    case (Some js)
    with replace_first_Some[OF assms(2) id Some] show ?thesis
      by (auto simp: save_job_def mutate_def save_job_apply_def)
  qed
qed

interpretation jobs: store "\<lambda>data k. get_job (PDict data) k" "\<lambda>k r data. snd (save_job k r Upsert data)"
    "\<lambda>k data. snd (delete_job k data)" jobs_ok job_key job_entry
proof unfold_locales
  fix data k k' r
  assume ok: "jobs_ok data" and k: "job_key k" and e: "job_entry k r"
  obtain js where js: "snd (save_job k r Upsert data) = dict_set ''schedules'' (PList js) data"
    "\<And>k'. find_job k' js = (if k' = k then Some r else find_job k' (rows_for_write data))"
    using save_job_rows[OF ok k e] by blast
  show "get_job (PDict (snd (save_job k r Upsert data))) k' = (if k' = k then Some r else get_job (PDict data) k')"
    if "job_key k'" using that ok js by (simp add: get_job_find)
  show "jobs_ok (snd (save_job k r Upsert data))" by (simp add: js)
next
  fix data k k'
  assume ok: "jobs_ok data" and k: "job_key k"
  show "get_job (PDict (snd (delete_job k data))) k' = (if k' = k then None else get_job (PDict data) k')"
    if "job_key k'"
    using that ok k by (simp add: delete_job_def iter_rows_ok Let_def get_job_find find_job_delete)
  show "jobs_ok (snd (delete_job k data))"
    using ok k by (simp add: delete_job_def iter_rows_ok Let_def)
qed

lemma valid_job_id_key: "valid_job_id k \<Longrightarrow> job_key k"
proof -
  assume v: "valid_job_id k"
  have "list_all (\<lambda>c. \<not> is_space c) k"
    using v by (auto simp: valid_job_id_def list_all_iff is_alnum_def is_digit_def is_space_def ordc_def
        split: list.splits)
  then show "job_key k" using v strip_no_space by (auto simp: job_key_def valid_job_id_def)
qed

lemma save_modes:
  assumes "jobs_ok data" "job_key k"
  shows "save_job k r Create data
      = (if get_job (PDict data) k = None then (True, snd (save_job k r Upsert data)) else (False, data))"
    and "save_job k r Update data
      = (if get_job (PDict data) k = None then (False, data) else (True, snd (save_job k r Upsert data)))"
  using replace_first_None[OF assms(2), of r "rows_for_write data"] assms
  by (auto simp: save_job_def mutate_def save_job_apply_def get_job_find split: option.splits)

section \<open>Commands and stored records\<close>

lemma command_parts_Some:
  assumes "command_parts ps parts = Some s" and "\<forall>p \<in> set parts. p \<noteq> [] \<and> strip p = p \<and> \<not> list_ex is_control p"
  shows "\<exists>qs. s = join_on '' '' qs \<and> (\<forall>p \<in> set qs. p \<noteq> [] \<and> strip p = p \<and> \<not> list_ex is_control p)"
  using assms
proof (induction ps parts rule: command_parts.induct)
  case (2 p ps parts)
  show ?case
  proof (cases p)
    case (PStr t)
    show ?thesis
    proof (cases "strip t = []")
      case True
      with 2 PStr show ?thesis by (auto simp: Let_def)
    next
      case False
      with 2(3) PStr have no: "\<not> list_ex is_control (strip t)" and rest: "command_parts ps (parts @ [strip t]) = Some s"
        by (auto simp: Let_def split: if_splits)
      from 2(2)[OF PStr refl False no rest] 2(4) False no show ?thesis by auto
    qed
  qed (use 2 in auto)
qed auto

lemma strip_join:
  assumes "\<forall>p \<in> set qs. p \<noteq> [] \<and> strip p = p"
  shows "strip (join_on sep qs) = join_on sep qs"
proof (cases qs)
  case (Cons q qs')
  have h: "hd (join_on sep qs) = hd (hd qs)" "last (join_on sep qs) = last (last qs)" "join_on sep qs \<noteq> []"
    using join_on_ends[of qs sep] assms Cons by auto
  have "\<not> is_space (hd p) \<and> \<not> is_space (last p)" if "p \<in> set qs" for p
    using assms that strip_ends[of p] by auto
  then have "\<not> is_space (hd (hd qs))" "\<not> is_space (last (last qs))" using Cons by auto
  then show ?thesis using h by (intro strip_id) simp
qed (simp add: strip_def rstrip_def lstrip_def)

lemma command_text_clean: "strip (command_text v) = command_text v \<and> \<not> list_ex is_control (command_text v)"
proof -
  have parts: "strip s = s \<and> \<not> list_ex is_control s" if c: "command_parts xs [] = Some s" for xs s
  proof -
    obtain qs where qs: "s = join_on '' '' qs" "\<forall>p \<in> set qs. p \<noteq> [] \<and> strip p = p \<and> \<not> list_ex is_control p"
      using command_parts_Some[OF c] by auto
    have "\<not> list_ex is_control s"
      using set_join_on[of "'' ''" qs] qs by (fastforce simp: list_ex_iff is_control_def ordc_def)
    then show ?thesis using qs strip_join[of qs "'' ''"] by auto
  qed
  have nil: "strip [] = []" by (simp add: strip_def rstrip_def lstrip_def)
  have no_ctl: "\<not> list_ex is_control s \<Longrightarrow> \<not> list_ex is_control (strip s)" for s
    using set_strip[of s] by (auto simp: list_ex_iff)
  show ?thesis
    by (cases v) (auto simp: command_text_def nil no_ctl dest: parts split: option.splits)
qed

lemma command_text_idem: "command_text (PStr (command_text v)) = command_text v"
  using command_text_clean[of v] by (simp add: command_text_def)

lemma enable_first_Some:
  assumes "job_key k" "enable_first k en js = Some (d', js')"
  shows "\<exists>d. find_job k js = Some d \<and> d' = dict_set ''enabled'' (PBool en) d
    \<and> (\<forall>k'. find_job k' js' = (if k' = k then Some d' else find_job k' js))"
  using assms
proof (induction js arbitrary: js')
  case (Cons j js)
  have id: "job_id (dict_set ''enabled'' (PBool en) d) = job_id d" for d
    by (simp add: job_id_def dict_simps)
  from Cons show ?case
    by (cases j) (auto simp: matches_id_key id Let_def split: if_splits)
qed simp

lemma enable_first_None: "job_key k \<Longrightarrow> enable_first k en js = None \<longleftrightarrow> find_job k js = None"
  by (induction js) (auto simp: matches_id_key Let_def split: pyval.splits option.splits)

lemma stored_timeout: "1 \<le> t \<Longrightarrow> t \<le> max_timeout \<Longrightarrow> pyget r ''timeout'' = PInt t \<Longrightarrow> job_timeout r = t"
  by (simp add: job_timeout_def)

lemma job_timeout_bounds: "1 \<le> job_timeout r \<and> job_timeout r \<le> max_timeout"
  by (simp add: job_timeout_def max_timeout_def)

lemma if_error_Inr: "(if c then api_error code else m) = Inr r \<longleftrightarrow> \<not> c \<and> m = Inr r"
  by (simp add: api_error_def)

lemma validated_record_fields:
  assumes "validated_record rv body jid = Inr r"
  shows "pyget r ''id'' = PStr jid \<and> pyget r ''enabled'' = PBool (b_enabled body) \<and> valid_cron (pyget r ''cron'')
    \<and> (\<exists>ps. validated_params rv (b_type body) (b_params body) = Inr ps \<and> pyget r ''params'' = PDict ps)
    \<and> (\<forall>t. b_timeout body = Some t \<longrightarrow> pyget r ''timeout'' = PInt t \<and> 1 \<le> t \<and> t \<le> max_timeout)
    \<and> pyget r ''type'' = PStr (b_type body) \<and> b_type body \<in> set job_types"
proof -
  obtain ps where ps: "validated_params rv (b_type body) (b_params body) = Inr ps"
    and ok: "b_type body \<in> set job_types" "valid_cron (PStr (strip (b_cron body)))"
    and r: "(let r = [(''id'', PStr jid), (''name'', PStr (strip (b_name body))), (''type'', PStr (b_type body)),
                      (''cron'', PStr (strip (b_cron body))), (''enabled'', PBool (b_enabled body)), (''params'', PDict ps)]
             in case b_timeout body of
                  None \<Rightarrow> Inr r
                | Some t \<Rightarrow>
                    if \<not> (1 \<le> t \<and> t \<le> max_timeout) then api_error ''scheduler.bad_params''
                    else Inr (r @ [(''timeout'', PInt t)])) = Inr r"
    using assms unfolding validated_record_def Let_def if_error_Inr bind_ok_Inr_iff by blast
  show ?thesis
  proof (cases "b_timeout body")
    case None
    with r show ?thesis by (auto simp: pyget_def dict_get_def ps ok)
  next
    case (Some t)
    with r have "1 \<le> t \<and> t \<le> max_timeout" by (auto simp: if_error_Inr Let_def)
    with Some r show ?thesis by (auto simp: pyget_def dict_get_def ps ok)
  qed
qed

section \<open>Properties\<close>

text \<open>
  A record that passes the validation of the routes runs as it was validated: the engine
  reads back the same identity, the same enabled flag, a cron expression that parses, a timeout
  within bounds (the body's own when it gave one) and, for a shell job, exactly the command
  text that was validated, which is not empty.
\<close>

lemma validated_record_runs:
  assumes "valid_job_id jid" and "validated_record rv body jid = Inr r"
  shows "job_id r = jid \<and> job_enabled r = b_enabled body \<and> valid_cron (pyget r ''cron'')
    \<and> 1 \<le> job_timeout r \<and> job_timeout r \<le> max_timeout
    \<and> (case b_timeout body of None \<Rightarrow> True | Some t \<Rightarrow> job_timeout r = t)
    \<and> (b_type body = ''command'' \<longrightarrow>
        command_text (pyget (job_params r) ''command'') = command_text (pyget (b_params body) ''command'')
        \<and> command_text (pyget (b_params body) ''command'') \<noteq> [])"
proof -
  note f = validated_record_fields[OF assms(2)]
  have id: "job_id r = jid" using f valid_job_id_key[OF assms(1)] by (simp add: job_id_PStr job_key_def)
  have cmd: "command_text (pyget (job_params r) ''command'') = command_text (pyget (b_params body) ''command'')
      \<and> command_text (pyget (b_params body) ''command'') \<noteq> []" if "b_type body = ''command''"
    using f that
    by (auto simp: validated_params_def job_params_def Let_def api_error_def pyget_def dict_get_def
        command_text_idem split: if_splits)
  show ?thesis
    using f id cmd job_timeout_bounds[of r] stored_timeout[of _ r]
    by (auto simp: job_enabled_def split: option.splits)
qed

definition sample_body :: job_body where
  "sample_body = \<lparr>b_id = Some ''nightly'', b_name = ''Nightly'', b_type = ''command'', b_cron = ''30 3 * * *'',
     b_enabled = True, b_timeout = Some 60, b_params = [(''command'', PStr '' echo hi '')]\<rparr>"

lemma validated_record_runs_witness:
  "\<exists>r. validated_record (\<lambda>p. Inr p) sample_body ''nightly'' = Inr r \<and> job_id r = ''nightly'' \<and> job_timeout r = 60
    \<and> command_text (pyget (job_params r) ''command'') = ''echo hi''"
proof -
  have id: "valid_job_id ''nightly''" by code_simp
  have "validated_record (\<lambda>p. Inr p) sample_body ''nightly'' =
      Inr [(''id'', PStr ''nightly''), (''name'', PStr ''Nightly''), (''type'', PStr ''command''),
           (''cron'', PStr ''30 3 * * *''), (''enabled'', PBool True),
           (''params'', PDict [(''command'', PStr ''echo hi'')]), (''timeout'', PInt 60)]" (is "_ = Inr ?r")
    by code_simp
  moreover have "command_text (PStr '' echo hi '') = ''echo hi''" by code_simp
  ultimately show ?thesis
    using validated_record_runs[OF id, of "\<lambda>p. Inr p" sample_body ?r] by (simp add: sample_body_def pyget_def dict_get_def)
qed

text \<open>
  Creating a job stores exactly the validated record under an identity that was free, and
  leaves every other job as it was; a refused creation changes nothing.
\<close>

lemma create_job_stores:
  assumes "jobs_ok data" and "create_job rv fresh body data = (res, data')"
  shows "case res of
      Inl e \<Rightarrow> data' = data
    | Inr r \<Rightarrow> get_job (PDict data) (job_id r) = None \<and> get_job (PDict data') (job_id r) = Some r
        \<and> jobs_ok data' \<and> (\<forall>k. job_key k \<and> k \<noteq> job_id r \<longrightarrow> get_job (PDict data') k = get_job (PDict data) k)"
proof (cases res)
  case (Inl e)
  with assms show ?thesis
    by (auto simp: create_job_def Let_def api_error_def save_job_def mutate_def
        split: if_splits sum.splits prod.splits option.splits bool.splits)
next
  case (Inr r)
  define jid where "jid = strip (case b_id body of Some s \<Rightarrow> if s = [] then fresh else s | None \<Rightarrow> fresh)"
  have v: "valid_job_id jid" "validated_record rv body jid = Inr r" and s: "save_job jid r Create data = (True, data')"
    using assms(2) Inr
    by (auto simp: create_job_def Let_def api_error_def jid_def split: if_splits sum.splits prod.splits bool.splits)
  have k: "job_key jid" using valid_job_id_key v(1) .
  have e: "job_entry jid r" and id: "job_id r = jid"
    using validated_record_fields[OF v(2)] k by (simp_all add: job_entry_def job_key_def job_id_PStr)
  have "get_job (PDict data) jid = None" "data' = snd (save_job jid r Upsert data)"
    using s save_modes(1)[OF assms(1) k, of r] by (auto split: if_splits)
  then show ?thesis
    using jobs.get_put[OF assms(1) k _ e] jobs.ok_put[OF assms(1) k e] k id Inr by simp
qed

text \<open>
  After a delete through the route the job is gone and every other job is as it was; a job
  that was not there gives the not-found answer.
\<close>

lemma delete_job_removes:
  assumes "jobs_ok data" and "valid_job_id jid" and "job_key k"
  shows "fst (delete_job_route jid data) =
      (if get_job (PDict data) jid = None then api_error ''scheduler.not_found'' else Inr ())
    \<and> get_job (PDict (snd (delete_job_route jid data))) k = (if k = jid then None else get_job (PDict data) k)"
proof -
  have key: "job_key jid" by (rule valid_job_id_key[OF assms(2)])
  let ?kept = "filter (\<lambda>j. \<not> names_row jid j) (rows_for_write data)"
  have del: "delete_job jid data
      = (Inr (length ?kept \<noteq> length (rows_for_write data)), dict_set ''schedules'' (PList ?kept) data)"
    using assms by (simp add: delete_job_def iter_rows_ok Let_def)
  have "find_job jid (rows_for_write data) = None" if "length ?kept = length (rows_for_write data)"
  proof -
    have "?kept = rows_for_write data"
      using that by (metis filter_True length_filter_less nat_less_le)
    then show ?thesis using find_job_delete[OF key, of jid "rows_for_write data"] by simp
  qed
  then have some: "get_job (PDict data) jid \<noteq> None \<Longrightarrow> length ?kept \<noteq> length (rows_for_write data)"
    using get_job_find[OF assms(1) key] by auto
  have gone: "get_job (PDict (snd (delete_job jid data))) k = (if k = jid then None else get_job (PDict data) k)"
    by (rule jobs.get_del[OF assms(1) key assms(3)])
  show ?thesis
    using some gone assms(2) by (auto simp: delete_job_route_def del split: option.split)
qed

definition sample_data :: pydict where
  "sample_data = [(''schedules'', PList [PDict [(''id'', PStr ''a''), (''enabled'', PStr ''off'')], PDict [(''id'', PInt 7)]])]"

text \<open>
  The enable route answers the job with its flag set as asked, stores that record and
  leaves every other job as it was.
\<close>

lemma enable_job_sets:
  assumes "jobs_ok data" and "valid_job_id jid" and "get_job (PDict data) jid = Some d" and "job_key k"
  shows "fst (enable_job jid en data) = Inr (dict_set ''enabled'' (PBool en) d)
    \<and> job_enabled (dict_set ''enabled'' (PBool en) d) = en
    \<and> get_job (PDict (snd (enable_job jid en data))) k
      = (if k = jid then Some (dict_set ''enabled'' (PBool en) d) else get_job (PDict data) k)"
proof -
  have key: "job_key jid" by (rule valid_job_id_key[OF assms(2)])
  have found: "find_job jid (rows_for_write data) = Some d" using assms get_job_find[OF assms(1) key] by simp
  then have "enable_first jid en (rows_for_write data) \<noteq> None" using enable_first_None[OF key] by simp
  then obtain d' js where e: "enable_first jid en (rows_for_write data) = Some (d', js)" by auto
  from enable_first_Some[OF key e] found
  have d': "d' = dict_set ''enabled'' (PBool en) d"
    and js: "find_job k' js = (if k' = jid then Some d' else find_job k' (rows_for_write data))" for k' by auto
  show ?thesis
    using assms d' js by (simp add: enable_job_def set_enabled_def e job_enabled_def dict_simps get_job_find)
qed

text \<open>
  C17: each route changes the one job it names. Deleting through the route removes exactly that job
  (or answers not-found), toggling sets exactly that job's flag and answers it, and creating
  stores exactly the validated record under an identity that was free, or changes nothing when it is refused.
\<close>

theorem job_routes_change_one_job:
  assumes "jobs_ok data" and "valid_job_id jid" and "job_key k"
  shows "fst (delete_job_route jid data) =
      (if get_job (PDict data) jid = None then api_error ''scheduler.not_found'' else Inr ())
    \<and> get_job (PDict (snd (delete_job_route jid data))) k = (if k = jid then None else get_job (PDict data) k)
    \<and> (\<forall>d. get_job (PDict data) jid = Some d \<longrightarrow>
        fst (enable_job jid en data) = Inr (dict_set ''enabled'' (PBool en) d)
        \<and> job_enabled (dict_set ''enabled'' (PBool en) d) = en
        \<and> get_job (PDict (snd (enable_job jid en data))) k
          = (if k = jid then Some (dict_set ''enabled'' (PBool en) d) else get_job (PDict data) k))
    \<and> (case create_job rv fresh body data of
        (Inl e, data') \<Rightarrow> data' = data
      | (Inr r, data') \<Rightarrow> get_job (PDict data) (job_id r) = None \<and> jobs_ok data'
          \<and> get_job (PDict data') k = (if k = job_id r then Some r else get_job (PDict data) k))"
proof -
  obtain res data' where c: "create_job rv fresh body data = (res, data')" by fastforce
  show ?thesis
    using delete_job_removes[OF assms] enable_job_sets[OF assms(1,2) _ assms(3)] create_job_stores[OF assms(1) c] assms(3)
    by (auto simp: c split: sum.splits)
qed

lemma job_routes_change_one_job_witness:
  "fst (delete_job_route ''a'' sample_data) = Inr ()
    \<and> get_job (PDict (snd (delete_job_route ''a'' sample_data))) ''7'' \<noteq> None
    \<and> fst (enable_job ''a'' True sample_data) = Inr [(''id'', PStr ''a''), (''enabled'', PBool True)]"
proof -
  have "jobs_ok sample_data" by (simp add: jobs_ok_def sample_data_def pyget_def dict_get_def)
  moreover have "valid_job_id ''7''" "valid_job_id ''a''" by code_simp+
  moreover have "get_job (PDict sample_data) ''7'' = Some [(''id'', PInt 7)]"
    "get_job (PDict sample_data) ''a'' = Some [(''id'', PStr ''a''), (''enabled'', PStr ''off'')]"
    by code_simp+
  ultimately show ?thesis
    using job_routes_change_one_job[of sample_data "''a''" "''7''" True] valid_job_id_key by (auto simp: dict_set_def)
qed

end
