(* ===== verification/Sched_Engine.thy ===== *)
theory Sched_Engine
  imports Sched_Jobs
begin

text \<open>
  The scheduler's execution and its engine loop (\<open>hub/scheduler_svc.py\<close>): the run journal, the
  runners, one execution split at its two critical sections, the failure streaks that reach the
  alert pipeline, and the minute tick with its high-water mark. Runs of different threads
  interleave: \<open>sched_step\<close> is the step relation of the whole engine.

  What a job starts outside this file (the watchdog executor, rsync, stack backup, snapshot)
  enters as the fields of \<open>services\<close>; clocks are the readings handed to each call, None for a
  reading that is not finite.
\<close>

section \<open>State\<close>

datatype run_status = RunOk | RunTimeout | RunFailed | RunSkipped

record entry =
  e_ts :: int
  e_end :: int
  e_job :: string
  e_name :: pyval
  e_type :: pyval
  e_trigger :: string
  e_status :: run_status
  e_rc :: "int option"
  e_tail :: string
  e_duration :: rat

record alert =
  al_id :: string
  al_message :: string

record engine =
  g_running :: "string set"
  g_fails :: "(string, int) dict"
  g_journal :: "string list"
  g_last_trim :: rat
  g_alerts :: "alert list"
  g_last :: "wall option"

text \<open>What the runners call: the log they return, and an exit code or the text of an exception.\<close>

type_synonym outcome = "string list \<times> (string + int)"

record services =
  sv_watchdog :: "string list \<Rightarrow> int \<Rightarrow> string list \<Rightarrow> string list \<times> int"
  sv_rsync :: "pydict \<Rightarrow> int \<Rightarrow> string \<Rightarrow> string list \<Rightarrow> outcome"
  sv_backup :: "string \<Rightarrow> int \<Rightarrow> string list \<Rightarrow> string list \<times> (string + bool)"
  sv_snapshot :: "string + (string option \<times> bool)"

section \<open>Clocks\<close>

definition trunc_rat :: "rat \<Rightarrow> int" where
  "trunc_rat r = (if 0 \<le> r then \<lfloor>r\<rfloor> else \<lceil>r\<rceil>)"

definition epoch_int :: "rat option \<Rightarrow> int" where
  "epoch_int raw = (case raw of None \<Rightarrow> 0 | Some r \<Rightarrow> trunc_rat r)"

definition round_half_even :: "rat \<Rightarrow> int" where
  "round_half_even x =
     (let f = \<lfloor>x\<rfloor>; d = x - of_int f in
      if d < 1 / 2 then f else if 1 / 2 < d then f + 1 else if even f then f else f + 1)"

definition finite_duration :: "rat option \<Rightarrow> rat option \<Rightarrow> rat" where
  "finite_duration ended started =
     (case (ended, started) of
        (Some e, Some s) \<Rightarrow> of_int (round_half_even ((e - s) * 10)) / 10
      | _ \<Rightarrow> 0)"

section \<open>The run journal\<close>

definition max_runs :: nat where "max_runs = 1000"

definition trim_soft_bytes :: nat where "trim_soft_bytes = max_runs * 600"

definition trim_interval :: rat where "trim_interval = 3600"

text \<open>
  The journal as its physical lines, each closed by a newline. What stands between records and lines is the
  JSON library of Python: \<open>cd_line\<close> is the text of a record's line, None where encoding it raises, and
  \<open>cd_read\<close> the record a line parses to, None for any text that is no object.
\<close>

record codec =
  cd_line :: "entry \<Rightarrow> string option"
  cd_read :: "string \<Rightarrow> entry option"

text \<open>Whether one call's append went through (whole or not at all), and whether its trim did.\<close>

record journal_disk =
  jd_append :: bool
  jd_trim :: bool

text \<open>
  \<open>str.splitlines\<close>. Besides the ASCII controls it cuts at U+0085, U+2028 and U+2029, which JSON text
  may hold; \<open>break_len\<close> is the number of bytes of the boundary a text starts with, 0 if none.
\<close>

fun break_len :: "string \<Rightarrow> nat" where
  "break_len [] = 0"
| "break_len (c # cs) =
     (if ordc c = 13 then (if map ordc (take 1 cs) = [10] then 2 else 1)
      else if ordc c \<in> {10, 11, 12, 28, 29, 30} then 1
      else if ordc c = 194 \<and> map ordc (take 1 cs) = [133] then 2
      else if ordc c = 226 \<and> map ordc (take 2 cs) \<in> {[128, 168], [128, 169]} then 3
      else 0)"

function lines_from :: "string \<Rightarrow> string \<Rightarrow> string list" where
  "lines_from acc [] = (if acc = [] then [] else [rev acc])"
| "lines_from acc (c # cs) =
     (case break_len (c # cs) of
        0 \<Rightarrow> lines_from (c # acc) cs
      | Suc n \<Rightarrow> rev acc # lines_from [] (drop n cs))"
  by pat_completeness auto

termination
  by (relation "measure (length \<circ> snd)") auto

definition newline :: char where "newline = char_of (10::nat)"

definition file_text :: "string list \<Rightarrow> string" where
  "file_text ls = concat (map (\<lambda>l. l @ [newline]) ls)"

definition file_bytes :: "string list \<Rightarrow> nat" where
  "file_bytes ls = length (file_text ls)"

text \<open>
  \<open>tail_file_lines\<close>: a read that starts inside the file drops everything up to its first newline, so
  what is left of a file larger than the cap is its longest suffix of lines shorter than the cap.
\<close>

fun suffix_below :: "nat \<Rightarrow> string list \<Rightarrow> string list" where
  "suffix_below cap [] = []"
| "suffix_below cap (x # xs) = (if file_bytes (x # xs) < cap then x # xs else suffix_below cap xs)"

definition tail_lines :: "nat \<Rightarrow> nat \<Rightarrow> string list \<Rightarrow> string list" where
  "tail_lines n cap ls =
     (let kept = (if file_bytes ls \<le> cap then ls else suffix_below cap ls);
          rows = lines_from [] (file_text kept)
      in drop (length rows - n) rows)"

text \<open>\<open>_record_run\<close>; \<open>now\<close> is the reading after the append.\<close>

definition record_run :: "codec \<Rightarrow> journal_disk \<Rightarrow> rat \<Rightarrow> entry \<Rightarrow> engine \<Rightarrow> engine" where
  "record_run cd jd now e g =
     (case cd_line cd e of
        None \<Rightarrow> g
      | Some l \<Rightarrow>
          if \<not> jd_append jd then g
          else
            (let g = g\<lparr>g_journal := g_journal g @ [l]\<rparr> in
             if now - g_last_trim g < trim_interval then g
             else
               (let g = g\<lparr>g_last_trim := now\<rparr> in
                if \<not> jd_trim jd then g
                else if file_bytes (g_journal g) \<le> trim_soft_bytes then g
                else
                  (let ls = tail_lines max_runs (max (trim_soft_bytes * 2) (256 * 1024)) (g_journal g)
                   in if ls = [] then g else g\<lparr>g_journal := ls\<rparr>))))"

definition journal_lines :: "string list \<Rightarrow> string list" where
  "journal_lines journal = tail_lines max_runs (max trim_soft_bytes (256 * 1024)) journal"

text \<open>The readers; a journal that cannot be read counts as empty, so \<open>journal\<close> is then the empty list.\<close>

definition runs :: "codec \<Rightarrow> string list \<Rightarrow> string \<Rightarrow> int \<Rightarrow> entry list" where
  "runs cd journal jid limit =
     (let cap = nat (max 1 (min limit (int max_runs)));
          rows = List.map_filter (cd_read cd) (rev (journal_lines journal))
      in take cap (filter (\<lambda>e. jid = [] \<or> e_job e = jid) rows))"

definition last_run :: "codec \<Rightarrow> string list \<Rightarrow> string \<Rightarrow> entry option" where
  "last_run cd journal jid = (case runs cd journal jid 1 of [] \<Rightarrow> None | e # _ \<Rightarrow> Some e)"

fun newest_by_job :: "entry list \<Rightarrow> (string, entry) dict \<Rightarrow> (string, entry) dict" where
  "newest_by_job [] out = out"
| "newest_by_job (e # es) out =
     newest_by_job es
       (if e_job e \<noteq> [] \<and> dict_get out (e_job e) = None then dict_set (e_job e) e out else out)"

definition last_runs_by_job :: "codec \<Rightarrow> string list \<Rightarrow> (string, entry) dict" where
  "last_runs_by_job cd journal = newest_by_job (List.map_filter (cd_read cd) (rev (journal_lines journal))) []"

section \<open>Runners\<close>

definition run_command :: "services \<Rightarrow> pydict \<Rightarrow> string list \<Rightarrow> outcome" where
  "run_command sv job lg =
     (let command = command_text (pyget (job_params job) ''command'') in
      if strip command = [] then (lg @ [''!! no command configured''], Inr (- 1))
      else (case sv_watchdog sv [''/bin/bash'', ''-c'', command] (job_timeout job) (lg @ [''$ '' @ command]) of
              (lg', rc) \<Rightarrow> (lg', Inr rc)))"

definition run_rsync :: "services \<Rightarrow> pydict \<Rightarrow> string list \<Rightarrow> outcome" where
  "run_rsync sv job lg = sv_rsync sv (job_params job) (job_timeout job) (job_id job) lg"

definition default_retain :: int where "default_retain = 14"

definition exc_text :: "py_error \<Rightarrow> string" where
  "exc_text e = (case e of ValueError \<Rightarrow> ''ValueError'' | TypeError \<Rightarrow> ''TypeError''
     | OverflowError \<Rightarrow> ''OverflowError'' | RuntimeError \<Rightarrow> ''RuntimeError'' | ApiError c \<Rightarrow> c)"

definition or_str :: "pyval \<Rightarrow> string result" where
  \<comment> \<open>\<open>str(v or "")\<close>\<close>
  "or_str v = bind_ok (py_bool v) (\<lambda>b. if b then py_str v else Inr [])"

definition run_stack_backup :: "services \<Rightarrow> pydict \<Rightarrow> string list \<Rightarrow> outcome" where
  "run_stack_backup sv job lg =
     (case or_str (pyget (job_params job) ''stack_id'') of
        Inl e \<Rightarrow> (lg, Inl (exc_text e))
      | Inr [] \<Rightarrow> (lg @ [''!! no stack configured''], Inr (- 1))
      | Inr stack_id \<Rightarrow>
          (case bind_ok (py_bool (pyget (job_params job) ''retain''))
                  (\<lambda>b. if b then py_int (pyget (job_params job) ''retain'') else Inr default_retain) of
             Inl RuntimeError \<Rightarrow> (lg, Inl (exc_text RuntimeError))
           | r \<Rightarrow>
               (case sv_backup sv stack_id (case r of Inl _ \<Rightarrow> default_retain | Inr n \<Rightarrow> n) lg of
                  (lg', Inl x) \<Rightarrow> (lg', Inl x)
                | (lg', Inr ok) \<Rightarrow> (lg', Inr (if ok then 0 else 1)))))"

definition run_snapshot :: "services \<Rightarrow> pydict \<Rightarrow> string list \<Rightarrow> outcome" where
  "run_snapshot sv job lg =
     (case sv_snapshot sv of
        Inl x \<Rightarrow> (lg, Inl x)
      | Inr (message, ok) \<Rightarrow>
          (lg @ (case message of None \<Rightarrow> [] | Some [] \<Rightarrow> [] | Some m \<Rightarrow> [m]), Inr (if ok then 0 else 1)))"

text \<open>The try block of \<open>_execute\<close>: the runner of the job's type, an exception giving exit code -1.\<close>

definition run_job :: "services \<Rightarrow> pydict \<Rightarrow> string list \<times> int" where
  "run_job sv job =
     (case (case or_str (pyget job ''type'') of
              Inl e \<Rightarrow> ([], Inl (exc_text e))
            | Inr ty \<Rightarrow>
                if ty = ''command'' then run_command sv job []
                else if ty = ''rsync'' then run_rsync sv job []
                else if ty = ''stack_backup'' then run_stack_backup sv job []
                else if ty = ''snapshot'' then run_snapshot sv job []
                else ([''!! unknown job type: '' @ utf8_text (pyget job ''type'')], Inr (- 1))) of
        (lg, Inr rc) \<Rightarrow> (lg, rc)
      | (lg, Inl x) \<Rightarrow> (lg @ [''!! error: '' @ x], - 1))"

section \<open>One execution\<close>

definition job_label :: "pydict \<Rightarrow> string \<Rightarrow> pyval" where
  "job_label job jid = (case py_bool (pyget job ''name'') of Inr True \<Rightarrow> pyget job ''name'' | _ \<Rightarrow> PStr jid)"

definition failure_alert_after :: int where "failure_alert_after = 2"

definition rc_text :: "int option \<Rightarrow> string" where
  "rc_text rc = (case rc of None \<Rightarrow> ''None'' | Some n \<Rightarrow> show_int n)"

definition alert_message :: "string \<Rightarrow> int \<Rightarrow> int option \<Rightarrow> string" where
  "alert_message label count rc =
     ''scheduled task '' @ [CHR 39] @ label @ [CHR 39] @ '' failed '' @ show_int count
     @ '' times in a row (last exit '' @ rc_text rc @ '')''"

definition alert_on_failure :: "pydict \<Rightarrow> entry \<Rightarrow> engine \<Rightarrow> engine" where
  "alert_on_failure job e g =
     (let jid = job_id job in
      if jid = [] then g
      else if e_status e = RunOk then g\<lparr>g_fails := dict_del jid (g_fails g)\<rparr>
      else if e_status e = RunSkipped then g
      else
        (let prev = (case dict_get (g_fails g) jid of None \<Rightarrow> 0 | Some n \<Rightarrow> n);
             prev = (if \<not> (0 \<le> prev \<and> prev < 1000000) then 0 else prev);
             count = prev + 1;
             g = g\<lparr>g_fails := dict_set jid count (g_fails g)\<rparr>
         in if count < failure_alert_after then g
            else (case py_str (job_label job jid) of
                    Inl _ \<Rightarrow> g
                  | Inr label \<Rightarrow>
                      g\<lparr>g_alerts := g_alerts g @ [\<lparr>al_id = ''schedule:'' @ jid, al_message = alert_message label count (e_rc e)\<rparr>]\<rparr>)))"

definition tail_chars :: nat where "tail_chars = 2000"

definition log_tail :: "string list \<Rightarrow> string" where
  "log_tail lg = py_tail tail_chars (join_on [char_of (10::nat)] lg)"

definition status_of_rc :: "int \<Rightarrow> run_status" where
  "status_of_rc rc = (if rc = 0 then RunOk else if rc = 124 then RunTimeout else RunFailed)"

datatype begun = NoIdentity | Overlap entry | Started

text \<open>\<open>_execute\<close> up to the end of its first critical section.\<close>

definition execute_begin :: "codec \<Rightarrow> journal_disk \<Rightarrow> rat \<Rightarrow> pydict \<Rightarrow> string \<Rightarrow> rat option \<Rightarrow> engine \<Rightarrow> begun \<times> engine" where
  "execute_begin cd jd now job trigger started g =
     (let jid = job_id job in
      if jid = [] then (NoIdentity, g)
      else if jid \<in> g_running g then
        (let e = \<lparr>e_ts = epoch_int started, e_end = epoch_int started, e_job = jid, e_name = job_label job jid,
                  e_type = pyget job ''type'', e_trigger = trigger, e_status = RunSkipped, e_rc = None,
                  e_tail = ''previous run still in progress'', e_duration = 0\<rparr>
         in (Overlap e, record_run cd jd now e g))
      else (Started, g\<lparr>g_running := insert jid (g_running g)\<rparr>))"

text \<open>From the runner's return on: the identity leaves the running set, the run is journalled.\<close>

definition execute_end ::
  "codec \<Rightarrow> journal_disk \<Rightarrow> rat \<Rightarrow> services \<Rightarrow> pydict \<Rightarrow> string \<Rightarrow> rat option \<Rightarrow> rat option \<Rightarrow> engine \<Rightarrow> entry \<times> engine" where
  "execute_end cd jd now sv job trigger started ended g =
     (let jid = job_id job; (lg, rc) = run_job sv job;
          g = g\<lparr>g_running := g_running g - {jid}\<rparr>;
          e = \<lparr>e_ts = epoch_int started, e_end = epoch_int ended, e_job = jid, e_name = job_label job jid,
               e_type = pyget job ''type'', e_trigger = trigger, e_status = status_of_rc rc, e_rc = Some rc,
               e_tail = log_tail lg, e_duration = finite_duration ended started\<rparr>
      in (e, alert_on_failure job e (record_run cd jd now e g)))"

text \<open>One whole call, with no other thread in between.\<close>

definition execute ::
  "codec \<Rightarrow> journal_disk \<Rightarrow> rat \<Rightarrow> services \<Rightarrow> pydict \<Rightarrow> string \<Rightarrow> rat option \<Rightarrow> rat option \<Rightarrow> engine \<Rightarrow> entry option \<times> engine" where
  "execute cd jd now sv job trigger started ended g =
     (case execute_begin cd jd now job trigger started g of
        (NoIdentity, g') \<Rightarrow> (None, g')
      | (Overlap e, g') \<Rightarrow> (Some e, g')
      | (Started, g') \<Rightarrow> (case execute_end cd jd now sv job trigger started ended g' of (e, g'') \<Rightarrow> (Some e, g'')))"

definition is_running :: "string \<Rightarrow> engine \<Rightarrow> bool" where
  "is_running jid g \<longleftrightarrow> jid \<in> g_running g"

section \<open>The tick\<close>

definition minute_key :: "wall \<Rightarrow> nat \<times> nat \<times> nat \<times> nat \<times> nat" where
  "minute_key t = (d_yr (w_date t), d_mo (w_date t), d_dy (w_date t), w_hour t, w_min t)"

definition wall_minutes :: "wall \<Rightarrow> int" where
  "wall_minutes t = int (ordinal (w_date t) * 1440 + w_hour t * 60 + w_min t)"

definition backward_resync :: int where "backward_resync = 180"

definition due_jobs :: "pyval \<Rightarrow> wall \<Rightarrow> pydict list" where
  "due_jobs data now =
     filter (\<lambda>job. job_id job \<noteq> [] \<and> job_enabled job
               \<and> (case cron_matches (Raw (pyget job ''cron'')) now of Inl _ \<Rightarrow> False | Inr b \<Rightarrow> b))
       (list_jobs data)"

text \<open>\<open>now\<close> is the local minute, None when the clock has no usable reading; the result is the jobs launched.\<close>

definition tick_once :: "pyval \<Rightarrow> wall option \<Rightarrow> engine \<Rightarrow> pydict list \<times> engine" where
  "tick_once data now_opt g =
     (case now_opt of
        None \<Rightarrow> ([], g)
      | Some now \<Rightarrow>
          (case g_last g of
             None \<Rightarrow> (due_jobs data now, g\<lparr>g_last := Some now\<rparr>)
           | Some mark \<Rightarrow>
               if minute_key now = minute_key mark then ([], g)
               else if minute_key now < minute_key mark then
                 (if wall_minutes mark - wall_minutes now \<le> backward_resync then ([], g)
                  else ([], g\<lparr>g_last := Some now\<rparr>))
               else (due_jobs data now, g\<lparr>g_last := Some now\<rparr>)))"

definition start_scheduler :: "wall option \<Rightarrow> engine \<Rightarrow> engine" where
  "start_scheduler boot g = g\<lparr>g_last := boot\<rparr>"

end
