(* ===== verification/Sched_Safety.thy ===== *)
theory Sched_Safety
  imports Sched_Engine
begin

text \<open>
  What the scheduler promises: runs of one job never overlap, however ticks, manual triggers
  and run threads interleave; a minute is never replayed after a small backwards clock step;
  what a run leaves in the journal, whose newest line the bound never drops; the single-pass
  listing of last runs agrees with the per-job lookup; failure streaks count exactly.
\<close>

section \<open>The engine as a step relation\<close>

datatype phase = Waiting | Active "rat option"

type_synonym thread = "pydict \<times> string \<times> phase"

record sched =
  s_eng :: engine
  s_threads :: "thread list"

definition spawn :: "pydict list \<Rightarrow> string \<Rightarrow> thread list" where
  "spawn jobs trigger = map (\<lambda>j. (j, trigger, Waiting)) jobs"

text \<open>
  \<open>run_job_now\<close>: a thread of its own by default; with \<open>wait\<close> the run itself, on the caller's thread. In the
  step relation below such a caller is a thread like any other.
\<close>

datatype triggered = NotFound | Spawned "thread list" | Ran bool "entry option"

definition run_job_now ::
  "codec \<Rightarrow> journal_disk \<Rightarrow> rat \<Rightarrow> services \<Rightarrow> rat option \<Rightarrow> rat option \<Rightarrow> pyval \<Rightarrow> string \<Rightarrow> bool \<Rightarrow> engine
    \<Rightarrow> triggered \<times> engine" where
  "run_job_now cd jd now sv started ended data jid wait g =
     (case get_job data jid of
        None \<Rightarrow> (NotFound, g)
      | Some job \<Rightarrow>
          if wait then
            (case execute cd jd now sv job ''manual'' started ended g of
               (r, g') \<Rightarrow> (Ran (case r of None \<Rightarrow> False | Some e \<Rightarrow> e_status e = RunOk) r, g'))
          else (Spawned (spawn [job] ''manual''), g))"

inductive sched_step :: "codec \<Rightarrow> services \<Rightarrow> sched \<Rightarrow> sched \<Rightarrow> bool"
  for cd :: codec and sv :: services where
  tick: "tick_once data now (s_eng s) = (jobs, g) \<Longrightarrow>
    sched_step cd sv s (s\<lparr>s_eng := g, s_threads := s_threads s @ spawn jobs ''schedule''\<rparr>)"
| manual: "run_job_now cd jd now sv started ended data jid False (s_eng s) = (Spawned ts, g) \<Longrightarrow>
    sched_step cd sv s (s\<lparr>s_eng := g, s_threads := s_threads s @ ts\<rparr>)"
| begin_run: "s_threads s = us @ (job, tr, Waiting) # vs \<Longrightarrow>
    execute_begin cd jd now job tr started (s_eng s) = (Started, g) \<Longrightarrow>
    sched_step cd sv s (s\<lparr>s_eng := g, s_threads := us @ (job, tr, Active started) # vs\<rparr>)"
| skip_run: "s_threads s = us @ (job, tr, Waiting) # vs \<Longrightarrow>
    execute_begin cd jd now job tr started (s_eng s) = (b, g) \<Longrightarrow> b \<noteq> Started \<Longrightarrow>
    sched_step cd sv s (s\<lparr>s_eng := g, s_threads := us @ vs\<rparr>)"
| end_run: "s_threads s = us @ (job, tr, Active started) # vs \<Longrightarrow>
    execute_end cd jd now sv job tr started ended (s_eng s) = (e, g) \<Longrightarrow>
    sched_step cd sv s (s\<lparr>s_eng := g, s_threads := us @ vs\<rparr>)"

inductive_cases sched_stepE: "sched_step cd sv s t"

definition init_sched :: "wall option \<Rightarrow> sched" where
  "init_sched boot =
     \<lparr>s_eng = start_scheduler boot \<lparr>g_running = {}, g_fails = [], g_journal = [], g_last_trim = 0,
                                    g_alerts = [], g_last = None\<rparr>,
      s_threads = []\<rparr>"

fun active_id :: "thread \<Rightarrow> string option" where
  "active_id (job, tr, Active st) = Some (job_id job)"
| "active_id (job, tr, Waiting) = None"

definition active_ids :: "thread list \<Rightarrow> string list" where
  "active_ids ts = List.map_filter active_id ts"

definition sched_inv :: "sched \<Rightarrow> bool" where
  "sched_inv s \<longleftrightarrow> distinct (active_ids (s_threads s)) \<and> set (active_ids (s_threads s)) = g_running (s_eng s)"

lemma active_ids_simps [simp]:
  "active_ids [] = []"
  "active_ids (us @ vs) = active_ids us @ active_ids vs"
  "active_ids ((job, tr, Active st) # ts) = job_id job # active_ids ts"
  "active_ids ((job, tr, Waiting) # ts) = active_ids ts"
  by (simp_all add: active_ids_def map_filter_def)

lemma active_ids_spawn [simp]: "active_ids (spawn jobs tr) = []"
  by (induction jobs) (simp_all add: spawn_def)

lemma record_run_frame [simp]:
  "g_running (record_run cd jd now e g) = g_running g" "g_fails (record_run cd jd now e g) = g_fails g"
  "g_alerts (record_run cd jd now e g) = g_alerts g" "g_last (record_run cd jd now e g) = g_last g"
  by (simp_all add: record_run_def Let_def split: option.split)

lemma alert_frame [simp]:
  "g_running (alert_on_failure job e g) = g_running g" "g_journal (alert_on_failure job e g) = g_journal g"
  by (simp_all add: alert_on_failure_def Let_def split: sum.split)

lemma tick_frame: "tick_once data now g = (jobs, g') \<Longrightarrow> g_running g' = g_running g"
  by (auto simp: tick_once_def split: option.splits if_splits)

lemma begin_Started:
  "execute_begin cd jd now job tr st g = (Started, g') \<Longrightarrow>
    job_id job \<notin> g_running g \<and> g' = g\<lparr>g_running := insert (job_id job) (g_running g)\<rparr>"
  by (auto simp: execute_begin_def Let_def split: if_splits)

lemma begin_other: "execute_begin cd jd now job tr st g = (b, g') \<Longrightarrow> b \<noteq> Started \<Longrightarrow> g_running g' = g_running g"
  by (auto simp: execute_begin_def Let_def split: if_splits)

lemma end_running:
  "execute_end cd jd now sv job tr st en g = (e, g') \<Longrightarrow> g_running g' = g_running g - {job_id job}"
  by (auto simp: execute_end_def Let_def split: prod.splits)

lemma manual_waiting:
  "run_job_now cd jd now sv st en data jid False g = (Spawned ts, g') \<Longrightarrow> active_ids ts = [] \<and> g' = g"
  by (auto simp: run_job_now_def split: option.splits)

lemma sched_step_inv [step_intros]:
  assumes "sched_step cd sv s t" "sched_inv s"
  shows "sched_inv t"
  using assms
proof (induction rule: sched_step.induct)
  case (begin_run s us job tr vs now started g)
  then show ?case using begin_Started[OF begin_run(2)] by (auto simp: sched_inv_def)
next
  case (end_run s us job tr started vs now ended e g)
  then show ?case using end_running[OF end_run(2)] by (auto simp: sched_inv_def)
next
  case (manual jd now started ended data jid s ts g)
  then show ?case using manual_waiting[OF manual(1)] by (simp add: sched_inv_def)
next
  case (tick data now s jobs g)
  then show ?case using tick_frame[OF tick(1)] by (simp add: sched_inv_def)
next
  case (skip_run s us job tr vs jd now started b g)
  then show ?case using begin_other[OF skip_run(2,3)] by (simp add: sched_inv_def)
qed

section \<open>Runs never overlap\<close>

text \<open>
  C14: in every state the engine can reach, whatever ticks, manual triggers, clock readings,
  configurations and thread interleavings led there, the active runs have pairwise different
  job identities, and a job reads as running exactly while one of its runs is active.
\<close>

theorem runs_never_overlap:
  assumes "(sched_step cd sv)\<^sup>*\<^sup>* (init_sched boot) s"
  shows "distinct (active_ids (s_threads s))
    \<and> (is_running jid (s_eng s) = (jid \<in> set (active_ids (s_threads s))))"
proof -
  have "sched_inv s"
    using assms
  proof (induction rule: rtranclp_induct)
    case base
    show ?case by (simp add: sched_inv_def init_sched_def start_scheduler_def)
  next
    case (step y z)
    then show ?case by (blast intro: sched_step_inv)
  qed
  then show ?thesis by (simp add: sched_inv_def is_running_def)
qed

lemma runs_never_overlap_witness:
  "\<exists>cd sv s. (sched_step cd sv)\<^sup>*\<^sup>* (init_sched None) s \<and> active_ids (s_threads s) = [''a''] \<and> is_running ''a'' (s_eng s)"
proof -
  define cd where "cd = \<lparr>cd_line = (\<lambda>_. None), cd_read = (\<lambda>_. None)\<rparr>"
  define jd where "jd = \<lparr>jd_append = True, jd_trim = True\<rparr>"
  define sv where "sv = \<lparr>sv_watchdog = (\<lambda>_ _ lg. (lg, 0)), sv_rsync = (\<lambda>_ _ _ lg. (lg, Inr 0)),
    sv_backup = (\<lambda>_ _ lg. (lg, Inr True)), sv_snapshot = Inr (None, True)\<rparr>"
  let ?job = "[(''id'', PStr ''a'')]"
  let ?data = "PDict [(''schedules'', PList [PDict ?job])]"
  have id: "job_id ?job = ''a''" by code_simp
  have "get_job ?data ''a'' = Some ?job" by code_simp
  then have m: "run_job_now cd jd 0 sv None None ?data ''a'' False (s_eng (init_sched None))
      = (Spawned [(?job, ''manual'', Waiting)], s_eng (init_sched None))"
    by (simp add: run_job_now_def spawn_def)
  let ?s1 = "(init_sched None)\<lparr>s_threads := [(?job, ''manual'', Waiting)]\<rparr>"
  have 1: "sched_step cd sv (init_sched None) ?s1"
    using sched_step.manual[OF m] by (simp add: init_sched_def)
  have b: "execute_begin cd jd 0 ?job ''manual'' None (s_eng ?s1)
      = (Started, (s_eng ?s1)\<lparr>g_running := {''a''}\<rparr>)"
    by (simp add: execute_begin_def id init_sched_def start_scheduler_def)
  have 2: "sched_step cd sv ?s1 (?s1\<lparr>s_eng := (s_eng ?s1)\<lparr>g_running := {''a''}\<rparr>, s_threads := [] @ (?job, ''manual'', Active None) # []\<rparr>)"
    by (rule sched_step.begin_run[OF _ b]) simp
  have r: "(sched_step cd sv)\<^sup>*\<^sup>* (init_sched None)
      (?s1\<lparr>s_eng := (s_eng ?s1)\<lparr>g_running := {''a''}\<rparr>, s_threads := [] @ (?job, ''manual'', Active None) # []\<rparr>)"
    using 1 2 by (meson rtranclp.rtrancl_into_rtrancl rtranclp.rtrancl_refl)
  show ?thesis using r runs_never_overlap[OF r, of "''a''"] id by fastforce
qed

section \<open>A minute is never replayed\<close>

text \<open>The launches of a sequence of ticks, each with the configuration and the clock it saw.\<close>

fun launches :: "(pyval \<times> wall) list \<Rightarrow> engine \<Rightarrow> (wall \<times> pydict list) list" where
  "launches [] g = []"
| "launches ((data, now) # ticks) g =
     (case tick_once data (Some now) g of
        (jobs, g') \<Rightarrow> (if jobs = [] then [] else [(now, jobs)]) @ launches ticks g')"

text \<open>
  C15: as long as no clock reading falls more than three hours behind the mark or an earlier
  reading, the minutes at which jobs are launched are strictly increasing and lie after the
  mark the engine started with. So no minute launches twice, the boot minute included, however
  the clock steps back and forth.
\<close>

theorem launches_never_replay:
  assumes "g_last g = Some mark"
    and "sorted_wrt (\<lambda>a b. wall_minutes a - wall_minutes b \<le> backward_resync) (mark # map snd ticks)"
  shows "sorted_wrt (<) (map minute_key (mark # map fst (launches ticks g)))"
  using assms
proof (induction ticks arbitrary: g mark)
  case Nil
  then show ?case by simp
next
  case (Cons tk ticks)
  obtain data now where tk: "tk = (data, now)" by (cases tk)
  show ?case
  proof (cases "minute_key mark < minute_key now")
    case True
    let ?g = "g\<lparr>g_last := Some now\<rparr>"
    have IH: "sorted_wrt (<) (map minute_key (now # map fst (launches ticks ?g)))"
      using Cons.IH[of ?g now] Cons.prems tk by simp
    then have above: "minute_key mark < minute_key (fst x)" if "x \<in> set (launches ticks ?g)" for x
      using that True by (auto intro: less_trans)
    have "tick_once data (Some now) g = (due_jobs data now, ?g)"
      using True Cons.prems(1) by (auto simp: tick_once_def)
    with IH above True show ?thesis by (auto simp: tk)
  next
    case False
    then have "tick_once data (Some now) g = ([], g)"
      using Cons.prems by (auto simp: tick_once_def tk)
    then show ?thesis using Cons.IH[of g mark] Cons.prems by (simp add: tk)
  qed
qed

definition at_minute :: "nat \<Rightarrow> nat \<Rightarrow> wall" where
  "at_minute h m = \<lparr>w_date = \<lparr>d_yr = 2024, d_mo = 5, d_dy = 1\<rparr>, w_hour = h, w_min = m\<rparr>"

definition minutely :: pyval where
  "minutely = PDict [(''schedules'', PList [PDict [(''id'', PStr ''a''), (''enabled'', PBool True), (''cron'', PStr ''* * * * *'')]])]"

lemma minutely_due:
  assumes "valid_wall w"
  shows "due_jobs minutely w \<noteq> []"
proof -
  have "list_jobs minutely = [[(''id'', PStr ''a''), (''enabled'', PBool True), (''cron'', PStr ''* * * * *'')]]"
    by code_simp
  moreover have "job_id [(''id'', PStr ''a''), (''enabled'', PBool True), (''cron'', PStr ''* * * * *'')] = ''a''"
    by code_simp
  ultimately show ?thesis
    using stars_match[OF assms] by (simp add: due_jobs_def job_enabled_def pyget_def dict_get_def)
qed

lemma at_minute_valid: "h < 24 \<Longrightarrow> m < 60 \<Longrightarrow> valid_wall (at_minute h m)"
  by (simp add: at_minute_def valid_wall_def valid_date_def days_in_month_def)

lemma launches_never_replay_witness:
  "map fst (launches [(minutely, at_minute 3 0), (minutely, at_minute 2 30), (minutely, at_minute 3 0), (minutely, at_minute 3 1)]
      (s_eng (init_sched (Some (at_minute 2 59))))) = [at_minute 3 0, at_minute 3 1]
   \<and> sorted_wrt (<) (map minute_key (at_minute 2 59 # map fst (launches
      [(minutely, at_minute 3 0), (minutely, at_minute 2 30), (minutely, at_minute 3 0), (minutely, at_minute 3 1)]
      (s_eng (init_sched (Some (at_minute 2 59)))))))"
  (is "?A \<and> ?B")
proof
  show ?A
    using minutely_due[OF at_minute_valid[of 3 0]] minutely_due[OF at_minute_valid[of 3 1]]
    by (simp add: init_sched_def start_scheduler_def tick_once_def minute_key_def wall_minutes_def
        at_minute_def backward_resync_def)
  show ?B
    by (rule launches_never_replay)
      (simp_all add: init_sched_def start_scheduler_def wall_minutes_def at_minute_def backward_resync_def)
qed

section \<open>The journal\<close>

lemma break_len_stop: "break_len (c # a @ newline # b) = break_len (c # a @ [newline])"
  by (cases a; cases "tl a") (auto simp: newline_def ordc_char_of)

lemma break_len_short: "break_len (c # a @ [newline]) = Suc n \<Longrightarrow> n \<le> length a \<or> (a = [] \<and> n = 1)"
  by (cases a; cases "tl a") (auto simp: newline_def ordc_char_of split: if_splits)

lemma lines_from_stop: "lines_from acc (a @ newline # b) = lines_from acc (a @ [newline]) @ lines_from [] b"
proof (induction "length a" arbitrary: acc a rule: less_induct)
  case less
  have nl: "break_len (newline # b) = 1" for b by (simp add: newline_def ordc_char_of)
  show ?case
  proof (cases a)
    case Nil
    then show ?thesis by (simp add: nl del: break_len.simps)
  next
    case (Cons c cs)
    show ?thesis
    proof (cases "break_len (c # cs @ [newline])")
      case 0
      then show ?thesis using less[of cs "c # acc"] break_len_stop[of c cs b] Cons by (simp del: break_len.simps)
    next
      case (Suc n)
      then show ?thesis
        using break_len_short[OF Suc] break_len_stop[of c cs b] less[of "drop n cs" "[]"] Cons
        by (auto simp del: break_len.simps)
    qed
  qed
qed

definition line_parts :: "string \<Rightarrow> string list" where
  "line_parts l = lines_from [] (l @ [newline])"

lemma rows_concat: "lines_from [] (file_text ls) = concat (map line_parts ls)"
proof (induction ls)
  case (Cons l ls)
  have "file_text (l # ls) = l @ newline # file_text ls" by (simp add: file_text_def)
  then show ?case using Cons lines_from_stop[of "[]" l "file_text ls"] by (simp add: line_parts_def)
qed (simp add: file_text_def)

lemma suffix_below_suffix: "\<exists>pre. xs = pre @ suffix_below cap xs"
proof (induction xs)
  case (Cons x xs)
  then obtain pre where "xs = pre @ suffix_below cap xs" by blast
  then have "x # xs = (x # pre) @ suffix_below cap xs" by simp
  then show ?case by (metis append_Nil suffix_below.simps(2))
qed simp

lemma suffix_below_keeps: "Suc (length l) < cap \<Longrightarrow> \<exists>ys. suffix_below cap (xs @ [l]) = ys @ [l]"
  by (induction xs) (auto simp: file_bytes_def file_text_def)

lemma tail_lines_suffix: "\<exists>pre. concat (map line_parts xs) = pre @ tail_lines n cap xs"
proof -
  let ?kept = "if file_bytes xs \<le> cap then xs else suffix_below cap xs"
  let ?rows = "concat (map line_parts ?kept)"
  obtain pre where "xs = pre @ ?kept" using suffix_below_suffix[of xs cap] by (metis append_Nil)
  then have "concat (map line_parts xs) = concat (map line_parts pre) @ ?rows" by (metis concat_append map_append)
  also have "\<dots> = (concat (map line_parts pre) @ take (length ?rows - n) ?rows) @ drop (length ?rows - n) ?rows" by simp
  finally show ?thesis unfolding tail_lines_def Let_def rows_concat by blast
qed

lemma length_tail_lines: "length (tail_lines n cap xs) \<le> n"
  by (simp add: tail_lines_def Let_def)

lemma tail_lines_newest:
  assumes "line_parts l = [l]" "Suc (length l) < cap" "0 < n"
  shows "\<exists>ys. tail_lines n cap (xs @ [l]) = ys @ [l]"
proof -
  obtain ys where "(if file_bytes (xs @ [l]) \<le> cap then xs @ [l] else suffix_below cap (xs @ [l])) = ys @ [l]"
    using suffix_below_keeps[OF assms(2)] by metis
  then have "tail_lines n cap (xs @ [l])
      = drop (length (concat (map line_parts ys)) + 1 - n) (concat (map line_parts ys) @ [l])"
    by (simp add: tail_lines_def Let_def rows_concat assms(1))
  then show ?thesis using assms(3) by (simp add: drop_append) 
qed

text \<open>What an append leaves: the new line at the end, or after a trim the last rows of the file.\<close>

definition journalled :: "string list \<Rightarrow> string \<Rightarrow> string list \<Rightarrow> bool" where
  "journalled old l new \<longleftrightarrow>
     (new = old @ [l] \<or> (new \<noteq> [] \<and> (\<exists>pre. concat (map line_parts (old @ [l])) = pre @ new)))
     \<and> (line_parts l = [l] \<longrightarrow> last new = l)"

lemma record_run_journalled:
  assumes "cd_line cd e = Some l" "jd_append jd"
  shows "journalled (g_journal g) l (g_journal (record_run cd jd now e g))"
proof -
  obtain pre where pre: "concat (map line_parts (g_journal g @ [l]))
      = pre @ tail_lines max_runs (max (trim_soft_bytes * 2) (256 * 1024)) (g_journal g @ [l])"
    using tail_lines_suffix by blast
  show ?thesis
  proof (cases "g_journal (record_run cd jd now e g) = g_journal g @ [l]")
    case False
    then have r: "g_journal (record_run cd jd now e g) = tail_lines max_runs (max (trim_soft_bytes * 2) (256 * 1024)) (g_journal g @ [l])"
      "g_journal (record_run cd jd now e g) \<noteq> []"
      using assms by (auto simp: record_run_def Let_def split: if_splits)
    have "last (g_journal (record_run cd jd now e g)) = l" if "line_parts l = [l]"
    proof -
      have "last (concat (map line_parts (g_journal g @ [l]))) = l" using that by simp
      then show ?thesis using pre r by (metis last_appendR)
    qed
    then show ?thesis using pre r unfolding journalled_def by metis
  qed (simp add: journalled_def)
qed

lemma record_run_lost:
  "cd_line cd e = None \<or> \<not> jd_append jd \<Longrightarrow> record_run cd jd now e g = g"
  by (auto simp: record_run_def split: option.split)

lemma newest_is_last_run:
  assumes "journalled old l new" "line_parts l = [l]" "cd_read cd l = Some e" "Suc (length l) < trim_soft_bytes"
  shows "last_run cd new (e_job e) = Some e"
proof -
  have "new \<noteq> []" using assms(1) by (auto simp: journalled_def)
  then obtain xs where "new = xs @ [l]" using assms(1,2) by (metis append_butlast_last_id journalled_def)
  moreover have "Suc (length l) < max trim_soft_bytes (256 * 1024)" "0 < max_runs" using assms(4) by (simp_all add: max_runs_def)
  ultimately obtain ys where "journal_lines new = ys @ [l]"
    using tail_lines_newest[OF assms(2)] unfolding journal_lines_def by metis
  then show ?thesis by (simp add: last_run_def runs_def assms(3) List.map_filter_simps max_runs_def)
qed

text \<open>
  C16: what an execution of a job with an identity returns and leaves. The record carries the job's
  identity and the status of its exit code (0 ok, 124 timeout, anything else failed; an overlap
  is skipped, with no exit code), and the running set is as before. When the record can be encoded
  and the append goes through, its line is the newest of the journal, whatever the trim dropped; and
  where the line holds no line separator of Unicode, is shorter than the soft limit of the journal and
  reads back, the reader of the history answers exactly this record. A record that cannot be
  encoded or appended leaves the journal as it was.
\<close>

theorem execute_journals:
  assumes "execute cd jd now sv job trigger started ended g = (r, g')" and "job_id job \<noteq> []"
  shows "\<exists>e. r = Some e \<and> e_job e = job_id job \<and> g_running g' = g_running g
    \<and> (if job_id job \<in> g_running g then e_status e = RunSkipped \<and> e_rc e = None
       else e_rc e = Some (snd (run_job sv job)) \<and> e_status e = status_of_rc (snd (run_job sv job)))
    \<and> (case cd_line cd e of
         None \<Rightarrow> g_journal g' = g_journal g
       | Some l \<Rightarrow>
           if jd_append jd
           then journalled (g_journal g) l (g_journal g')
             \<and> (line_parts l = [l] \<and> cd_read cd l = Some e \<and> Suc (length l) < trim_soft_bytes
                  \<longrightarrow> last_run cd (g_journal g') (job_id job) = Some e)
           else g_journal g' = g_journal g)"
proof -
  have "\<exists>e g1. r = Some e \<and> e_job e = job_id job \<and> g_running g' = g_running g
    \<and> (if job_id job \<in> g_running g then e_status e = RunSkipped \<and> e_rc e = None
       else e_rc e = Some (snd (run_job sv job)) \<and> e_status e = status_of_rc (snd (run_job sv job)))
    \<and> g_journal g1 = g_journal g \<and> g_journal g' = g_journal (record_run cd jd now e g1)"
  proof (cases "job_id job \<in> g_running g")
    case True
    with assms show ?thesis by (auto simp: execute_def execute_begin_def Let_def)
  next
    case False
    let ?g = "g\<lparr>g_running := insert (job_id job) (g_running g)\<rparr>"
    have "\<exists>e. r = Some e \<and> g' = alert_on_failure job e (record_run cd jd now e (?g\<lparr>g_running := g_running ?g - {job_id job}\<rparr>))
      \<and> e_job e = job_id job \<and> e_rc e = Some (snd (run_job sv job)) \<and> e_status e = status_of_rc (snd (run_job sv job))"
      using assms False by (auto simp: execute_def execute_begin_def execute_end_def Let_def split: prod.splits)
    then show ?thesis using False
      by (elim exE conjE) (rule exI, rule exI[of _ "?g\<lparr>g_running := g_running ?g - {job_id job}\<rparr>"], simp)
  qed
  then obtain e g1 where e: "r = Some e" "e_job e = job_id job" "g_running g' = g_running g"
    "if job_id job \<in> g_running g then e_status e = RunSkipped \<and> e_rc e = None
     else e_rc e = Some (snd (run_job sv job)) \<and> e_status e = status_of_rc (snd (run_job sv job))"
    and j: "g_journal g1 = g_journal g" "g_journal g' = g_journal (record_run cd jd now e g1)"
    by blast
  have "journalled (g_journal g) l (g_journal g')
      \<and> (line_parts l = [l] \<and> cd_read cd l = Some e \<and> Suc (length l) < trim_soft_bytes
           \<longrightarrow> last_run cd (g_journal g') (job_id job) = Some e)"
    if "cd_line cd e = Some l" "jd_append jd" for l
    using record_run_journalled[OF that, of g1 now] newest_is_last_run[of "g_journal g" l "g_journal g'" cd e]
    unfolding j e(2) by blast
  then show ?thesis using e j record_run_lost[of cd e jd now g1]
    by (intro exI[of _ e]) (auto split: option.split)
qed

text \<open>
  A separator of Unicode in a record (a job's output may hold one) survives the encoding, which
  escapes the ASCII controls only. The appended line is then read as several rows, none of which parses
  to the record.
\<close>

lemma separator_hides_run:
  assumes "\<And>p. p \<in> set (line_parts l) \<Longrightarrow> cd_read cd p = None" "Suc (length l) < trim_soft_bytes"
    and "cd_line cd e = Some l" "jd_append jd" "g_journal g = []"
  shows "last_run cd (g_journal (record_run cd jd now e g)) (e_job e) = None"
proof -
  have "g_journal (record_run cd jd now e g) = [l]"
    using assms(2-5) by (simp add: record_run_def Let_def file_bytes_def file_text_def)
  moreover have "set (journal_lines [l]) \<subseteq> set (line_parts l)"
    using tail_lines_suffix[of "[l]" max_runs "max trim_soft_bytes (256 * 1024)"]
    unfolding journal_lines_def by (metis UnCI concat.simps(1,2) append_Nil2 list.simps(8,9) set_append subsetI)
  then have "List.map_filter (cd_read cd) (rev (journal_lines [l])) = []"
    using assms(1) by (auto simp: List.map_filter_def filter_empty_conv)
  ultimately show ?thesis by (simp add: last_run_def runs_def)
qed

lemma separator_cuts: "line_parts [CHR ''a'', CHR 0xE2, CHR 0x80, CHR 0xA8, CHR ''b''] = [''a'', ''b'']"
  by code_simp

definition quiet_services :: "int \<Rightarrow> services" where
  "quiet_services rc = \<lparr>sv_watchdog = (\<lambda>_ _ lg. (lg, rc)), sv_rsync = (\<lambda>_ _ _ lg. (lg, Inr rc)),
    sv_backup = (\<lambda>_ _ lg. (lg, Inr (rc = 0))), sv_snapshot = Inr (None, rc = 0)\<rparr>"

definition echo_job :: pydict where
  "echo_job = [(''id'', PStr ''a''), (''type'', PStr ''command''), (''params'', PDict [(''command'', PStr ''echo'')])]"

lemma echo_job_id: "job_id echo_job = ''a''"
  by code_simp

text \<open>A codec that keeps a record's log as its line.\<close>

definition tail_codec :: "entry \<Rightarrow> codec" where
  "tail_codec e = \<lparr>cd_line = (\<lambda>x. if x = e then Some ''run'' else None), cd_read = (\<lambda>l. if l = ''run'' then Some e else None)\<rparr>"

definition echo_entry :: entry where
  "echo_entry = \<lparr>e_ts = 1, e_end = 3, e_job = ''a'', e_name = PStr ''a'', e_type = PStr ''command'', e_trigger = ''manual'',
     e_status = RunTimeout, e_rc = Some 124, e_tail = ''$ echo'', e_duration = 2\<rparr>"

lemma execute_journals_witness:
  "\<exists>g'. execute (tail_codec echo_entry) \<lparr>jd_append = True, jd_trim = True\<rparr> 5 (quiet_services 124) echo_job ''manual''
        (Some 1) (Some 3) (s_eng (init_sched None)) = (Some echo_entry, g')
    \<and> last_run (tail_codec echo_entry) (g_journal g') ''a'' = Some echo_entry"
proof -
  let ?cd = "tail_codec echo_entry" and ?jd = "\<lparr>jd_append = True, jd_trim = True\<rparr>"
  obtain r g' where x: "execute ?cd ?jd 5 (quiet_services 124) echo_job ''manual'' (Some 1) (Some 3) (s_eng (init_sched None)) = (r, g')"
    by fastforce
  have run: "run_job (quiet_services 124) echo_job = ([''$ echo''], 124)"
  proof -
    have "or_str (pyget echo_job ''type'') = Inr ''command''" "strip (command_text (pyget (job_params echo_job) ''command'')) \<noteq> []"
      "command_text (pyget (job_params echo_job) ''command'') = ''echo''"
      by code_simp+
    then show ?thesis by (simp add: run_job_def run_command_def quiet_services_def Let_def)
  qed
  have "job_label echo_job ''a'' = PStr ''a''" "pyget echo_job ''type'' = PStr ''command''" "log_tail [''$ echo''] = ''$ echo''"
    "finite_duration (Some 3) (Some 1) = 2"
    by code_simp+
  then have r: "r = Some echo_entry"
    using x by (auto simp: execute_def execute_begin_def execute_end_def Let_def run echo_job_id init_sched_def start_scheduler_def
        echo_entry_def epoch_int_def trunc_rat_def status_of_rc_def)
  have "line_parts ''run'' = [''run'']" by (simp add: line_parts_def newline_def ordc_def)
  with execute_journals[OF x] show ?thesis
    using x r by (auto simp: echo_job_id tail_codec_def trim_soft_bytes_def max_runs_def)
qed

lemma newest_by_job_find:
  "j \<noteq> [] \<Longrightarrow> dict_get (newest_by_job es out) j
    = (case dict_get out j of Some e \<Rightarrow> Some e | None \<Rightarrow> List.find (\<lambda>e. e_job e = j) es)"
  by (induction es out rule: newest_by_job.induct) (auto simp: dict_simps split: option.splits)

text \<open>
  The listing's single pass over the journal gives for every job what the per-job lookup
  gives, the newest record of that job.
\<close>

lemma last_runs_agree:
  "jid = [] \<or> dict_get (last_runs_by_job cd journal) jid = last_run cd journal jid"
proof (cases "jid = []")
  case False
  have "(case take (Suc 0) (filter P xs) of [] \<Rightarrow> None | e # _ \<Rightarrow> Some e) = List.find P xs" for P and xs :: "entry list"
    by (induction xs) auto
  then show ?thesis
    using False by (simp add: last_runs_by_job_def last_run_def runs_def newest_by_job_find dict_simps max_runs_def)
qed simp

section \<open>Failure streaks\<close>

definition is_failure :: "run_status \<Rightarrow> bool" where
  "is_failure s \<longleftrightarrow> s = RunFailed \<or> s = RunTimeout"

text \<open>The reference: failures since the last success, overlaps not counting either way.\<close>

definition streak :: "run_status list \<Rightarrow> nat" where
  "streak sts = length (takeWhile is_failure (rev (filter (\<lambda>s. s \<noteq> RunSkipped) sts)))"

fun after_runs :: "pydict \<Rightarrow> entry list \<Rightarrow> engine \<Rightarrow> engine" where
  "after_runs job [] g = g"
| "after_runs job (e # es) g = after_runs job es (alert_on_failure job e g)"

lemma after_runs_snoc: "after_runs job (es @ [e]) g = alert_on_failure job e (after_runs job es g)"
  by (induction es arbitrary: g) auto

lemma streak_snoc: "streak (sts @ [s]) = (if s = RunSkipped then streak sts else if is_failure s then Suc (streak sts) else 0)"
  by (simp add: streak_def)

lemma streak_le: "streak sts \<le> length sts"
  unfolding streak_def by (metis length_filter_le length_rev length_takeWhile_le order_trans)

lemma fails_streak:
  assumes "job_id job = jid" "jid \<noteq> []" "length es < 1000000" "dict_get (g_fails g) jid = None"
  shows "(case dict_get (g_fails (after_runs job es g)) jid of None \<Rightarrow> 0 | Some n \<Rightarrow> n) = int (streak (map e_status es))"
  using assms(3)
proof (induction es rule: rev_induct)
  case Nil
  then show ?case using assms by (simp add: streak_def)
next
  case (snoc e es)
  have b: "streak (map e_status es) < 1000000" using streak_le[of "map e_status es"] snoc.prems by simp
  show ?case
    using snoc b assms(1,2)
    by (cases "e_status e")
      (auto simp: after_runs_snoc alert_on_failure_def Let_def streak_snoc is_failure_def dict_simps
        split: sum.split)
qed

text \<open>
  Over any sequence of finished runs of a job, starting clean, the streak table counts
  exactly the failures since the last success (skipped overlaps count neither way), and the
  next finished run raises an alert exactly when it is a failure that makes the streak two or
  longer, provided the job's display name renders.
\<close>

lemma alert_after_streak:
  assumes "job_id job \<noteq> []" and "dict_get (g_fails g) (job_id job) = None" and "length es < 999999"
    and "py_str (job_label job (job_id job)) = Inr label"
  shows "(case dict_get (g_fails (after_runs job es g)) (job_id job) of None \<Rightarrow> 0 | Some n \<Rightarrow> n)
      = int (streak (map e_status es))
    \<and> g_alerts (alert_on_failure job e (after_runs job es g)) = g_alerts (after_runs job es g) @
      (if is_failure (e_status e) \<and> 2 \<le> streak (map e_status (es @ [e]))
       then [\<lparr>al_id = ''schedule:'' @ job_id job,
              al_message = alert_message label (int (streak (map e_status (es @ [e])))) (e_rc e)\<rparr>]
       else [])"
proof -
  have len: "length es < 1000000" using assms(3) by simp
  have f: "(case dict_get (g_fails (after_runs job es g)) (job_id job) of None \<Rightarrow> 0 | Some n \<Rightarrow> n)
      = int (streak (map e_status es))"
    by (rule fails_streak[OF refl assms(1) len assms(2)])
  have b: "streak (map e_status es) < 1000000" using streak_le[of "map e_status es"] len by simp
  have "g_alerts (alert_on_failure job e (after_runs job es g)) = g_alerts (after_runs job es g) @
      (if is_failure (e_status e) \<and> 2 \<le> streak (map e_status (es @ [e]))
       then [\<lparr>al_id = ''schedule:'' @ job_id job,
              al_message = alert_message label (int (streak (map e_status (es @ [e])))) (e_rc e)\<rparr>]
       else [])"
    unfolding alert_on_failure_def Let_def f
    using assms(1,4) b
    by (cases "e_status e") (auto simp: is_failure_def streak_snoc failure_alert_after_def algebra_simps)
  with f show ?thesis by simp
qed

definition run_entry :: "run_status \<Rightarrow> entry" where
  "run_entry s = \<lparr>e_ts = 0, e_end = 0, e_job = ''a'', e_name = PStr ''a'', e_type = PStr ''command'', e_trigger = ''schedule'',
    e_status = s, e_rc = Some 1, e_tail = [], e_duration = 0\<rparr>"

lemma alert_after_streak_witness:
  "length (g_alerts (alert_on_failure echo_job (run_entry RunFailed)
      (after_runs echo_job (map run_entry [RunFailed, RunOk, RunFailed, RunSkipped]) (s_eng (init_sched None))))) = 1"
proof -
  have l: "py_str (job_label echo_job (job_id echo_job)) = Inr ''a''" by code_simp
  have none: "g_alerts (after_runs echo_job (map run_entry [RunFailed, RunOk, RunFailed, RunSkipped]) (s_eng (init_sched None))) = []"
    by (simp add: alert_on_failure_def Let_def echo_job_id run_entry_def init_sched_def start_scheduler_def
        dict_simps failure_alert_after_def)
  have s: "streak (map e_status (map run_entry [RunFailed, RunOk, RunFailed, RunSkipped] @ [run_entry RunFailed])) = 2"
    by (simp add: streak_def is_failure_def run_entry_def)
  show ?thesis
    using alert_after_streak[OF _ _ _ l, of "s_eng (init_sched None)" "map run_entry [RunFailed, RunOk, RunFailed, RunSkipped]" "run_entry RunFailed"]
      none s
    by (simp add: echo_job_id is_failure_def run_entry_def init_sched_def start_scheduler_def dict_simps)
qed

end
