(* ===== verification/Hashes.thy ===== *)
theory Hashes
  imports Hub_Prelude "HOL-Library.Word"
begin

text \<open>
  The parts of Python's standard library the sign-in code is built on: bytes and fixed-width
  positional numbers (\<open>int.to_bytes\<close>, \<open>struct.pack\<close>), hexadecimal, base32, SHA-1, SHA-256 and
  HMAC. A byte is an \<open>8 word\<close>, and the hashes compute on \<open>32 word\<close> as their standards say.
\<close>

unbundle bit_operations_syntax

type_synonym byte = "8 word"
type_synonym bytes = "byte list"

section \<open>Fixed-width positional numbers\<close>

fun to_base :: "nat \<Rightarrow> nat \<Rightarrow> nat \<Rightarrow> nat list" where
  \<comment> \<open>the last \<open>n\<close> digits of \<open>v\<close>, most significant first\<close>
  "to_base b 0 v = []"
| "to_base b (Suc n) v = to_base b n (v div b) @ [v mod b]"

definition of_base :: "nat \<Rightarrow> nat list \<Rightarrow> nat" where
  "of_base b ds = foldl (\<lambda>a d. a * b + d) 0 ds"

named_theorems base_simps \<open>fixed-width positional numbers\<close>

lemma of_base_Nil [simp]: "of_base b [] = 0"
  by (simp add: of_base_def)

lemma of_base_snoc [base_simps]: "of_base b (ds @ [d]) = of_base b ds * b + d"
  by (simp add: of_base_def)

lemma of_base_append: "of_base b (xs @ ys) = of_base b xs * b ^ length ys + of_base b ys"
proof (induction ys rule: rev_induct)
  case (snoc y ys)
  have "of_base b (xs @ ys @ [y]) = of_base b (xs @ ys) * b + y"
    using of_base_snoc[of b "xs @ ys" y] by simp
  then show ?case by (simp add: snoc base_simps algebra_simps)
qed simp

lemma length_to_base [simp]: "length (to_base b n v) = n"
  by (induction n arbitrary: v) simp_all

lemma to_base_digits: "0 < b \<Longrightarrow> d \<in> set (to_base b n v) \<Longrightarrow> d < b"
  by (induction n arbitrary: v) auto

lemma of_base_bound: "(\<And>d. d \<in> set ds \<Longrightarrow> d < b) \<Longrightarrow> of_base b ds < b ^ length ds"
proof (induction ds rule: rev_induct)
  case (snoc d ds)
  then have "of_base b ds < b ^ length ds" "d < b" by auto
  then have "of_base b ds * b + d < (of_base b ds + 1) * b" by simp
  also have "\<dots> \<le> b ^ length ds * b"
    using \<open>of_base b ds < b ^ length ds\<close> by (intro mult_le_mono1) simp
  finally show ?case by (simp add: base_simps mult.commute)
qed simp

lemma of_to_base: "of_base b (to_base b n v) = v mod b ^ n"
proof (induction n arbitrary: v)
  case (Suc n)
  then have "of_base b (to_base b (Suc n) v) = (v div b mod b ^ n) * b + v mod b"
    by (simp add: base_simps)
  also have "\<dots> = v mod (b * b ^ n)" by (simp add: mod_mult2_eq mult.commute)
  finally show ?case by simp
qed simp

lemma to_of_base: "(\<And>d. d \<in> set ds \<Longrightarrow> d < b) \<Longrightarrow> to_base b (length ds) (of_base b ds) = ds"
proof (induction ds rule: rev_induct)
  case (snoc d ds)
  then have "to_base b (length ds) (of_base b ds) = ds" "d < b" by auto
  then show ?case by (simp add: base_simps)
qed simp

section \<open>Bytes\<close>

definition nats :: "bytes \<Rightarrow> nat list" where
  "nats bs = map unat bs"

definition byte_list :: "nat list \<Rightarrow> bytes" where
  "byte_list ns = map word_of_nat ns"

definition from_bytes :: "bytes \<Rightarrow> nat" where
  \<comment> \<open>\<open>int.from_bytes(bs, "big")\<close>\<close>
  "from_bytes bs = of_base 256 (nats bs)"

definition to_bytes :: "nat \<Rightarrow> nat \<Rightarrow> bytes" where
  \<comment> \<open>\<open>v.to_bytes(n, "big")\<close> of a value that fits\<close>
  "to_bytes n v = byte_list (to_base 256 n v)"

definition utf8_encode :: "string \<Rightarrow> bytes" where
  \<comment> \<open>text already stands as its UTF-8 bytes\<close>
  "utf8_encode s = map (\<lambda>c. word_of_nat (ordc c)) s"

lemma length_nats [simp]: "length (nats bs) = length bs"
  by (simp add: nats_def)

lemma length_to_bytes [simp]: "length (to_bytes n v) = n"
  by (simp add: to_bytes_def byte_list_def)

lemma unat_byte_bound: "unat (w :: byte) < 256"
  using unsigned_less[of w] by simp

lemma nats_bound: "d \<in> set (nats bs) \<Longrightarrow> d < 256"
  using unat_byte_bound by (auto simp: nats_def)

lemma byte_list_nats [simp]: "byte_list (nats bs) = bs"
  by (induction bs) (simp_all add: byte_list_def nats_def)

lemma nats_append [simp]: "nats (a @ b) = nats a @ nats b"
  by (simp add: nats_def)

lemma to_from_bytes: "to_bytes (length bs) (from_bytes bs) = bs"
  using to_of_base[of "nats bs" 256] nats_bound by (simp add: to_bytes_def from_bytes_def)

lemma from_bytes_bound: "from_bytes bs < 256 ^ length bs"
  using of_base_bound[of "nats bs" 256] nats_bound by (simp add: from_bytes_def)

lemma utf8_encode_inj: "utf8_encode s = utf8_encode t \<longleftrightarrow> s = t"
proof
  assume eq: "utf8_encode s = utf8_encode t"
  have "unat (word_of_nat (ordc c) :: byte) = ordc c" for c
    using ordc_bound[of c] by (simp add: unat_of_nat)
  then have inj: "inj (\<lambda>c. word_of_nat (ordc c) :: byte)" by (metis injI ordc_inj)
  show "s = t" using eq inj by (simp add: utf8_encode_def inj_map_eq_map)
qed simp

definition hex_digit :: "nat \<Rightarrow> char" where
  "hex_digit d = (if d < 10 then char_of (48 + d) else char_of (87 + d))"

definition hexdigest :: "bytes \<Rightarrow> string" where
  "hexdigest bs = concat (map (\<lambda>b. [hex_digit (unat b div 16), hex_digit (unat b mod 16)]) bs)"

lemma length_hexdigest [simp]: "length (hexdigest bs) = 2 * length bs"
  by (induction bs) (simp_all add: hexdigest_def)

lemma hex_digit_ascii: "d < 16 \<Longrightarrow> is_ascii (hex_digit d)"
  by (simp add: is_ascii_def hex_digit_def ordc_char_of)

lemma hex_digit_range: "d < 16 \<Longrightarrow> is_digit (hex_digit d) \<or> (97 \<le> ordc (hex_digit d) \<and> ordc (hex_digit d) \<le> 102)"
  by (simp add: is_digit_def hex_digit_def ordc_char_of)

lemma hexdigest_chars: "c \<in> set (hexdigest bs) \<Longrightarrow> is_digit c \<or> (97 \<le> ordc c \<and> ordc c \<le> 102)"
proof (induction bs)
  case (Cons b bs)
  have b: "unat b div 16 < 16" "unat b mod 16 < 16" using unat_byte_bound[of b] by simp_all
  have "c = hex_digit (unat b div 16) \<or> c = hex_digit (unat b mod 16) \<or> c \<in> set (hexdigest bs)"
    using Cons.prems by (simp add: hexdigest_def)
  then show ?case using Cons.IH hex_digit_range[OF b(1)] hex_digit_range[OF b(2)] by blast
qed (simp add: hexdigest_def)

lemma hexdigest_ascii: "list_all is_ascii (hexdigest bs)"
proof (induction bs)
  case (Cons b bs)
  have "unat b div 16 < 16" using unat_byte_bound[of b] by simp
  then show ?case using Cons by (simp add: hexdigest_def hex_digit_ascii)
qed (simp add: hexdigest_def)

section \<open>Blocks\<close>

fun chunks :: "nat \<Rightarrow> 'a list \<Rightarrow> 'a list list" where
  "chunks n [] = []"
| "chunks n (x # xs) = (if n = 0 then [x # xs] else take n (x # xs) # chunks n (drop n (x # xs)))"

lemma chunks_short: "xs \<noteq> [] \<Longrightarrow> length xs \<le> n \<Longrightarrow> chunks n xs = [xs]"
  by (cases xs) auto

lemma chunks_append: "0 < n \<Longrightarrow> length a = n \<Longrightarrow> chunks n (a @ b) = a # chunks n b"
  by (cases a) auto

lemma chunks_cases:
  assumes "0 < n"
  obtains "xs = []" | "xs \<noteq> []" "length xs \<le> n" | a b where "xs = a @ b" "length a = n" "b \<noteq> []"
proof -
  have "xs = take n xs @ drop n xs" by simp
  then show thesis using that(1,2) that(3)[of "take n xs" "drop n xs"]
    by (cases "length xs \<le> n") fastforce+
qed

lemma concat_chunks: "0 < n \<Longrightarrow> concat (chunks n xs) = xs"
proof (induction xs rule: measure_induct_rule[of length])
  case (less xs)
  from \<open>0 < n\<close> show ?case
    by (cases rule: chunks_cases[of n xs]) (use less in \<open>auto simp: chunks_short chunks_append\<close>)
qed

lemma chunks_sizes: "0 < n \<Longrightarrow> q \<in> set (chunks n xs) \<Longrightarrow> q \<noteq> [] \<and> length q \<le> n"
proof (induction xs rule: measure_induct_rule[of length])
  case (less xs)
  from \<open>0 < n\<close> show ?case
  proof (cases rule: chunks_cases[of n xs])
    case (3 a b)
    then show ?thesis using less.IH[of b] less.prems by (auto simp: chunks_append)
  qed (use less.prems in \<open>auto simp: chunks_short\<close>)
qed

lemma of_base_take:
  assumes "\<And>d. d \<in> set ds \<Longrightarrow> d < b" and "k \<le> length ds"
  shows "of_base b (take k ds) = of_base b ds div b ^ (length ds - k)"
proof -
  let ?m = "b ^ (length ds - k)"
  have lt: "of_base b (drop k ds) < ?m"
    using of_base_bound[of "drop k ds" b] assms by (auto dest: in_set_dropD)
  have "of_base b ds = of_base b (drop k ds) + of_base b (take k ds) * ?m"
    using of_base_append[of b "take k ds" "drop k ds"] by simp
  moreover have "(of_base b (drop k ds) + of_base b (take k ds) * ?m) div ?m = of_base b (take k ds)"
    using lt by (subst div_mult_self1) (linarith, simp)
  ultimately show ?thesis by simp
qed

lemma nats_zeros [simp]: "nats (replicate n 0) = replicate n 0"
  by (simp add: nats_def)

lemma of_base_zeros [simp]: "of_base b (replicate n 0) = 0"
  by (induction n) (simp_all add: of_base_def)

lemma from_bytes_zeros: "from_bytes (q @ replicate n 0) = from_bytes q * 256 ^ n"
  by (simp add: from_bytes_def of_base_append)

section \<open>SHA-1 and SHA-256\<close>

definition be_words :: "bytes \<Rightarrow> 32 word list" where
  "be_words bs = map (\<lambda>q. word_of_nat (from_bytes q)) (chunks 4 bs)"

definition sha_pad :: "bytes \<Rightarrow> bytes" where
  "sha_pad bs =
     (let n = length bs
      in bs @ [0x80] @ replicate ((119 - n mod 64) mod 64) 0 @ to_bytes 8 (8 * n))"

definition word_bytes :: "32 word list \<Rightarrow> bytes" where
  "word_bytes ws = concat (map (\<lambda>w. to_bytes 4 (unat w)) ws)"

lemma length_word_bytes [simp]: "length (word_bytes ws) = 4 * length ws"
  by (induction ws) (simp_all add: word_bytes_def)

type_synonym five = "32 word \<times> 32 word \<times> 32 word \<times> 32 word \<times> 32 word"

definition sha1_f :: "nat \<Rightarrow> 32 word \<Rightarrow> 32 word \<Rightarrow> 32 word \<Rightarrow> 32 word" where
  "sha1_f t b c d =
     (if t < 20 then (b AND c) OR (NOT b AND d)
      else if t < 40 then b XOR c XOR d
      else if t < 60 then (b AND c) OR (b AND d) OR (c AND d)
      else b XOR c XOR d)"

definition sha1_k :: "nat \<Rightarrow> 32 word" where
  "sha1_k t = (if t < 20 then 0x5A827999 else if t < 40 then 0x6ED9EBA1
               else if t < 60 then 0x8F1BBCDC else 0xCA62C1D6)"

fun sha1_schedule :: "nat \<Rightarrow> 32 word list \<Rightarrow> 32 word list" where
  \<comment> \<open>extends the newest-first list of schedule words\<close>
  "sha1_schedule 0 ws = ws"
| "sha1_schedule (Suc n) ws =
     sha1_schedule n (word_rotl 1 (ws ! 2 XOR ws ! 7 XOR ws ! 13 XOR ws ! 15) # ws)"

fun sha1_rounds :: "nat \<Rightarrow> 32 word list \<Rightarrow> five \<Rightarrow> five" where
  "sha1_rounds t [] st = st"
| "sha1_rounds t (w # ws) (a, b, c, d, e) =
     sha1_rounds (Suc t) ws
       (word_rotl 5 a + sha1_f t b c d + e + w + sha1_k t, a, word_rotl 30 b, c, d)"

definition sha1_block :: "five \<Rightarrow> bytes \<Rightarrow> five" where
  "sha1_block st block =
     (case (st, sha1_rounds 0 (rev (sha1_schedule 64 (rev (be_words block)))) st) of
        ((a, b, c, d, e), (a', b', c', d', e')) \<Rightarrow> (a + a', b + b', c + c', d + d', e + e'))"

definition sha1 :: "bytes \<Rightarrow> bytes" where
  "sha1 bs =
     (case foldl sha1_block (0x67452301, 0xEFCDAB89, 0x98BADCFE, 0x10325476, 0xC3D2E1F0)
             (chunks 64 (sha_pad bs)) of
        (a, b, c, d, e) \<Rightarrow> word_bytes [a, b, c, d, e])"

lemma length_sha1 [simp]: "length (sha1 bs) = 20"
  by (simp add: sha1_def split: prod.split)

definition sha256_k :: "32 word list" where
  \<comment> \<open>the fractional parts of the cube roots of the first 64 primes\<close>
  "sha256_k =
    [1116352408, 1899447441, 3049323471, 3921009573, 961987163, 1508970993,
     2453635748, 2870763221, 3624381080, 310598401, 607225278, 1426881987,
     1925078388, 2162078206, 2614888103, 3248222580, 3835390401, 4022224774,
     264347078, 604807628, 770255983, 1249150122, 1555081692, 1996064986,
     2554220882, 2821834349, 2952996808, 3210313671, 3336571891, 3584528711,
     113926993, 338241895, 666307205, 773529912, 1294757372, 1396182291,
     1695183700, 1986661051, 2177026350, 2456956037, 2730485921, 2820302411,
     3259730800, 3345764771, 3516065817, 3600352804, 4094571909, 275423344,
     430227734, 506948616, 659060556, 883997877, 958139571, 1322822218,
     1537002063, 1747873779, 1955562222, 2024104815, 2227730452, 2361852424,
     2428436474, 2756734187, 3204031479, 3329325298]"

fun sha256_schedule :: "nat \<Rightarrow> 32 word list \<Rightarrow> 32 word list" where
  "sha256_schedule 0 ws = ws"
| "sha256_schedule (Suc n) ws =
     (let x = ws ! 14; y = ws ! 1;
          s0 = word_rotr 7 x XOR word_rotr 18 x XOR drop_bit 3 x;
          s1 = word_rotr 17 y XOR word_rotr 19 y XOR drop_bit 10 y
      in sha256_schedule n ((ws ! 15 + s0 + ws ! 6 + s1) # ws))"

fun sha256_round :: "32 word list \<Rightarrow> 32 word \<times> 32 word \<Rightarrow> 32 word list" where
  "sha256_round [a, b, c, d, e, f, g, h] (k, w) =
     (let s1 = word_rotr 6 e XOR word_rotr 11 e XOR word_rotr 25 e;
          ch = (e AND f) XOR (NOT e AND g);
          t1 = h + s1 + ch + k + w;
          s0 = word_rotr 2 a XOR word_rotr 13 a XOR word_rotr 22 a;
          maj = (a AND b) XOR (a AND c) XOR (b AND c)
      in [t1 + (s0 + maj), a, b, c, d + t1, e, f, g])"
| "sha256_round st _ = st"

definition sha256_block :: "32 word list \<Rightarrow> bytes \<Rightarrow> 32 word list" where
  "sha256_block st block =
     map2 (+) st (foldl sha256_round st (zip sha256_k (rev (sha256_schedule 48 (rev (be_words block))))))"

definition sha256 :: "bytes \<Rightarrow> bytes" where
  "sha256 bs = word_bytes (foldl sha256_block
     [0x6a09e667, 0xbb67ae85, 0x3c6ef372, 0xa54ff53a, 0x510e527f, 0x9b05688c, 0x1f83d9ab, 0x5be0cd19]
     (chunks 64 (sha_pad bs)))"

lemma length_sha256_round [simp]: "length (sha256_round st kw) = length st"
  by (induction st kw rule: sha256_round.induct) (simp_all add: Let_def)

lemma length_sha256_rounds: "length (foldl sha256_round st kws) = length st"
  by (induction kws arbitrary: st) simp_all

lemma length_sha256_blocks: "length (foldl sha256_block st blocks) = length st"
  by (induction blocks arbitrary: st) (simp_all add: sha256_block_def length_sha256_rounds)

lemma length_sha256 [simp]: "length (sha256 bs) = 32"
  by (simp add: sha256_def length_sha256_blocks)

section \<open>HMAC\<close>

definition hmac_with :: "(bytes \<Rightarrow> bytes) \<Rightarrow> bytes \<Rightarrow> bytes \<Rightarrow> bytes" where
  "hmac_with h key msg =
     (let k = (if 64 < length key then h key else key);
          k = k @ replicate (64 - length k) 0
      in h (map (\<lambda>b. b XOR 0x5c) k @ h (map (\<lambda>b. b XOR 0x36) k @ msg)))"

definition hmac_sha1 :: "bytes \<Rightarrow> bytes \<Rightarrow> bytes" where
  "hmac_sha1 = hmac_with sha1"

definition hmac_sha256 :: "bytes \<Rightarrow> bytes \<Rightarrow> bytes" where
  "hmac_sha256 = hmac_with sha256"

lemma length_hmac [simp]: "length (hmac_sha1 key msg) = 20" "length (hmac_sha256 key msg) = 32"
  by (simp_all add: hmac_sha1_def hmac_sha256_def hmac_with_def Let_def)

end
