(* ===== verification/Encodings.thy ===== *)
theory Encodings
  imports Hashes
begin

text \<open>
  The other standard-library routines the sign-in code uses: URL-safe base64 as CPython's
  lenient decoder reads it, UTF-8 decoding with lone surrogates let through, and scrypt.
\<close>

section \<open>URL-safe base64\<close>

definition b64_char :: "nat \<Rightarrow> char" where
  "b64_char d = (if d < 26 then char_of (65 + d) else if d < 52 then char_of (71 + d)
     else if d < 62 then char_of (d - 4) else if d = 62 then CHR ''-'' else CHR ''_'')"

definition b64_val :: "char \<Rightarrow> nat option" where
  "b64_val c =
     (if 65 \<le> ordc c \<and> ordc c \<le> 90 then Some (ordc c - 65)
      else if 97 \<le> ordc c \<and> ordc c \<le> 122 then Some (ordc c - 71)
      else if is_digit c then Some (ordc c + 4)
      else if c = CHR ''-'' \<or> c = CHR ''+'' then Some 62
      else if c = CHR ''_'' \<or> c = CHR ''/'' then Some 63 else None)"

fun b64_digits :: "nat list \<Rightarrow> nat list" where
  "b64_digits [] = []"
| "b64_digits [a] = [a div 4, a mod 4 * 16]"
| "b64_digits [a, b] = [a div 4, a mod 4 * 16 + b div 16, b mod 16 * 4]"
| "b64_digits (a # b # c # r) =
     [a div 4, a mod 4 * 16 + b div 16, b mod 16 * 4 + c div 64, c mod 64] @ b64_digits r"

definition urlsafe_b64encode :: "bytes \<Rightarrow> string" where
  "urlsafe_b64encode bs =
     map b64_char (b64_digits (nats bs)) @ replicate ((3 - length bs mod 3) mod 3) (CHR ''='')"

text \<open>
  CPython's decoder walks the text with the position in the quad, the bits left over and the
  padding seen; characters outside the alphabet are skipped, and enough padding ends the walk.
\<close>

fun a2b :: "string \<Rightarrow> nat \<Rightarrow> nat \<Rightarrow> nat \<Rightarrow> bytes \<Rightarrow> bytes option" where
  "a2b [] quad left pads acc = (if quad = 0 then Some acc else None)"
| "a2b (c # cs) quad left pads acc =
     (if c = CHR ''='' then
        (if quad < 2 then a2b cs quad left pads acc
         else if 4 \<le> quad + Suc pads then Some acc else a2b cs quad left (Suc pads) acc)
      else (case b64_val c of
              None \<Rightarrow> a2b cs quad left pads acc
            | Some v \<Rightarrow>
                if quad = 0 then a2b cs 1 v 0 acc
                else if quad = 1 then a2b cs 2 (v mod 16) 0 (acc @ [word_of_nat (left * 4 + v div 16)])
                else if quad = 2 then a2b cs 3 (v mod 4) 0 (acc @ [word_of_nat (left * 16 + v div 4)])
                else a2b cs 0 0 0 (acc @ [word_of_nat (left * 64 + v)])))"

definition urlsafe_b64decode :: "string \<Rightarrow> bytes result" where
  "urlsafe_b64decode s =
     (if \<not> list_all is_ascii s then Inl ValueError
      else (case a2b s 0 0 0 [] of None \<Rightarrow> Inl ValueError | Some bs \<Rightarrow> Inr bs))"

lemma b64_val_char: "d < 64 \<Longrightarrow> b64_val (b64_char d) = Some d"
proof -
  assume d: "d < 64"
  consider "d < 26" | "26 \<le> d" "d < 52" | "52 \<le> d" "d < 62" | "d = 62" | "d = 63" using d by linarith
  then show ?thesis
    by cases (auto simp: b64_val_def b64_char_def is_digit_def ordc_char_of, simp_all add: ordc_def)
qed

lemma b64_char_plain: "b64_char d \<noteq> CHR ''=''"
proof -
  consider "d < 26" | "26 \<le> d" "d < 52" | "52 \<le> d" "d < 62" | "62 \<le> d" by linarith
  then have "b64_val (b64_char (if d < 64 then d else 63)) \<noteq> None" using b64_val_char by auto
  moreover have "b64_char d = b64_char (if d < 64 then d else 63)" by (simp add: b64_char_def)
  moreover have "b64_val (CHR ''='') = None" by code_simp
  ultimately show ?thesis by metis
qed

lemma b64_char_ascii: "is_ascii (b64_char d)"
  by (auto simp: b64_char_def is_ascii_def ordc_char_of) (simp_all add: ordc_def)

lemma a2b_digit:
  "d < 64 \<Longrightarrow> a2b (b64_char d # cs) quad left pads acc =
     (if quad = 0 then a2b cs 1 d 0 acc
      else if quad = 1 then a2b cs 2 (d mod 16) 0 (acc @ [word_of_nat (left * 4 + d div 16)])
      else if quad = 2 then a2b cs 3 (d mod 4) 0 (acc @ [word_of_nat (left * 16 + d div 4)])
      else a2b cs 0 0 0 (acc @ [word_of_nat (left * 64 + d)]))"
  by (simp add: b64_char_plain b64_val_char)

lemma b64_bytes:
  assumes "a < 256" "b < 256" "c < (256::nat)"
  shows "a div 4 < 64" "a mod 4 * 16 + b div 16 < 64" "b mod 16 * 4 + c div 64 < 64" "c mod 64 < 64"
    "a mod 4 * 16 < 64" "b mod 16 * 4 < 64"
    "(a mod 4 * 16 + b div 16) div 16 = a mod 4" "(a mod 4 * 16 + b div 16) mod 16 = b div 16"
    "(b mod 16 * 4 + c div 64) div 4 = b mod 16" "(b mod 16 * 4 + c div 64) mod 4 = c div 64"
proof -
  have q: "a div 4 < 64" "b div 16 < 16" "c div 64 < 4" using assms by (simp_all add: less_mult_imp_div_less)
  then show "a div 4 < 64" "c mod 64 < 64" by simp_all
  have m: "a mod 4 < 4" "b mod 16 < 16" by simp_all
  then show "a mod 4 * 16 < 64" "b mod 16 * 4 < 64"
    "a mod 4 * 16 + b div 16 < 64" "b mod 16 * 4 + c div 64 < 64" using q by linarith+
  show "(a mod 4 * 16 + b div 16) div 16 = a mod 4" "(a mod 4 * 16 + b div 16) mod 16 = b div 16"
    "(b mod 16 * 4 + c div 64) div 4 = b mod 16" "(b mod 16 * 4 + c div 64) mod 4 = c div 64"
    using q by simp_all
qed

text \<open>The padding \<open>=\<close> signs the callers put back before decoding.\<close>

definition b64_pad :: "nat \<Rightarrow> string" where
  "b64_pad n = replicate ((4 - n mod 4) mod 4) (CHR ''='')"

lemma b64_pad_4: "b64_pad (Suc (Suc (Suc (Suc n)))) = b64_pad n"
  by (simp add: b64_pad_def)

lemma b64_pad_simps:
  "b64_pad 0 = []" "b64_pad (Suc (Suc 0)) = [CHR ''='', CHR ''='']" "b64_pad (Suc (Suc (Suc 0))) = [CHR ''='']"
  by (simp_all add: b64_pad_def numeral_2_eq_2)

lemma a2b_pad:
  "a2b (CHR ''='' # cs) quad left pads acc =
     (if quad < 2 then a2b cs quad left pads acc
      else if 4 \<le> quad + Suc pads then Some acc else a2b cs quad left (Suc pads) acc)"
  by simp

lemma a2b_digits:
  assumes "\<And>n. n \<in> set ns \<Longrightarrow> n < 256"
  shows "a2b (map b64_char (b64_digits ns) @ b64_pad (length (b64_digits ns))) 0 left pads acc = Some (acc @ byte_list ns)"
  using assms
proof (induction ns arbitrary: left pads acc rule: b64_digits.induct)
  case 1
  then show ?case by (simp add: b64_pad_simps byte_list_def)
next
  case (2 a)
  then have "a < 256" by simp
  note b = b64_bytes[OF this, of 0 0]
  show ?case using b by (simp add: a2b_digit a2b_pad b64_pad_simps byte_list_def del: a2b.simps(2))
next
  case (3 a b)
  then have "a < 256" "b < 256" by simp_all
  note b = b64_bytes[OF this, of 0]
  show ?case using b by (simp add: a2b_digit a2b_pad b64_pad_simps byte_list_def del: a2b.simps(2))
next
  case (4 a b c r)
  then have "a < 256" "b < 256" "c < 256" by simp_all
  note b = b64_bytes[OF this]
  show ?case using b 4 by (simp add: a2b_digit b64_pad_4 byte_list_def del: a2b.simps(2))
qed

section \<open>UTF-8\<close>

text \<open>Which bytes are UTF-8, the three-byte forms of lone surrogates included (\<open>surrogatepass\<close>).\<close>

definition cont_byte :: "nat \<Rightarrow> bool" where
  "cont_byte b \<longleftrightarrow> 128 \<le> b \<and> b < 192"

fun utf8_valid :: "nat list \<Rightarrow> bool" where
  "utf8_valid [] = True"
| "utf8_valid (a # r) =
     (if a < 128 then utf8_valid r
      else if 194 \<le> a \<and> a < 224 then (case r of b # r1 \<Rightarrow> cont_byte b \<and> utf8_valid r1 | _ \<Rightarrow> False)
      else if 224 \<le> a \<and> a < 240 then
        (case r of b # c # r2 \<Rightarrow> cont_byte b \<and> cont_byte c \<and> (a = 224 \<longrightarrow> 160 \<le> b) \<and> utf8_valid r2 | _ \<Rightarrow> False)
      else if 240 \<le> a \<and> a < 245 then
        (case r of b # c # d # r3 \<Rightarrow>
           cont_byte b \<and> cont_byte c \<and> cont_byte d \<and> (a = 240 \<longrightarrow> 144 \<le> b) \<and> (a = 244 \<longrightarrow> b < 144) \<and> utf8_valid r3
         | _ \<Rightarrow> False)
      else False)"

definition utf8_decode :: "bytes \<Rightarrow> string result" where
  "utf8_decode bs = (if utf8_valid (nats bs) then Inr (map char_of (nats bs)) else Inl ValueError)"

definition text_ok :: "string \<Rightarrow> bool" where
  "text_ok s \<longleftrightarrow> utf8_valid (map ordc s)"

text \<open>Strict encoding fails on lone surrogates, which start with byte 237 and a byte from 160 on.\<close>

fun utf8_ok :: "string \<Rightarrow> bool" where
  "utf8_ok (a # b # r) \<longleftrightarrow> \<not> (ordc a = 237 \<and> 160 \<le> ordc b) \<and> utf8_ok (b # r)"
| "utf8_ok _ \<longleftrightarrow> True"

lemma nats_utf8_encode [simp]: "nats (utf8_encode s) = map ordc s"
proof -
  have "unat (word_of_nat (ordc c) :: byte) = ordc c" for c
    using ordc_bound[of c] by (simp add: unat_of_nat)
  then show ?thesis by (simp add: nats_def utf8_encode_def)
qed

lemma utf8_encode_append [simp]: "utf8_encode (a @ b) = utf8_encode a @ utf8_encode b"
  by (simp add: utf8_encode_def)

lemma utf8_decode_encode: "text_ok s \<Longrightarrow> utf8_decode (utf8_encode s) = Inr s"
  by (simp add: utf8_decode_def text_ok_def ordc_def map_idI comp_def)

lemma utf8_valid_append: "utf8_valid a \<Longrightarrow> utf8_valid b \<Longrightarrow> utf8_valid (a @ b)"
  by (induction a rule: utf8_valid.induct) (auto split: if_splits list.splits)

lemma utf8_valid_ascii: "list_all (\<lambda>n. n < 128) ns \<Longrightarrow> utf8_valid ns"
  by (induction ns) simp_all

lemma text_ok_append: "text_ok a \<Longrightarrow> text_ok b \<Longrightarrow> text_ok (a @ b)"
  by (simp add: text_ok_def utf8_valid_append)

lemma text_ok_ascii: "list_all is_ascii s \<Longrightarrow> text_ok s"
  unfolding text_ok_def by (rule utf8_valid_ascii) (auto simp: list_all_iff is_ascii_def)

section \<open>scrypt\<close>

definition le_words :: "bytes \<Rightarrow> 32 word list" where
  "le_words bs = map (\<lambda>q. word_of_nat (from_bytes (rev q))) (chunks 4 bs)"

definition le_bytes :: "32 word list \<Rightarrow> bytes" where
  "le_bytes ws = concat (map (\<lambda>w. rev (to_bytes 4 (unat w))) ws)"

definition salsa_step :: "nat \<Rightarrow> nat \<Rightarrow> nat \<Rightarrow> nat \<Rightarrow> 32 word list \<Rightarrow> 32 word list" where
  "salsa_step n i j k x = x[i := x ! i XOR word_rotl n (x ! j + x ! k)]"

fun salsa_quarter :: "nat \<times> nat \<times> nat \<times> nat \<Rightarrow> 32 word list \<Rightarrow> 32 word list" where
  "salsa_quarter (a, b, c, d) x =
     salsa_step 18 a d c (salsa_step 13 d c b (salsa_step 9 c b a (salsa_step 7 b a d x)))"

definition salsa20_8 :: "32 word list \<Rightarrow> 32 word list" where
  "salsa20_8 x =
     (let double = fold salsa_quarter
            [(0, 4, 8, 12), (5, 9, 13, 1), (10, 14, 2, 6), (15, 3, 7, 11),
             (0, 1, 2, 3), (5, 6, 7, 4), (10, 11, 8, 9), (15, 12, 13, 14)]
      in map2 (+) x ((double ^^ 4) x))"

fun block_chain :: "32 word list \<Rightarrow> 32 word list list \<Rightarrow> 32 word list list" where
  "block_chain x [] = []"
| "block_chain x (b # bs) = (let y = salsa20_8 (map2 (XOR) x b) in y # block_chain y bs)"

definition block_mix :: "32 word list \<Rightarrow> 32 word list" where
  "block_mix ws =
     (let bs = chunks 16 ws; ys = block_chain (last bs) bs; n = length ys
      in concat (map (\<lambda>i. ys ! i) (filter even [0..<n]) @ map (\<lambda>i. ys ! i) (filter odd [0..<n])))"

fun mix_read :: "nat \<Rightarrow> 32 word list list \<Rightarrow> 32 word list \<Rightarrow> 32 word list" where
  "mix_read 0 table x = x"
| "mix_read (Suc n) table x =
     mix_read n table (block_mix (map2 (XOR) x (table ! (unat (x ! (length x - 16)) mod length table))))"

definition ro_mix :: "nat \<Rightarrow> bytes \<Rightarrow> bytes" where
  "ro_mix n b =
     (let (v, x) = foldl (\<lambda>(v, x) _. (v @ [x], block_mix x)) ([], le_words b) [0..<n]
      in le_bytes (mix_read n v x))"

definition pbkdf2_once :: "bytes \<Rightarrow> bytes \<Rightarrow> nat \<Rightarrow> bytes" where
  \<comment> \<open>PBKDF2-HMAC-SHA256 with one iteration\<close>
  "pbkdf2_once password salt n =
     take n (concat (map (\<lambda>i. hmac_sha256 password (salt @ to_bytes 4 i)) [1..<(n + 31) div 32 + 1]))"

text \<open>
  \<open>hashlib.scrypt\<close> with its default memory limit of 32 MiB: parameters outside OpenSSL's bounds
  raise ValueError.
\<close>

definition scrypt_params_ok :: "int \<Rightarrow> int \<Rightarrow> int \<Rightarrow> bool" where
  "scrypt_params_ok n r p \<longleftrightarrow>
     2 \<le> n \<and> n AND (n - 1) = 0 \<and> 1 \<le> r \<and> 1 \<le> p \<and> r * p < 2 ^ 30 \<and> (r < 4 \<longrightarrow> n < 2 ^ nat (16 * r))
     \<and> 128 * r * p + 128 * r * (n + 2) \<le> 32 * 1024 * 1024"

definition scrypt :: "bytes \<Rightarrow> bytes \<Rightarrow> int \<Rightarrow> int \<Rightarrow> int \<Rightarrow> nat \<Rightarrow> bytes result" where
  "scrypt password salt n r p dklen =
     (if \<not> scrypt_params_ok n r p then Inl ValueError
      else (let b = pbkdf2_once password salt (nat (p * 128 * r));
                mixed = concat (map (ro_mix (nat n)) (chunks (nat (128 * r)) b))
            in Inr (pbkdf2_once password mixed dklen)))"

lemma scrypt_default_params: "scrypt_params_ok 16384 8 1"
  by (simp add: scrypt_params_ok_def)

end
