(* ===== verification/Auth_Config.thy ===== *)
theory Auth_Config
  imports Encodings Py_Value
begin

text \<open>
  Panel accounts (\<open>hub/auth.py\<close>): what the \<open>settings.auth\<close> block of the configuration means, the
  passwords, and the operations that rewrite it. A mapping key is text; a numeric YAML key
  stands as its decimal text, so one text may name two entries of \<open>session_epochs\<close>. A writer
  takes the configuration root and returns it rewritten; a ValueError carries its reason.
\<close>

section \<open>Reading leftovers\<close>

definition pick :: "pyval \<Rightarrow> pyval \<Rightarrow> pyval" where
  "pick v fallback = (if truthy v then v else fallback)"

definition is_hex_digit :: "char \<Rightarrow> bool" where
  "is_hex_digit c \<longleftrightarrow> is_digit c \<or> (65 \<le> ordc c \<and> ordc c \<le> 70) \<or> (97 \<le> ordc c \<and> ordc c \<le> 102)"

text \<open>A match of \<open>" at 0x[0-9a-fA-F]+>"\<close> anywhere in the text.\<close>

fun addr_repr :: "string \<Rightarrow> bool" where
  "addr_repr [] = False"
| "addr_repr (c # cs) =
     ((startswith (c # cs) '' at 0x''
       \<and> (let rest = drop 6 (c # cs); tail = dropWhile is_hex_digit rest
          in length tail < length rest \<and> startswith tail ''>''))
      \<or> addr_repr cs)"

fun cfg_text :: "pyval \<Rightarrow> string" where
  "cfg_text (PStr s) = s"
| "cfg_text PHostile = []"
| "cfg_text v = (case py_str v of Inl _ \<Rightarrow> [] | Inr s \<Rightarrow> if addr_repr s then [] else s)"

definition auth_cfg :: "pyval \<Rightarrow> pydict" where
  "auth_cfg cfg = (case mapping_get (mapping_get cfg ''settings'') ''auth'' of PDict d \<Rightarrow> d | _ \<Rightarrow> [])"

definition epoch_key :: "string \<Rightarrow> string" where
  "epoch_key key = (let t = strip key in if utf8_ok t then t else [])"

definition epoch_count :: "pyval \<Rightarrow> int" where
  "epoch_count raw =
     (case raw of PNone \<Rightarrow> 0 | PBool _ \<Rightarrow> 0
      | _ \<Rightarrow> (case py_int raw of
                Inl _ \<Rightarrow> 0
              | Inr n \<Rightarrow> (case py_str_of_int n of Inl _ \<Rightarrow> 1 | Inr _ \<Rightarrow> n)))"

fun fold_epochs :: "pydict \<Rightarrow> (string, int) dict \<Rightarrow> (string, int) dict" where
  "fold_epochs [] out = out"
| "fold_epochs ((k, v) # rest) out =
     (let key = epoch_key k in
      if key = [] then fold_epochs rest out
      else fold_epochs rest (dict_set key
        (case dict_get out key of None \<Rightarrow> epoch_count v | Some n \<Rightarrow> max (epoch_count v) n) out))"

definition clean_epochs :: "pyval \<Rightarrow> (string, int) dict" where
  "clean_epochs raw = (case raw of PDict d \<Rightarrow> fold_epochs d [] | _ \<Rightarrow> [])"

definition epochs_val :: "(string, int) dict \<Rightarrow> pyval" where
  "epochs_val d = PDict (map (\<lambda>(k, n). (k, PInt n)) d)"

text \<open>\<open>_renderable\<close>; None is the \<open>_DROP\<close> sentinel.\<close>

fun renderable :: "nat \<Rightarrow> pyval \<Rightarrow> pyval option" where
  "renderable depth v =
     (if 32 < depth then Some v
      else (case v of
              PInt i \<Rightarrow> (case py_str_of_int i of Inl _ \<Rightarrow> None | Inr _ \<Rightarrow> Some v)
            | PDict d \<Rightarrow> Some (PDict (List.map_filter
                (\<lambda>p. map_option (\<lambda>c. (fst p, c)) (renderable (Suc depth) (snd p))) d))
            | PList xs \<Rightarrow> Some (PList (List.map_filter (renderable (Suc depth)) xs))
            | PTuple xs \<Rightarrow> Some (PList (List.map_filter (renderable (Suc depth)) xs))
            | _ \<Rightarrow> Some v))"

declare renderable.simps [simp del]

definition auth_block :: "pydict \<Rightarrow> pydict \<times> pydict" where
  "auth_block data =
     (let settings = (case pyget data ''settings'' of PDict s \<Rightarrow> s | _ \<Rightarrow> []);
          auth = (case pyget settings ''auth'' of PDict a \<Rightarrow> a | _ \<Rightarrow> []);
          auth = (if dict_get auth ''session_epochs'' \<noteq> None
                  then dict_set ''session_epochs'' (epochs_val (clean_epochs (pyget auth ''session_epochs''))) auth else auth)
      in (settings, case renderable 0 (PDict auth) of Some (PDict a) \<Rightarrow> a | _ \<Rightarrow> []))"

text \<open>\<open>settings["auth"] = auth\<close> in the settings the root now holds.\<close>

definition put_auth :: "pydict \<Rightarrow> pydict \<Rightarrow> pydict \<Rightarrow> pydict" where
  "put_auth settings auth data = dict_set ''settings'' (PDict (dict_set ''auth'' (PDict auth) settings)) data"

definition account_rows :: "pydict \<Rightarrow> pydict list" where
  "account_rows auth = (case pyget auth ''accounts'' of PList rows \<Rightarrow> List.map_filter plain_dict rows | _ \<Rightarrow> [])"

section \<open>Accounts\<close>

datatype role = Admin | Member

record account_rec =
  ac_username :: string
  ac_hash :: string
  ac_role :: role
  ac_resources :: "string list"

definition or_text :: "string \<Rightarrow> string \<Rightarrow> string" where
  "or_text s fallback = (if s = [] then fallback else s)"

definition legacy_name :: "pydict \<Rightarrow> string" where
  "legacy_name a =
     (let n = or_text (strip (cfg_text (pick (pyget a ''username'') (PStr ''admin'')))) ''admin''
      in if utf8_ok n then n else ''admin'')"

definition legacy_hash :: "pydict \<Rightarrow> string" where
  "legacy_hash a = cfg_text (pick (pyget a ''password_hash'') (pick (pyget a ''password'') (PStr [])))"

definition legacy_account :: "pydict \<Rightarrow> (string, account_rec) dict" where
  "legacy_account a =
     (if legacy_hash a \<noteq> [] \<and> CHR '':'' \<notin> set (legacy_name a)
      then [(legacy_name a, \<lparr>ac_username = legacy_name a, ac_hash = legacy_hash a, ac_role = Admin, ac_resources = []\<rparr>)]
      else [])"

definition row_resources :: "pyval \<Rightarrow> string list" where
  "row_resources raw =
     (case raw of PList xs \<Rightarrow> filter (\<lambda>t. strip t \<noteq> [] \<and> utf8_ok t) (map cfg_text xs) | _ \<Rightarrow> [])"

definition row_name :: "pydict \<Rightarrow> string" where
  "row_name row = strip (cfg_text (pick (pyget row ''username'') (PStr [])))"

definition row_account :: "pydict \<Rightarrow> account_rec option" where
  "row_account row =
     (let name = row_name row in
      if name = [] \<or> CHR '':'' \<in> set name \<or> \<not> utf8_ok name then None
      else Some \<lparr>ac_username = name, ac_hash = cfg_text (pick (pyget row ''password_hash'') (PStr [])),
                 ac_role = (if cfg_text (pick (pyget row ''role'') (PStr ''member'')) = ''admin'' then Admin else Member),
                 ac_resources = row_resources (pyget row ''resources'')\<rparr>)"

fun add_rows :: "pydict list \<Rightarrow> (string, account_rec) dict \<Rightarrow> (string, account_rec) dict" where
  "add_rows [] out = out"
| "add_rows (row # rows) out =
     add_rows rows (case row_account row of None \<Rightarrow> out | Some r \<Rightarrow> dict_set (ac_username r) r out)"

definition accounts :: "pydict \<Rightarrow> (string, account_rec) dict" where
  "accounts a = add_rows (account_rows a) (legacy_account a)"

definition account :: "pydict \<Rightarrow> string \<Rightarrow> account_rec option" where
  "account a username = (if username = [] then None else dict_get (accounts a) username)"

definition role_of :: "pydict \<Rightarrow> string \<Rightarrow> role" where
  "role_of a username = (case account a username of None \<Rightarrow> Member | Some r \<Rightarrow> ac_role r)"

definition is_admin :: "pydict \<Rightarrow> string \<Rightarrow> bool" where
  "is_admin a username \<longleftrightarrow> role_of a username = Admin"

definition allowed_resources :: "pydict \<Rightarrow> string \<Rightarrow> string list" where
  "allowed_resources a username = (case account a username of None \<Rightarrow> [] | Some r \<Rightarrow> ac_resources r)"

definition may_use_resource :: "pydict \<Rightarrow> string \<Rightarrow> string \<Rightarrow> bool" where
  "may_use_resource a username resource \<longleftrightarrow>
     is_admin a username \<or> (resource \<noteq> [] \<and> resource \<in> set (allowed_resources a username))"

definition auth_is_claimed :: "pydict \<Rightarrow> bool" where
  "auth_is_claimed a \<longleftrightarrow>
     truthy (pyget a ''password_hash'') \<or> cfg_text (pick (pyget a ''password'') (PStr [])) \<notin> {[], ''change-me''}"

definition setup_required :: "pydict \<Rightarrow> bool" where
  "setup_required a \<longleftrightarrow> \<not> auth_is_claimed a"

definition suggested_setup_username :: "pydict \<Rightarrow> string" where
  "suggested_setup_username a = legacy_name a"

definition auth_enabled :: "pydict \<Rightarrow> bool" where
  "auth_enabled a \<longleftrightarrow> \<not> setup_required a"

section \<open>Passwords\<close>

definition min_password_length :: nat where "min_password_length = 10"

definition b64_unpadded :: "bytes \<Rightarrow> string" where
  "b64_unpadded bs = rstrip_char (CHR ''='') (urlsafe_b64encode bs)"

definition b64decode :: "string \<Rightarrow> bytes result" where
  "b64decode value = urlsafe_b64decode (value @ replicate ((4 - py_len value mod 4) mod 4) (CHR ''=''))"

text \<open>\<open>salt\<close> is what \<open>secrets.token_bytes(16)\<close> draws.\<close>

definition hash_password :: "bytes \<Rightarrow> string \<Rightarrow> string result" where
  "hash_password salt password =
     bind_ok (scrypt (utf8_encode password) salt 16384 8 1 32)
       (\<lambda>derived. Inr (join_on ''$'' [''scrypt'', show_int 16384, show_int 8, show_int 1, b64_unpadded salt, b64_unpadded derived]))"

definition verify_scrypt :: "string \<Rightarrow> string \<Rightarrow> bool" where
  "verify_scrypt encoded password =
     (case split_on (CHR ''$'') encoded of
        _ # ns # rs # ps # salt_s # e # es \<Rightarrow>
          (case bind_ok (b64decode salt_s) (\<lambda>salt. bind_ok (py_int_of_str ns) (\<lambda>n. bind_ok (py_int_of_str rs)
                  (\<lambda>r. bind_ok (py_int_of_str ps) (\<lambda>p. bind_ok (scrypt (utf8_encode password) salt n r p 32)
                    (\<lambda>actual. bind_ok (b64decode (join_on ''$'' (e # es))) (\<lambda>expected. Inr (actual = expected))))))) of
             Inl _ \<Rightarrow> False
           | Inr b \<Rightarrow> b)
      | _ \<Rightarrow> False)"

definition verify_password :: "pydict \<Rightarrow> string \<Rightarrow> bool" where
  "verify_password a password =
     (let encoded = cfg_text (pick (pyget a ''password_hash'') (PStr [])) in
      if startswith encoded ''scrypt$'' then verify_scrypt encoded password
      else (let legacy = cfg_text (pick (pyget a ''password'') (PStr []))
            in legacy \<noteq> [] \<and> legacy \<noteq> ''change-me'' \<and> password = legacy))"

definition verify_account_password :: "pydict \<Rightarrow> string \<Rightarrow> string \<Rightarrow> bool" where
  "verify_account_password a username password =
     (case account a username of
        None \<Rightarrow> False
      | Some r \<Rightarrow>
          if startswith (ac_hash r) ''scrypt$'' then verify_scrypt (ac_hash r) password
          else if ac_role r = Admin then
            (let legacy = cfg_text (pick (pyget a ''password'') (PStr []))
             in legacy \<noteq> [] \<and> legacy \<noteq> ''change-me'' \<and> password = legacy)
          else False)"

section \<open>Writers\<close>

definition is_name_char :: "char \<Rightarrow> bool" where
  "is_name_char c \<longleftrightarrow> is_digit c \<or> (65 \<le> ordc c \<and> ordc c \<le> 90) \<or> (97 \<le> ordc c \<and> ordc c \<le> 122)"

text \<open>\<open>^[A-Za-z0-9][A-Za-z0-9._@+-]{0,63}$\<close>; the dollar also matches before one final newline.\<close>

definition valid_username :: "string \<Rightarrow> bool" where
  "valid_username name \<longleftrightarrow>
     (let body = (if name \<noteq> [] \<and> last name = char_of (10::nat) then butlast name else name)
      in (case body of
            [] \<Rightarrow> False
          | c # cs \<Rightarrow> is_name_char c \<and> length cs \<le> 63
              \<and> list_all (\<lambda>x. is_name_char x \<or> x \<in> {CHR ''.'', CHR ''_'', CHR ''@'', CHR ''+'', CHR ''-''}) cs))"

definition max_accounts :: nat where "max_accounts = 32"

definition clean_resources :: "pyval \<Rightarrow> string list" where
  "clean_resources resources =
     (case resources of
        PList xs \<Rightarrow> filter (\<lambda>t. t \<noteq> [] \<and> utf8_ok t)
          (List.map_filter (\<lambda>v. case py_str v of Inl _ \<Rightarrow> None | Inr s \<Rightarrow> Some (strip s)) xs)
      | _ \<Rightarrow> [])"

definition set_password :: "bytes \<Rightarrow> string \<Rightarrow> string \<Rightarrow> bool \<Rightarrow> bool \<Rightarrow> pydict \<Rightarrow> (string + bool) \<times> pydict" where
  "set_password salt password username enable only_if_unclaimed data =
     (if py_len password < min_password_length then (Inl ''password_too_short'', data)
      else (case hash_password salt password of
              Inl _ \<Rightarrow> (Inl ''hash'', data)
            | Inr digest \<Rightarrow>
                (let resolved = or_text (strip (or_text username ''admin'')) ''admin'' in
                 if CHR '':'' \<in> set resolved \<or> \<not> valid_username resolved then (Inl ''bad_username'', data)
                 else
                   (let (settings, auth) = auth_block data in
                    if only_if_unclaimed \<and> auth_is_claimed auth
                    then (Inr False, dict_set ''settings'' (PDict settings) data)
                    else (Inr True, put_auth settings
                      (dict_del ''password'' (dict_set ''password_hash'' (PStr digest)
                        (dict_set ''username'' (PStr resolved) (dict_set ''enabled'' (PBool enable) auth)))) data)))))"

definition name_of :: "pydict \<Rightarrow> string" where
  \<comment> \<open>\<open>_cfg_text(e.get("username") or "").strip()\<close>\<close>
  "name_of e = row_name e"

definition create_account ::
  "bytes \<Rightarrow> string \<Rightarrow> string \<Rightarrow> string \<Rightarrow> pyval \<Rightarrow> pydict \<Rightarrow> (string + string \<times> string \<times> string list) \<times> pydict" where
  "create_account salt username password role resources data =
     (let name = strip username in
      if \<not> valid_username name then (Inl ''bad_username'', data)
      else if role \<notin> {''admin'', ''member''} then (Inl ''bad_role'', data)
      else if py_len password < min_password_length then (Inl ''password_too_short'', data)
      else (case hash_password salt password of
              Inl _ \<Rightarrow> (Inl ''hash'', data)
            | Inr digest \<Rightarrow>
                (let clean = clean_resources resources;
                     (settings, auth) = auth_block data;
                     entries = account_rows auth;
                     taken = map (\<lambda>e. lower (name_of e)) entries;
                     legacy = lower (strip (cfg_text (pick (pyget auth ''username'') (PStr []))))
                 in if lower name \<in> set taken \<or> (legacy \<noteq> [] \<and> lower name = legacy) then (Inl ''exists'', data)
                    else if max_accounts \<le> length entries then (Inl ''too_many'', data)
                    else (Inr (name, role, clean),
                          put_auth settings (dict_set ''accounts'' (PList (map PDict entries @
                            [PDict [(''username'', PStr name), (''password_hash'', PStr digest), (''role'', PStr role),
                                    (''resources'', PList (map PStr clean))]])) auth) data))))"

text \<open>\<open>snapshot\<close> is the auth block the process has cached, \<open>data\<close> the configuration on disk.\<close>

definition set_rows :: "string \<Rightarrow> string \<Rightarrow> pyval \<Rightarrow> pydict list \<Rightarrow> pyval" where
  "set_rows name field v entries =
     PList (map (\<lambda>e. PDict (if name_of e = name then dict_set field v e else e)) entries)"

definition set_account_resources :: "pydict \<Rightarrow> string \<Rightarrow> pyval \<Rightarrow> pydict \<Rightarrow> (string + string list) \<times> pydict" where
  "set_account_resources snapshot username resources data =
     (let name = strip username in
      case account snapshot name of
        None \<Rightarrow> (Inl ''not_found'', data)
      | Some r \<Rightarrow>
          if ac_role r = Admin then (Inl ''not_member'', data)
          else
            (let clean = clean_resources resources; (settings, auth) = auth_block data
             in (Inr clean, put_auth settings
                  (dict_set ''accounts'' (set_rows name ''resources'' (PList (map PStr clean)) (account_rows auth)) auth) data)))"

definition set_account_password :: "bytes \<Rightarrow> pydict \<Rightarrow> string \<Rightarrow> string \<Rightarrow> pydict \<Rightarrow> (string + unit) \<times> pydict" where
  "set_account_password salt snapshot username password data =
     (let name = strip username in
      case account snapshot name of
        None \<Rightarrow> (Inl ''not_found'', data)
      | Some r \<Rightarrow>
          if py_len password < min_password_length then (Inl ''password_too_short'', data)
          else if \<not> list_ex (\<lambda>row. row_name row = name) (account_rows snapshot) then
            (case set_password salt password name True False data of
               (Inl e, data') \<Rightarrow> (Inl e, data')
             | (Inr _, data') \<Rightarrow> (Inr (), data'))
          else (case hash_password salt password of
                  Inl _ \<Rightarrow> (Inl ''hash'', data)
                | Inr digest \<Rightarrow>
                    (let (settings, auth) = auth_block data
                     in (Inr (), put_auth settings
                          (dict_set ''accounts'' (set_rows name ''password_hash'' (PStr digest) (account_rows auth)) auth) data))))"

definition delete_account :: "pydict \<Rightarrow> string \<Rightarrow> pydict \<Rightarrow> (string + unit) \<times> pydict" where
  "delete_account snapshot username data =
     (let name = strip username in
      case account snapshot name of
        None \<Rightarrow> (Inl ''not_found'', data)
      | Some r \<Rightarrow>
          if ac_role r = Admin then (Inl ''not_member'', data)
          else
            (let (settings, auth) = auth_block data;
                 entries = filter (\<lambda>e. name_of e \<noteq> name) (account_rows auth);
                 auth = dict_set ''accounts'' (PList (map PDict entries)) auth;
                 epochs = dict_del name (clean_epochs (pyget auth ''session_epochs''))
             in (Inr (), put_auth settings (dict_set ''session_epochs'' (epochs_val epochs) auth) data)))"

section \<open>Session epochs\<close>

definition session_epoch :: "pydict \<Rightarrow> string \<Rightarrow> int" where
  "session_epoch a username =
     (case pyget a ''session_epochs'' of
        PDict d \<Rightarrow>
          (case [epoch_count v. (k, v) \<leftarrow> d, epoch_key k = username] of
             [] \<Rightarrow> 0
           | n # ns \<Rightarrow> foldl max n ns)
      | _ \<Rightarrow> 0)"

definition bump_session_epoch :: "string \<Rightarrow> pydict \<Rightarrow> pydict" where
  "bump_session_epoch username data =
     (let (settings, auth) = auth_block data;
          epochs = clean_epochs (pyget auth ''session_epochs'');
          nxt = (case dict_get epochs username of None \<Rightarrow> 0 | Some n \<Rightarrow> n) + 1;
          nxt = (case py_str_of_int nxt of Inl _ \<Rightarrow> 2 | Inr _ \<Rightarrow> nxt)
      in put_auth settings (dict_set ''session_epochs'' (epochs_val (dict_set username nxt epochs)) auth) data)"

text \<open>The credential text a session is tied to, and its stamp.\<close>

definition version_basis :: "pydict \<Rightarrow> string \<Rightarrow> string" where
  "version_basis a username =
     (let basis = (case dict_get (accounts a) username of None \<Rightarrow> ''legacy'' | Some r \<Rightarrow> or_text (ac_hash r) ''legacy'');
          epoch = session_epoch a username
      in if epoch \<noteq> 0 then basis @ ''|'' @ show_int epoch else basis)"

definition account_session_version :: "pydict \<Rightarrow> string \<Rightarrow> string" where
  "account_session_version a username = take 16 (hexdigest (sha256 (utf8_encode (version_basis a username))))"

end
