(* ===== verification/Auth_Accounts.thy ===== *)
theory Auth_Accounts
  imports Auth_Config
begin

text \<open>
  What the account operations of \<open>hub/auth.py\<close> promise: a stored hash verifies exactly the
  passwords with its scrypt value, creating, re-passwording and deleting an account changes that
  account and no other, synthetic identities have no power, and bumping an epoch changes the
  credential text sessions are tied to.
\<close>

section \<open>Rewriting the block\<close>

definition stored_auth :: "pydict \<Rightarrow> pydict" where
  "stored_auth data = auth_cfg (PDict data)"

lemma stored_auth_put [simp]: "stored_auth (put_auth settings auth data) = auth"
  by (simp add: stored_auth_def auth_cfg_def put_auth_def dict_simps)

text \<open>A block YAML can write back: no integer in it is beyond the digit cap.\<close>

definition plain_auth :: "pydict \<Rightarrow> bool" where
  "plain_auth a \<longleftrightarrow> (\<forall>p \<in> set a. renderable 1 (snd p) = Some (snd p))"

definition printable :: "int \<Rightarrow> bool" where
  "printable n \<longleftrightarrow> py_str_of_int n = Inr (show_int n)"

lemma printable_iff: "printable n \<longleftrightarrow> (\<exists>s. py_str_of_int n = Inr s)"
  by (auto simp: printable_def py_str_of_int_def)

lemma show_nat_small: "n < 10 \<Longrightarrow> show_nat n = [digit_char n]"
  by (subst show_nat.simps) simp

lemma printable_small: "printable 0" "printable 1" "printable 2"
  by (simp_all add: printable_def py_str_of_int_def show_nat_small int_max_str_digits_def)

lemma epoch_count_printable: "printable (epoch_count v)"
  by (auto simp: epoch_count_def intro!: printable_small split: pyval.split sum.split) (auto simp: printable_iff)

lemma fold_epochs_printable:
  "(\<And>p. p \<in> set out \<Longrightarrow> printable (snd p)) \<Longrightarrow> p \<in> set (fold_epochs d out) \<Longrightarrow> printable (snd p)"
proof (induction d out rule: fold_epochs.induct)
  case (2 k v rest out)
  let ?n = "case dict_get out (epoch_key k) of None \<Rightarrow> epoch_count v | Some n \<Rightarrow> max (epoch_count v) n"
  have n: "printable ?n"
    using 2(3) epoch_count_printable[of v] dict_get_in[of out "epoch_key k"]
    by (auto simp: max_def split: option.split)
  have "printable (snd q)" if "q \<in> set (dict_set (epoch_key k) ?n out)" for q
    using in_dict_set[OF that] 2(3)[of q] n by auto
  then show ?case using 2 by (auto simp: Let_def split: if_splits)
qed simp

definition epoch_entry :: "string \<times> int \<Rightarrow> bool" where
  "epoch_entry p \<longleftrightarrow> epoch_key (fst p) = fst p \<and> fst p \<noteq> []"

lemma epoch_key_idem: "epoch_key (epoch_key k) = epoch_key k"
  by (auto simp: epoch_key_def Let_def strip_id)

lemma fold_epochs_entries:
  "(\<And>p. p \<in> set out \<Longrightarrow> epoch_entry p) \<Longrightarrow> p \<in> set (fold_epochs d out) \<Longrightarrow> epoch_entry p"
proof (induction d out rule: fold_epochs.induct)
  case (2 k v rest out)
  let ?n = "case dict_get out (epoch_key k) of None \<Rightarrow> epoch_count v | Some n \<Rightarrow> max (epoch_count v) n"
  have "epoch_entry q" if "q \<in> set (dict_set (epoch_key k) ?n out)" "epoch_key k \<noteq> []" for q
    using in_dict_set[OF that(1)] 2(3)[of q] that(2) by (auto simp: epoch_entry_def epoch_key_idem)
  then show ?case using 2 by (auto simp: Let_def split: if_splits)
qed simp

lemma fold_epochs_ok: "dict_ok out \<Longrightarrow> dict_ok (fold_epochs d out)"
  by (induction d out rule: fold_epochs.induct) (auto simp: Let_def dict_ok_set)

lemma clean_epochs_ok:
  "dict_ok (clean_epochs raw)" "p \<in> set (clean_epochs raw) \<Longrightarrow> epoch_entry p"
  "p \<in> set (clean_epochs raw) \<Longrightarrow> printable (snd p)"
proof -
  have nil: "dict_ok ([] :: (string, int) dict)" by (simp add: dict_ok_def)
  show "dict_ok (clean_epochs raw)"
    using nil fold_epochs_ok[OF nil] by (cases raw) (simp_all add: clean_epochs_def)
  show "p \<in> set (clean_epochs raw) \<Longrightarrow> epoch_entry p"
    using fold_epochs_entries[of "[]" p] by (cases raw) (simp_all add: clean_epochs_def)
  show "p \<in> set (clean_epochs raw) \<Longrightarrow> printable (snd p)"
    using fold_epochs_printable[of "[]" p] by (cases raw) (simp_all add: clean_epochs_def)
qed

definition epoch_matches :: "pydict \<Rightarrow> string \<Rightarrow> int list" where
  "epoch_matches d u = [epoch_count v. (k, v) \<leftarrow> d, epoch_key k = u]"

lemma epoch_matches_simps [simp]:
  "epoch_matches [] u = []"
  "epoch_matches ((k, v) # d) u = (if epoch_key k = u then epoch_count v # epoch_matches d u else epoch_matches d u)"
  by (simp_all add: epoch_matches_def)

lemma fold_epochs_get:
  "u \<noteq> [] \<Longrightarrow> dict_get (fold_epochs d out) u =
     (case dict_get out u of
        Some m \<Rightarrow> Some (foldl max m (epoch_matches d u))
      | None \<Rightarrow> (case epoch_matches d u of [] \<Rightarrow> None | n # ns \<Rightarrow> Some (foldl max n ns)))"
proof (induction d out rule: fold_epochs.induct)
  case (2 k v rest out)
  then show ?case by (auto simp: Let_def dict_simps max.commute split: option.splits)
qed (simp split: option.split)

lemma session_epoch_clean:
  "u \<noteq> [] \<Longrightarrow> session_epoch a u
    = (case dict_get (clean_epochs (pyget a ''session_epochs'')) u of None \<Rightarrow> 0 | Some n \<Rightarrow> n)"
  unfolding session_epoch_def clean_epochs_def epoch_matches_def[symmetric]
  by (auto simp: fold_epochs_get dict_simps split: pyval.split list.split)

lemma epoch_count_PInt: "printable n \<Longrightarrow> epoch_count (PInt n) = n"
  by (simp add: epoch_count_def printable_def)

lemma fold_epochs_val:
  "dict_ok (out @ d) \<Longrightarrow> (\<And>p. p \<in> set d \<Longrightarrow> epoch_entry p \<and> printable (snd p)) \<Longrightarrow>
    fold_epochs (map (\<lambda>(k, n). (k, PInt n)) d) out = out @ d"
proof (induction d arbitrary: out)
  case (Cons p d)
  obtain k n where p: "p = (k, n)" by (cases p)
  have e: "epoch_key k = k" "k \<noteq> []" "printable n" using Cons.prems(2)[of p] p by (auto simp: epoch_entry_def)
  have new: "k \<notin> fst ` set out" using Cons.prems(1) p by (auto simp: dict_ok_def)
  then have "dict_get out k = None" by (simp add: dict_get_def map_of_eq_None_iff)
  moreover have "dict_set k n out = out @ [(k, n)]"
    using new by (induction out) (auto simp: dict_set_def)
  ultimately show ?case
    using Cons.IH[of "out @ [(k, n)]"] Cons.prems e p by (simp add: epoch_count_PInt Let_def)
qed simp

lemma clean_epochs_val:
  assumes "dict_ok d" "\<And>p. p \<in> set d \<Longrightarrow> epoch_entry p \<and> printable (snd p)"
  shows "clean_epochs (epochs_val d) = d"
  using fold_epochs_val[of "[]" d] assms by (simp add: clean_epochs_def epochs_val_def)

section \<open>The rewritten block keeps what accounts read\<close>

lemma renderable_epochs:
  assumes "\<And>p. p \<in> set d \<Longrightarrow> printable (snd p)"
  shows "renderable 1 (epochs_val d) = Some (epochs_val d)"
proof -
  have "List.map_filter (\<lambda>p. map_option (\<lambda>c. (fst p, c)) (renderable (Suc 1) (snd p))) (map (\<lambda>(k, n). (k, PInt n)) d)
      = map (\<lambda>(k, n). (k, PInt n)) d"
    by (rule map_filter_id) (use assms in \<open>auto simp: renderable.simps[of "Suc (Suc 0)"] printable_def\<close>)
  then show ?thesis unfolding epochs_val_def by (subst renderable.simps) simp
qed

definition rewritten :: "pydict \<Rightarrow> pydict" where
  "rewritten a = (if dict_get a ''session_epochs'' \<noteq> None
     then dict_set ''session_epochs'' (epochs_val (clean_epochs (pyget a ''session_epochs''))) a else a)"

lemma auth_block_plain:
  assumes "plain_auth (stored_auth data)"
  shows "snd (auth_block data) = rewritten (stored_auth data)"
proof -
  let ?a = "stored_auth data"
  have a: "(case pyget (case pyget data ''settings'' of PDict s \<Rightarrow> s | _ \<Rightarrow> []) ''auth'' of PDict a \<Rightarrow> a | _ \<Rightarrow> []) = ?a"
    by (cases "pyget data ''settings''") (auto simp: stored_auth_def auth_cfg_def dict_simps split: pyval.split)
  have "renderable 1 (snd p) = Some (snd p)" if "p \<in> set (rewritten ?a)" for p
  proof (cases "p \<in> set ?a")
    case False
    then have "p = (''session_epochs'', epochs_val (clean_epochs (pyget ?a ''session_epochs'')))"
      using that by (auto simp: rewritten_def split: if_splits dest: in_dict_set)
    then show ?thesis using renderable_epochs[OF clean_epochs_ok(3)] by simp
  qed (use assms in \<open>simp add: plain_auth_def\<close>)
  then have "List.map_filter (\<lambda>p. map_option (\<lambda>c. (fst p, c)) (renderable 1 (snd p))) (rewritten ?a) = rewritten ?a"
    by (intro map_filter_id) simp
  then have "renderable 0 (PDict (rewritten ?a)) = Some (PDict (rewritten ?a))"
    by (simp add: renderable.simps[of 0])
  moreover have "snd (auth_block data) = (case renderable 0 (PDict (rewritten ?a)) of Some (PDict a) \<Rightarrow> a | _ \<Rightarrow> [])"
    by (simp only: auth_block_def Let_def a rewritten_def snd_conv)
  ultimately show ?thesis by simp
qed

lemma rewritten_field: "k \<noteq> ''session_epochs'' \<Longrightarrow> pyget (rewritten a) k = pyget a k"
  by (simp add: rewritten_def dict_simps)

lemma accounts_cong:
  assumes "\<And>k. k \<in> {''username'', ''password_hash'', ''password'', ''accounts''} \<Longrightarrow> pyget a k = pyget b k"
  shows "accounts a = accounts b" "account_rows a = account_rows b" "legacy_name a = legacy_name b"
  using assms by (simp_all add: accounts_def account_rows_def legacy_account_def legacy_name_def legacy_hash_def)

lemma rewritten_accounts:
  "accounts (rewritten a) = accounts a" "account_rows (rewritten a) = account_rows a" "legacy_name (rewritten a) = legacy_name a"
  by (rule accounts_cong; auto simp: rewritten_field)+

lemma rewritten_epochs: "clean_epochs (pyget (rewritten a) ''session_epochs'') = clean_epochs (pyget a ''session_epochs'')"
proof (cases "dict_get a ''session_epochs''")
  case None
  then show ?thesis by (simp add: rewritten_def)
next
  case (Some v)
  have "clean_epochs (epochs_val (clean_epochs v)) = clean_epochs v" for v
    by (rule clean_epochs_val) (simp_all add: clean_epochs_ok)
  then show ?thesis using Some by (simp add: rewritten_def dict_simps)
qed

section \<open>Looking up an account\<close>

fun row_lookup :: "pydict list \<Rightarrow> string \<Rightarrow> account_rec option" where
  "row_lookup [] k = None"
| "row_lookup (row # rows) k =
     (case row_lookup rows k of
        Some r \<Rightarrow> Some r
      | None \<Rightarrow> (case row_account row of None \<Rightarrow> None | Some r \<Rightarrow> if ac_username r = k then Some r else None))"

lemma add_rows_get:
  "dict_get (add_rows rows out) k = (case row_lookup rows k of None \<Rightarrow> dict_get out k | Some r \<Rightarrow> Some r)"
  by (induction rows out rule: add_rows.induct) (auto simp: dict_simps split: option.split)

lemma accounts_get:
  "dict_get (accounts a) k
    = (case row_lookup (account_rows a) k of None \<Rightarrow> dict_get (legacy_account a) k | Some r \<Rightarrow> Some r)"
  by (simp add: accounts_def add_rows_get)

lemma row_account_Some:
  "row_account row = Some r \<Longrightarrow> ac_username r = row_name row \<and> row_name row \<noteq> [] \<and> CHR '':'' \<notin> set (row_name row) \<and> utf8_ok (row_name row)"
  by (auto simp: row_account_def Let_def split: if_splits)

lemma row_lookup_Some:
  "row_lookup rows k = Some r \<Longrightarrow> ac_username r = k \<and> k \<noteq> [] \<and> CHR '':'' \<notin> set k \<and> (\<exists>row \<in> set rows. row_account row = Some r)"
  by (induction rows) (auto split: option.splits if_splits dest: row_account_Some)

lemma legacy_get: "dict_get (legacy_account a) k = Some r \<Longrightarrow> k = legacy_name a \<and> CHR '':'' \<notin> set k \<and> k \<noteq> [] \<and> ac_role r = Admin \<and> ac_resources r = []"
  by (auto simp: legacy_account_def dict_get_def legacy_name_def or_text_def Let_def split: if_splits)

lemma account_name: "dict_get (accounts a) k = Some r \<Longrightarrow> k \<noteq> [] \<and> CHR '':'' \<notin> set k"
  using row_lookup_Some[of "account_rows a" k] legacy_get[of a k]
  by (auto simp: accounts_get split: option.splits)

lemma account_get: "account a k = dict_get (accounts a) k"
proof (cases "k = []")
  case True
  then show ?thesis using account_name[of a "[]"] by (cases "dict_get (accounts a) []") (auto simp: account_def)
qed (simp add: account_def)

lemma row_lookup_append:
  "row_lookup (rows @ [row]) k
    = (case row_account row of Some r \<Rightarrow> if ac_username r = k then Some r else row_lookup rows k | None \<Rightarrow> row_lookup rows k)"
  by (induction rows) (auto split: option.splits)

lemma row_lookup_filter:
  "row_lookup (filter (\<lambda>e. row_name e \<noteq> name) rows) k = (if k = name then None else row_lookup rows k)"
  by (induction rows) (auto dest: row_account_Some split: option.splits)

lemma map_filter_PDict: "List.map_filter plain_dict (map PDict ds @ es) = ds @ List.map_filter plain_dict es"
  by (induction ds) (simp_all add: List.map_filter_simps)

lemma account_rows_set: "account_rows (dict_set ''accounts'' (PList (map PDict ds)) a) = ds"
  using map_filter_PDict[of ds "[]"] by (simp add: account_rows_def dict_simps List.map_filter_simps)

lemma legacy_cong:
  assumes "\<And>k. k \<in> {''username'', ''password_hash'', ''password''} \<Longrightarrow> pyget a k = pyget b k"
  shows "legacy_account a = legacy_account b"
  using assms by (simp add: legacy_account_def legacy_name_def legacy_hash_def)

lemma legacy_set: "k \<notin> {''username'', ''password_hash'', ''password''} \<Longrightarrow> legacy_account (dict_set k v a) = legacy_account a"
  by (rule legacy_cong) (auto simp: dict_simps)

lemma account_rows_keep: "k \<noteq> ''accounts'' \<Longrightarrow> account_rows (dict_set k v a) = account_rows a"
  by (simp add: account_rows_def dict_simps)

lemma accounts_of_rows:
  "dict_get (accounts (dict_set ''accounts'' (PList (map PDict ds)) a)) k
    = (case row_lookup ds k of None \<Rightarrow> dict_get (legacy_account a) k | Some r \<Rightarrow> Some r)"
  by (simp add: accounts_get account_rows_set legacy_set split: option.split)

section \<open>Passwords\<close>

lemma b64_unpadded_digits: "b64_unpadded bs = map b64_char (b64_digits (nats bs))"
  unfolding b64_unpadded_def urlsafe_b64encode_def
  by (rule rstrip_char_append) (auto simp: b64_char_plain)

lemma b64decode_unpadded: "b64decode (b64_unpadded bs) = Inr bs"
proof -
  let ?s = "map b64_char (b64_digits (nats bs))"
  have a: "list_all is_ascii ?s" by (simp add: list_all_iff b64_char_ascii)
  have "a2b (?s @ b64_pad (length (b64_digits (nats bs)))) 0 0 0 [] = Some ([] @ byte_list (nats bs))"
    by (rule a2b_digits) (rule nats_bound)
  moreover have "is_ascii (CHR ''='')" by code_simp
  then have "list_all is_ascii (replicate n (CHR ''=''))" for n by (induction n) simp_all
  ultimately show ?thesis
    using a by (simp add: b64decode_def b64_unpadded_digits urlsafe_b64decode_def py_len_ascii b64_pad_def)
qed

lemma b64_val_dollar: "b64_val (CHR ''$'') = None"
  by code_simp

lemma b64_char_no_dollar: "b64_char d \<noteq> CHR ''$''"
proof -
  have "b64_val (b64_char (if d < 64 then d else 63)) \<noteq> None" using b64_val_char by auto
  moreover have "b64_char d = b64_char (if d < 64 then d else 63)" by (simp add: b64_char_def)
  ultimately show ?thesis using b64_val_dollar by metis
qed

lemma parameter_digits:
  "isdigit ''16384''" "isdigit ''8''" "isdigit ''1''"
  "digits_val ''16384'' = 16384" "digits_val ''8'' = 8" "digits_val ''1'' = 1"
  by (simp_all add: isdigit_def is_digit_def digits_val_def ordc_def)

lemma digit_chars:
  "char_of (49::nat) = CHR ''1''" "char_of (51::nat) = CHR ''3''" "char_of (52::nat) = CHR ''4''"
  "char_of (54::nat) = CHR ''6''" "char_of (56::nat) = CHR ''8''"
  by code_simp+

lemma hash_numbers:
  "show_int 16384 = ''16384''" "show_int 8 = ''8''" "show_int 1 = ''1''"
  "py_int_of_str ''16384'' = Inr 16384" "py_int_of_str ''8'' = Inr 8" "py_int_of_str ''1'' = Inr 1"
  by (simp_all add: show_int_def show_nat.simps[of 16384] show_nat.simps[of 1638] show_nat.simps[of 163]
      show_nat.simps[of 16] show_nat.simps[of "Suc 0"] show_nat.simps[of 8] digit_char_def digit_chars
      py_int_of_str_digits parameter_digits int_max_str_digits_def)

lemma hash_password_shape:
  "hash_password salt password = Inr (join_on ''$'' [''scrypt'', ''16384'', ''8'', ''1'', b64_unpadded salt,
     b64_unpadded (projr (scrypt (utf8_encode password) salt 16384 8 1 32))])"
  by (simp add: hash_password_def hash_numbers scrypt_def scrypt_default_params Let_def)

lemma verify_hash:
  "verify_scrypt (join_on ''$'' [''scrypt'', ''16384'', ''8'', ''1'', b64_unpadded salt, b64_unpadded digest]) password
    \<longleftrightarrow> scrypt (utf8_encode password) salt 16384 8 1 32 = Inr digest"
proof -
  have "CHR ''$'' \<notin> set (b64_unpadded bs)" for bs
    using b64_char_no_dollar[symmetric] by (auto simp: b64_unpadded_digits)
  then have "split_on (CHR ''$'') (join_on ''$'' [''scrypt'', ''16384'', ''8'', ''1'', b64_unpadded salt, b64_unpadded digest])
      = [''scrypt'', ''16384'', ''8'', ''1'', b64_unpadded salt, b64_unpadded digest]"
    by (intro split_join_on) auto
  then have "verify_scrypt (join_on ''$'' [''scrypt'', ''16384'', ''8'', ''1'', b64_unpadded salt, b64_unpadded digest]) password
      = (case bind_ok (scrypt (utf8_encode password) salt 16384 8 1 32) (\<lambda>actual. Inr (actual = digest)) of Inl _ \<Rightarrow> False | Inr b \<Rightarrow> b)"
    by (simp only: verify_scrypt_def list.case b64decode_unpadded hash_numbers bind_ok_simps join_on.simps)
  then show ?thesis
    by (cases "scrypt (utf8_encode password) salt 16384 8 1 32") (simp_all only: bind_ok_simps sum.case sum.inject sum.distinct)
qed

lemma hash_prefix: "hash_password salt password = Inr enc \<Longrightarrow> startswith enc ''scrypt$'' \<and> enc \<noteq> [] \<and> verify_scrypt enc password"
proof -
  assume "hash_password salt password = Inr enc"
  then have enc: "enc = join_on ''$'' [''scrypt'', ''16384'', ''8'', ''1'', b64_unpadded salt,
     b64_unpadded (projr (scrypt (utf8_encode password) salt 16384 8 1 32))]"
    unfolding hash_password_shape by simp
  have "scrypt (utf8_encode password) salt 16384 8 1 32 = Inr (projr (scrypt (utf8_encode password) salt 16384 8 1 32))"
    by (simp add: scrypt_def scrypt_default_params Let_def)
  then have "verify_scrypt enc password" unfolding enc verify_hash .
  then show ?thesis by (simp add: enc startswith_def)
qed

section \<open>Usernames\<close>

lemma name_char: "is_name_char c \<Longrightarrow> is_ascii c \<and> \<not> is_space c \<and> c \<noteq> CHR '':''"
  by (auto simp: is_name_char_def is_digit_def is_ascii_def is_space_def ordc_def)

lemma name_punct:
  "x \<in> {CHR ''.'', CHR ''_'', CHR ''@'', CHR ''+'', CHR ''-''} \<Longrightarrow> is_ascii x \<and> \<not> is_space x \<and> x \<noteq> CHR '':''"
  by (auto simp: is_ascii_def is_space_def ordc_def)

lemma utf8_ok_ascii: "list_all is_ascii s \<Longrightarrow> utf8_ok s"
  by (induction s rule: utf8_ok.induct) (auto simp: is_ascii_def)

lemma newline_space: "is_space (char_of (10::nat))"
  by (simp add: is_space_def ordc_char_of)

lemma valid_stripped:
  assumes "valid_username (strip u)"
  shows "strip u \<noteq> []" "list_all is_ascii (strip u)" "CHR '':'' \<notin> set (strip u)" "utf8_ok (strip u)"
proof -
  let ?n = "strip u"
  have ne: "?n \<noteq> []" using assms by (auto simp: valid_username_def)
  then have "last ?n \<noteq> char_of (10::nat)" using strip_ends(2)[OF ne] newline_space by auto
  then obtain c cs where n: "?n = c # cs" "is_name_char c"
    "list_all (\<lambda>x. is_name_char x \<or> x \<in> {CHR ''.'', CHR ''_'', CHR ''@'', CHR ''+'', CHR ''-''}) cs"
    using assms ne by (auto simp: valid_username_def split: list.splits)
  have all: "is_ascii x \<and> x \<noteq> CHR '':''" if "x \<in> set ?n" for x
  proof -
    from that n(1) have "x = c \<or> x \<in> set cs" by simp
    then have "is_name_char x \<or> x \<in> {CHR ''.'', CHR ''_'', CHR ''@'', CHR ''+'', CHR ''-''}"
      using n(2,3) unfolding list_all_iff by blast
    then show ?thesis using name_char name_punct by blast
  qed
  show "?n \<noteq> []" by (rule ne)
  show asc: "list_all is_ascii ?n" using all by (simp add: list_all_iff)
  show "CHR '':'' \<notin> set ?n" using all by blast
  show "utf8_ok ?n" by (rule utf8_ok_ascii[OF asc])
qed

lemma row_name_stripped [simp]: "strip (row_name row) = row_name row"
  by (simp add: row_name_def)

lemma pick_str: "s \<noteq> [] \<Longrightarrow> pick (PStr s) v = PStr s"
  by (simp add: pick_def)

lemma clean_resources_ok: "t \<in> set (clean_resources v) \<Longrightarrow> t \<noteq> [] \<and> strip t = t \<and> utf8_ok t"
  by (auto simp: clean_resources_def List.map_filter_def split: pyval.splits sum.splits)

lemma row_resources_clean: "row_resources (PList (map PStr (clean_resources v))) = clean_resources v"
proof -
  have "filter (\<lambda>t. strip t \<noteq> [] \<and> utf8_ok t) (clean_resources v) = clean_resources v"
    by (rule filter_True) (auto dest: clean_resources_ok)
  then show ?thesis by (simp add: row_resources_def comp_def)
qed

text \<open>The row a creation appends, read back.\<close>

lemma new_row_account:
  assumes "valid_username (strip u)" "role \<in> {''admin'', ''member''}" "enc \<noteq> []"
  shows "row_account [(''username'', PStr (strip u)), (''password_hash'', PStr enc), (''role'', PStr role),
      (''resources'', PList (map PStr (clean_resources v)))]
    = Some \<lparr>ac_username = strip u, ac_hash = enc, ac_role = (if role = ''admin'' then Admin else Member),
        ac_resources = clean_resources v\<rparr>"
  using assms valid_stripped[OF assms(1)] row_resources_clean[of v]
  by (auto simp: row_account_def row_name_def pyget_def dict_get_def pick_str)

section \<open>Properties\<close>

text \<open>
  A hashed password verifies, and only passwords with the same scrypt value do: the stored
  text parses back to the salt, the cost parameters and the digest, for every salt and password.
\<close>

lemma hash_password_verifies:
  "\<exists>enc. hash_password salt password = Inr enc \<and> startswith enc ''scrypt$'' \<and> verify_scrypt enc password
    \<and> (\<forall>other. verify_scrypt enc other \<longleftrightarrow>
        scrypt (utf8_encode other) salt 16384 8 1 32 = scrypt (utf8_encode password) salt 16384 8 1 32)"
proof -
  let ?d = "projr (scrypt (utf8_encode password) salt 16384 8 1 32)"
  have d: "scrypt (utf8_encode password) salt 16384 8 1 32 = Inr ?d"
    by (simp add: scrypt_def scrypt_default_params Let_def)
  obtain enc where enc: "hash_password salt password = Inr enc"
    "\<And>other. verify_scrypt enc other \<longleftrightarrow> scrypt (utf8_encode other) salt 16384 8 1 32 = Inr ?d"
    using hash_password_shape verify_hash by blast
  then show ?thesis using hash_prefix[OF enc(1)] d by metis
qed

lemma create_account_done:
  assumes "create_account salt u pw role res data = (Inr out, data')"
  obtains settings auth enc where "auth_block data = (settings, auth)" "hash_password salt pw = Inr enc"
    "valid_username (strip u)" "role \<in> {''admin'', ''member''}" "out = (strip u, role, clean_resources res)"
    "data' = put_auth settings (dict_set ''accounts'' (PList (map PDict (account_rows auth @
       [[(''username'', PStr (strip u)), (''password_hash'', PStr enc), (''role'', PStr role),
         (''resources'', PList (map PStr (clean_resources res)))]]))) auth) data"
proof -
  obtain settings auth where b: "auth_block data = (settings, auth)" by fastforce
  obtain enc where h: "hash_password salt pw = Inr enc" using hash_password_shape by blast
  show thesis
    using assms b h that[OF b h]
    by (auto simp: create_account_def Let_def split: if_splits)
qed

lemma create_account_effect:
  assumes "plain_auth (stored_auth data)" and "create_account salt u pw role res data = (Inr (name, r, granted), data')"
  shows "name = strip u \<and> granted = clean_resources res \<and> verify_account_password (stored_auth data') name pw
    \<and> role_of (stored_auth data') name = (if role = ''admin'' then Admin else Member)
    \<and> allowed_resources (stored_auth data') name = granted
    \<and> (\<forall>k. k \<noteq> name \<longrightarrow> account (stored_auth data') k = account (stored_auth data) k)"
    and "k \<noteq> ''accounts'' \<Longrightarrow> k \<noteq> ''session_epochs'' \<Longrightarrow> pyget (stored_auth data') k = pyget (stored_auth data) k"
proof -
  let ?row = "\<lambda>enc. [(''username'', PStr (strip u)), (''password_hash'', PStr enc), (''role'', PStr role),
         (''resources'', PList (map PStr (clean_resources res)))]"
  obtain settings auth enc where c: "auth_block data = (settings, auth)" "hash_password salt pw = Inr enc"
    "valid_username (strip u)" "role \<in> {''admin'', ''member''}" "(name, r, granted) = (strip u, role, clean_resources res)"
    "data' = put_auth settings (dict_set ''accounts'' (PList (map PDict (account_rows auth @ [?row enc]))) auth) data"
    by (rule create_account_done[OF assms(2)])
  have enc: "enc \<noteq> []" "startswith enc ''scrypt$''" "verify_scrypt enc pw" using hash_prefix[OF c(2)] by simp_all
  have au: "auth = rewritten (stored_auth data)" using auth_block_plain[OF assms(1)] c(1) by simp
  note row = new_row_account[OF c(3,4) enc(1), of res]
  have get: "dict_get (accounts (stored_auth data')) k =
      (if k = strip u then Some \<lparr>ac_username = strip u, ac_hash = enc, ac_role = (if role = ''admin'' then Admin else Member),
          ac_resources = clean_resources res\<rparr> else dict_get (accounts (stored_auth data)) k)" for k
    using accounts_get[of auth k] rewritten_accounts(1)[of "stored_auth data"]
    unfolding c(6) stored_auth_put accounts_of_rows row_lookup_append row au by auto
  show "name = strip u \<and> granted = clean_resources res \<and> verify_account_password (stored_auth data') name pw
    \<and> role_of (stored_auth data') name = (if role = ''admin'' then Admin else Member)
    \<and> allowed_resources (stored_auth data') name = granted
    \<and> (\<forall>k. k \<noteq> name \<longrightarrow> account (stored_auth data') k = account (stored_auth data) k)"
    using c(5) enc by (simp add: account_get get verify_account_password_def role_of_def allowed_resources_def)
  show "k \<noteq> ''accounts'' \<Longrightarrow> k \<noteq> ''session_epochs'' \<Longrightarrow> pyget (stored_auth data') k = pyget (stored_auth data) k"
    by (simp add: c(6) au dict_simps rewritten_field)
qed

text \<open>
  Creating an account adds exactly that account. On success the name was accepted, the new
  account has the requested role and the cleaned resource list, its password signs in, and every
  other name resolves as before.
\<close>

lemma create_account_adds:
  assumes "plain_auth (stored_auth data)" and "create_account salt u pw role res data = (Inr (name, r, granted), data')"
  shows "name = strip u \<and> granted = clean_resources res \<and> verify_account_password (stored_auth data') name pw
    \<and> role_of (stored_auth data') name = (if role = ''admin'' then Admin else Member)
    \<and> allowed_resources (stored_auth data') name = granted
    \<and> (\<forall>k. k \<noteq> name \<longrightarrow> account (stored_auth data') k = account (stored_auth data) k)"
  by (rule create_account_effect(1)[OF assms])

text \<open>
  Deleting an account removes it. On success the name was a member, no listed account has
  it any more (at most the legacy administrator pair of that name still resolves), its logout
  counter is gone, and every other name resolves as before. An administrator is never deleted.
\<close>

lemma delete_account_removes:
  assumes "plain_auth (stored_auth data)" and "delete_account (stored_auth data) u data = (res, data')"
  shows "case res of
      Inl e \<Rightarrow> data' = data \<and> (account (stored_auth data) (strip u) = None \<or> is_admin (stored_auth data) (strip u))
    | Inr _ \<Rightarrow> account (stored_auth data) (strip u) \<noteq> None \<and> \<not> is_admin (stored_auth data) (strip u)
        \<and> account (stored_auth data') (strip u) = dict_get (legacy_account (stored_auth data)) (strip u)
        \<and> session_epoch (stored_auth data') (strip u) = 0
        \<and> (\<forall>k. k \<noteq> strip u \<longrightarrow> account (stored_auth data') k = account (stored_auth data) k)"
proof (cases res)
  case (Inl e)
  with assms(2) show ?thesis
    by (auto simp: delete_account_def Let_def is_admin_def role_of_def split: option.splits if_splits prod.splits)
next
  case (Inr x)
  let ?n = "strip u" and ?a = "stored_auth data"
  obtain settings auth where b: "auth_block data = (settings, auth)" by fastforce
  have au: "auth = rewritten ?a" using auth_block_plain[OF assms(1)] b by simp
  obtain rec where acc: "account ?a ?n = Some rec" "ac_role rec \<noteq> Admin"
    using assms(2) Inr by (auto simp: delete_account_def Let_def split: option.splits if_splits)
  let ?auth = "dict_set ''accounts'' (PList (map PDict (filter (\<lambda>e. row_name e \<noteq> ?n) (account_rows auth)))) auth"
  let ?ep = "dict_del ?n (clean_epochs (pyget auth ''session_epochs''))"
  have d': "stored_auth data' = dict_set ''session_epochs'' (epochs_val ?ep) ?auth"
    using assms(2) acc b by (auto simp: delete_account_def Let_def name_of_def dict_simps)
  have fields: "pyget (dict_set ''session_epochs'' (epochs_val ?ep) ?auth) k = pyget ?auth k" if "k \<noteq> ''session_epochs''" for k
    using that by (simp add: dict_simps)
  have leg: "legacy_account auth = legacy_account ?a" unfolding au by (rule legacy_cong) (auto simp: rewritten_field)
  have get: "dict_get (accounts (stored_auth data')) k =
      (if k = ?n then dict_get (legacy_account ?a) k else dict_get (accounts ?a) k)" for k
  proof -
    have "accounts (stored_auth data') = accounts ?auth" unfolding d' by (rule accounts_cong) (auto simp: fields)
    then show ?thesis
      using accounts_get[of auth k] rewritten_accounts(1)[of ?a] leg
      by (auto simp: accounts_of_rows row_lookup_filter au split: option.split)
  qed
  have ep: "dict_ok ?ep" "\<And>p. p \<in> set ?ep \<Longrightarrow> epoch_entry p \<and> printable (snd p)"
  proof -
    show "dict_ok ?ep" by (rule dict_ok_del) (rule clean_epochs_ok(1))
    show "epoch_entry p \<and> printable (snd p)" if "p \<in> set ?ep" for p
    proof -
      have "p \<in> set (clean_epochs (pyget auth ''session_epochs''))" using that by (simp add: dict_del_def)
      then show ?thesis using clean_epochs_ok by blast
    qed
  qed
  have ne: "?n \<noteq> []" using acc(1) account_name[of ?a ?n rec] by (simp add: account_get)
  then have "session_epoch (stored_auth data') ?n = 0"
    by (simp add: session_epoch_clean d' dict_simps clean_epochs_val[OF ep])
  then show ?thesis using Inr acc get by (auto simp: account_get is_admin_def role_of_def)
qed

lemma rehash_row:
  "d \<noteq> [] \<Longrightarrow> row_account (dict_set ''password_hash'' (PStr d) e) = map_option (\<lambda>r. r\<lparr>ac_hash := d\<rparr>) (row_account e)"
  by (simp add: row_account_def row_name_def dict_simps pick_str Let_def)

lemma row_lookup_rehash:
  assumes "d \<noteq> []"
  shows "row_lookup (map (\<lambda>e. if row_name e = n then dict_set ''password_hash'' (PStr d) e else e) rows) k
    = (if k = n then map_option (\<lambda>r. r\<lparr>ac_hash := d\<rparr>) (row_lookup rows k) else row_lookup rows k)"
proof (induction rows)
  case (Cons e rows)
  show ?case
    by (cases "row_account e") (auto simp: Cons rehash_row[OF assms] dest: row_account_Some split: option.split)
qed simp

lemma legacy_name_ok: "utf8_ok (legacy_name a) \<and> strip (legacy_name a) = legacy_name a \<and> legacy_name a \<noteq> []"
  by (auto simp: legacy_name_def or_text_def Let_def utf8_ok_ascii is_ascii_def ordc_def strip_no_space is_space_def)

lemma account_utf8: "dict_get (accounts a) k = Some r \<Longrightarrow> utf8_ok k \<and> strip k = k"
proof -
  assume g: "dict_get (accounts a) k = Some r"
  show ?thesis
  proof (cases "row_lookup (account_rows a) k")
    case None
    then show ?thesis using g legacy_name_ok[of a] legacy_get[of a k r] by (simp add: accounts_get)
  next
    case (Some r')
    then obtain row where "row_account row = Some r'" "ac_username r' = k" using row_lookup_Some by blast
    then show ?thesis using row_account_Some by fastforce
  qed
qed

lemma row_lookup_named:
  "\<exists>e \<in> set rows. row_name e = k \<Longrightarrow> k \<noteq> [] \<Longrightarrow> CHR '':'' \<notin> set k \<Longrightarrow> utf8_ok k \<Longrightarrow> row_lookup rows k \<noteq> None"
  by (induction rows) (auto simp: row_account_def Let_def split: option.split)

lemma set_password_effect:
  assumes "plain_auth (stored_auth data)" "set_password salt pw n True False data = (Inr w, data')"
    and "n \<noteq> []" "strip n = n" "utf8_ok n" "CHR '':'' \<notin> set n"
  obtains enc where "hash_password salt pw = Inr enc"
    and "account_rows (stored_auth data') = account_rows (stored_auth data)"
    and "legacy_account (stored_auth data') = [(n, \<lparr>ac_username = n, ac_hash = enc, ac_role = Admin, ac_resources = []\<rparr>)]"
proof -
  let ?a = "stored_auth data"
  obtain settings auth where b: "auth_block data = (settings, auth)" by fastforce
  have au: "auth = rewritten ?a" using auth_block_plain[OF assms(1)] b by simp
  obtain enc where h: "hash_password salt pw = Inr enc" using hash_password_shape by blast
  have enc: "enc \<noteq> []" using hash_prefix[OF h] by simp
  let ?auth = "dict_del ''password'' (dict_set ''password_hash'' (PStr enc) (dict_set ''username'' (PStr n) (dict_set ''enabled'' (PBool True) auth)))"
  have d': "stored_auth data' = ?auth"
    using assms(2,3,4,6) b h by (auto simp: set_password_def Let_def or_text_def split: if_splits)
  have rows: "account_rows ?auth = account_rows ?a"
    using rewritten_accounts(2)[of ?a] by (simp add: account_rows_def dict_simps au)
  have leg: "legacy_account ?auth = [(n, \<lparr>ac_username = n, ac_hash = enc, ac_role = Admin, ac_resources = []\<rparr>)]"
    using assms(3-6) enc by (simp add: legacy_account_def legacy_name_def legacy_hash_def dict_simps pick_str or_text_def Let_def)
  show thesis using that[OF h] rows leg unfolding d' by blast
qed

lemma set_password_legacy:
  assumes "plain_auth (stored_auth data)" "set_password salt pw n True False data = (Inr w, data')"
    and "n = legacy_name (stored_auth data)" "n \<noteq> []" "strip n = n" "utf8_ok n" "CHR '':'' \<notin> set n"
    and "row_lookup (account_rows (stored_auth data)) n = None"
  shows "\<exists>enc. hash_password salt pw = Inr enc
    \<and> (\<forall>k. account (stored_auth data') k = (if k = n then Some \<lparr>ac_username = n, ac_hash = enc, ac_role = Admin, ac_resources = []\<rparr>
        else account (stored_auth data) k))"
proof -
  let ?a = "stored_auth data"
  obtain enc where e: "hash_password salt pw = Inr enc" "account_rows (stored_auth data') = account_rows ?a"
    "legacy_account (stored_auth data') = [(n, \<lparr>ac_username = n, ac_hash = enc, ac_role = Admin, ac_resources = []\<rparr>)]"
    by (rule set_password_effect[OF assms(1,2,4-7)])
  have other: "dict_get (legacy_account ?a) k = None" if "k \<noteq> n" for k
    using that legacy_get[of ?a k] assms(3) by (cases "dict_get (legacy_account ?a) k") auto
  have "account (stored_auth data') k = (if k = n then Some \<lparr>ac_username = n, ac_hash = enc, ac_role = Admin, ac_resources = []\<rparr>
        else account ?a k)" for k
  proof -
    have "dict_get (legacy_account (stored_auth data')) k
        = (if k = n then Some \<lparr>ac_username = n, ac_hash = enc, ac_role = Admin, ac_resources = []\<rparr> else None)"
      unfolding e(3) by (simp add: dict_get_def)
    then show ?thesis using assms(8) other[of k] by (auto simp: account_get accounts_get e(2) split: option.split)
  qed
  then show ?thesis using e(1) by blast
qed

text \<open>
  Rotating a password works for every account, listed or legacy: afterwards the new
  password signs in, the account keeps its role and resources, and no other account changes.
\<close>

lemma set_account_password_rotates:
  assumes "plain_auth (stored_auth data)" and "set_account_password salt (stored_auth data) u pw data = (Inr x, data')"
  shows "verify_account_password (stored_auth data') (strip u) pw
    \<and> role_of (stored_auth data') (strip u) = role_of (stored_auth data) (strip u)
    \<and> allowed_resources (stored_auth data') (strip u) = allowed_resources (stored_auth data) (strip u)
    \<and> (\<forall>k. k \<noteq> strip u \<longrightarrow> account (stored_auth data') k = account (stored_auth data) k)"
proof -
  let ?a = "stored_auth data" and ?n = "strip u"
  obtain settings auth where b: "auth_block data = (settings, auth)" by fastforce
  have au: "auth = rewritten ?a" using auth_block_plain[OF assms(1)] b by simp
  obtain enc where h: "hash_password salt pw = Inr enc" using hash_password_shape by blast
  have enc: "enc \<noteq> []" "startswith enc ''scrypt$''" "verify_scrypt enc pw" using hash_prefix[OF h] by simp_all
  obtain r where r: "dict_get (accounts ?a) ?n = Some r"
    using assms(2) by (auto simp: set_account_password_def Let_def account_get split: option.splits)
  then have ra: "account ?a ?n = Some r" by (simp add: account_get)
  have nm: "?n \<noteq> []" "CHR '':'' \<notin> set ?n" "utf8_ok ?n" using account_name[OF r] account_utf8[OF r] by simp_all
  show ?thesis
  proof (cases "list_ex (\<lambda>row. row_name row = ?n) (account_rows ?a)")
    case True
    let ?rows = "map (\<lambda>e. if row_name e = ?n then dict_set ''password_hash'' (PStr enc) e else e) (account_rows ?a)"
    obtain r' where r': "row_lookup (account_rows ?a) ?n = Some r'"
      using row_lookup_named[of "account_rows ?a" ?n] True nm by (auto simp: list_ex_iff)
    then have rr: "r' = r" using r by (simp add: accounts_get)
    have d': "stored_auth data' = dict_set ''accounts'' (PList (map PDict ?rows)) auth"
      using assms(2) r True h b rewritten_accounts(2)[of ?a]
      by (auto simp: set_account_password_def Let_def account_get set_rows_def name_of_def au comp_def split: if_splits)
    have leg: "legacy_account auth = legacy_account ?a" unfolding au by (rule legacy_cong) (auto simp: rewritten_field)
    have get: "account (stored_auth data') k = (if k = ?n then Some (r\<lparr>ac_hash := enc\<rparr>) else account ?a k)" for k
      using r' rr unfolding account_get d' accounts_of_rows row_lookup_rehash[OF enc(1)] accounts_get[of ?a] leg
      by (auto split: option.split)
    show ?thesis using enc ra by (auto simp: get verify_account_password_def role_of_def allowed_resources_def)
  next
    case False
    have none: "row_lookup (account_rows ?a) ?n = None"
    proof (cases "row_lookup (account_rows ?a) ?n")
      case (Some r')
      then obtain row where "row \<in> set (account_rows ?a)" "row_account row = Some r'" "ac_username r' = ?n"
        using row_lookup_Some by blast
      then show ?thesis using False row_account_Some[of row r'] by (auto simp: list_ex_iff)
    qed simp
    then have "dict_get (legacy_account ?a) ?n = Some r" using r by (simp add: accounts_get)
    from legacy_get[OF this] have l: "?n = legacy_name ?a" "ac_role r = Admin" "ac_resources r = []" by simp_all
    obtain w where "set_password salt pw ?n True False data = (Inr w, data')"
      using assms(2) r False by (auto simp: set_account_password_def Let_def account_get split: if_splits sum.splits prod.splits)
    from set_password_legacy[OF assms(1) this l(1) nm(1) _ nm(3,2) none] h
    have get: "account (stored_auth data') k = (if k = ?n then Some \<lparr>ac_username = ?n, ac_hash = enc, ac_role = Admin, ac_resources = []\<rparr>
        else account ?a k)" for k by auto
    show ?thesis using enc ra l by (auto simp: get verify_account_password_def role_of_def allowed_resources_def)
  qed
qed

lemma synthetic_no_account: "account a (''key:'' @ x) = None"
proof (cases "account a (''key:'' @ x)")
  case (Some r)
  then have "CHR '':'' \<notin> set (''key:'' @ x)" using account_name unfolding account_get by blast
  then show ?thesis by simp
qed

text \<open>
  An identity with a colon has no power. Whatever the configuration holds, no account name
  contains a colon, so the synthetic identity of an API key resolves to no account: it is a
  member, it is never an administrator, and it may use no resource.
\<close>

lemma synthetic_identity_powerless:
  "account a (''key:'' @ x) = None \<and> role_of a (''key:'' @ x) = Member \<and> \<not> may_use_resource a (''key:'' @ x) res"
  using synthetic_no_account[of a x] by (simp add: role_of_def may_use_resource_def is_admin_def allowed_resources_def)

definition unnamed_admin :: pydict where
  "unnamed_admin = [(''settings'', PDict [(''auth'', PDict [(''password_hash'', PStr ''h'')])])]"

lemma unnamed_state:
  "stored_auth unnamed_admin = [(''password_hash'', PStr ''h'')]"
  "plain_auth (stored_auth unnamed_admin)" "account_rows (stored_auth unnamed_admin) = []"
  "legacy_account (stored_auth unnamed_admin) = [(''admin'', \<lparr>ac_username = ''admin'', ac_hash = ''h'', ac_role = Admin, ac_resources = []\<rparr>)]"
  unfolding plain_auth_def by code_simp+

lemma unnamed_create:
  "\<exists>data'. create_account salt ''admin'' ''0123456789'' ''member'' PNone unnamed_admin = (Inr (''admin'', ''member'', []), data')"
proof -
  obtain enc where h: "hash_password salt ''0123456789'' = Inr enc" using hash_password_shape by blast
  have st: "strip ''admin'' = ''admin''" "valid_username ''admin''" "\<not> py_len ''0123456789'' < min_password_length"
    by code_simp+
  have a: "auth_block unnamed_admin = ([(''auth'', PDict [(''password_hash'', PStr ''h'')])], [(''password_hash'', PStr ''h'')])"
    by code_simp
  show ?thesis
    by (simp add: create_account_def Let_def st h a account_rows_def pyget_def dict_get_def clean_resources_def max_accounts_def
        pick_def strip_id lower_def)
qed

text \<open>
  The name check of a creation compares with the configured username only, not with the
  name the legacy credential resolves to. With a credential and no username, the administrator
  is presented as \<open>admin\<close>, creating a member of that name succeeds, and the listed row then hides
  the legacy pair: afterwards no name is an administrator.
\<close>

theorem create_account_hides_admin:
  "\<exists>data'. create_account salt ''admin'' ''0123456789'' ''member'' PNone unnamed_admin = (Inr (''admin'', ''member'', []), data')
    \<and> is_admin (stored_auth unnamed_admin) ''admin'' \<and> (\<forall>k. \<not> is_admin (stored_auth data') k)"
proof -
  obtain data' where c: "create_account salt ''admin'' ''0123456789'' ''member'' PNone unnamed_admin = (Inr (''admin'', ''member'', []), data')"
    using unnamed_create by blast
  have before: "account (stored_auth unnamed_admin) k
      = (if k = ''admin'' then Some \<lparr>ac_username = ''admin'', ac_hash = ''h'', ac_role = Admin, ac_resources = []\<rparr> else None)" for k
    unfolding account_get accounts_get unnamed_state(3,4) by (simp add: dict_get_def)
  have "\<not> is_admin (stored_auth data') k" for k
    using create_account_effect(1)[OF unnamed_state(2) c] before[of k]
    by (cases "k = ''admin''") (simp_all add: is_admin_def role_of_def)
  moreover have "is_admin (stored_auth unnamed_admin) ''admin''" by (simp add: is_admin_def role_of_def before)
  ultimately show ?thesis using c by blast
qed

section \<open>The shape of the account table\<close>

text \<open>
  What every entry of the table satisfies: it is filed under its own name, the name is stripped,
  nonempty, storable and has no colon (the separator of the synthetic key names), and each granted
  resource is a nonblank storable name.
\<close>

definition account_ok :: "string \<times> account_rec \<Rightarrow> bool" where
  "account_ok p \<longleftrightarrow>
     ac_username (snd p) = fst p \<and> fst p \<noteq> [] \<and> CHR '':'' \<notin> set (fst p) \<and> strip (fst p) = fst p \<and> utf8_ok (fst p)
     \<and> list_all (\<lambda>t. strip t \<noteq> [] \<and> utf8_ok t) (ac_resources (snd p))"

lemma row_account_ok: "row_account row = Some r \<Longrightarrow> account_ok (ac_username r, r)"
  by (auto simp: row_account_def account_ok_def row_resources_def list_all_iff Let_def split: if_splits pyval.splits)

lemma legacy_account_ok: "p \<in> set (legacy_account a) \<Longrightarrow> account_ok p"
  using legacy_name_ok[of a] by (auto simp: legacy_account_def account_ok_def split: if_splits)

lemma add_rows_ok: "list_all account_ok out \<Longrightarrow> list_all account_ok (add_rows rows out)"
proof (induction rows out rule: add_rows.induct)
  case (2 row rows out)
  have "list_all account_ok (case row_account row of None \<Rightarrow> out | Some r \<Rightarrow> dict_set (ac_username r) r out)"
    using 2(2) in_dict_set row_account_ok[of row] by (fastforce simp: list_all_iff split: option.split)
  then show ?case using 2(1) by simp
qed simp

text \<open>
  C40: the account table is well formed. Whatever a hand-edited configuration holds in the
  credential fields and the account rows (wrong types, duplicate rows, blank names, names with a colon, lone
  surrogates), the table lists each account once, and every entry has the shape above.
\<close>

theorem accounts_well_formed: "dict_ok (accounts a) \<and> list_all account_ok (accounts a)"
proof
  have "dict_ok out \<Longrightarrow> dict_ok (add_rows rows out)" for rows out
    by (induction rows out rule: add_rows.induct) (auto simp: dict_ok_set split: option.split)
  then show "dict_ok (accounts a)" by (simp add: accounts_def legacy_account_def dict_ok_def)
  show "list_all account_ok (accounts a)"
    unfolding accounts_def by (rule add_rows_ok) (auto simp: list_all_iff dest: legacy_account_ok)
qed

section \<open>Epochs\<close>

lemma show_nat_eq_iff: "show_int a = show_int b \<longleftrightarrow> a = b"
proof
  assume eq: "show_int a = show_int b"
  have minus: "show_nat n \<noteq> CHR ''-'' # s" for n s
    using show_nat_digits[of n] by (auto simp: is_digit_def ordc_def)
  show "a = b"
    using eq minus minus[symmetric] by (auto simp: show_int_def show_nat_inj split: if_splits)
qed simp

lemma bump_state:
  assumes "plain_auth (stored_auth data)" "epoch_key u = u" "u \<noteq> []"
  shows "accounts (stored_auth (bump_session_epoch u data)) = accounts (stored_auth data)
    \<and> session_epoch (stored_auth (bump_session_epoch u data)) u \<noteq> session_epoch (stored_auth data) u
    \<and> (\<forall>v. v \<noteq> u \<longrightarrow> v \<noteq> [] \<longrightarrow> session_epoch (stored_auth (bump_session_epoch u data)) v = session_epoch (stored_auth data) v)"
proof -
  let ?a = "stored_auth data"
  obtain settings auth where b: "auth_block data = (settings, auth)" by fastforce
  have au: "auth = rewritten ?a" using auth_block_plain[OF assms(1)] b by simp
  let ?ep = "clean_epochs (pyget ?a ''session_epochs'')"
  let ?old = "session_epoch ?a u"
  let ?n = "case py_str_of_int (?old + 1) of Inl _ \<Rightarrow> 2 | Inr _ \<Rightarrow> ?old + 1"
  have old: "(case dict_get ?ep u of None \<Rightarrow> 0 | Some n \<Rightarrow> n) = ?old" using session_epoch_clean[OF assms(3), of ?a] by simp
  have d': "stored_auth (bump_session_epoch u data) = dict_set ''session_epochs'' (epochs_val (dict_set u ?n ?ep)) auth"
    unfolding bump_session_epoch_def b Let_def prod.case stored_auth_put unfolding au rewritten_epochs old ..
  have n: "printable ?n" using printable_small(3) by (cases "py_str_of_int (?old + 1)") (simp_all add: printable_iff)
  have ok: "dict_ok (dict_set u ?n ?ep)" "\<And>p. p \<in> set (dict_set u ?n ?ep) \<Longrightarrow> epoch_entry p \<and> printable (snd p)"
  proof -
    show "dict_ok (dict_set u ?n ?ep)" by (rule dict_ok_set) (rule clean_epochs_ok(1))
    show "epoch_entry p \<and> printable (snd p)" if "p \<in> set (dict_set u ?n ?ep)" for p
      using in_dict_set[OF that] clean_epochs_ok(2,3)[of p "pyget ?a ''session_epochs''"] n assms
      by (auto simp: epoch_entry_def)
  qed
  have ep: "session_epoch (stored_auth (bump_session_epoch u data)) v = (if v = u then ?n else session_epoch ?a v)" if "v \<noteq> []" for v
    using that by (simp add: session_epoch_clean d' dict_simps clean_epochs_val[OF ok])
  have "?n \<noteq> ?old"
  proof (cases "py_str_of_int (?old + 1)")
    case (Inl e)
    have "printable 3" by (simp add: printable_def py_str_of_int_def show_nat_small int_max_str_digits_def)
    then have "?old \<noteq> 2" using Inl by (auto simp: printable_iff)
    then show ?thesis using Inl by simp
  qed simp
  moreover have "accounts (stored_auth (bump_session_epoch u data)) = accounts ?a"
  proof -
    have "accounts (dict_set ''session_epochs'' (epochs_val (dict_set u ?n ?ep)) auth) = accounts auth"
      by (rule accounts_cong(1)) (auto simp: dict_simps)
    then show ?thesis using rewritten_accounts(1)[of ?a] d' au by simp
  qed
  ultimately show ?thesis using ep assms(3) by simp
qed

lemma version_basis_epochs:
  assumes "accounts a = accounts b"
  shows "version_basis a u = version_basis b u \<longleftrightarrow> session_epoch a u = session_epoch b u"
proof -
  have "show_int n \<noteq> []" for n by (simp add: show_int_def)
  then show ?thesis using assms by (auto simp: version_basis_def Let_def show_nat_eq_iff)
qed

section \<open>Witnesses\<close>

text \<open>A configuration with an administrator and one member, and one with no account.\<close>

definition family :: pydict where
  "family = [(''settings'', PDict [(''auth'', PDict
     [(''username'', PStr ''owner''), (''password_hash'', PStr ''h''),
      (''accounts'', PList [PDict [(''username'', PStr ''kid''), (''password_hash'', PStr ''k''),
        (''role'', PStr ''member''), (''resources'', PList [PStr ''media''])]])])])]"

lemma family_plain: "plain_auth (stored_auth family)" "plain_auth (stored_auth [])"
  unfolding plain_auth_def by code_simp+

lemma create_account_adds_witness:
  "\<exists>data'. create_account [] ''guest'' ''0123456789'' ''member'' PNone family = (Inr (''guest'', ''member'', []), data')
    \<and> verify_account_password (stored_auth data') ''guest'' ''0123456789''
    \<and> role_of (stored_auth data') ''guest'' = Member \<and> account (stored_auth data') ''kid'' \<noteq> None"
proof -
  obtain enc where h: "hash_password [] ''0123456789'' = Inr enc" using hash_password_shape by blast
  obtain settings auth where b: "auth_block family = (settings, auth)" by fastforce
  have st: "strip ''guest'' = ''guest''" "valid_username ''guest''" "\<not> py_len ''0123456789'' < min_password_length"
    "clean_resources PNone = []"
    by code_simp+
  have c: "let auth = snd (auth_block family) in
       lower ''guest'' \<notin> set (map (\<lambda>e. lower (name_of e)) (account_rows auth))
     \<and> lower ''guest'' \<noteq> lower (strip (cfg_text (pick (pyget auth ''username'') (PStr []))))
     \<and> length (account_rows auth) < max_accounts"
    by code_simp
  obtain data' where d: "create_account [] ''guest'' ''0123456789'' ''member'' PNone family = (Inr (''guest'', ''member'', []), data')"
    using c b by (simp add: create_account_def st h Let_def split: if_splits)
  have k: "account (stored_auth family) ''kid'' \<noteq> None" by code_simp
  note r = create_account_adds[OF family_plain(1) d]
  then show ?thesis using d k by (intro exI[of _ data']) simp
qed

lemma delete_account_removes_witness:
  "let (res, data') = delete_account (stored_auth family) ''kid'' family in
     res = Inr () \<and> account (stored_auth data') ''kid'' = None"
proof -
  obtain res data' where d: "delete_account (stored_auth family) ''kid'' family = (res, data')" by fastforce
  have e: "strip ''kid'' = ''kid''" "dict_get (legacy_account (stored_auth family)) ''kid'' = None"
    "fst (delete_account (stored_auth family) ''kid'' family) = Inr ()"
    by code_simp+
  show ?thesis using delete_account_removes[OF family_plain(1) d] e d by simp
qed

lemma set_account_password_rotates_witness:
  "\<exists>data'. set_account_password [] (stored_auth family) ''kid'' ''0123456789'' family = (Inr (), data')
    \<and> verify_account_password (stored_auth data') ''kid'' ''0123456789'' \<and> role_of (stored_auth data') ''kid'' = Member"
proof -
  obtain enc where h: "hash_password [] ''0123456789'' = Inr enc" using hash_password_shape by blast
  obtain settings auth where b: "auth_block family = (settings, auth)" by fastforce
  have st: "strip ''kid'' = ''kid''" "\<not> py_len ''0123456789'' < min_password_length"
    "list_ex (\<lambda>row. row_name row = ''kid'') (account_rows (stored_auth family))" by code_simp+
  have acc: "account (stored_auth family) ''kid''
    = Some \<lparr>ac_username = ''kid'', ac_hash = ''k'', ac_role = Member, ac_resources = [''media'']\<rparr>" by code_simp
  obtain data' where d: "set_account_password [] (stored_auth family) ''kid'' ''0123456789'' family = (Inr (), data')"
    using b by (simp add: set_account_password_def st h acc Let_def)
  show ?thesis
    using set_account_password_rotates[OF family_plain(1) d] d acc by (intro exI[of _ data']) (simp add: st role_of_def)
qed

end
