(* ===== verification/Sessions.thy ===== *)
theory Sessions
  imports Auth_Accounts
begin

text \<open>
  Session cookies and pending two-factor tokens (\<open>hub/auth.py\<close>): text sealed under the server's
  HMAC key, with an expiry and the stamp of the account's credential and logout counter. The key
  (\<open>_secret()\<close>) and the readings of \<open>time.time()\<close> are arguments; a clock reading is a rational,
  which every finite float is. A missing token stands as the empty text.
\<close>

section \<open>Sealing\<close>

definition session_ttl :: int where "session_ttl = 7 * 24 * 3600"
definition pending_ttl :: int where "pending_ttl = 300"
definition pending_mark :: string where "pending_mark = ''totp-pending''"
definition sig_len :: nat where "sig_len = 32"

definition clock_now :: "rat \<Rightarrow> int" where
  \<comment> \<open>\<open>int(time.time())\<close> truncates towards zero\<close>
  "clock_now t = rat_int t"

definition split_signed :: "bytes \<Rightarrow> (bytes \<times> bytes) option" where
  "split_signed raw =
     (if length raw < sig_len + 1 \<or> raw ! (length raw - (sig_len + 1)) \<noteq> 46 then None
      else Some (take (length raw - (sig_len + 1)) raw, drop (length raw - sig_len) raw))"

definition seal :: "bytes \<Rightarrow> bytes \<Rightarrow> string" where
  "seal key payload = b64_unpadded (payload @ 46 # hmac_sha256 key payload)"

definition unseal :: "bytes \<Rightarrow> string \<Rightarrow> bytes option" where
  "unseal key token =
     (case b64decode token of
        Inl _ \<Rightarrow> None
      | Inr raw \<Rightarrow>
          (case split_signed raw of
             None \<Rightarrow> None
           | Some (payload, sig) \<Rightarrow> if sig = hmac_sha256 key payload then Some payload else None))"

section \<open>Sessions\<close>

definition session_payload :: "string \<Rightarrow> int \<Rightarrow> string \<Rightarrow> bytes" where
  "session_payload username expiry version = utf8_encode (username @ ''|'' @ show_int expiry @ ''|'' @ version)"

definition parse_session_payload :: "string \<Rightarrow> (string \<times> string \<times> string) result" where
  \<comment> \<open>\<open>payload.rsplit("|", 2)\<close>, unpacked into three\<close>
  "parse_session_payload payload =
     (case rpartition_on (CHR ''|'') payload of
        None \<Rightarrow> Inl ValueError
      | Some (rest, version) \<Rightarrow>
          (case rpartition_on (CHR ''|'') rest of
             None \<Rightarrow> Inl ValueError
           | Some (username, expiry) \<Rightarrow> Inr (username, expiry, version)))"

definition create_session :: "bytes \<Rightarrow> pydict \<Rightarrow> string \<Rightarrow> rat \<Rightarrow> string" where
  "create_session key a username t =
     seal key (session_payload username (clock_now t + session_ttl) (account_session_version a username))"

definition live_stamp :: "pydict \<Rightarrow> string \<times> string \<times> string \<Rightarrow> rat \<Rightarrow> bool" where
  "live_stamp a p now =
     (case p of (username, exp_s, version) \<Rightarrow>
        dict_get (accounts a) username \<noteq> None
        \<and> (case py_int_of_str exp_s of Inl _ \<Rightarrow> False | Inr expiry \<Rightarrow> now < of_int expiry)
        \<and> version = account_session_version a username)"

definition verify_session :: "bytes \<Rightarrow> pydict \<Rightarrow> string \<Rightarrow> rat \<Rightarrow> bool" where
  "verify_session key a token now \<longleftrightarrow>
     token \<noteq> [] \<and>
     (case unseal key token of
        None \<Rightarrow> False
      | Some payload \<Rightarrow>
          (case bind_ok (utf8_decode payload) parse_session_payload of
             Inl _ \<Rightarrow> False
           | Inr p \<Rightarrow> live_stamp a p now))"

definition session_username :: "bytes \<Rightarrow> pydict \<Rightarrow> string \<Rightarrow> rat \<Rightarrow> string" where
  "session_username key a token now =
     (if \<not> verify_session key a token now then []
      else (case b64decode token of
              Inl _ \<Rightarrow> []
            | Inr raw \<Rightarrow>
                (case split_signed raw of
                   None \<Rightarrow> []
                 | Some (payload, _) \<Rightarrow>
                     (case bind_ok (utf8_decode payload) parse_session_payload of
                        Inl _ \<Rightarrow> []
                      | Inr (username, _, _) \<Rightarrow> username))))"

section \<open>Pending second factor\<close>

definition create_pending_totp_token :: "bytes \<Rightarrow> pydict \<Rightarrow> string \<Rightarrow> rat \<Rightarrow> string" where
  "create_pending_totp_token key a username t =
     seal key (utf8_encode (join_on ''|''
       [pending_mark, username, show_int (clock_now t + pending_ttl), account_session_version a username]))"

definition pending_totp_username :: "bytes \<Rightarrow> pydict \<Rightarrow> string \<Rightarrow> rat \<Rightarrow> string" where
  "pending_totp_username key a token now =
     (if token = [] then []
      else (case unseal key token of
              None \<Rightarrow> []
            | Some payload \<Rightarrow>
                (case utf8_decode payload of
                   Inl _ \<Rightarrow> []
                 | Inr text \<Rightarrow>
                     (case partition_on (CHR ''|'') text of
                        (mark, _, rest) \<Rightarrow>
                          if mark \<noteq> pending_mark \<or> rest = [] then []
                          else (case parse_session_payload rest of
                                  Inl _ \<Rightarrow> []
                                | Inr p \<Rightarrow> if live_stamp a p now then fst p else [])))))"

section \<open>The sealing law\<close>

text \<open>
  What both kinds of token rely on: a sealed payload opens under its key and is never the empty
  text. Everything a reader accepts or refuses is then a matter of the payload alone.
\<close>

locale sealed_tokens =
  fixes seals :: "'k \<Rightarrow> 'p \<Rightarrow> 't list" and opens :: "'k \<Rightarrow> 't list \<Rightarrow> 'p option"
  assumes opens_seals: "opens k (seals k p) = Some p"
    and seals_nonempty: "seals k p \<noteq> []"
begin

lemma seals_inj: "seals k p = seals k q \<longleftrightarrow> p = q"
  using opens_seals by (metis option.inject)

lemma reader_sealed:
  "(seals k p \<noteq> [] \<and> (case opens k (seals k p) of None \<Rightarrow> False | Some q \<Rightarrow> R q)) \<longleftrightarrow> R p"
  by (simp add: opens_seals seals_nonempty)

lemma readers_apart:
  assumes "\<And>q. R q \<Longrightarrow> S q \<Longrightarrow> False"
  shows "\<not> ((case opens k t of None \<Rightarrow> False | Some q \<Rightarrow> R q) \<and> (case opens k t of None \<Rightarrow> False | Some q \<Rightarrow> S q))"
  using assms by (auto split: option.splits)

end

lemma split_signed_sealed: "length sig = sig_len \<Longrightarrow> split_signed (payload @ 46 # sig) = Some (payload, sig)"
  by (simp add: split_signed_def nth_append)

interpretation hmac_tokens: sealed_tokens seal unseal
proof
  fix k p
  have raw: "b64decode (seal k p) = Inr (p @ 46 # hmac_sha256 k p)"
    unfolding seal_def by (rule b64decode_unpadded)
  show "unseal k (seal k p) = Some p"
    by (simp add: unseal_def raw split_signed_sealed sig_len_def)
  show "seal k p \<noteq> []"
  proof
    assume "seal k p = []"
    then have "b64decode (seal k p) = b64decode (b64_unpadded [])"
      by (simp add: b64_unpadded_digits nats_def)
    then show False using raw by (simp add: b64decode_unpadded)
  qed
qed

section \<open>What a token carries\<close>

text \<open>The fields a signed token carries, whatever the accounts and the clock say.\<close>

definition session_fields :: "bytes \<Rightarrow> string \<Rightarrow> (string \<times> string \<times> string) option" where
  "session_fields key token =
     (case unseal key token of
        None \<Rightarrow> None
      | Some payload \<Rightarrow>
          (case bind_ok (utf8_decode payload) parse_session_payload of Inl _ \<Rightarrow> None | Inr p \<Rightarrow> Some p))"

definition pending_fields :: "bytes \<Rightarrow> string \<Rightarrow> (string \<times> string \<times> string) option" where
  "pending_fields key token =
     (case unseal key token of
        None \<Rightarrow> None
      | Some payload \<Rightarrow>
          (case utf8_decode payload of
             Inl _ \<Rightarrow> None
           | Inr text \<Rightarrow>
               (case partition_on (CHR ''|'') text of
                  (mark, _, rest) \<Rightarrow>
                    if mark \<noteq> pending_mark \<or> rest = [] then None
                    else (case parse_session_payload rest of Inl _ \<Rightarrow> None | Inr p \<Rightarrow> Some p))))"

lemma verify_session_fields:
  "verify_session key a token now \<longleftrightarrow>
     token \<noteq> [] \<and> (case session_fields key token of None \<Rightarrow> False | Some p \<Rightarrow> live_stamp a p now)"
  by (auto simp: verify_session_def session_fields_def split: option.split sum.split)

lemma unseal_split: "unseal key token = Some p \<Longrightarrow> \<exists>raw sig. b64decode token = Inr raw \<and> split_signed raw = Some (p, sig)"
  by (auto simp: unseal_def split: sum.splits option.splits if_splits)

lemma session_username_fields:
  "session_username key a token now =
     (case session_fields key token of
        None \<Rightarrow> []
      | Some p \<Rightarrow> if verify_session key a token now then fst p else [])"
proof (cases "unseal key token")
  case (Some payload)
  then show ?thesis
    using unseal_split[OF Some]
    by (auto simp: session_username_def session_fields_def verify_session_fields split: sum.split)
qed (simp add: session_username_def session_fields_def verify_session_fields)

lemma pending_username_fields:
  "pending_totp_username key a token now =
     (case pending_fields key token of
        None \<Rightarrow> []
      | Some p \<Rightarrow> if token \<noteq> [] \<and> live_stamp a p now then fst p else [])"
  by (auto simp: pending_totp_username_def pending_fields_def split: option.split sum.split prod.split)

lemma parse_payload_iff:
  "parse_session_payload s = Inr (u, e, v) \<longleftrightarrow> s = u @ CHR ''|'' # e @ CHR ''|'' # v \<and> CHR ''|'' \<notin> set e \<and> CHR ''|'' \<notin> set v"
proof
  assume "parse_session_payload s = Inr (u, e, v)"
  then show "s = u @ CHR ''|'' # e @ CHR ''|'' # v \<and> CHR ''|'' \<notin> set e \<and> CHR ''|'' \<notin> set v"
    by (auto simp: parse_session_payload_def rpartition_on_Some split: option.splits)
next
  assume s: "s = u @ CHR ''|'' # e @ CHR ''|'' # v \<and> CHR ''|'' \<notin> set e \<and> CHR ''|'' \<notin> set v"
  then have "rpartition_on (CHR ''|'') s = Some (u @ CHR ''|'' # e, v)" "rpartition_on (CHR ''|'') (u @ CHR ''|'' # e) = Some (u, e)"
    by (simp_all add: rpartition_on_Some)
  then show "parse_session_payload s = Inr (u, e, v)" by (simp add: parse_session_payload_def)
qed

lemma version_chars: "list_all is_ascii (account_session_version a u) \<and> CHR ''|'' \<notin> set (account_session_version a u)"
proof -
  let ?h = "hexdigest (sha256 (utf8_encode (version_basis a u)))"
  have "CHR ''|'' \<notin> set ?h" using hexdigest_chars[of "CHR ''|''" "sha256 (utf8_encode (version_basis a u))"] by (auto simp: is_digit_def ordc_def)
  moreover have "list_all is_ascii ?h" by (rule hexdigest_ascii)
  ultimately show ?thesis using set_take_subset[of 16 ?h] by (auto simp: account_session_version_def list_all_iff)
qed

lemma ttl_bounds: "0 \<le> session_ttl" "0 \<le> pending_ttl" "pending_ttl \<le> session_ttl"
  by (simp_all add: session_ttl_def pending_ttl_def)

lemma expiry_text:
  assumes "reading t" "0 \<le> ttl" "ttl \<le> session_ttl"
  shows "py_int_of_str (show_int (clock_now t + ttl)) = Inr (clock_now t + ttl)"
    "CHR ''|'' \<notin> set (show_int (clock_now t + ttl))" "list_all is_ascii (show_int (clock_now t + ttl))"
proof -
  let ?e = "clock_now t + ttl"
  have e: "0 \<le> ?e" "length (show_nat (nat ?e)) \<le> 400"
    using reading_digits[OF assms(1,2)] assms(3) by (simp_all add: clock_now_def session_ttl_def)
  have n: "show_int ?e = show_nat (nat ?e)" using e by (simp add: show_int_def)
  show "py_int_of_str (show_int ?e) = Inr ?e"
    using e unfolding n by (subst py_int_of_str_show_nat) (simp_all add: int_max_str_digits_def)
  show "CHR ''|'' \<notin> set (show_int ?e)" unfolding n by (rule show_nat_no_char) (simp add: is_digit_def ordc_def)
  show "list_all is_ascii (show_int ?e)"
    unfolding n using show_nat_digits[of "nat ?e"] by (auto simp: list_all_iff is_digit_def is_ascii_def)
qed

lemma created_session_fields:
  assumes "reading t" "text_ok u"
  shows "session_fields key (create_session key a u t) = Some (u, show_int (clock_now t + session_ttl), account_session_version a u)"
    and "create_session key a u t \<noteq> []"
proof -
  let ?e = "show_int (clock_now t + session_ttl)" and ?v = "account_session_version a u"
  note e = expiry_text[OF assms(1) ttl_bounds(1) order_refl]
  have "text_ok (u @ ''|'' @ ?e @ ''|'' @ ?v)"
    using e(3) version_chars[of a u]
    by (intro text_ok_append[OF assms(2) text_ok_ascii]) (simp add: is_ascii_def ordc_def)
  then have d: "utf8_decode (session_payload u (clock_now t + session_ttl) ?v) = Inr (u @ CHR ''|'' # ?e @ CHR ''|'' # ?v)"
    by (simp add: session_payload_def utf8_decode_encode del: utf8_encode_append)
  have "parse_session_payload (u @ CHR ''|'' # ?e @ CHR ''|'' # ?v) = Inr (u, ?e, ?v)"
    using e(2) version_chars[of a u] by (simp add: parse_payload_iff)
  then show "session_fields key (create_session key a u t) = Some (u, ?e, ?v)"
    by (simp add: session_fields_def create_session_def hmac_tokens.opens_seals d)
  show "create_session key a u t \<noteq> []" by (simp add: create_session_def hmac_tokens.seals_nonempty)
qed

lemma created_pending_fields:
  assumes "reading t" "text_ok u"
  shows "pending_fields key (create_pending_totp_token key a u t) = Some (u, show_int (clock_now t + pending_ttl), account_session_version a u)"
    and "create_pending_totp_token key a u t \<noteq> []"
proof -
  let ?e = "show_int (clock_now t + pending_ttl)" and ?v = "account_session_version a u"
  let ?rest = "u @ CHR ''|'' # ?e @ CHR ''|'' # ?v"
  note e = expiry_text[OF assms(1) ttl_bounds(2,3)]
  have m: "list_all is_ascii pending_mark" "CHR ''|'' \<notin> set pending_mark" by code_simp+
  have "text_ok (pending_mark @ ''|'' @ u @ ''|'' @ ?e @ ''|'' @ ?v)"
    using e(3) version_chars[of a u] m(1)
    by (intro text_ok_append[OF text_ok_ascii text_ok_append[OF text_ok_ascii text_ok_append[OF assms(2) text_ok_ascii]]])
      (simp_all add: is_ascii_def ordc_def)
  then have d: "utf8_decode (utf8_encode (join_on ''|'' [pending_mark, u, ?e, ?v])) = Inr (pending_mark @ CHR ''|'' # ?rest)"
    by (simp add: utf8_decode_encode del: utf8_encode_append)
  have "parse_session_payload ?rest = Inr (u, ?e, ?v)"
    using e(2) version_chars[of a u] by (simp add: parse_payload_iff)
  then show "pending_fields key (create_pending_totp_token key a u t) = Some (u, ?e, ?v)"
    using partition_on_append[OF m(2), of ?rest]
    by (simp add: pending_fields_def create_pending_totp_token_def hmac_tokens.opens_seals d del: join_on.simps)
  show "create_pending_totp_token key a u t \<noteq> []" by (simp add: create_pending_totp_token_def hmac_tokens.seals_nonempty)
qed

lemma partition_on_rest:
  assumes "partition_on c s = (m, f, r)" "r \<noteq> []"
  shows "s = m @ c # r"
proof -
  have "c \<in> set s" using assms by (auto simp: partition_on_def split: if_splits)
  from split_list_first[OF this] obtain a b where "s = a @ c # b" "c \<notin> set a" by blast
  then show ?thesis using assms(1) by (simp add: partition_on_append)
qed

lemma fields_apart:
  assumes "session_fields key token = Some p" "pending_fields key token = Some q"
  shows "CHR ''|'' \<in> set (fst p)"
proof -
  obtain payload whole where t: "unseal key token = Some payload" "utf8_decode payload = Inr whole" "parse_session_payload whole = Inr p"
    using assms(1) by (auto simp: session_fields_def bind_ok_def split: option.splits sum.splits)
  obtain mark found rest where m: "partition_on (CHR ''|'') whole = (mark, found, rest)" by (metis prod_cases3)
  have r: "rest \<noteq> []" "parse_session_payload rest = Inr q"
    using assms(2) t m by (auto simp: pending_fields_def split: if_splits sum.splits)
  have whole: "whole = mark @ CHR ''|'' # rest"
    using partition_on_rest[OF m r(1)] .
  obtain u e v u' e' v' where p: "p = (u, e, v)" and q: "q = (u', e', v')" by (metis prod_cases3)
  have s: "whole = u @ CHR ''|'' # e @ CHR ''|'' # v" "CHR ''|'' \<notin> set e" "CHR ''|'' \<notin> set v"
    and s': "rest = u' @ CHR ''|'' # e' @ CHR ''|'' # v'"
    using t(3) r(2) by (simp_all add: parse_payload_iff p q)
  have "count_list whole (CHR ''|'') = count_list u (CHR ''|'') + 2"
    using s by (simp add: count_list_append count_notin)
  moreover have "count_list whole (CHR ''|'') \<ge> 3" unfolding whole s' by (simp add: count_list_append)
  ultimately have "count_list u (CHR ''|'') \<noteq> 0" by simp
  then show ?thesis by (auto simp: p count_list_0_iff)
qed

section \<open>Properties\<close>

lemma session_lifetime:
  assumes "dict_get (accounts a) u \<noteq> None" "text_ok u" "reading t"
  shows "session_username key a (create_session key a u t) now = (if now < of_int (\<lfloor>t\<rfloor> + session_ttl) then u else [])
    \<and> (verify_session key a (create_session key a u t) now \<longleftrightarrow> now < of_int (\<lfloor>t\<rfloor> + session_ttl))"
proof -
  have "clock_now t = \<lfloor>t\<rfloor>" using assms(3) by (simp add: clock_now_def rat_int_def reading_def)
  then show ?thesis
    using created_session_fields[OF assms(3,2), of key a] expiry_text(1)[OF assms(3) ttl_bounds(1) order_refl] assms(1)
    by (simp add: session_username_fields verify_session_fields live_stamp_def)
qed

text \<open>
  C22: a session lasts exactly its lifetime. The cookie created for an account verifies at
  every later reading before seven days after its creation, and not from then on; while it does
  it names that account, whatever separators the name contains.
\<close>

theorem session_roundtrip:
  assumes "dict_get (accounts a) u \<noteq> None" "text_ok u" "reading t"
  shows "session_username key a (create_session key a u t) now = (if now < of_int (\<lfloor>t\<rfloor> + session_ttl) then u else [])
    \<and> (verify_session key a (create_session key a u t) now \<longleftrightarrow> now < of_int (\<lfloor>t\<rfloor> + session_ttl))"
  by (rule session_lifetime[OF assms])

lemma pending_lifetime:
  assumes "dict_get (accounts a) u \<noteq> None" "text_ok u" "reading t"
  shows "pending_totp_username key a (create_pending_totp_token key a u t) now = (if now < of_int (\<lfloor>t\<rfloor> + pending_ttl) then u else [])"
proof -
  have "clock_now t = \<lfloor>t\<rfloor>" using assms(3) by (simp add: clock_now_def rat_int_def reading_def)
  then show ?thesis
    using created_pending_fields[OF assms(3,2), of key a] expiry_text(1)[OF assms(3) ttl_bounds(2,3)] assms(1)
    by (simp add: pending_username_fields live_stamp_def)
qed

text \<open>
  A pending token stands for its account for five minutes, and is never a session. What
  proves the password at reading \<open>t\<close> names its account until 300 seconds later; and while no
  account name contains the separator, no token of either kind is ever accepted as the other.
\<close>

lemma pending_never_session:
  assumes "dict_get (accounts a) u \<noteq> None" "text_ok u" "reading t"
    and bars: "\<And>k. dict_get (accounts a) k \<noteq> None \<Longrightarrow> CHR ''|'' \<notin> set k"
  shows "pending_totp_username key a (create_pending_totp_token key a u t) now = (if now < of_int (\<lfloor>t\<rfloor> + pending_ttl) then u else [])
    \<and> \<not> (verify_session key a token now \<and> pending_totp_username key a token later \<noteq> [])"
proof
  show "pending_totp_username key a (create_pending_totp_token key a u t) now = (if now < of_int (\<lfloor>t\<rfloor> + pending_ttl) then u else [])"
    by (rule pending_lifetime[OF assms(1-3)])
  show "\<not> (verify_session key a token now \<and> pending_totp_username key a token later \<noteq> [])"
  proof
    assume both: "verify_session key a token now \<and> pending_totp_username key a token later \<noteq> []"
    then obtain p q where p: "session_fields key token = Some p" "live_stamp a p now"
      and q: "pending_fields key token = Some q" "live_stamp a q later"
      by (auto simp: verify_session_fields pending_username_fields split: option.splits if_splits)
    show False using fields_apart[OF p(1) q(1)] p(2) q(2) bars by (auto simp: live_stamp_def)
  qed
qed

lemma version_cong:
  "accounts a = accounts b \<Longrightarrow> session_epoch a v = session_epoch b v \<Longrightarrow> account_session_version a v = account_session_version b v"
  by (simp add: account_session_version_def version_basis_def)

lemma account_epoch_key: "dict_get (accounts a) u = Some r \<Longrightarrow> epoch_key u = u \<and> u \<noteq> []"
  using account_utf8[of a u r] account_name[of a u r] by (simp add: epoch_key_def)

text \<open>
  C4: logging out everywhere revokes. After the bump of an account's counter the credential
  text its stamp digests is another one, so unless the two stamps collide no cookie and no pending
  token issued before is accepted; the sessions of every other account stay exactly as they were.
\<close>

theorem bump_revokes:
  assumes "plain_auth (stored_auth data)" "dict_get (accounts (stored_auth data)) u = Some r" "text_ok u" "reading t"
  defines "a \<equiv> stored_auth data" and "a' \<equiv> stored_auth (bump_session_epoch u data)"
  shows "version_basis a' u \<noteq> version_basis a u
    \<and> (account_session_version a' u \<noteq> account_session_version a u \<longrightarrow>
        \<not> verify_session key a' (create_session key a u t) now
        \<and> pending_totp_username key a' (create_pending_totp_token key a u t) now = [])
    \<and> (\<forall>v token. v \<noteq> u \<longrightarrow> v \<noteq> [] \<longrightarrow> (session_username key a' token now = v \<longleftrightarrow> session_username key a token now = v))"
proof (intro conjI impI allI)
  note k = account_epoch_key[OF assms(2)]
  have b: "accounts a' = accounts a" "session_epoch a' u \<noteq> session_epoch a u"
    "\<And>v. v \<noteq> u \<Longrightarrow> v \<noteq> [] \<Longrightarrow> session_epoch a' v = session_epoch a v"
    using bump_state[OF assms(1), of u] k unfolding a_def a'_def by simp_all
  show "version_basis a' u \<noteq> version_basis a u" using version_basis_epochs[OF b(1)] b(2) by simp
  show "\<not> verify_session key a' (create_session key a u t) now"
    if "account_session_version a' u \<noteq> account_session_version a u"
    using that created_session_fields(1)[OF assms(4,3), of key a] by (simp add: verify_session_fields live_stamp_def)
  show "pending_totp_username key a' (create_pending_totp_token key a u t) now = []"
    if "account_session_version a' u \<noteq> account_session_version a u"
    using that created_pending_fields(1)[OF assms(4,3), of key a] by (simp add: pending_username_fields live_stamp_def)
  show "session_username key a' token now = v \<longleftrightarrow> session_username key a token now = v" if "v \<noteq> u" "v \<noteq> []" for v token
  proof -
    have live: "live_stamp a' p now \<longleftrightarrow> live_stamp a p now" if "fst p = v" for p
      using version_cong[OF b(1) b(3)[OF \<open>v \<noteq> u\<close> \<open>v \<noteq> []\<close>]] b(1) that by (cases p) (simp add: live_stamp_def)
    show ?thesis
      using live \<open>v \<noteq> []\<close> by (auto simp: session_username_fields verify_session_fields split: option.split)
  qed
qed

section \<open>Witnesses\<close>

text \<open>Readings taken in 2023, on the configuration with a member.\<close>

lemma reading_2023: "reading 1700000000" by (simp add: reading_def)

lemma kid_known: "dict_get (accounts (stored_auth family)) ''kid''
    = Some \<lparr>ac_username = ''kid'', ac_hash = ''k'', ac_role = Member, ac_resources = [''media'']\<rparr>"
  by code_simp

lemma kid_text: "text_ok ''kid''" by code_simp

lemma session_roundtrip_witness:
  "let a = stored_auth family; token = create_session [] a ''kid'' 1700000000 in
     verify_session [] a token 1700000001 \<and> session_username [] a token 1700604799 = ''kid''
     \<and> \<not> verify_session [] a token 1700604800"
  using session_roundtrip[of "stored_auth family" "''kid''" 1700000000 "[]", OF _ kid_text reading_2023]
  by (simp add: kid_known session_ttl_def)

lemma family_names: "\<forall>p \<in> set (accounts (stored_auth family)). CHR ''|'' \<notin> set (fst p)"
  by code_simp

lemma pending_never_session_witness:
  "let a = stored_auth family; token = create_pending_totp_token [] a ''kid'' 1700000000 in
     pending_totp_username [] a token 1700000001 = ''kid'' \<and> \<not> verify_session [] a token 1700000001"
proof -
  have bars: "CHR ''|'' \<notin> set k" if "dict_get (accounts (stored_auth family)) k \<noteq> None" for k
    using that family_names dict_get_in by fastforce
  show ?thesis
    using pending_never_session[of "stored_auth family" "''kid''" 1700000000 "[]" 1700000001
      "create_pending_totp_token [] (stored_auth family) ''kid'' 1700000000" 1700000001,
      OF _ kid_text reading_2023 bars]
    by (auto simp: kid_known pending_ttl_def Let_def)
qed

lemma bump_revokes_witness:
  "let a = stored_auth family; a' = stored_auth (bump_session_epoch ''kid'' family) in
     version_basis a' ''kid'' \<noteq> version_basis a ''kid''
     \<and> session_username [] a' (create_session [] a ''owner'' 1700000000) 1700000001 = ''owner''"
proof -
  let ?a = "stored_auth family" and ?t = "1700000000 :: rat"
  have o: "dict_get (accounts ?a) ''owner'' \<noteq> None" "text_ok ''owner''" by code_simp+
  have "session_username [] ?a (create_session [] ?a ''owner'' ?t) (?t + 1) = ''owner''"
    using created_session_fields[OF reading_2023 o(2), of "[]" ?a] expiry_text(1)[OF reading_2023 ttl_bounds(1) order_refl] o(1)
    by (simp add: session_username_fields verify_session_fields live_stamp_def clock_now_def rat_int_def session_ttl_def)
  then show ?thesis
    using bump_revokes[OF family_plain(1) kid_known kid_text reading_2023, of "[]" "?t + 1"] by simp
qed

end
