(* ===== verification/Totp.thy ===== *)
theory Totp
  imports Hashes Py_Value
begin

text \<open>
  One-time passwords (\<open>hub/totp.py\<close>): the base32 secret and the ways a person types it, the
  HOTP code of a counter, the counter of a clock reading, and the verification of a supplied
  code against the steps around now. Random bytes and clock readings are arguments.
\<close>

section \<open>Base32\<close>

definition b32_char :: "nat \<Rightarrow> char" where
  "b32_char d = (if d < 26 then char_of (65 + d) else char_of (24 + d))"

definition b32_val :: "char \<Rightarrow> nat option" where
  "b32_val c = (if 65 \<le> ordc c \<and> ordc c \<le> 90 then Some (ordc c - 65)
                else if 50 \<le> ordc c \<and> ordc c \<le> 55 then Some (ordc c - 24) else None)"

definition b32_kept :: "nat \<Rightarrow> nat" where
  \<comment> \<open>the characters that carry \<open>n\<close> bytes of a quantum\<close>
  "b32_kept n = (8 * n + 4) div 5"

definition b32_quantum :: "bytes \<Rightarrow> string" where
  "b32_quantum q = map b32_char (take (b32_kept (length q)) (to_base 32 8 (from_bytes (q @ replicate (5 - length q) 0))))"

definition b32encode :: "bytes \<Rightarrow> string" where
  "b32encode bs = concat (map (\<lambda>q. b32_quantum q @ replicate (8 - b32_kept (length q)) (CHR ''='')) (chunks 5 bs))"

fun b32_vals :: "string \<Rightarrow> nat list option" where
  "b32_vals [] = Some []"
| "b32_vals (c # cs) =
     (case (b32_val c, b32_vals cs) of (Some d, Some ds) \<Rightarrow> Some (d # ds) | _ \<Rightarrow> None)"

definition b32_group :: "string \<Rightarrow> bytes option" where
  \<comment> \<open>\<open>k\<close> characters stand for the first \<open>(5 k + 3) div 8\<close> bytes of the quantum\<close>
  "b32_group g = map_option (\<lambda>ds. take ((5 * length g + 3) div 8)
     (to_bytes 5 (of_base 32 ds * 32 ^ (8 - length g)))) (b32_vals g)"

fun b32_groups :: "string list \<Rightarrow> bytes option" where
  "b32_groups [] = Some []"
| "b32_groups (g # gs) =
     (case (b32_group g, b32_groups gs) of (Some a, Some b) \<Rightarrow> Some (a @ b) | _ \<Rightarrow> None)"

definition b32decode :: "string \<Rightarrow> bytes result" where
  "b32decode s =
     (if length s mod 8 \<noteq> 0 then Inl ValueError
      else
        (let body = rstrip_char (CHR ''='') s; pad = length s - length body
         in case b32_groups (chunks 8 body) of
              None \<Rightarrow> Inl ValueError
            | Some bs \<Rightarrow> if pad \<in> {0, 1, 3, 4, 6} then Inr bs else Inl ValueError))"

section \<open>Secrets\<close>

definition secret_bytes :: nat where "secret_bytes = 20"

definition step_seconds :: int where "step_seconds = 30"

definition totp_digits :: nat where "totp_digits = 6"

definition drift_window :: int where "drift_window = 1"

text \<open>\<open>rnd\<close> is what \<open>secrets.token_bytes(SECRET_BYTES)\<close> draws.\<close>

definition generate_secret :: "bytes \<Rightarrow> string" where
  "generate_secret rnd = rstrip_char (CHR ''='') (b32encode rnd)"

definition decode_secret :: "string \<Rightarrow> bytes result" where
  "decode_secret secret =
     (let cleaned = upper (remove_char (CHR ''-'') (remove_char (CHR '' '') (strip secret)))
      in if cleaned = [] then Inl ValueError
         else b32decode (cleaned @ replicate ((8 - length cleaned mod 8) mod 8) (CHR ''='')))"

definition manual_entry_groups :: "string \<Rightarrow> string" where
  "manual_entry_groups secret = join_on '' '' (chunks 4 (remove_char (CHR '' '') secret))"

section \<open>Codes\<close>

definition hotp :: "bytes \<Rightarrow> 64 word \<Rightarrow> nat \<Rightarrow> string" where
  "hotp key counter digits =
     (let mac = hmac_sha1 key (to_bytes 8 (unat counter));
          offset = unat (last mac AND 0x0F);
          code = (word_of_nat (from_bytes (take 4 (drop offset mac))) :: 32 word) AND 0x7FFFFFFF
      in zfill digits (show_nat (unat code mod 10 ^ digits)))"

text \<open>
  The counter of a clock reading; None for a reading no counter belongs to. An object whose
  conversion raises anything but TypeError, ValueError or OverflowError lets that out.
\<close>

definition step_counter :: "pyval \<Rightarrow> int \<Rightarrow> int option result" where
  "step_counter stamp step =
     (case stamp of
        PBool _ \<Rightarrow> Inr None
      | PNone \<Rightarrow> Inr None
      | _ \<Rightarrow>
          if step \<le> 0 then Inr None
          else (case py_int stamp of
                  Inl RuntimeError \<Rightarrow> Inl RuntimeError
                | Inl _ \<Rightarrow> Inr None
                | Inr now \<Rightarrow>
                    let counter = now div step
                    in if counter < 0 \<or> counter > 0xFFFFFFFFFFFFFFFF then Inr None else Inr (Some counter)))"

definition totp_at :: "string \<Rightarrow> pyval \<Rightarrow> int \<Rightarrow> nat \<Rightarrow> string result" where
  "totp_at secret stamp step digits =
     bind_ok (step_counter stamp step)
       (\<lambda>c. case c of
              None \<Rightarrow> Inl ValueError
            | Some counter \<Rightarrow> bind_ok (decode_secret secret) (\<lambda>key. Inr (hotp key (word_of_int counter) digits)))"

definition try_candidate :: "bytes \<Rightarrow> nat \<Rightarrow> string \<Rightarrow> int option \<Rightarrow> int \<Rightarrow> int option" where
  "try_candidate key digits supplied matched candidate =
     (if candidate < 0 \<or> candidate > 0xFFFFFFFFFFFFFFFF then matched
      else if hotp key (word_of_int candidate) digits = supplied then Some candidate else matched)"

definition verify :: "string \<Rightarrow> string \<Rightarrow> pyval \<Rightarrow> int \<Rightarrow> int \<Rightarrow> nat \<Rightarrow> int option result" where
  "verify secret code stamp window step digits =
     (let supplied = remove_char (CHR '' '') (strip code) in
      if \<not> isdigit supplied \<or> length supplied \<noteq> digits then Inr None
      else (case decode_secret secret of
              Inl _ \<Rightarrow> Inr None
            | Inr key \<Rightarrow>
                if window < 0 then Inr None
                else bind_ok (step_counter stamp step)
                  (\<lambda>c. case c of
                         None \<Rightarrow> Inr None
                       | Some counter \<Rightarrow>
                           Inr (foldl (try_candidate key digits supplied) None
                                  [counter - window .. counter + window]))))"

section \<open>Base32 is faithful\<close>

lemma b32_char_ord: "d < 32 \<Longrightarrow> ordc (b32_char d) = (if d < 26 then 65 + d else 24 + d)"
  by (simp add: b32_char_def ordc_char_of)

lemma b32_val_char [base_simps]: "d < 32 \<Longrightarrow> b32_val (b32_char d) = Some d"
  by (simp add: b32_val_def b32_char_ord)

lemma b32_vals_map: "(\<And>d. d \<in> set ds \<Longrightarrow> d < 32) \<Longrightarrow> b32_vals (map b32_char ds) = Some ds"
  by (induction ds) (simp_all add: b32_val_char)

lemma length_b32_quantum: "length q \<le> 5 \<Longrightarrow> length (b32_quantum q) = b32_kept (length q)"
  by (simp add: b32_quantum_def b32_kept_def)

lemma b32_group_quantum:
  assumes "q \<noteq> []" "length q \<le> 5"
  shows "b32_group (b32_quantum q) = Some q"
proof -
  let ?n = "length q" and ?k = "b32_kept (length q)"
  let ?v = "from_bytes (q @ replicate (5 - length q) 0)"
  let ?ds = "take ?k (to_base 32 8 ?v)"
  have "0 < ?n" using assms(1) by simp
  then have n: "?n \<in> {1, 2, 3, 4, 5}" using assms(2) unfolding insert_iff empty_iff by arith
  have k: "?k \<le> 8" "(5 * ?k + 3) div 8 = ?n" "32 ^ (8 - ?k) dvd (256 ^ (5 - ?n) :: nat)"
    using n by (auto simp: b32_kept_def)
  have d: "d < 32" if "d \<in> set ?ds" for d
    using to_base_digits[of 32 d 8 ?v] in_set_takeD[OF that] by simp
  have v: "?v < 32 ^ 8" using from_bytes_bound[of "q @ replicate (5 - ?n) 0"] assms(2) by simp
  have "of_base 32 ?ds = ?v div 32 ^ (8 - ?k)"
    using of_base_take[of "to_base 32 8 ?v" 32 ?k] to_base_digits[of 32 _ 8 ?v] k(1) v
    by (simp add: of_to_base)
  moreover have "32 ^ (8 - ?k) dvd ?v" using k(3) by (simp add: from_bytes_zeros)
  ultimately have "of_base 32 ?ds * 32 ^ (8 - ?k) = ?v" by simp
  moreover have "to_bytes 5 ?v = q @ replicate (5 - ?n) 0"
    using to_from_bytes[of "q @ replicate (5 - ?n) 0"] assms(2) by simp
  moreover have "b32_vals (b32_quantum q) = Some ?ds"
    unfolding b32_quantum_def by (rule b32_vals_map) (rule d)
  ultimately show ?thesis
    using k(2) length_b32_quantum[OF assms(2)] by (simp add: b32_group_def)
qed

definition b32_body :: "bytes \<Rightarrow> string" where
  "b32_body bs = concat (map b32_quantum (chunks 5 bs))"

lemma b32_body_shape:
  "\<exists>p \<in> {0, 1, 3, 4, 6}. b32encode bs = b32_body bs @ replicate p (CHR ''='')
     \<and> 8 dvd length (b32_body bs) + p \<and> chunks 8 (b32_body bs) = map b32_quantum (chunks 5 bs)"
proof (induction bs rule: measure_induct_rule[of length])
  case (less bs)
  have pos: "0 < (5::nat)" by simp
  from pos show ?case
  proof (cases rule: chunks_cases[of 5 bs])
    case 1
    then show ?thesis by (simp add: b32encode_def b32_body_def)
  next
    case 2
    then have "0 < length bs" by simp
    then have n: "length bs \<in> {1, 2, 3, 4, 5}" using 2(2) unfolding insert_iff empty_iff by arith
    then have k: "b32_kept (length bs) \<in> {2, 4, 5, 7, 8}" by (auto simp: b32_kept_def)
    have l: "length (b32_quantum bs) = b32_kept (length bs)" using 2 by (simp add: length_b32_quantum)
    have c: "chunks 8 (b32_quantum bs) = [b32_quantum bs]"
      using k l by (intro chunks_short) auto
    show ?thesis using 2 k l c
      by (intro bexI[of _ "8 - b32_kept (length bs)"]) (auto simp: b32encode_def b32_body_def chunks_short)
  next
    case (3 a b)
    then have "length b < length bs" by simp
    from less.IH[OF this] obtain p where p: "p \<in> {0, 1, 3, 4, 6}"
      "b32encode b = b32_body b @ replicate p (CHR ''='')" "8 dvd length (b32_body b) + p"
      "chunks 8 (b32_body b) = map b32_quantum (chunks 5 b)" by blast
    have l: "length (b32_quantum a) = 8" using 3 by (simp add: length_b32_quantum b32_kept_def)
    have e: "b32encode bs = b32_quantum a @ b32encode b" "b32_body bs = b32_quantum a @ b32_body b"
      "chunks 5 bs = a # chunks 5 b"
      using 3 by (simp_all add: b32encode_def b32_body_def chunks_append b32_kept_def)
    have "length (b32_body bs) + p = 8 + (length (b32_body b) + p)"
      unfolding e(2) length_append l by (simp only: add.assoc)
    then have "8 dvd length (b32_body bs) + p" using p(3) by (simp only: dvd_add_triv_left_iff)
    moreover have "chunks 8 (b32_body bs) = map b32_quantum (chunks 5 bs)"
      unfolding e(2,3) list.map p(4)[symmetric] by (rule chunks_append) (simp_all add: l)
    moreover have "b32encode bs = b32_body bs @ replicate p (CHR ''='')"
      unfolding e p(2) by simp
    ultimately show ?thesis using p(1) by blast
  qed
qed

lemma b32_body_chars:
  assumes "c \<in> set (b32_body bs)"
  shows "upper_char c = c \<and> \<not> is_space c \<and> c \<noteq> CHR ''='' \<and> c \<noteq> CHR ''-'' \<and> c \<noteq> CHR '' ''"
proof -
  from assms obtain q where "c \<in> set (b32_quantum q)" by (auto simp: b32_body_def)
  then obtain d where d: "c = b32_char d" "d < 32"
    using to_base_digits[of 32] by (fastforce simp: b32_quantum_def dest: in_set_takeD)
  then have "ordc c = (if d < 26 then 65 + d else 24 + d)" by (simp add: b32_char_ord)
  then show ?thesis using \<open>d < 32\<close>
    by (auto simp: upper_char_def is_space_def ordc_def split: if_splits)
qed

lemma generate_secret_body: "generate_secret rnd = b32_body rnd"
proof -
  obtain p where "b32encode rnd = b32_body rnd @ replicate p (CHR ''='')" using b32_body_shape[of rnd] by blast
  then show ?thesis
    using rstrip_char_append[of "b32_body rnd" "CHR ''=''" p] b32_body_chars[of _ rnd]
    by (simp add: generate_secret_def)
qed

lemma b32_groups_quanta:
  "(\<And>q. q \<in> set qs \<Longrightarrow> q \<noteq> [] \<and> length q \<le> 5) \<Longrightarrow> b32_groups (map b32_quantum qs) = Some (concat qs)"
  by (induction qs) (simp_all add: b32_group_quantum)

lemma b32decode_encode: "b32decode (b32encode bs) = Inr bs"
proof -
  obtain p where p: "p \<in> {0, 1, 3, 4, 6}" "b32encode bs = b32_body bs @ replicate p (CHR ''='')"
    "8 dvd length (b32_body bs) + p" "chunks 8 (b32_body bs) = map b32_quantum (chunks 5 bs)"
    using b32_body_shape[of bs] by blast
  have r: "rstrip_char (CHR ''='') (b32encode bs) = b32_body bs"
    using generate_secret_body[of bs] by (simp add: generate_secret_def)
  have "b32_groups (map b32_quantum (chunks 5 bs)) = Some bs"
    using b32_groups_quanta[of "chunks 5 bs"] chunks_sizes[of 5 _ bs] concat_chunks[of 5 bs] by simp
  moreover have "8 dvd length (b32encode bs)" "length (b32encode bs) - length (b32_body bs) = p"
    using p(3) unfolding p(2) length_append length_replicate by (assumption, simp)
  ultimately show ?thesis
    using p(1) unfolding b32decode_def r p(4) Let_def dvd_eq_mod_eq_0 by simp
qed

lemma pad_count:
  assumes "n + p = 8 * q" "p < (8::nat)"
  shows "(8 - n mod 8) mod 8 = p"
proof (cases p)
  case 0
  then show ?thesis using assms by simp
next
  case (Suc p')
  then have "n = 8 * (q - 1) + (8 - p)" using assms by (cases q) auto
  then have "n mod 8 = (8 - p) mod 8" by (simp only: mod_mult_self4)
  moreover have "(8 - p) mod 8 = 8 - p" using Suc by simp
  ultimately show ?thesis using assms(2) by simp
qed

lemma b32encode_padded:
  "b32encode bs = b32_body bs @ replicate ((8 - length (b32_body bs) mod 8) mod 8) (CHR ''='')"
proof -
  obtain p where p: "p \<in> {0, 1, 3, 4, 6}" "b32encode bs = b32_body bs @ replicate p (CHR ''='')"
    "8 dvd length (b32_body bs) + p" using b32_body_shape[of bs] by blast
  have "p < 8" using p(1) by auto
  obtain n where "length (b32_body bs) + p = 8 * n" using p(3) by blast
  then have "(8 - length (b32_body bs) mod 8) mod 8 = p" by (rule pad_count) (rule \<open>p < 8\<close>)
  with p(2) show ?thesis by simp
qed

text \<open>What a person may do to the text of a secret: separators, spaces around, letter case.\<close>

definition undressed :: "string \<Rightarrow> string" where
  "undressed t = upper (remove_char (CHR ''-'') (remove_char (CHR '' '') (strip t)))"

lemma decode_secret_dressed:
  assumes "undressed t = b32_body bs" "bs \<noteq> []"
  shows "decode_secret t = Inr bs"
proof -
  have "b32_body bs \<noteq> []"
  proof
    assume "b32_body bs = []"
    then have "map b32_quantum (chunks 5 bs) = []" using b32_body_shape[of bs] by auto
    then have "bs = []" using concat_chunks[of 5 bs] by simp
    with assms(2) show False by simp
  qed
  then show ?thesis
    using assms(1) b32encode_padded[of bs] b32decode_encode[of bs]
    by (simp add: decode_secret_def undressed_def)
qed

section \<open>Dressing a secret\<close>

lemma remove_char_join: "c \<in> set sep \<Longrightarrow> set sep = {c} \<Longrightarrow> remove_char c (join_on sep ps) = remove_char c (concat ps)"
  by (induction ps rule: induct_list012) (auto simp: remove_char_def filter_empty_conv)

lemma lower_upper_ends: "is_space (lower_char c) = is_space c"
  by (auto simp: lower_char_def is_space_def ordc_char_of)

lemma upper_lower_char: "upper_char c = c \<Longrightarrow> upper_char (lower_char c) = c"
  by (auto simp: upper_char_def lower_char_def ordc_char_of) (simp add: ordc_def)

lemma lower_remove: "c = CHR ''-'' \<or> c = CHR '' '' \<Longrightarrow> remove_char c (lower s) = lower (remove_char c s)"
proof (induction s)
  case (Cons x xs)
  have "lower_char x = c \<longleftrightarrow> x = c"
    using Cons.prems by (auto simp: lower_char_def ordc_def dest!: arg_cong[of _ _ "of_char :: char \<Rightarrow> nat"])
  then show ?case using Cons by (simp add: remove_char_def lower_def)
qed (simp add: remove_char_def lower_def)

lemma undressed_body:
  assumes "\<And>c. c \<in> set s \<Longrightarrow> upper_char c = c \<and> \<not> is_space c \<and> c \<noteq> CHR ''-'' \<and> c \<noteq> CHR '' ''"
  shows "undressed s = s" "undressed (manual_entry_groups s) = s" "undressed (lower (manual_entry_groups s)) = s"
proof -
  have "remove_char (CHR '' '') s = s" "remove_char (CHR ''-'') s = s"
    by (rule remove_char_id, use assms in blast)+
  moreover have "upper s = s" "upper (lower s) = s"
    using assms upper_lower_char by (auto simp: upper_def lower_def intro!: map_idI)
  ultimately have no: "remove_char (CHR '' '') s = s" "remove_char (CHR ''-'') s = s" "upper s = s" "upper (lower s) = s"
    by simp_all
  have st: "strip s = s" using assms by (intro strip_no_space) (auto simp: list_all_iff)
  show "undressed s = s" by (simp add: undressed_def no st)
  let ?m = "manual_entry_groups s"
  have m: "remove_char (CHR '' '') ?m = s"
    by (simp add: manual_entry_groups_def no remove_char_join concat_chunks)
  have ends: "?m = [] \<or> (\<not> is_space (hd ?m) \<and> \<not> is_space (last ?m))"
  proof (cases "s = []")
    case False
    have ps: "chunks 4 s \<noteq> []" "\<And>p. p \<in> set (chunks 4 s) \<Longrightarrow> p \<noteq> []"
      using False chunks_sizes[of 4 _ s] concat_chunks[of 4 s] by (auto simp del: concat_eq_Nil_conv)
    have sub: "c \<in> set s" if "p \<in> set (chunks 4 s)" "c \<in> set p" for c p
    proof -
      have "c \<in> set (concat (chunks 4 s))" using that by auto
      then show ?thesis by (simp add: concat_chunks)
    qed
    have m': "?m = join_on '' '' (chunks 4 s)" by (simp add: manual_entry_groups_def no)
    have "hd (hd (chunks 4 s)) \<in> set s" "last (last (chunks 4 s)) \<in> set s"
      by (rule sub[of "hd (chunks 4 s)"], use ps in simp_all) (rule sub[of "last (chunks 4 s)"], use ps in simp_all)
    then have "hd ?m \<in> set s \<and> last ?m \<in> set s"
      using join_on_ends[OF ps, of "'' ''"] unfolding m' by metis
    then show ?thesis using assms by blast
  qed (simp add: manual_entry_groups_def remove_char_def)
  then have sm: "strip ?m = ?m" by (rule strip_id)
  show "undressed ?m = s" by (simp add: undressed_def sm m no)
  have "strip (lower ?m) = lower ?m"
    using ends by (intro strip_id) (auto simp: lower_def lower_upper_ends hd_map last_map)
  then show "undressed (lower ?m) = s"
    by (simp add: undressed_def lower_remove m no)
qed

section \<open>Codes verify\<close>

lemma hotp_shape: "0 < digits \<Longrightarrow> isdigit (hotp key counter digits) \<and> length (hotp key counter digits) = digits"
proof -
  assume pos: "0 < digits"
  have "isdigit (zfill digits (show_nat m)) \<and> length (zfill digits (show_nat m)) = digits" if "m < 10 ^ digits" for m
    using length_zfill[OF length_show_nat[OF pos that]] show_nat_digits[of m]
    by (auto simp: isdigit_def zfill_def list_all_iff is_digit_def ordc_def)
  then show ?thesis by (simp add: hotp_def Let_def)
qed

lemma foldl_candidates:
  "foldl (try_candidate key digits supplied) acc cs
    = (case filter (\<lambda>m. 0 \<le> m \<and> m \<le> 0xFFFFFFFFFFFFFFFF \<and> hotp key (word_of_int m) digits = supplied) cs of
         [] \<Rightarrow> acc | m # ms \<Rightarrow> Some (last (m # ms)))"
  by (induction cs arbitrary: acc) (auto simp: try_candidate_def split: list.splits)

lemma last_filter_upto:
  "(case filter P [a..b] of [] \<Rightarrow> None | m # ms \<Rightarrow> Some (last (m # ms))) = Some n
    \<longleftrightarrow> a \<le> n \<and> n \<le> b \<and> P n \<and> (\<forall>m. n < m \<and> m \<le> b \<longrightarrow> \<not> P m)" for a b :: int
proof (induction "nat (b - a + 1)" arbitrary: b)
  case 0
  then have "[a..b] = []" by simp
  then show ?case using 0 by auto
next
  case (Suc k)
  then have le: "a \<le> b" and eq: "[a..b] = [a..b - 1] @ [b]" by (auto simp: upto_rec2)
  have k: "k = nat (b - 1 - a + 1)" using Suc.hyps(2) by linarith
  show ?case
  proof (cases "P b")
    case True
    then have "filter P [a..b] = filter P [a..b - 1] @ [b]" unfolding eq by simp
    then have "(case filter P [a..b] of [] \<Rightarrow> None | m # ms \<Rightarrow> Some (last (m # ms))) = Some b"
      by (cases "filter P [a..b - 1]") simp_all
    then show ?thesis using True le by force
  next
    case False
    then have "filter P [a..b] = filter P [a..b - 1]" unfolding eq by simp
    then show ?thesis using Suc.hyps(1)[OF k] False
      by (metis int_one_le_iff_zero_less le_less zle_diff1_eq order_refl)
  qed
qed

lemma last_filter_upto_None:
  "(case filter P [a..b] of [] \<Rightarrow> None | m # ms \<Rightarrow> Some (last (m # ms))) = None
    \<longleftrightarrow> (\<forall>m. a \<le> m \<and> m \<le> b \<longrightarrow> \<not> P m)" for a b :: int
proof -
  have "(case xs of [] \<Rightarrow> None | m # ms \<Rightarrow> Some (last (m # ms))) = None \<longleftrightarrow> xs = []" for xs :: "int list"
    by (cases xs) simp_all
  then show ?thesis by (auto simp: filter_empty_conv)
qed

lemma generate_secret_undressed:
  "undressed (generate_secret rnd) = b32_body rnd"
  "undressed (manual_entry_groups (generate_secret rnd)) = b32_body rnd"
  "undressed (lower (manual_entry_groups (generate_secret rnd))) = b32_body rnd"
  using undressed_body[of "b32_body rnd"] b32_body_chars[of _ rnd] by (auto simp: generate_secret_body)

lemma isdigit_stripped:
  assumes "isdigit s"
  shows "remove_char (CHR '' '') (strip s) = s"
proof -
  have d: "is_digit c" if "c \<in> set s" for c using assms that by (auto simp: isdigit_def list_all_iff)
  then have "strip s = s" using is_digit_not_space by (intro strip_no_space) (auto simp: list_all_iff)
  moreover have "CHR '' '' \<notin> set s" using d[of "CHR '' ''"] by (auto simp: is_digit_def ordc_def)
  ultimately show ?thesis by (simp add: remove_char_id)
qed

text \<open>The codes \<open>verify\<close> accepts at a counter: the candidates of the window that fit 64 bits.\<close>

definition in_window :: "int \<Rightarrow> int \<Rightarrow> int \<Rightarrow> bool" where
  "in_window c window m \<longleftrightarrow> c - window \<le> m \<and> m \<le> c + window \<and> 0 \<le> m \<and> m < 2 ^ 64"

lemma verify_unfold:
  assumes "decode_secret secret = Inr key" "step_counter stamp step = Inr (Some c)" "0 \<le> window"
    and "isdigit supplied" "length supplied = digits" "remove_char (CHR '' '') (strip code) = supplied"
  shows "verify secret code stamp window step digits =
    Inr (case filter (\<lambda>m. 0 \<le> m \<and> m \<le> 0xFFFFFFFFFFFFFFFF \<and> hotp key (word_of_int m) digits = supplied)
           [c - window..c + window] of [] \<Rightarrow> None | m # ms \<Rightarrow> Some (last (m # ms)))"
  unfolding foldl_candidates[symmetric] using assms by (simp add: verify_def Let_def)

lemma verify_result:
  assumes "decode_secret secret = Inr key" "step_counter stamp step = Inr (Some c)" "0 \<le> window"
    and "isdigit supplied" "length supplied = digits" "remove_char (CHR '' '') (strip code) = supplied"
  shows "\<exists>r. verify secret code stamp window step digits = Inr r
    \<and> (r = Some n \<longleftrightarrow> in_window c window n \<and> hotp key (word_of_int n) digits = supplied
        \<and> (\<forall>m. n < m \<and> in_window c window m \<longrightarrow> hotp key (word_of_int m) digits \<noteq> supplied))
    \<and> (r = None \<longleftrightarrow> (\<forall>m. in_window c window m \<longrightarrow> hotp key (word_of_int m) digits \<noteq> supplied))"
proof -
  let ?P = "\<lambda>m. 0 \<le> m \<and> m \<le> 0xFFFFFFFFFFFFFFFF \<and> hotp key (word_of_int m) digits = supplied"
  let ?r = "case filter ?P [c - window..c + window] of [] \<Rightarrow> None | m # ms \<Rightarrow> Some (last (m # ms))"
  have "?r = Some n \<longleftrightarrow> in_window c window n \<and> hotp key (word_of_int n) digits = supplied
        \<and> (\<forall>m. n < m \<and> in_window c window m \<longrightarrow> hotp key (word_of_int m) digits \<noteq> supplied)"
    unfolding last_filter_upto by (auto simp: in_window_def)
  moreover have "?r = None \<longleftrightarrow> (\<forall>m. in_window c window m \<longrightarrow> hotp key (word_of_int m) digits \<noteq> supplied)"
    unfolding last_filter_upto_None by (auto simp: in_window_def)
  ultimately show ?thesis using verify_unfold[OF assms] by (intro exI[of _ ?r] conjI)
qed

text \<open>The counter of an integer clock reading.\<close>

lemma step_counter_PInt:
  "0 < step \<Longrightarrow> step_counter (PInt n) step
    = Inr (if 0 \<le> n div step \<and> n div step < 2 ^ 64 then Some (n div step) else None)"
  by (auto simp: step_counter_def Let_def)

lemma shown_code_accepted:
  assumes "0 < step" and "0 < digits" and "0 \<le> n" and "n div step < 2 ^ 64" and "0 \<le> m" and "m div step < 2 ^ 64"
    and "\<bar>n div step - m div step\<bar> \<le> window" and "totp_at secret (PInt m) step digits = Inr code"
  shows "\<exists>c. verify secret code (PInt n) window step digits = Inr (Some c) \<and> m div step \<le> c \<and> \<bar>n div step - c\<bar> \<le> window"
proof -
  have nm: "0 \<le> n div step" "0 \<le> m div step" using assms by (simp_all add: pos_imp_zdiv_nonneg_iff)
  then have sc: "step_counter (PInt n) step = Inr (Some (n div step))" "step_counter (PInt m) step = Inr (Some (m div step))"
    using assms by (simp_all add: step_counter_PInt)
  obtain key where key: "decode_secret secret = Inr key" "code = hotp key (word_of_int (m div step)) digits"
    using assms(8) sc(2) by (auto simp: totp_at_def bind_ok_Inr_iff)
  have dig: "isdigit code" "length code = digits" using hotp_shape[OF assms(2)] key(2) by auto
  have w: "0 \<le> window" using assms(7) by linarith
  have inw: "in_window (n div step) window (m div step)" using assms nm by (auto simp: in_window_def)
  obtain r where r: "verify secret code (PInt n) window step digits = Inr r"
    "r = None \<longleftrightarrow> (\<forall>k. in_window (n div step) window k \<longrightarrow> hotp key (word_of_int k) digits \<noteq> code)"
    using verify_result[OF key(1) sc(1) w dig isdigit_stripped[OF dig(1)]] by metis
  then obtain c where c: "r = Some c" using inw key(2) by (cases r) auto
  have "in_window (n div step) window c" "\<forall>k. c < k \<and> in_window (n div step) window k \<longrightarrow> hotp key (word_of_int k) digits \<noteq> code"
    using verify_result[OF key(1) sc(1) w dig isdigit_stripped[OF dig(1)], of c] r(1) c by auto
  then show ?thesis using r(1) c inw key(2) by (auto simp: in_window_def not_less[symmetric])
qed

section \<open>Properties\<close>

text \<open>
  A secret survives every way it reaches a person and comes back: the stored text, the
  four-character groups shown for manual entry, and those groups typed in lower case all decode
  to the random bytes drawn, whatever their number.
\<close>

lemma secret_roundtrip:
  assumes "rnd \<noteq> []"
  shows "decode_secret (generate_secret rnd) = Inr rnd
    \<and> decode_secret (manual_entry_groups (generate_secret rnd)) = Inr rnd
    \<and> decode_secret (lower (manual_entry_groups (generate_secret rnd))) = Inr rnd"
  using decode_secret_dressed[OF _ assms] generate_secret_undressed[of rnd] by blast

lemma secret_roundtrip_witness:
  "decode_secret (lower (manual_entry_groups (generate_secret (replicate secret_bytes 255)))) = Inr (replicate secret_bytes 255)"
  using secret_roundtrip[of "replicate secret_bytes 255"] by (simp add: secret_bytes_def)

text \<open>
  Verification is exact. With a decodable secret and a clock reading that has a counter,
  a supplied code (spaces dropped) verifies as counter \<open>n\<close> exactly when \<open>n\<close> is the last counter
  of the window, clipped to 64 bits, whose code it is; it fails exactly when no counter of the
  window has that code. Text that is not \<open>digits\<close> decimal digits never verifies.
\<close>

lemma verify_exact:
  assumes "decode_secret secret = Inr key" and "step_counter stamp step = Inr (Some c)" and "0 \<le> window" and "0 < digits"
  shows "let supplied = remove_char (CHR '' '') (strip code) in
    (verify secret code stamp window step digits = Inr (Some n) \<longleftrightarrow>
       in_window c window n \<and> hotp key (word_of_int n) digits = supplied
       \<and> (\<forall>m. n < m \<and> in_window c window m \<longrightarrow> hotp key (word_of_int m) digits \<noteq> supplied))
    \<and> (verify secret code stamp window step digits = Inr None \<longleftrightarrow>
       (\<forall>m. in_window c window m \<longrightarrow> hotp key (word_of_int m) digits \<noteq> supplied))"
proof -
  let ?s = "remove_char (CHR '' '') (strip code)"
  show ?thesis
  proof (cases "isdigit ?s \<and> length ?s = digits")
    case True
    then show ?thesis using verify_result[OF assms(1-3), of ?s digits code n] by (auto simp: Let_def)
  next
    case False
    then have "hotp key x digits \<noteq> ?s" for x using hotp_shape[OF assms(4), of key x] by auto
    then show ?thesis using False by (auto simp: verify_def Let_def)
  qed
qed

text \<open>
  What the authenticator shows is accepted. For every secret, clock and accepted skew, the
  code shown at a time whose step is within the window of the server's step verifies on the
  server, as a counter of the window not below the authenticator's.
\<close>

lemma shown_code_verifies:
  assumes "0 < step" and "0 < digits" and "0 \<le> n" and "n div step < 2 ^ 64" and "0 \<le> m" and "m div step < 2 ^ 64"
    and "\<bar>n div step - m div step\<bar> \<le> window" and "totp_at secret (PInt m) step digits = Inr code"
  shows "\<exists>c. verify secret code (PInt n) window step digits = Inr (Some c) \<and> m div step \<le> c \<and> \<bar>n div step - c\<bar> \<le> window"
  by (rule shown_code_accepted[OF assms])

lemma sample_secret:
  "decode_secret (generate_secret (replicate 20 7)) = Inr (replicate 20 7)"
  by (rule decode_secret_dressed) (simp_all add: generate_secret_undressed)

lemma verify_exact_witness:
  "\<exists>n. verify (generate_secret (replicate 20 7)) (hotp (replicate 20 7) 3 6) (PInt 95) 1 30 6 = Inr (Some n)"
proof -
  let ?k = "replicate 20 7 :: bytes"
  let ?code = "hotp ?k 3 6"
  have sc: "step_counter (PInt 95) 30 = Inr (Some 3)" by (simp add: step_counter_PInt)
  have st: "remove_char (CHR '' '') (strip ?code) = ?code"
    using isdigit_stripped[of ?code] hotp_shape[of 6 ?k] by simp
  have "verify (generate_secret ?k) ?code (PInt 95) 1 30 6 \<noteq> Inr None"
  proof
    assume "verify (generate_secret ?k) ?code (PInt 95) 1 30 6 = Inr None"
    then have "\<forall>m. in_window 3 1 m \<longrightarrow> hotp ?k (word_of_int m) 6 \<noteq> ?code"
      using verify_exact[OF sample_secret sc, of 1 6 ?code 0] unfolding st Let_def by simp
    then show False by (elim allE[of _ 3]) (simp add: in_window_def)
  qed
  moreover have "\<exists>r. verify (generate_secret ?k) ?code (PInt 95) 1 30 6 = Inr r"
    using sample_secret sc by (simp add: verify_def Let_def)
  ultimately show ?thesis by auto
qed

lemma shown_code_verifies_witness:
  "\<exists>code c. totp_at (generate_secret (replicate 20 7)) (PInt 59) 30 6 = Inr code
     \<and> verify (generate_secret (replicate 20 7)) code (PInt 61) 1 30 6 = Inr (Some c)"
proof -
  obtain code where code: "totp_at (generate_secret (replicate 20 7)) (PInt 59) 30 6 = Inr code"
    by (auto simp: totp_at_def step_counter_PInt sample_secret)
  have "\<exists>c. verify (generate_secret (replicate 20 7)) code (PInt 61) 1 30 6 = Inr (Some c)
      \<and> 59 div 30 \<le> c \<and> \<bar>61 div 30 - c\<bar> \<le> 1"
    by (rule shown_code_verifies[OF _ _ _ _ _ _ _ code]) simp_all
  with code show ?thesis by blast
qed

end
