(* ===== verification/Twofa.thy ===== *)
theory Twofa
  imports Totp
begin

text \<open>
  Two-factor state per account (\<open>hub/twofa_svc.py\<close>): enrollment, verification with replay
  rejection, single-use recovery codes. The store is one JSON document; every operation loads
  it, works on one account's row and saves it back inside one critical section.

  A document stands as the value its text parses to (the file missing is None); writing and
  parsing back gives the value written. \<open>disk\<close> says, for one call, whether the read succeeded
  (a file beyond the size cap, torn or unreadable reads as empty) and whether the write did
  (a failed one is swallowed). Random draws and clock readings are arguments. A parsed document
  holds no object with hostile hooks, so bare truth tests on its fields cannot raise.
\<close>

section \<open>The store\<close>

record disk =
  d_read :: bool
  d_write :: bool

abbreviation good_disk :: disk where
  "good_disk \<equiv> \<lparr>d_read = True, d_write = True\<rparr>"

type_synonym doc = "pyval option"
type_synonym totp_rows = "(string, pydict) dict"

datatype twofa_error = AlreadyEnabled | NotPending | NotEnabled | Raised py_error

definition fits_digit_cap :: "int \<Rightarrow> bool" where
  "fits_digit_cap i \<longleftrightarrow> length (show_nat (nat \<bar>i\<bar>)) \<le> int_max_str_digits"

text \<open>\<open>_as_int(raw, default)\<close>; the default may be None.\<close>

fun as_int :: "pyval \<Rightarrow> int option \<Rightarrow> int option" where
  "as_int PNone d = d"
| "as_int (PBool _) d = d"
| "as_int (PInt i) d = (if fits_digit_cap i then Some i else d)"
| "as_int (PFloat (FDec m e)) d = Some (float_trunc m e)"
| "as_int (PFloat _) d = d"
| "as_int v d = (case py_int v of Inl _ \<Rightarrow> d | Inr n \<Rightarrow> Some n)"

fun json_safe :: "nat \<Rightarrow> pyval \<Rightarrow> pyval" where
  "json_safe depth v =
     (if 32 < depth then PNone
      else (case v of
              PDict kvs \<Rightarrow> PDict (map (\<lambda>p. (fst p, json_safe (Suc depth) (snd p))) kvs)
            | PList xs \<Rightarrow> PList (map (json_safe (Suc depth)) xs)
            | PTuple xs \<Rightarrow> PList (map (json_safe (Suc depth)) xs)
            | PInt i \<Rightarrow> if fits_digit_cap i then PInt i else PNone
            | PFloat f \<Rightarrow> if is_finite_float f then PFloat f else PNone
            | PBytes s \<Rightarrow> PStr s
            | PHostile \<Rightarrow> PStr []
            | _ \<Rightarrow> v))"

declare json_safe.simps [simp del]

definition opt_int :: "int option \<Rightarrow> pyval" where
  "opt_int r = (case r of None \<Rightarrow> PNone | Some n \<Rightarrow> PInt n)"

definition persistable_entry :: "pydict \<Rightarrow> pydict" where
  "persistable_entry entry =
     (let row = map (\<lambda>p. (fst p, json_safe 1 (snd p))) entry;
          row = (if dict_get row ''last_counter'' \<noteq> None
                 then dict_set ''last_counter'' (opt_int (as_int (pyget row ''last_counter'') (Some 0))) row else row)
      in if dict_get row ''confirmed_at'' \<noteq> None
         then dict_set ''confirmed_at'' (opt_int (as_int (pyget row ''confirmed_at'') None)) row else row)"

fun dict_rows :: "pydict \<Rightarrow> totp_rows" where
  "dict_rows [] = []"
| "dict_rows ((name, PDict entry) # rows) = (name, persistable_entry entry) # dict_rows rows"
| "dict_rows (_ # rows) = dict_rows rows"

definition load :: "disk \<Rightarrow> doc \<Rightarrow> totp_rows" where
  "load dk file =
     (if \<not> d_read dk then []
      else (case file of Some (PDict rows) \<Rightarrow> dict_rows rows | _ \<Rightarrow> []))"

definition user_entry :: "totp_rows \<Rightarrow> string \<Rightarrow> pydict" where
  "user_entry data user = (case dict_get data user of None \<Rightarrow> [] | Some e \<Rightarrow> e)"

definition save :: "disk \<Rightarrow> totp_rows \<Rightarrow> doc \<Rightarrow> doc" where
  "save dk data file =
     (if d_write dk then Some (PDict (map (\<lambda>p. (fst p, PDict (persistable_entry (snd p)))) data)) else file)"

section \<open>Secrets and recovery codes\<close>

definition hash_recovery :: "string \<Rightarrow> string" where
  "hash_recovery code =
     hexdigest (sha256 (utf8_encode (upper (remove_char (CHR '' '') (remove_char (CHR ''-'') code)))))"

definition as_secret :: "pyval \<Rightarrow> string" where
  "as_secret raw = (case raw of PStr s \<Rightarrow> strip s | _ \<Rightarrow> [])"

definition digest_eq :: "string \<Rightarrow> string \<Rightarrow> bool" where
  "digest_eq stored supplied \<longleftrightarrow>
     list_all is_ascii stored \<and> list_all is_ascii supplied \<and> length stored = length supplied \<and> stored = supplied"

definition recovery_codes :: nat where "recovery_codes = 10"

definition recovery_alphabet :: string where
  "recovery_alphabet = ''ABCDEFGHJKMNPQRSTVWXYZ23456789''"

definition recovery_group :: nat where "recovery_group = 5"

text \<open>\<open>draws i j\<close> is the index \<open>secrets.choice\<close> picks for character \<open>j\<close> of code \<open>i\<close>.\<close>

definition new_recovery_codes :: "(nat \<Rightarrow> nat \<Rightarrow> nat) \<Rightarrow> string list" where
  "new_recovery_codes draws =
     map (\<lambda>i. let chars = map (\<lambda>j. recovery_alphabet ! (draws i j mod length recovery_alphabet)) [0..<recovery_group * 2]
              in take recovery_group chars @ ''-'' @ drop recovery_group chars)
       [0..<recovery_codes]"

definition stored_recovery :: "pyval \<Rightarrow> string list" where
  "stored_recovery rec =
     (case rec of PList rows \<Rightarrow> List.map_filter (\<lambda>v. case v of PStr s \<Rightarrow> Some s | _ \<Rightarrow> None) rows | _ \<Rightarrow> [])"

section \<open>The pairing URI\<close>

definition unreserved :: "char \<Rightarrow> bool" where
  "unreserved c \<longleftrightarrow> (65 \<le> ordc c \<and> ordc c \<le> 90) \<or> (97 \<le> ordc c \<and> ordc c \<le> 122) \<or> is_digit c
     \<or> c \<in> {CHR ''_'', CHR ''.'', CHR ''-'', CHR ''~''}"

definition percent_quote :: "string \<Rightarrow> string" where
  "percent_quote s =
     concat (map (\<lambda>c. if unreserved c then [c] else CHR ''%'' # upper [hex_digit (ordc c div 16), hex_digit (ordc c mod 16)]) s)"

definition quote_plus :: "string \<Rightarrow> string" where
  "quote_plus s = concat (map (\<lambda>c. if c = CHR '' '' then ''+'' else percent_quote [c]) s)"

definition otpauth_uri :: "string \<Rightarrow> string \<Rightarrow> string \<Rightarrow> string" where
  "otpauth_uri secret account issuer =
     ''otpauth://totp/'' @ percent_quote (issuer @ '':'' @ account) @ ''?''
     @ join_on ''&'' (map (\<lambda>(k, v). quote_plus k @ ''='' @ quote_plus v)
         [(''secret'', secret), (''issuer'', issuer), (''algorithm'', ''SHA1''),
          (''digits'', show_nat totp_digits), (''period'', show_int step_seconds)])"

section \<open>Operations\<close>

record twofa_status =
  st_enabled :: bool
  st_pending :: bool
  st_recovery_remaining :: nat
  st_confirmed_at :: "int option"

definition status :: "disk \<Rightarrow> string \<Rightarrow> doc \<Rightarrow> twofa_status" where
  "status dk user file =
     (let entry = user_entry (load dk file) user
      in \<lparr>st_enabled = truthy (pyget entry ''enabled''),
          st_pending = truthy (pyget entry ''pending_secret'') \<and> \<not> truthy (pyget entry ''enabled''),
          st_recovery_remaining = length (stored_recovery (pyget entry ''recovery'')),
          st_confirmed_at = as_int (pyget entry ''confirmed_at'') None\<rparr>)"

definition enabled :: "disk \<Rightarrow> string \<Rightarrow> doc \<Rightarrow> bool" where
  "enabled dk user file = truthy (pyget (user_entry (load dk file) user) ''enabled'')"

definition begin_enrollment :: "disk \<Rightarrow> string \<Rightarrow> bytes \<Rightarrow> doc \<Rightarrow> (twofa_error + string \<times> string \<times> string) \<times> doc" where
  "begin_enrollment dk user rnd file =
     (let secret = generate_secret rnd; data = load dk file; entry = user_entry data user
      in if truthy (pyget entry ''enabled'') then (Inl AlreadyEnabled, file)
         else (Inr (secret, otpauth_uri secret user ''ServerHub'', manual_entry_groups secret),
               save dk (dict_set user (dict_set ''pending_secret'' (PStr secret) entry) data) file))"

definition totp_verify :: "string \<Rightarrow> string \<Rightarrow> pyval \<Rightarrow> int option result" where
  \<comment> \<open>\<open>totp.verify\<close> with its defaults\<close>
  "totp_verify secret code stamp = verify secret code stamp drift_window step_seconds totp_digits"

definition confirm_enrollment ::
  "disk \<Rightarrow> string \<Rightarrow> string \<Rightarrow> pyval \<Rightarrow> (nat \<Rightarrow> nat \<Rightarrow> nat) \<Rightarrow> pyval \<Rightarrow> doc \<Rightarrow> (twofa_error + string list option) \<times> doc" where
  "confirm_enrollment dk user code stamp draws now file =
     (let data = load dk file; entry = user_entry data user; pending = as_secret (pyget entry ''pending_secret'')
      in if truthy (pyget entry ''enabled'') \<or> pending = [] then (Inl NotPending, file)
         else (case totp_verify pending code stamp of
                 Inl e \<Rightarrow> (Inl (Raised e), file)
               | Inr None \<Rightarrow> (Inr None, file)
               | Inr (Some matched) \<Rightarrow>
                   let codes = new_recovery_codes draws in
                   (Inr (Some codes),
                    save dk (dict_set user
                      [(''secret'', PStr pending), (''enabled'', PBool True), (''confirmed_at'', opt_int (as_int now (Some 0))),
                       (''recovery'', PList (map (\<lambda>c. PStr (hash_recovery c)) codes)), (''last_counter'', PInt matched)] data) file)))"

definition or_zero :: "int option \<Rightarrow> int" where
  "or_zero r = (case r of None \<Rightarrow> 0 | Some n \<Rightarrow> n)"

definition verify_totp_code :: "disk \<Rightarrow> string \<Rightarrow> string \<Rightarrow> pyval \<Rightarrow> doc \<Rightarrow> (twofa_error + bool) \<times> doc" where
  "verify_totp_code dk user code stamp file =
     (let data = load dk file; entry = user_entry data user; secret = as_secret (pyget entry ''secret'')
      in if \<not> truthy (pyget entry ''enabled'') \<or> secret = [] then (Inr False, file)
         else (case totp_verify secret code stamp of
                 Inl e \<Rightarrow> (Inl (Raised e), file)
               | Inr None \<Rightarrow> (Inr False, file)
               | Inr (Some matched) \<Rightarrow>
                   if matched \<le> or_zero (as_int (pyget entry ''last_counter'') (Some 0)) then (Inr False, file)
                   else (Inr True,
                         save dk (dict_set user (dict_set ''last_counter'' (PInt matched) entry) data) file)))"

fun last_match :: "string \<Rightarrow> string list \<Rightarrow> nat \<Rightarrow> nat option \<Rightarrow> nat option" where
  "last_match supplied [] i found = found"
| "last_match supplied (digest # ds) i found =
     last_match supplied ds (Suc i) (if digest_eq digest supplied then Some i else found)"

definition use_recovery_code :: "disk \<Rightarrow> string \<Rightarrow> string \<Rightarrow> doc \<Rightarrow> bool \<times> doc" where
  "use_recovery_code dk user code file =
     (let supplied = hash_recovery code; data = load dk file; entry = user_entry data user
      in if \<not> truthy (pyget entry ''enabled'') then (False, file)
         else
           (let stored = stored_recovery (pyget entry ''recovery'')
            in case last_match supplied stored 0 None of
                 None \<Rightarrow> (False, file)
               | Some i \<Rightarrow>
                   (True, save dk (dict_set user
                      (dict_set ''recovery'' (PList (map PStr (take i stored @ drop (Suc i) stored))) entry) data) file)))"

datatype factor = ByTotp | ByRecovery

definition verify_second_factor :: "disk \<Rightarrow> string \<Rightarrow> string \<Rightarrow> pyval \<Rightarrow> doc \<Rightarrow> (twofa_error + factor option) \<times> doc" where
  "verify_second_factor dk user code stamp file =
     (case verify_totp_code dk user code stamp file of
        (Inl e, file') \<Rightarrow> (Inl e, file')
      | (Inr True, file') \<Rightarrow> (Inr (Some ByTotp), file')
      | (Inr False, file') \<Rightarrow>
          (case use_recovery_code dk user code file' of
             (True, file'') \<Rightarrow> (Inr (Some ByRecovery), file'')
           | (False, file'') \<Rightarrow> (Inr None, file'')))"

definition regenerate_recovery :: "disk \<Rightarrow> string \<Rightarrow> (nat \<Rightarrow> nat \<Rightarrow> nat) \<Rightarrow> doc \<Rightarrow> (twofa_error + string list) \<times> doc" where
  "regenerate_recovery dk user draws file =
     (let codes = new_recovery_codes draws; data = load dk file; entry = user_entry data user
      in if \<not> truthy (pyget entry ''enabled'') then (Inl NotEnabled, file)
         else (Inr codes,
               save dk (dict_set user
                 (dict_set ''recovery'' (PList (map (\<lambda>c. PStr (hash_recovery c)) codes)) entry) data) file))"

definition disable :: "disk \<Rightarrow> string \<Rightarrow> doc \<Rightarrow> bool \<times> doc" where
  "disable dk user file =
     (let data = load dk file; was_enabled = truthy (pyget (user_entry data user) ''enabled'')
      in if dict_get data user \<noteq> None then (was_enabled, save dk (dict_del user data) file)
         else (was_enabled, file))"

end
