(* ===== verification/Api_Keys.thy ===== *)
theory Api_Keys
  imports Twofa
begin

text \<open>
  Bearer API keys (\<open>hub/api_keys.py\<close>): only the SHA-256 digest of a key is stored. The store is a
  JSON document as in \<open>Twofa\<close> (the value its text parses to, an oversized integer parsing to the
  infinite float), \<open>seen\<close> is the process-local map of last uses, and each operation is one critical
  section under the thread and file locks. Random draws and clock readings are arguments.
\<close>

section \<open>Stamps\<close>

text \<open>
  \<open>int(float(text))\<close>: None when the text is no number, or no finite one. Digits come in groups that
  single underscores separate.
\<close>

definition grouped :: "string \<Rightarrow> bool" where
  "grouped s \<longleftrightarrow> list_all isdigit (split_on (CHR ''_'') s)"

definition group_digits :: "string \<Rightarrow> string" where
  "group_digits s = remove_char (CHR ''_'') s"

definition exponent_text :: "string \<Rightarrow> int option" where
  "exponent_text s =
     (let neg = startswith s ''-'';
          ds = (if neg \<or> startswith s ''+'' then tl s else s)
      in if grouped ds then Some ((if neg then - 1 else 1) * int (digits_val (group_digits ds))) else None)"

definition decimal_text :: "string \<Rightarrow> rat option" where
  "decimal_text s =
     (let (mant, has_e, ex) = partition_on (CHR ''e'') (lower s);
          (whole, has_dot, part) = partition_on (CHR ''.'') mant
      in if (whole = [] \<and> part = []) \<or> (whole \<noteq> [] \<and> \<not> grouped whole) \<or> (part \<noteq> [] \<and> \<not> grouped part) then None
         else (case (if has_e then exponent_text ex else Some 0) of
                 None \<Rightarrow> None
               | Some k \<Rightarrow>
                   Some (float_rat (int (digits_val (group_digits whole @ group_digits part)))
                     (k - int (length (group_digits part))))))"

definition float_text_int :: "string \<Rightarrow> int option" where
  "float_text_int text =
     (let t = strip text; neg = startswith t ''-'';
          body = (if neg \<or> startswith t ''+'' then tl t else t)
      in case decimal_text body of
           None \<Rightarrow> None
         | Some x \<Rightarrow>
             if 2 ^ 1024 \<le> double_nearest x then None
             else Some ((if neg then - 1 else 1) * \<lfloor>double_nearest x\<rfloor>))"

definition epoch_of_text :: "string \<Rightarrow> int option \<Rightarrow> int option" where
  "epoch_of_text raw dflt =
     (let text = strip raw in
      if text = [] then dflt
      else (case py_int_of_str text of
              Inr n \<Rightarrow> Some n
            | Inl _ \<Rightarrow> (case float_text_int text of None \<Rightarrow> dflt | Some n \<Rightarrow> Some n)))"

fun as_epoch :: "pyval \<Rightarrow> int option \<Rightarrow> int option" where
  "as_epoch (PInt n) dflt = (if fits_digit_cap n then Some n else dflt)"
| "as_epoch (PFloat (FDec m e)) dflt = Some (float_trunc m e)"
| "as_epoch (PBytes s) dflt = epoch_of_text s dflt"
| "as_epoch (PStr s) dflt = epoch_of_text s dflt"
| "as_epoch _ dflt = dflt"

definition epoch_or_zero :: "pyval \<Rightarrow> int" where
  "epoch_or_zero v = (case as_epoch v (Some 0) of None \<Rightarrow> 0 | Some n \<Rightarrow> n)"

section \<open>The store\<close>

definition key_prefix :: string where "key_prefix = ''shk_''"
definition max_keys :: nat where "max_keys = 50"
definition max_name_length :: nat where "max_name_length = 64"
definition last_used_persist_seconds :: int where "last_used_persist_seconds = 3600"
definition key_roles :: "string list" where "key_roles = [''admin'', ''member'']"

definition key_digest :: "string \<Rightarrow> string" where
  "key_digest token = hexdigest (sha256 (utf8_encode token))"

definition finite_stamp :: "string \<Rightarrow> pydict \<Rightarrow> pydict" where
  "finite_stamp field row =
     (if pyget row field \<noteq> PNone then dict_set field (opt_int (as_epoch (pyget row field) None)) row else row)"

definition persistable_record :: "pydict \<Rightarrow> pydict" where
  "persistable_record record =
     (let row = finite_stamp ''last_used'' (finite_stamp ''created'' record);
          row = (if pyget row ''expires'' \<noteq> PNone
                 then dict_set ''expires'' (PInt (case as_epoch (pyget row ''expires'') None of None \<Rightarrow> 0 | Some n \<Rightarrow> n)) row
                 else row)
      in (case json_safe 0 (PDict row) of PDict d \<Rightarrow> d | _ \<Rightarrow> []))"

definition store_rows :: "pyval \<Rightarrow> pyval list" where
  "store_rows raw =
     (case raw of
        PList xs \<Rightarrow> xs
      | PDict d \<Rightarrow>
          (case pyget d ''keys'' of
             PList xs \<Rightarrow> xs
           | PDict ks \<Rightarrow> filter is_dict (map snd ks)
           | _ \<Rightarrow> [])
      | _ \<Rightarrow> [])"

definition load_keys :: "disk \<Rightarrow> doc \<Rightarrow> pydict list" where
  "load_keys dk file =
     (if \<not> d_read dk then []
      else (case file of None \<Rightarrow> [] | Some raw \<Rightarrow> map persistable_record (List.map_filter plain_dict (store_rows raw))))"

definition save_keys :: "disk \<Rightarrow> pydict list \<Rightarrow> doc \<Rightarrow> doc" where
  "save_keys dk keys file =
     (if d_write dk then Some (PDict [(''keys'', PList (map (PDict \<circ> persistable_record) keys))]) else file)"

definition looks_like_key :: "string \<Rightarrow> bool" where
  "looks_like_key token \<longleftrightarrow> token \<noteq> [] \<and> startswith token key_prefix"

definition key_digest_eq :: "pyval \<Rightarrow> string \<Rightarrow> bool" where
  "key_digest_eq stored supplied =
     (let text = (case stored of PStr s \<Rightarrow> s | _ \<Rightarrow> [])
      in text \<noteq> [] \<and> list_all is_ascii text \<and> py_len text = py_len supplied \<and> text = supplied)"

section \<open>Operations\<close>

record key_view =
  kv_id :: string
  kv_name :: string
  kv_role :: string
  kv_created :: "int option"
  kv_expires :: "int option"
  kv_last_used :: "int option"

definition field_text :: "pydict \<Rightarrow> string \<Rightarrow> string \<Rightarrow> string" where
  \<comment> \<open>\<open>_utf8_text(record.get(field) or fallback)\<close>\<close>
  "field_text record field fallback =
     utf8_text (if truthy (pyget record field) then pyget record field else PStr fallback)"

definition stamp_view :: "pydict \<Rightarrow> string \<Rightarrow> int option" where
  "stamp_view record field = (case pyget record field of PNone \<Rightarrow> None | v \<Rightarrow> as_epoch v None)"

definition public_view :: "(string, int) dict \<Rightarrow> pydict \<Rightarrow> key_view" where
  "public_view seen record =
     (let kid = field_text record ''id'' [];
          last_used = max (epoch_or_zero (pyget record ''last_used''))
            (case dict_get seen kid of None \<Rightarrow> 0 | Some n \<Rightarrow> epoch_or_zero (PInt n))
      in \<lparr>kv_id = kid, kv_name = field_text record ''name'' [], kv_role = field_text record ''role'' ''member'',
          kv_created = stamp_view record ''created'', kv_expires = stamp_view record ''expires'',
          kv_last_used = (if last_used = 0 then None else Some last_used)\<rparr>)"

definition list_public :: "disk \<Rightarrow> (string, int) dict \<Rightarrow> doc \<Rightarrow> key_view list" where
  "list_public dk seen file = map (public_view seen) (load_keys dk file)"

text \<open>
  Minting: \<open>secret\<close> is the text \<open>secrets.token_urlsafe(32)\<close> draws, \<open>kid\<close> the one
  \<open>secrets.token_hex(6)\<close> draws, \<open>t1\<close> and \<open>t2\<close> the two readings of the clock.
\<close>

definition key_expiry :: "pyval \<Rightarrow> rat \<Rightarrow> string + int option" where
  "key_expiry expires_days t =
     (if expires_days = PNone then Inr None
      else (case py_int expires_days of
              Inl _ \<Rightarrow> Inl ''bad_expiry''
            | Inr days \<Rightarrow>
                if 1 \<le> days \<and> days \<le> 3650 then Inr (Some (rat_int t + days * 86400)) else Inl ''bad_expiry''))"

definition new_record :: "string \<Rightarrow> string \<Rightarrow> string \<Rightarrow> string \<Rightarrow> int \<Rightarrow> int option \<Rightarrow> pydict" where
  "new_record kid name role digest created expires =
     [(''id'', PStr (''ak_'' @ kid)), (''name'', PStr name), (''role'', PStr role), (''digest'', PStr digest),
      (''created'', PInt created), (''expires'', opt_int expires), (''last_used'', PNone)]"

definition create_key ::
  "disk \<Rightarrow> (string, int) dict \<Rightarrow> string \<Rightarrow> string \<Rightarrow> rat \<Rightarrow> rat \<Rightarrow> string \<Rightarrow> string \<Rightarrow> pyval \<Rightarrow> doc
    \<Rightarrow> (string + key_view \<times> string) \<times> doc" where
  "create_key dk seen secret kid t1 t2 name role expires_days file =
     (let cleaned = strip name in
      if cleaned = [] \<or> max_name_length < py_len cleaned then (Inl ''bad_name'', file)
      else if role \<notin> set key_roles then (Inl ''bad_role'', file)
      else (case key_expiry expires_days t1 of
              Inl e \<Rightarrow> (Inl e, file)
            | Inr expires \<Rightarrow>
                (let token = key_prefix @ secret;
                     record = new_record kid cleaned role (key_digest token) (rat_int t2) expires;
                     keys = load_keys dk file
                 in if max_keys \<le> length keys then (Inl ''too_many'', file)
                    else (Inr (public_view seen record, token), save_keys dk (keys @ [record]) file))))"

text \<open>The first record whose id reads as the given text, and the records without it.\<close>

definition names_key :: "string \<Rightarrow> pydict \<Rightarrow> bool" where
  "names_key kid record \<longleftrightarrow> py_str (pyget record ''id'') = Inr kid"

fun remove_key :: "string \<Rightarrow> pydict list \<Rightarrow> (pydict \<times> pydict list) option" where
  "remove_key kid [] = None"
| "remove_key kid (record # records) =
     (if names_key kid record then Some (record, records)
      else map_option (\<lambda>(hit, rest). (hit, record # rest)) (remove_key kid records))"

definition revoke :: "disk \<Rightarrow> string \<Rightarrow> (string, int) dict \<Rightarrow> doc \<Rightarrow> key_view option \<times> (string, int) dict \<times> doc" where
  "revoke dk kid seen file =
     (case remove_key kid (load_keys dk file) of
        None \<Rightarrow> (None, seen, file)
      | Some (record, keys) \<Rightarrow>
          (Some (public_view (dict_del kid seen) record), dict_del kid seen, save_keys dk keys file))"

fun last_hit :: "string \<Rightarrow> pydict list \<Rightarrow> nat option" where
  \<comment> \<open>the index of the last record with the digest: the loop does not stop at a match\<close>
  "last_hit supplied [] = None"
| "last_hit supplied (record # records) =
     (case last_hit supplied records of
        Some i \<Rightarrow> Some (Suc i)
      | None \<Rightarrow> if key_digest_eq (pyget record ''digest'') supplied then Some 0 else None)"

definition key_expired :: "pydict \<Rightarrow> int \<Rightarrow> bool" where
  "key_expired record now =
     (case pyget record ''expires'' of
        PNone \<Rightarrow> False
      | PBool _ \<Rightarrow> True
      | v \<Rightarrow> (case as_epoch v None of None \<Rightarrow> True | Some e \<Rightarrow> e \<le> now))"

definition verify_key :: "disk \<Rightarrow> string \<Rightarrow> rat \<Rightarrow> (string, int) dict \<Rightarrow> doc \<Rightarrow> key_view option \<times> (string, int) dict \<times> doc" where
  "verify_key dk token t seen file =
     (if \<not> looks_like_key token then (None, seen, file)
      else
        (let supplied = key_digest token; now = rat_int t; keys = load_keys dk file
         in case last_hit supplied keys of
              None \<Rightarrow> (None, seen, file)
            | Some i \<Rightarrow>
                (let hit = keys ! i in
                 if key_expired hit now then (None, seen, file)
                 else
                   (let kid = (if truthy (pyget hit ''id'') then (case py_str (pyget hit ''id'') of Inl _ \<Rightarrow> [] | Inr s \<Rightarrow> s) else []);
                        seen' = dict_set kid now seen;
                        used = (now - epoch_or_zero (pyget hit ''last_used'') \<ge> last_used_persist_seconds);
                        hit' = (if used then dict_set ''last_used'' (PInt now) hit else hit);
                        file' = (if used then save_keys dk (keys[i := hit']) file else file)
                    in (Some (public_view seen' hit'), seen', file')))))"

end
