(* ===== verification/Request_Gate.thy ===== *)
theory Request_Gate
  imports Sessions Api_Keys
begin

text \<open>
  Who may call what (\<open>hub/auth.py\<close>, from the loopback tests to \<open>require_auth\<close>). A request is its
  method, path, headers (names in lower case), TCP peer, session cookie and Basic credentials; the
  empty text stands for a missing header or cookie. The panel's view of the world is its HMAC key,
  the \<open>settings.auth\<close> block, the local-client token file's content and the key store; \<open>clock i\<close> is
  the reading the \<open>i\<close>-th call of the clock returns during one request.
\<close>

section \<open>Requests\<close>

record request =
  rq_method :: string
  rq_path :: string
  rq_headers :: "(string, string) dict"
  rq_peer :: string
  rq_cookie :: string
  rq_basic :: "(string \<times> string) option"

definition header :: "request \<Rightarrow> string \<Rightarrow> string" where
  "header r name = (case dict_get (rq_headers r) name of None \<Rightarrow> [] | Some v \<Rightarrow> v)"

definition lstrip_char :: "char \<Rightarrow> string \<Rightarrow> string" where
  "lstrip_char c s = dropWhile (\<lambda>x. x = c) s"

definition route_path :: "request \<Rightarrow> string" where
  \<comment> \<open>\<open>request.url.path.rstrip("/") or "/"\<close>\<close>
  "route_path r = or_text (rstrip_char (CHR ''/'') (rq_path r)) ''/''"

definition path_parts :: "request \<Rightarrow> string list" where
  "path_parts r = split_on (CHR ''/'') (lstrip_char (CHR ''/'') (rstrip_char (CHR ''/'') (route_path r)))"

definition reads_only :: "request \<Rightarrow> bool" where
  "reads_only r \<longleftrightarrow> upper (rq_method r) \<in> {''GET'', ''HEAD'', ''OPTIONS''}"

section \<open>Direct loopback\<close>

definition loopback_hosts :: "string list" where
  "loopback_hosts = [''127.0.0.1'', ''::1'']"

definition loopback_host_names :: "string list" where
  "loopback_host_names = [''localhost'', ''127.0.0.1'', ''::1'', ''[::1]'']"

definition proxy_hint_headers :: "string list" where
  "proxy_hint_headers = [''x-forwarded-for'', ''x-forwarded-proto'', ''x-forwarded-host'', ''x-real-ip'',
     ''cf-connecting-ip'', ''forwarded'']"

definition is_loopback :: "request \<Rightarrow> bool" where
  "is_loopback r \<longleftrightarrow> rq_peer r \<in> set loopback_hosts"

definition request_host_name :: "request \<Rightarrow> string" where
  "request_host_name r =
     (let raw = lower (strip (header r ''host'')) in
      if raw = [] then []
      else if startswith raw ''['' then
        (if CHR '']'' \<in> set raw then takeWhile (\<lambda>c. c \<noteq> CHR '']'') raw @ '']'' else raw)
      else if length (filter (\<lambda>c. c = CHR '':'') raw) = 1 then takeWhile (\<lambda>c. c \<noteq> CHR '':'') raw
      else raw)"

definition is_direct_loopback :: "request \<Rightarrow> bool" where
  "is_direct_loopback r \<longleftrightarrow>
     is_loopback r \<and> list_all (\<lambda>name. header r name = []) proxy_hint_headers
     \<and> (let host = request_host_name r in host = [] \<or> host \<in> set loopback_host_names)"

section \<open>First-run token\<close>

definition setup_token_mode :: "pydict \<Rightarrow> string" where
  "setup_token_mode a =
     (let mode = lower (strip (cfg_text (pick (pyget a ''setup_token_mode'') (PStr ''auto''))))
      in if mode \<in> {''auto'', ''always'', ''never''} then mode else ''auto'')"

definition setup_token_required :: "pydict \<Rightarrow> request \<Rightarrow> bool" where
  "setup_token_required a r =
     (let mode = setup_token_mode a in
      if mode = ''never'' then False else if mode = ''always'' then True else \<not> is_direct_loopback r)"

section \<open>The menu-bar token\<close>

definition local_client_authenticated :: "string \<Rightarrow> request \<Rightarrow> bool" where
  "local_client_authenticated local_token r \<longleftrightarrow>
     (let supplied = header r ''x-serverhub-local-token''
      in is_direct_loopback r \<and> supplied \<noteq> [] \<and> supplied = local_token)"

definition local_routes :: "(string \<times> string) list" where
  "local_routes =
     [(''GET'', ''/api/health''), (''GET'', ''/api/status''), (''GET'', ''/api/maintenance''),
      (''GET'', ''/api/launcher''), (''POST'', ''/api/action''), (''POST'', ''/api/containers/all'')]"

definition local_client_authorized :: "request \<Rightarrow> bool" where
  "local_client_authorized r \<longleftrightarrow>
     (upper (rq_method r), route_path r) \<in> set local_routes
     \<or> (upper (rq_method r) = ''GET''
        \<and> (case path_parts r of [p, q, name, tail] \<Rightarrow> p = ''api'' \<and> q = ''maintenance'' \<and> name \<noteq> [] \<and> tail = ''log''
            | _ \<Rightarrow> False))"

section \<open>Members\<close>

definition member_routes :: "string list" where
  "member_routes = [''/api/health'', ''/api/status'', ''/api/services'']"

definition member_request_authorized :: "pydict \<Rightarrow> request \<Rightarrow> string \<Rightarrow> bool" where
  "member_request_authorized a r username \<longleftrightarrow>
     reads_only r
     \<and> (route_path r \<in> set member_routes
        \<or> (case path_parts r of
             [p, q, res, tail] \<Rightarrow> p = ''api'' \<and> q = ''services'' \<and> tail = ''detail'' \<and> may_use_resource a username res
           | _ \<Rightarrow> False))"

definition bearer_token :: "request \<Rightarrow> string" where
  "bearer_token r =
     (case partition_on (CHR '' '') (header r ''authorization'') of
        (scheme, _, value) \<Rightarrow> if lower (strip scheme) \<noteq> ''bearer'' then [] else strip value)"

definition route_has_own_admin_guard :: "request \<Rightarrow> bool" where
  "route_has_own_admin_guard r \<longleftrightarrow>
     \<not> reads_only r \<and> (startswith (route_path r) ''/api/shares/'' \<or> startswith (route_path r) ''/api/launcher/'')"

text \<open>The caller's name; \<open>api_key\<close> is the key record the gate left on the request.\<close>

definition request_username :: "bytes \<Rightarrow> pydict \<Rightarrow> string \<Rightarrow> key_view option \<Rightarrow> rat \<Rightarrow> string" where
  "request_username key a cookie api_key now =
     (let username = session_username key a cookie now in
      if username \<noteq> [] then username
      else (case api_key of
              None \<Rightarrow> []
            | Some k \<Rightarrow>
                if kv_role k = ''admin'' then []
                else ''key:'' @ or_text (or_text (kv_name k) (kv_id k)) ''unknown''))"

section \<open>The gate\<close>

datatype auth_kind = BrowserAdmin | OwnGuard | BrowserMember | KeyAdmin | KeyMember | LocalClient | BasicAdmin

record panel =
  pn_key :: bytes
  pn_auth :: pydict
  pn_local_token :: string

definition basic_admin_name :: "pydict \<Rightarrow> string" where
  "basic_admin_name a = or_text (strip (cfg_text (pick (pyget a ''username'') (PStr ''admin'')))) ''admin''"

definition local_or_basic :: "panel \<Rightarrow> request \<Rightarrow> string + auth_kind" where
  "local_or_basic p r =
     (let a = pn_auth p; local_client = local_client_authenticated (pn_local_token p) r in
      if local_client \<and> local_client_authorized r then Inr LocalClient
      else if local_client \<and> route_has_own_admin_guard r then Inr OwnGuard
      else if (case rq_basic r of
                 None \<Rightarrow> False
               | Some (user, password) \<Rightarrow>
                   verify_account_password a user password \<and> (is_admin a user \<or> user = basic_admin_name a))
           then Inr BasicAdmin
      else Inl (if local_client then ''auth.admin_required'' else ''auth.login_required''))"

definition require_auth ::
  "disk \<Rightarrow> panel \<Rightarrow> (nat \<Rightarrow> rat) \<Rightarrow> request \<Rightarrow> (string, int) dict \<times> doc
    \<Rightarrow> (string + auth_kind) \<times> (string, int) dict \<times> doc" where
  "require_auth dk p clock r keys =
     (let a = pn_auth p; seen = fst keys; file = snd keys in
      if setup_required a then (Inl ''auth.setup_required'', keys)
      else if verify_session (pn_key p) a (rq_cookie r) (clock 0) then
        (let username = request_username (pn_key p) a (rq_cookie r) None (clock 1) in
         (if is_admin a username then Inr BrowserAdmin
          else if route_has_own_admin_guard r then Inr OwnGuard
          else if member_request_authorized a r username then Inr BrowserMember
          else Inl ''auth.admin_required'', keys))
      else if looks_like_key (bearer_token r) then
        (case verify_key dk (bearer_token r) (clock 1) seen file of
           (None, keys') \<Rightarrow> (Inl ''auth.bad_api_key'', keys')
         | (Some view, keys') \<Rightarrow>
             (if kv_role view = ''admin'' then Inr KeyAdmin
              else if member_request_authorized a r (request_username (pn_key p) a (rq_cookie r) (Some view) (clock 2))
              then Inr KeyMember
              else Inl ''auth.admin_required'', keys'))
      else (local_or_basic p r, keys))"

section \<open>The routes that guard themselves\<close>

text \<open>
  Every mutating route under \<open>/api/shares/\<close> and \<open>/api/launcher/\<close> begins with a guard of its own
  (\<open>_require_admin_browser\<close> of \<open>hub/routers/shares.py\<close> and \<open>hub/routers/launcher_api.py\<close>), which reads
  the cookie again. \<open>later i\<close> is the \<open>i\<close>-th reading of the clock after the gate, \<open>api_key\<close> the key record
  the gate left on the request.
\<close>

definition guard_namespace :: "request \<Rightarrow> string" where
  "guard_namespace r = (if startswith (route_path r) ''/api/shares/'' then ''shares'' else ''launcher'')"

definition own_admin_guard :: "panel \<Rightarrow> (nat \<Rightarrow> rat) \<Rightarrow> request \<Rightarrow> key_view option \<Rightarrow> string + string" where
  "own_admin_guard p later r api_key =
     (if \<not> verify_session (pn_key p) (pn_auth p) (rq_cookie r) (later 0)
      then Inl (guard_namespace r @ ''.browser_session_required'')
      else let username = request_username (pn_key p) (pn_auth p) (rq_cookie r) api_key (later 1) in
        if \<not> is_admin (pn_auth p) username then Inl (guard_namespace r @ ''.admin_required'') else Inr username)"

text \<open>The request reaches the body of its route: the gate, and then the route's own guard where it has one.\<close>

definition route_entered ::
  "disk \<Rightarrow> panel \<Rightarrow> (nat \<Rightarrow> rat) \<Rightarrow> (nat \<Rightarrow> rat) \<Rightarrow> request \<Rightarrow> key_view option \<Rightarrow> (string, int) dict \<times> doc \<Rightarrow> bool" where
  "route_entered dk p clock later r api_key keys \<longleftrightarrow>
     (case fst (require_auth dk p clock r keys) of
        Inl _ \<Rightarrow> False
      | Inr _ \<Rightarrow> \<not> route_has_own_admin_guard r
          \<or> (case own_admin_guard p later r api_key of Inl _ \<Rightarrow> False | Inr _ \<Rightarrow> True))"

end
