(* ===== verification/Login_Limiter.thy ===== *)
theory Login_Limiter
  imports Py_Value
begin

text \<open>
  The sign-in rate limit (\<open>hub/auth.py\<close>): five attempts per client in any 300 seconds. Each
  operation holds the lock, so a history is a sequence of operations with the clock reading each
  one took. Readings are rationals: two readings of one era subtract exactly as floats.
  \<open>limit_spec\<close> is the limiter without its table: one list of attempts per client, nothing swept.
\<close>

section \<open>The table\<close>

type_synonym attempts = "(string, rat list) dict"

definition login_window :: rat where "login_window = 300"
definition login_sweep_at :: nat where "login_sweep_at = 512"
definition login_cap :: nat where "login_cap = 5"

definition bucket :: "attempts \<Rightarrow> string \<Rightarrow> rat list" where
  "bucket d client = (case dict_get d client of None \<Rightarrow> [] | Some ts \<Rightarrow> ts)"

definition fresh :: "rat \<Rightarrow> rat \<Rightarrow> bool" where
  "fresh now t \<longleftrightarrow> now - t < login_window"

definition sweep_login_attempts :: "rat \<Rightarrow> attempts \<Rightarrow> attempts" where
  "sweep_login_attempts now d =
     (if length d \<le> login_sweep_at then d
      else filter (\<lambda>p. \<not> (snd p = [] \<or> login_window \<le> now - last (snd p))) d)"

definition login_allowed :: "string \<Rightarrow> bool \<Rightarrow> rat \<Rightarrow> attempts \<Rightarrow> (bool \<times> int) \<times> attempts" where
  "login_allowed client consume now d =
     (let d = sweep_login_attempts now d;
          attempts = filter (fresh now) (bucket d client);
          d = (if attempts \<noteq> [] then dict_set client attempts d else dict_del client d)
      in if login_cap \<le> length attempts
         then ((False, max 1 (rat_int (login_window - (now - hd attempts)))), d)
         else ((True, 0), if consume then dict_set client (bucket d client @ [now]) d else d))"

definition release_login_reservation :: "string \<Rightarrow> attempts \<Rightarrow> attempts" where
  "release_login_reservation client d =
     (if bucket d client = [] then d
      else (let left = butlast (bucket d client)
            in if left = [] then dict_del client d else dict_set client left d))"

definition record_login_failure :: "string \<Rightarrow> rat \<Rightarrow> attempts \<Rightarrow> attempts" where
  "record_login_failure client now d = dict_set client (bucket d client @ [now]) d"

definition clear_login_failures :: "string \<Rightarrow> attempts \<Rightarrow> attempts" where
  "clear_login_failures client d = dict_del client d"

section \<open>Histories\<close>

datatype limit_op = Try string bool | Release string | Fail string | Clear string

fun op_client :: "limit_op \<Rightarrow> string" where
  "op_client (Try c _) = c"
| "op_client (Release c) = c"
| "op_client (Fail c) = c"
| "op_client (Clear c) = c"

fun limit_step :: "rat \<Rightarrow> limit_op \<Rightarrow> attempts \<Rightarrow> (bool \<times> int) \<times> attempts" where
  "limit_step now (Try c consume) d = login_allowed c consume now d"
| "limit_step now (Release c) d = ((True, 0), release_login_reservation c d)"
| "limit_step now (Fail c) d = ((True, 0), record_login_failure c now d)"
| "limit_step now (Clear c) d = ((True, 0), clear_login_failures c d)"

text \<open>The answers of a history and the table it leaves.\<close>

fun limit_run :: "(rat \<times> limit_op) list \<Rightarrow> attempts \<Rightarrow> (bool \<times> int) list \<times> attempts" where
  "limit_run [] d = ([], d)"
| "limit_run ((now, op) # ops) d =
     (let (ans, d') = limit_step now op d; (rest, d'') = limit_run ops d' in (ans # rest, d''))"

section \<open>The limiter without a table\<close>

type_synonym logbook = "string \<Rightarrow> rat list"

fun limit_spec :: "rat \<Rightarrow> limit_op \<Rightarrow> logbook \<Rightarrow> (bool \<times> int) \<times> logbook" where
  "limit_spec now (Try c consume) f =
     (let live = filter (fresh now) (f c) in
      if login_cap \<le> length live then ((False, max 1 (rat_int (login_window - (now - hd live)))), f)
      else ((True, 0), if consume then f(c := f c @ [now]) else f))"
| "limit_spec now (Release c) f = ((True, 0), f(c := butlast (f c)))"
| "limit_spec now (Fail c) f = ((True, 0), f(c := f c @ [now]))"
| "limit_spec now (Clear c) f = ((True, 0), f(c := []))"

fun spec_run :: "(rat \<times> limit_op) list \<Rightarrow> logbook \<Rightarrow> (bool \<times> int) list \<times> logbook" where
  "spec_run [] f = ([], f)"
| "spec_run ((now, op) # ops) f =
     (let (ans, f') = limit_spec now op f; (rest, f'') = spec_run ops f' in (ans # rest, f''))"

section \<open>The table keeps what is fresh\<close>

definition ordered :: "rat \<Rightarrow> rat list \<Rightarrow> bool" where
  "ordered now ts \<longleftrightarrow> sorted ts \<and> (\<forall>t \<in> set ts. t \<le> now)"

text \<open>A table and a logbook agree at a reading: same fresh attempts, in order of time.\<close>

definition agrees :: "rat \<Rightarrow> attempts \<Rightarrow> logbook \<Rightarrow> bool" where
  "agrees now d f \<longleftrightarrow> dict_ok d \<and>
     (\<forall>c. filter (fresh now) (bucket d c) = filter (fresh now) (f c) \<and> ordered now (bucket d c) \<and> ordered now (f c))"

lemma bucket_simps [simp]:
  "bucket (dict_set c ts d) c' = (if c' = c then ts else bucket d c')"
  "bucket (dict_del c d) c' = (if c' = c then [] else bucket d c')"
  "bucket [] c' = []"
  by (simp_all add: bucket_def dict_simps)

lemma fresh_mono: "now \<le> later \<Longrightarrow> fresh later t \<Longrightarrow> fresh now t"
  by (simp add: fresh_def)

lemma filter_fresh_later: "now \<le> later \<Longrightarrow> filter (fresh later) (filter (fresh now) ts) = filter (fresh later) ts"
  using fresh_mono by (auto simp: filter_filter intro!: filter_cong)

lemma fresh_agree_later:
  "now \<le> later \<Longrightarrow> filter (fresh now) xs = filter (fresh now) ys \<Longrightarrow> filter (fresh later) xs = filter (fresh later) ys"
  using filter_fresh_later by metis

lemma ordered_later: "ordered now ts \<Longrightarrow> now \<le> later \<Longrightarrow> ordered later ts"
  by (auto simp: ordered_def)

lemma ordered_filter: "ordered now ts \<Longrightarrow> ordered now (filter P ts)"
  by (simp add: ordered_def sorted_wrt_filter)

lemma ordered_snoc: "ordered now ts \<Longrightarrow> ordered now (ts @ [now])"
  by (simp add: ordered_def sorted_append)

lemma ordered_butlast: "ordered now ts \<Longrightarrow> ordered now (butlast ts)"
  by (cases ts rule: rev_cases) (simp_all add: ordered_def sorted_append)

lemma ordered_Nil [simp]: "ordered now []"
  by (simp add: ordered_def)

lemma ordered_stale: "ordered prev ts \<Longrightarrow> ts \<noteq> [] \<Longrightarrow> \<not> fresh now (last ts) \<Longrightarrow> filter (fresh now) ts = []"
  by (cases ts rule: rev_cases) (fastforce simp: ordered_def sorted_append fresh_def filter_empty_conv)+

text \<open>The fresh attempts of an ordered list are its tail, so dropping the last attempt drops a fresh one first.\<close>

lemma fresh_butlast:
  assumes "ordered prev ts"
  shows "filter (fresh now) (butlast ts) = butlast (filter (fresh now) ts)"
proof (cases ts rule: rev_cases)
  case (snoc xs x)
  show ?thesis
  proof (cases "fresh now x")
    case False
    then have "filter (fresh now) ts = []" using ordered_stale[OF assms, of now] snoc by simp
    then show ?thesis using snoc by simp
  qed (simp add: snoc)
qed simp

lemma dict_get_filter:
  assumes "dict_ok d"
  shows "dict_get (filter P d) k = (case dict_get d k of None \<Rightarrow> None | Some v \<Rightarrow> if P (k, v) then Some v else None)"
  using assms
proof (induction d)
  case (Cons p d)
  have "dict_get d (fst p) = None" using Cons.prems by (auto simp: dict_ok_def dict_get_def map_of_eq_None_iff)
  then show ?case using Cons by (cases p) (auto simp: dict_ok_def dict_get_def split: option.split)
qed (simp add: dict_get_def)

lemma dict_ok_filter: "dict_ok d \<Longrightarrow> dict_ok (filter P d)"
  by (simp add: dict_ok_def distinct_map_filter)

lemma sweep_bucket:
  assumes "dict_ok d" "ordered prev (bucket d c)"
  shows "filter (fresh now) (bucket (sweep_login_attempts now d) c) = filter (fresh now) (bucket d c)"
    "bucket (sweep_login_attempts now d) c \<in> {[], bucket d c}"
    "dict_ok (sweep_login_attempts now d)"
proof -
  have b: "bucket (sweep_login_attempts now d) c
      = (if login_sweep_at < length d \<and> bucket d c \<noteq> [] \<and> \<not> fresh now (last (bucket d c)) then [] else bucket d c)"
    using dict_get_filter[OF assms(1)]
    by (auto simp: sweep_login_attempts_def bucket_def fresh_def split: option.split)
  then show "filter (fresh now) (bucket (sweep_login_attempts now d) c) = filter (fresh now) (bucket d c)"
    using ordered_stale[OF assms(2), of now] by auto
  show "bucket (sweep_login_attempts now d) c \<in> {[], bucket d c}" using b by simp
  show "dict_ok (sweep_login_attempts now d)" using assms(1) by (simp add: sweep_login_attempts_def dict_ok_filter)
qed

lemma agrees_later: "agrees now d f \<Longrightarrow> now \<le> later \<Longrightarrow> agrees later d f"
  unfolding agrees_def using fresh_agree_later ordered_later by blast

text \<open>What \<open>login_allowed\<close> answers and leaves, over the swept table.\<close>

lemma login_allowed_shape:
  fixes client :: string
  assumes "dict_ok d" "\<And>c. ordered now (bucket d c)"
  defines "live \<equiv> filter (fresh now) (bucket d client)"
  obtains d' where "login_allowed client consume now d =
      (if login_cap \<le> length live then ((False, max 1 (rat_int (login_window - (now - hd live)))), d') else ((True, 0), d'))"
    "dict_ok d'"
    "bucket d' client = (if \<not> login_cap \<le> length live \<and> consume then live @ [now] else live)"
    "\<And>c. c \<noteq> client \<Longrightarrow> filter (fresh now) (bucket d' c) = filter (fresh now) (bucket d c) \<and> ordered now (bucket d' c)"
proof -
  let ?s = "sweep_login_attempts now d"
  let ?p = "if live \<noteq> [] then dict_set client live ?s else dict_del client ?s"
  let ?d = "if \<not> login_cap \<le> length live \<and> consume then dict_set client (bucket ?p client @ [now]) ?p else ?p"
  note sw = sweep_bucket[OF assms(1) assms(2), of now]
  have p: "bucket ?p c = (if c = client then live else bucket ?s c)" for c by simp
  show thesis
  proof (rule that[of ?d])
    show "login_allowed client consume now d =
      (if login_cap \<le> length live then ((False, max 1 (rat_int (login_window - (now - hd live)))), ?d) else ((True, 0), ?d))"
      using sw(1)[of client] by (simp add: login_allowed_def live_def Let_def)
    show "dict_ok ?d" using sw(3) by (simp add: dict_ok_set dict_ok_del)
    show "bucket ?d client = (if \<not> login_cap \<le> length live \<and> consume then live @ [now] else live)"
      using p[of client] by auto
    fix c assume "c \<noteq> client"
    then have "bucket ?d c = bucket ?s c" by simp
    moreover have "ordered now (bucket ?s c)" using sw(2)[of c] assms(2)[of c] by auto
    ultimately show "filter (fresh now) (bucket ?d c) = filter (fresh now) (bucket d c) \<and> ordered now (bucket ?d c)"
      using sw(1)[of c] by simp
  qed
qed

lemma release_bucket:
  assumes "dict_ok d"
  shows "bucket (release_login_reservation c d) c' = (if c' = c then butlast (bucket d c) else bucket d c')"
    "dict_ok (release_login_reservation c d)"
  using assms by (auto simp: release_login_reservation_def Let_def intro: dict_ok_set dict_ok_del)

lemma limit_step_agrees:
  assumes "agrees now d f"
  shows "fst (limit_step now op d) = fst (limit_spec now op f) \<and> agrees now (snd (limit_step now op d)) (snd (limit_spec now op f))"
proof -
  have a: "dict_ok d" "\<And>c. filter (fresh now) (bucket d c) = filter (fresh now) (f c)"
    "\<And>c. ordered now (bucket d c)" "\<And>c. ordered now (f c)"
    using assms by (auto simp: agrees_def)
  note keep = ordered_snoc ordered_butlast fresh_butlast[OF a(3)] fresh_butlast[OF a(4)] dict_ok_set dict_ok_del
  show ?thesis
  proof (cases op)
    case (Try c consume)
    obtain d' where d': "login_allowed c consume now d =
        (if login_cap \<le> length (filter (fresh now) (bucket d c))
         then ((False, max 1 (rat_int (login_window - (now - hd (filter (fresh now) (bucket d c)))))), d') else ((True, 0), d'))"
      "dict_ok d'"
      "bucket d' c = (if \<not> login_cap \<le> length (filter (fresh now) (bucket d c)) \<and> consume
         then filter (fresh now) (bucket d c) @ [now] else filter (fresh now) (bucket d c))"
      "\<And>c'. c' \<noteq> c \<Longrightarrow> filter (fresh now) (bucket d' c') = filter (fresh now) (bucket d c') \<and> ordered now (bucket d' c')"
      using login_allowed_shape[OF a(1,3)] by metis
    have o: "ordered now (bucket d' c)" using d'(3) a(3) by (simp add: ordered_filter ordered_snoc)
    have f: "fresh now now" by (simp add: fresh_def login_window_def)
    let ?f = "snd (limit_spec now (Try c consume) f)"
    have "filter (fresh now) (bucket d' c') = filter (fresh now) (?f c') \<and> ordered now (bucket d' c') \<and> ordered now (?f c')" for c'
    proof (cases "c' = c")
      case True
      then show ?thesis using d'(3) o a(2)[of c] a(4)[of c] f by (simp add: Let_def ordered_snoc)
    next
      case False
      then show ?thesis using d'(4)[OF False] a(2)[of c'] a(4)[of c'] by (simp add: Let_def)
    qed
    then have "agrees now d' ?f" using d'(2) by (simp add: agrees_def)
    moreover have "fst (login_allowed c consume now d) = fst (limit_spec now (Try c consume) f)"
      "snd (login_allowed c consume now d) = d'"
      unfolding d'(1) using a(2)[of c] by (simp_all add: Let_def)
    ultimately show ?thesis by (simp add: Try del: limit_spec.simps)
  next
    case (Release c)
    have "filter (fresh now) (butlast (bucket d c)) = filter (fresh now) (butlast (f c))"
      unfolding fresh_butlast[OF a(3)] fresh_butlast[OF a(4)] a(2) ..
    then show ?thesis
      using a release_bucket[OF a(1), of c] Release by (auto simp: agrees_def ordered_butlast)
  next
    case (Fail c)
    then show ?thesis using a keep by (auto simp: agrees_def record_login_failure_def)
  next
    case (Clear c)
    then show ?thesis using a keep by (auto simp: agrees_def clear_login_failures_def)
  qed
qed

lemma limit_run_agrees:
  assumes "agrees start d f" "sorted (map fst ops)" "\<And>x. x \<in> set ops \<Longrightarrow> start \<le> fst x"
  shows "fst (limit_run ops d) = fst (spec_run ops f)
    \<and> agrees (last (start # map fst ops)) (snd (limit_run ops d)) (snd (spec_run ops f))"
  using assms
proof (induction ops arbitrary: start d f)
  case (Cons x ops)
  obtain now op where x: "x = (now, op)" by fastforce
  have "start \<le> now" using Cons.prems(3)[of x] x by simp
  then have "agrees now d f" using agrees_later[OF Cons.prems(1)] by simp
  note st = limit_step_agrees[OF this, of op]
  have "fst (limit_run ops (snd (limit_step now op d))) = fst (spec_run ops (snd (limit_spec now op f)))
    \<and> agrees (last (now # map fst ops)) (snd (limit_run ops (snd (limit_step now op d)))) (snd (spec_run ops (snd (limit_spec now op f))))"
    using Cons.prems(2) x by (intro Cons.IH[OF conjunct2[OF st]]) auto
  then show ?case using st x by (auto simp: case_prod_beta Let_def)
qed simp

lemma agrees_start: "agrees now [] (\<lambda>_. [])"
  by (simp add: agrees_def dict_ok_def)

lemma run_spec_answers: "sorted (map fst ops) \<Longrightarrow> fst (limit_run ops []) = fst (spec_run ops (\<lambda>_. []))"
  using limit_run_agrees[OF agrees_start[of "fst (hd ops)"], of ops] by (cases ops) auto

text \<open>
  C23: the attempt table is only a cache. Over any history with a clock that does not run
  backwards, the answers of the limiter, which prunes one bucket per question and sweeps the whole
  table once it has grown, are those of the limiter that keeps every client's attempts for ever.
\<close>

theorem limiter_refines_spec:
  "sorted (map fst ops) \<Longrightarrow> fst (limit_run ops []) = fst (spec_run ops (\<lambda>_. []))"
  by (rule run_spec_answers)

section \<open>Five in any window\<close>

text \<open>The readings at which a client was let through with its slot reserved.\<close>

definition admissions :: "string \<Rightarrow> (rat \<times> limit_op) list \<Rightarrow> (bool \<times> int) list \<Rightarrow> rat list" where
  "admissions c ops answers =
     map (\<lambda>p. fst (fst p)) (filter (\<lambda>p. snd (fst p) = Try c True \<and> fst (snd p)) (zip ops answers))"

definition in_window :: "rat \<Rightarrow> rat \<Rightarrow> bool" where
  "in_window t s \<longleftrightarrow> t \<le> s \<and> s < t + login_window"

text \<open>How often an operation is called in the window.\<close>

definition calls_in :: "rat \<Rightarrow> limit_op \<Rightarrow> (rat \<times> limit_op) list \<Rightarrow> nat" where
  "calls_in t op ops = length (filter (\<lambda>x. in_window t (fst x) \<and> snd x = op) ops)"

lemma admissions_run:
  "admissions c ((now, op) # ops) (fst (spec_run ((now, op) # ops) f))
    = (if op = Try c True \<and> fst (fst (limit_spec now op f)) then [now] else [])
      @ admissions c ops (fst (spec_run ops (snd (limit_spec now op f))))"
  by (simp add: admissions_def case_prod_beta Let_def)

lemma calls_in_Cons:
  "calls_in t op ((now, op') # ops) = (if in_window t now \<and> op' = op then 1 else 0) + calls_in t op ops"
  by (simp add: calls_in_def)

text \<open>What an operation leaves of a client's attempts in the window it falls into.\<close>

lemma spec_step_window:
  assumes "in_window t now"
  shows "op = Try c True \<and> fst (fst (limit_spec now op f)) \<Longrightarrow> length (filter (in_window t) (f c)) < login_cap
      \<and> length (filter (in_window t) (snd (limit_spec now op f) c)) = Suc (length (filter (in_window t) (f c)))"
    and "op \<noteq> Clear c \<Longrightarrow> length (filter (in_window t) (f c))
      \<le> length (filter (in_window t) (snd (limit_spec now op f) c)) + (if op = Release c then 1 else 0)"
proof -
  assume a: "op = Try c True \<and> fst (fst (limit_spec now op f))"
  then have live: "length (filter (fresh now) (f c)) < login_cap" and f: "snd (limit_spec now op f) = f(c := f c @ [now])"
    by (auto simp: Let_def split: if_splits)
  have "filter (in_window t) (f c) = filter (in_window t) (filter (fresh now) (f c))"
    using assms by (auto simp: filter_filter in_window_def fresh_def intro!: filter_cong)
  then have "length (filter (in_window t) (f c)) < login_cap"
    using length_filter_le[of "in_window t" "filter (fresh now) (f c)"] live by simp
  then show "length (filter (in_window t) (f c)) < login_cap
      \<and> length (filter (in_window t) (snd (limit_spec now op f) c)) = Suc (length (filter (in_window t) (f c)))"
    using assms f by simp
next
  assume "op \<noteq> Clear c"
  moreover have "length (filter P ts) \<le> Suc (length (filter P (butlast ts)))" for P and ts :: "rat list"
    by (induction ts) auto
  ultimately show "length (filter (in_window t) (f c))
      \<le> length (filter (in_window t) (snd (limit_spec now op f) c)) + (if op = Release c then 1 else 0)"
    by (cases op) (auto simp: Let_def)
qed

lemma spec_window:
  assumes "sorted (map fst ops)" "\<And>x. x \<in> set ops \<Longrightarrow> start \<le> fst x"
    and "start < t + login_window \<Longrightarrow> n \<le> k + (if t \<le> start then length (filter (in_window t) (f c)) else 0)"
    and "n \<le> login_cap + k"
  shows "n + length (filter (in_window t) (admissions c ops (fst (spec_run ops f))))
    \<le> login_cap + k + login_cap * calls_in t (Clear c) ops + calls_in t (Release c) ops"
  using assms
proof (induction ops arbitrary: start f n k)
  case (Cons x ops)
  obtain now op where x: "x = (now, op)" by fastforce
  have now: "start \<le> now" "\<And>y. y \<in> set ops \<Longrightarrow> now \<le> fst y" "sorted (map fst ops)"
    using Cons.prems(1) Cons.prems(2)[of x] x by auto
  let ?f = "snd (limit_spec now op f)"
  let ?in = "\<lambda>f. length (filter (in_window t) (f c))"
  define let_in where "let_in = (if op = Try c True \<and> fst (fst (limit_spec now op f)) then 1 else 0 :: nat)"
  show ?case
  proof (cases "in_window t now")
    case False
    then have "now < t + login_window \<Longrightarrow> now < t" by (auto simp: in_window_def)
    then have "n \<le> k + (if t \<le> now then ?in ?f else 0)" if "now < t + login_window"
      using Cons.prems(3) that now(1) by auto
    from Cons.IH[where start = now and f = ?f, OF now(3,2) this Cons.prems(4)] show ?thesis
      using False by (simp add: x admissions_run calls_in_Cons del: limit_spec.simps spec_run.simps)
  next
    case True
    then have w: "t \<le> now" "now < t + login_window" by (simp_all add: in_window_def)
    let ?k = "k + (if op = Clear c then login_cap else 0) + (if op = Release c then 1 else 0)"
    have old: "n \<le> k + ?in f" using Cons.prems(3) now(1) w by (auto split: if_splits)
    have step: "n + let_in \<le> ?k + ?in ?f \<and> n + let_in \<le> login_cap + ?k"
    proof (cases "let_in = 1")
      case True
      then have "op = Try c True \<and> fst (fst (limit_spec now op f))" by (simp add: let_in_def del: limit_spec.simps split: if_splits)
      from spec_step_window(1)[OF \<open>in_window t now\<close> this] show ?thesis using old True by linarith
    next
      case no: False
      then have z: "let_in = 0" by (simp add: let_in_def del: limit_spec.simps split: if_splits)
      show ?thesis
      proof (cases "op = Clear c")
        case True
        then show ?thesis using z Cons.prems(4) by simp
      next
        case False
        from spec_step_window(2)[OF \<open>in_window t now\<close> this, of f] show ?thesis using z old Cons.prems(4) False by auto
      qed
    qed
    have first: "n + let_in \<le> ?k + (if t \<le> now then ?in ?f else 0)" using step w(1) by simp
    from Cons.IH[where start = now and f = ?f, OF now(3,2) first conjunct2[OF step]]
    have "n + let_in + length (filter (in_window t) (admissions c ops (fst (spec_run ops ?f))))
      \<le> login_cap + ?k + login_cap * calls_in t (Clear c) ops + calls_in t (Release c) ops" .
    moreover have "length (filter (in_window t) (admissions c (x # ops) (fst (spec_run (x # ops) f))))
      = let_in + length (filter (in_window t) (admissions c ops (fst (spec_run ops ?f))))"
      using True by (auto simp: x admissions_run let_in_def simp del: limit_spec.simps spec_run.simps)
    ultimately show ?thesis using True by (simp add: x calls_in_Cons algebra_simps split: if_splits)
  qed
qed (simp add: admissions_def calls_in_def)

text \<open>
  C5: the cap. While the clock does not run backwards, whatever everybody else does and however often
  the table is swept, at most five attempts of a client are let through with a reserved slot in any
  window of 300 seconds, wherever the window starts; within the window, each completed sign-in of the
  client, which clears its bucket, allows five more, and each slot given back allows one more.
\<close>

theorem at_most_five_in_window:
  assumes "sorted (map fst ops)"
  shows "length (filter (in_window t) (admissions c ops (fst (limit_run ops []))))
    \<le> 5 * (1 + calls_in t (Clear c) ops) + calls_in t (Release c) ops"
proof -
  have "\<exists>start. \<forall>x \<in> set ops. start \<le> fst x" using assms(1) by (cases ops) auto
  then obtain start where "\<And>x. x \<in> set ops \<Longrightarrow> start \<le> fst x" by blast
  from spec_window[OF assms(1) this, where n = 0 and k = 0 and f = "\<lambda>_. []" and t = t and c = c]
  show ?thesis by (simp add: run_spec_answers[OF assms(1)] login_cap_def)
qed

section \<open>Waiting out a refusal\<close>

lemma spec_run_append:
  "fst (spec_run (xs @ ys) f) = fst (spec_run xs f) @ fst (spec_run ys (snd (spec_run xs f)))"
  "snd (spec_run (xs @ ys) f) = snd (spec_run ys (snd (spec_run xs f)))"
  by (induction xs arbitrary: f) (auto simp: case_prod_beta Let_def)

lemma length_spec_run [simp]: "length (fst (spec_run ops f)) = length ops"
  by (induction ops arbitrary: f) (auto simp: case_prod_beta Let_def)

lemma spec_run_frame: "(\<And>x. x \<in> set ops \<Longrightarrow> op_client (snd x) \<noteq> c) \<Longrightarrow> snd (spec_run ops f) c = f c"
proof (induction ops arbitrary: f)
  case (Cons x ops)
  obtain now op where x: "x = (now, op)" by fastforce
  have "snd (limit_spec now op f) c = f c" using Cons.prems[of x] x by (cases op) (auto simp: Let_def)
  then show ?case using Cons x by (simp add: case_prod_beta Let_def)
qed simp

lemma spec_step_capped:
  assumes "\<And>t. now \<le> t \<Longrightarrow> length (filter (fresh t) (f c)) \<le> login_cap" "op \<noteq> Fail c" "ordered now (f c)" "now \<le> t"
  shows "length (filter (fresh t) (snd (limit_spec now op f) c)) \<le> login_cap"
proof (cases op)
  case (Try c' consume)
  have "length (filter (fresh t) (f c)) \<le> length (filter (fresh now) (f c))"
    using filter_fresh_later[OF assms(4), of "f c"] length_filter_le[of "fresh t" "filter (fresh now) (f c)"] by simp
  then show ?thesis using assms(1)[OF assms(4)] Try by (auto simp: Let_def)
next
  case (Release c')
  then show ?thesis using assms(1)[OF assms(4)] fresh_butlast[OF assms(3), of t] by auto
qed (use assms in \<open>auto simp: login_cap_def\<close>)

lemma spec_run_capped:
  assumes "agrees start d f" "sorted (map fst ops)" "\<And>x. x \<in> set ops \<Longrightarrow> start \<le> fst x \<and> snd x \<noteq> Fail c"
    and "\<And>t. start \<le> t \<Longrightarrow> length (filter (fresh t) (f c)) \<le> login_cap" "last (start # map fst ops) \<le> t"
  shows "length (filter (fresh t) (snd (spec_run ops f) c)) \<le> login_cap"
  using assms
proof (induction ops arbitrary: start d f)
  case (Cons x ops)
  obtain now op where x: "x = (now, op)" by fastforce
  have now: "start \<le> now" "op \<noteq> Fail c" using Cons.prems(3)[of x] x by auto
  have a: "agrees now d f" by (rule agrees_later[OF Cons.prems(1) now(1)])
  have o: "ordered now (f c)" using a by (simp add: agrees_def)
  have cap: "length (filter (fresh t) (f c)) \<le> login_cap" if "now \<le> t" for t
    using Cons.prems(4)[of t] that now(1) by simp
  have step: "length (filter (fresh t) (snd (limit_spec now op f) c)) \<le> login_cap" if "now \<le> t" for t
    using spec_step_capped[of now f c op t] cap now(2) o that by blast
  have "length (filter (fresh t) (snd (spec_run ops (snd (limit_spec now op f))) c)) \<le> login_cap"
    using Cons.prems(2,3,5) x
    by (intro Cons.IH[OF conjunct2[OF limit_step_agrees[OF a, of op]] _ _ step]) auto
  then show ?case by (simp add: x case_prod_beta Let_def)
qed simp

text \<open>
  A refusal ends. When a client is refused with a hint of \<open>n\<close> seconds and makes no further
  attempt, a try \<open>n + 1\<close> seconds later, or any time after, is let through, whatever other clients
  do in between. (The hint is rounded down, so \<open>n\<close> seconds alone may be too early.)
\<close>

lemma refused_then_admitted:
  assumes "sorted (map fst (before @ (now, Try c k) # between @ [(later, Try c k')]))"
    and "\<And>x. x \<in> set before \<Longrightarrow> snd x \<noteq> Fail c" "\<And>x. x \<in> set between \<Longrightarrow> op_client (snd x) \<noteq> c"
    and "fst (limit_run (before @ (now, Try c k) # between @ [(later, Try c k')]) []) ! length before = (False, n)"
    and "now + of_int n + 1 \<le> later"
  shows "fst (last (fst (limit_run (before @ (now, Try c k) # between @ [(later, Try c k')]) [])))"
proof -
  let ?ops = "before @ (now, Try c k) # between @ [(later, Try c k')]"
  let ?f = "snd (spec_run before (\<lambda>_. []))" and ?live = "filter (fresh now) (snd (spec_run before (\<lambda>_. [])) c)"
  have run: "fst (limit_run ?ops []) = fst (spec_run ?ops (\<lambda>_. []))" by (rule run_spec_answers[OF assms(1)])
  have "\<exists>start. \<forall>x \<in> set ?ops. start \<le> fst x" using assms(1) by (cases before) auto
  then obtain start where start: "\<And>x. x \<in> set ?ops \<Longrightarrow> start \<le> fst x" by blast
  have "start \<le> now" using start[of "(now, Try c k)"] by simp
  then have b: "sorted (map fst before)" "\<And>x. x \<in> set before \<Longrightarrow> start \<le> fst x \<and> snd x \<noteq> Fail c"
    and l: "last (start # map fst before) \<le> now"
    using assms(1,2) start by (auto simp: sorted_append last_map)
  have "agrees now (snd (limit_run before [])) ?f"
    using limit_run_agrees[OF agrees_start[of start] b(1)] b(2) agrees_later[OF _ l] by blast
  then have o: "ordered now (?f c)" by (simp add: agrees_def)
  have "length ?live \<le> login_cap"
    by (rule spec_run_capped[OF agrees_start[of start] b(1,2) _ l]) (simp_all add: login_cap_def)
  moreover have "fst (limit_spec now (Try c k) ?f) = (False, n)"
    using assms(4) unfolding run spec_run_append by (simp add: nth_append case_prod_beta Let_def)
  then have ref: "login_cap \<le> length ?live" "n = max 1 (rat_int (login_window - (now - hd ?live)))"
    "snd (limit_spec now (Try c k) ?f) = ?f"
    by (auto simp: Let_def split: if_splits)
  ultimately obtain t ts where t: "?live = t # ts" "length ts < login_cap" by (cases ?live) (auto simp: login_cap_def)
  have fr: "fresh now t" using t(1) by (metis filter_eq_ConsD)
  have "login_window - (now - t) - 1 \<le> of_int n"
    using ref(2) fr t(1) by (auto simp: rat_int_def fresh_def) linarith+
  then have "\<not> fresh later t" using assms(5) by (simp add: fresh_def)
  moreover have "now \<le> later" using assms(1) by (simp add: sorted_append)
  ultimately have "filter (fresh later) (?f c) = filter (fresh later) ts"
    using filter_fresh_later[of now later "?f c"] t(1) by simp
  then have few: "length (filter (fresh later) (?f c)) < login_cap"
    using le_less_trans[OF length_filter_le t(2)] by simp
  have "snd (spec_run between ?f) c = ?f c" by (rule spec_run_frame[OF assms(3)])
  then have "fst (fst (limit_spec later (Try c k') (snd (spec_run between ?f))))" using few by (simp add: Let_def)
  moreover have "last (fst (spec_run ?ops (\<lambda>_. []))) = fst (limit_spec later (Try c k') (snd (spec_run between ?f)))"
    by (simp add: spec_run_append case_prod_beta Let_def ref(3) del: limit_spec.simps)
  ultimately show ?thesis unfolding run by simp
qed

section \<open>The table stays small\<close>

definition table_ok :: "attempts \<Rightarrow> bool" where
  "table_ok d \<longleftrightarrow> dict_ok d \<and> (\<forall>p \<in> set d. snd p \<noteq> [] \<and> length (snd p) \<le> login_cap)"

lemma table_ok_bucket: "table_ok d \<Longrightarrow> length (bucket d c) \<le> login_cap"
  using dict_get_in[of d c] by (fastforce simp: table_ok_def bucket_def split: option.split)

lemma table_ok_set: "table_ok d \<Longrightarrow> ts \<noteq> [] \<Longrightarrow> length ts \<le> login_cap \<Longrightarrow> table_ok (dict_set c ts d)"
  by (auto simp: table_ok_def dict_ok_set dest!: in_dict_set)

lemma table_ok_del: "table_ok d \<Longrightarrow> table_ok (dict_del c d)"
  by (auto simp: table_ok_def dict_ok_del) (auto simp: dict_del_def)

lemma table_ok_sweep: "table_ok d \<Longrightarrow> table_ok (sweep_login_attempts now d)"
  by (auto simp: table_ok_def sweep_login_attempts_def dict_ok_filter)

lemma login_allowed_table:
  assumes "table_ok d"
  shows "table_ok (snd (login_allowed c consume now d))"
proof -
  let ?s = "sweep_login_attempts now d"
  let ?live = "filter (fresh now) (bucket ?s c)"
  have s: "table_ok ?s" by (rule table_ok_sweep[OF assms])
  have live: "length ?live \<le> login_cap" using le_trans[OF length_filter_le table_ok_bucket[OF s]] .
  have "table_ok (if ?live \<noteq> [] then dict_set c ?live ?s else dict_del c ?s)"
    using table_ok_set[OF s _ live] table_ok_del[OF s] by simp
  then show ?thesis by (auto simp: login_allowed_def Let_def intro: table_ok_set)
qed

lemma limit_step_table: "table_ok d \<Longrightarrow> (\<And>c. op \<noteq> Fail c) \<Longrightarrow> table_ok (snd (limit_step now op d))"
  using table_ok_bucket[of d "op_client op"]
  by (cases op) (auto simp: login_allowed_table release_login_reservation_def clear_login_failures_def Let_def
      intro: table_ok_set table_ok_del)

lemma length_dict_set: "length (dict_set k v d) \<le> Suc (length d)"
  by (induction d) (auto simp: dict_set_def)

lemma length_dict_set_in: "dict_get d k \<noteq> None \<Longrightarrow> length (dict_set k v d) = length d"
  by (induction d) (auto simp: dict_set_def dict_get_def)

lemma length_dict_del: "length (dict_del k d) \<le> length d"
  by (simp add: dict_del_def)

lemma swept_small:
  "let d = snd (login_allowed c consume now d0) in length d \<le> 513 \<or> (\<forall>p \<in> set d. fresh now (last (snd p)))"
proof -
  let ?s = "sweep_login_attempts now d0"
  let ?live = "filter (fresh now) (bucket ?s c)"
  let ?p = "if ?live \<noteq> [] then dict_set c ?live ?s else dict_del c ?s"
  let ?d = "if \<not> login_cap \<le> length ?live \<and> consume then dict_set c (bucket ?p c @ [now]) ?p else ?p"
  have d: "snd (login_allowed c consume now d0) = ?d" by (simp add: login_allowed_def Let_def)
  have "length ?p \<le> Suc (length ?s) \<and> (?live \<noteq> [] \<longrightarrow> dict_get ?p c \<noteq> None) \<and> (?live = [] \<longrightarrow> length ?p \<le> length ?s)"
    using length_dict_set[of c ?live ?s] length_dict_del[of c ?s] by (simp add: dict_simps)
  then have one: "length ?d \<le> Suc (length ?s)"
    using length_dict_set[of c "bucket ?p c @ [now]" ?p] length_dict_set_in[of ?p c "bucket ?p c @ [now]"]
    by (cases "?live = []") auto
  show ?thesis
  proof (cases "length d0 \<le> login_sweep_at")
    case True
    then have "length ?s \<le> 512" by (simp add: sweep_login_attempts_def login_sweep_at_def)
    then have "length ?d \<le> 513" using one by linarith
    then show ?thesis unfolding d by simp
  next
    case False
    then have s: "fresh now (last (snd p))" if "p \<in> set ?s" for p
      using that by (auto simp: sweep_login_attempts_def fresh_def)
    have live: "fresh now (last ?live)" if "?live \<noteq> []" using last_in_set[OF that] by simp
    have now: "fresh now now" by (simp add: fresh_def login_window_def)
    have "(p = (c, ?live) \<and> ?live \<noteq> []) \<or> p \<in> set ?s" if "p \<in> set ?p" for p
      using that by (auto dest!: in_dict_set simp: dict_del_def split: if_splits)
    then have "fresh now (last (snd p))" if "p \<in> set ?p" for p using that s[of p] live by fastforce
    moreover have "p = (c, bucket ?p c @ [now]) \<or> p \<in> set ?p" if "p \<in> set ?d" for p
      using that in_dict_set[of p c _ ?p] by (auto split: if_splits)
    ultimately have "fresh now (last (snd p))" if "p \<in> set ?d" for p using that now by fastforce
    then show ?thesis unfolding d by simp
  qed
qed

text \<open>
  The table stays small. Whatever the clock does, after every history of the routes'
  operations (a reservation, its release, a clearing) each client holds between one and five
  attempts; and a question leaves a table of at most 513 clients, unless each of them attempted a
  sign-in within the last 300 seconds.
\<close>

lemma table_stays_small:
  assumes "\<And>x c. x \<in> set ops \<Longrightarrow> snd x \<noteq> Fail c"
  shows "(\<forall>p \<in> set (snd (limit_run ops [])). 1 \<le> length (snd p) \<and> length (snd p) \<le> 5)
    \<and> (let d = snd (login_allowed c consume now (snd (limit_run ops []))) in
        length d \<le> 513 \<or> (\<forall>p \<in> set d. fresh now (last (snd p))))"
proof
  have "table_ok d \<Longrightarrow> (\<And>x c. x \<in> set ops \<Longrightarrow> snd x \<noteq> Fail c) \<Longrightarrow> table_ok (snd (limit_run ops d))" for d
  proof (induction ops arbitrary: d)
    case (Cons x ops)
    obtain t op where x: "x = (t, op)" by fastforce
    have "table_ok (snd (limit_step t op d))" using Cons.prems x by (intro limit_step_table) fastforce+
    then show ?case using Cons x by (auto simp: case_prod_beta Let_def)
  qed simp
  from this[of "[]"] have ok: "table_ok (snd (limit_run ops []))" using assms by (simp add: table_ok_def dict_ok_def)
  then show "\<forall>p \<in> set (snd (limit_run ops [])). 1 \<le> length (snd p) \<and> length (snd p) \<le> 5"
    by (auto simp: table_ok_def login_cap_def Suc_le_eq)
  show "let d = snd (login_allowed c consume now (snd (limit_run ops []))) in
        length d \<le> 513 \<or> (\<forall>p \<in> set d. fresh now (last (snd p)))"
    by (rule swept_small)
qed

text \<open>
  The sweep's documentation says a bucket is dropped exactly when \<open>login_allowed\<close> would
  have emptied it, and that a clock stepping backwards keeps it. The sweep looks at the newest entry
  only: after a step back, an attempt recorded before the step is dropped with its bucket while
  \<open>login_allowed\<close> would still have counted it.
\<close>

theorem sweep_drops_live_attempt:
  assumes "login_sweep_at < length d" "dict_ok d" "dict_get d client = Some [1000, 400]"
  shows "bucket (sweep_login_attempts 750 d) client = [] \<and> filter (fresh 750) (bucket d client) = [1000]"
  using assms by (simp add: sweep_login_attempts_def bucket_def dict_get_filter login_window_def fresh_def)

section \<open>Witnesses\<close>

definition five_tries :: "(rat \<times> limit_op) list" where
  "five_tries = [(0, Try ''a'' True), (1, Try ''a'' True), (2, Try ''a'' True), (2, Try ''b'' True), (3, Try ''a'' True), (9, Try ''a'' True)]"

definition sixth_and_later :: "(rat \<times> limit_op) list" where
  "sixth_and_later = five_tries @ (10, Try ''a'' True) # [(20, Clear ''b'')] @ [(301, Try ''a'' True)]"

lemma sixth_sorted: "sorted (map fst sixth_and_later)"
  by (simp add: sixth_and_later_def five_tries_def)

lemma sixth_answers: "fst (limit_run sixth_and_later []) ! length five_tries = (False, 290)"
  by code_simp

lemma limiter_refines_spec_witness:
  "fst (spec_run sixth_and_later (\<lambda>_. [])) ! length five_tries = (False, 290)"
  using limiter_refines_spec[OF sixth_sorted] sixth_answers by simp

lemma at_most_five_in_window_witness:
  "length (filter (in_window 0) (admissions ''a'' sixth_and_later (fst (limit_run sixth_and_later [])))) \<le> 5"
  using at_most_five_in_window[OF sixth_sorted, of 0 "''a''"]
  by (simp add: calls_in_def sixth_and_later_def five_tries_def)

lemma refused_then_admitted_witness: "fst (last (fst (limit_run sixth_and_later [])))"
  unfolding sixth_and_later_def
  by (rule refused_then_admitted[OF sixth_sorted[unfolded sixth_and_later_def] _ _ sixth_answers[unfolded sixth_and_later_def]])
    (auto simp: five_tries_def)

lemma table_stays_small_witness: "list_all (\<lambda>p. 1 \<le> length (snd p) \<and> length (snd p) \<le> 5) (snd (limit_run sixth_and_later []))"
proof -
  have "snd x \<noteq> Fail c" if "x \<in> set sixth_and_later" for x c using that by (auto simp: sixth_and_later_def five_tries_def)
  from table_stays_small[OF this] show ?thesis unfolding list_all_iff by blast
qed

lemma sweep_drops_live_attempt_witness:
  "bucket (sweep_login_attempts 750 ((''a'', [1000, 400]) # map (\<lambda>n. (CHR ''b'' # show_nat n, [750])) [0..<512])) ''a'' = []"
proof -
  let ?d = "(''a'', [1000, 400]) # map (\<lambda>n. (CHR ''b'' # show_nat n, [750])) [0..<512] :: attempts"
  have "distinct (map (\<lambda>n. CHR ''b'' # show_nat n) [0..<512])" by (simp add: distinct_map inj_on_def show_nat_inj)
  then have "dict_ok ?d" by (auto simp: dict_ok_def comp_def)
  then show ?thesis using sweep_drops_live_attempt[of ?d "''a''"] by (simp add: dict_get_def login_sweep_at_def)
qed

end
