(* ===== verification/Sign_In.thy ===== *)
theory Sign_In
  imports Request_Gate Login_Limiter
begin

text \<open>
  The public sign-in routes (\<open>hub/routers/auth_api.py\<close>, \<open>hub/routers/twofa_api.py\<close>) and the account
  management routes (\<open>hub/routers/accounts_api.py\<close>) as whole handlers over the server's state: the
  HMAC key, the configuration root, the attempt table and the two-factor document. An error is its
  API code; a ValueError the handler maps keeps its reason until the mapping. \<open>clock i\<close> is the
  \<open>i\<close>-th clock reading of the request, \<open>stamp\<close> the one the two-factor service takes; \<open>client\<close> is what
  \<open>request_client_id\<close> answers; the audit trail is write-only and left out.
\<close>

section \<open>State and answers\<close>

record server =
  sv_key :: bytes
  sv_data :: pydict
  sv_attempts :: attempts
  sv_totp :: doc

datatype reply =
    Refused string
  | Crashed
  | SignedIn string string   \<comment> \<open>session cookie, account\<close>
  | SecondStep string        \<comment> \<open>pending token\<close>
  | NewCodes "string list" "string option"  \<comment> \<open>recovery codes, new cookie\<close>
  | Created "string \<times> string \<times> string list"
  | Granted "string list"
  | Done

abbreviation sv_auth :: "server \<Rightarrow> pydict" where
  "sv_auth sv \<equiv> stored_auth (sv_data sv)"

definition session_of :: "server \<Rightarrow> string \<Rightarrow> rat \<Rightarrow> string" where
  \<comment> \<open>\<open>_set_session\<close>\<close>
  "session_of sv username t = create_session (sv_key sv) (sv_auth sv) username t"

definition attempt :: "string \<Rightarrow> rat \<Rightarrow> server \<Rightarrow> bool \<times> server" where
  "attempt client t sv =
     (let ((ok, _), d) = login_allowed client True t (sv_attempts sv) in (ok, sv\<lparr>sv_attempts := d\<rparr>))"

section \<open>Claiming the installation\<close>

definition complete_setup ::
  "pydict \<Rightarrow> string \<Rightarrow> bytes \<Rightarrow> string \<Rightarrow> string \<Rightarrow> string \<Rightarrow> bool \<Rightarrow> pydict \<Rightarrow> (string + bool) \<times> pydict" where
  \<comment> \<open>\<open>snapshot\<close> is the cached auth block, \<open>expected\<close> the content of the setup-token file\<close>
  "complete_setup snapshot expected salt supplied password username require_token data =
     (if require_token \<and> supplied = [] then (Inr False, data)
      else if \<not> setup_required snapshot then (Inr False, data)
      else if (require_token \<or> supplied \<noteq> []) \<and> supplied \<noteq> expected then (Inr False, data)
      else set_password salt password username True True data)"

definition auth_setup ::
  "request \<Rightarrow> string \<Rightarrow> bytes \<Rightarrow> string \<Rightarrow> string \<Rightarrow> string \<Rightarrow> rat \<Rightarrow> server \<Rightarrow> reply \<times> server" where
  "auth_setup r expected salt supplied password username t sv =
     (if \<not> setup_required (sv_auth sv) then (Refused ''auth.already_setup'', sv)
      else
        (let claimed = or_text (strip username) ''admin'';
             (res, data) = complete_setup (sv_auth sv) expected salt supplied password claimed
               (setup_token_required (sv_auth sv) r) (sv_data sv);
             sv' = sv\<lparr>sv_data := data\<rparr>
         in case res of
              Inl reason \<Rightarrow>
                (Refused (if reason = ''bad_username'' then ''accounts.bad_username'' else ''auth.password_too_short''), sv')
            | Inr False \<Rightarrow>
                (Refused (if \<not> setup_required (sv_auth sv') then ''auth.already_setup'' else ''auth.bad_setup_token''), sv')
            | Inr True \<Rightarrow> (SignedIn (session_of sv' claimed t) claimed, sv')))"

section \<open>Signing in\<close>

definition auth_login :: "disk \<Rightarrow> string \<Rightarrow> string \<Rightarrow> string \<Rightarrow> (nat \<Rightarrow> rat) \<Rightarrow> server \<Rightarrow> reply \<times> server" where
  "auth_login dk client username password clock sv =
     (if setup_required (sv_auth sv) then (Refused ''auth.setup_required'', sv)
      else
        (let (allowed, sv) = attempt client (clock 0) sv; user = strip username in
         if \<not> allowed then (Refused ''auth.rate_limited'', sv)
         else if \<not> verify_account_password (sv_auth sv) user password then (Refused ''auth.bad_credentials'', sv)
         else if enabled dk user (sv_totp sv) then
           (SecondStep (create_pending_totp_token (sv_key sv) (sv_auth sv) user (clock 1)),
            sv\<lparr>sv_attempts := release_login_reservation client (sv_attempts sv)\<rparr>)
         else
           (SignedIn (session_of sv user (clock 1)) user,
            sv\<lparr>sv_attempts := clear_login_failures client (sv_attempts sv)\<rparr>)))"

definition totp_verify_route ::
  "disk \<Rightarrow> string \<Rightarrow> string \<Rightarrow> string \<Rightarrow> pyval \<Rightarrow> (nat \<Rightarrow> rat) \<Rightarrow> server \<Rightarrow> reply \<times> server" where
  "totp_verify_route dk client pending code stamp clock sv =
     (if setup_required (sv_auth sv) then (Refused ''auth.setup_required'', sv)
      else
        (let (allowed, sv) = attempt client (clock 0) sv in
         if \<not> allowed then (Refused ''auth.rate_limited'', sv)
         else
           (let user = pending_totp_username (sv_key sv) (sv_auth sv) pending (clock 1) in
            if user = [] then (Refused ''auth.totp_pending_invalid'', sv)
            else (case verify_second_factor dk user code stamp (sv_totp sv) of
                    (Inl _, file) \<Rightarrow> (Crashed, sv\<lparr>sv_totp := file\<rparr>)
                  | (Inr None, file) \<Rightarrow> (Refused ''auth.bad_totp'', sv\<lparr>sv_totp := file\<rparr>)
                  | (Inr (Some _), file) \<Rightarrow>
                      (SignedIn (session_of sv user (clock 2)) user,
                       sv\<lparr>sv_attempts := clear_login_failures client (sv_attempts sv), sv_totp := file\<rparr>)))))"

section \<open>Sessions\<close>

definition session_user :: "server \<Rightarrow> string \<Rightarrow> (nat \<Rightarrow> rat) \<Rightarrow> string + string" where
  \<comment> \<open>\<open>_require_session_user\<close>\<close>
  "session_user sv cookie clock =
     (if setup_required (sv_auth sv) then Inl ''auth.setup_required''
      else if \<not> verify_session (sv_key sv) (sv_auth sv) cookie (clock 0) then Inl ''auth.login_required''
      else Inr (request_username (sv_key sv) (sv_auth sv) cookie None (clock 1)))"

definition require_admin_browser :: "server \<Rightarrow> string \<Rightarrow> (nat \<Rightarrow> rat) \<Rightarrow> string + string" where
  "require_admin_browser sv cookie clock =
     (if \<not> verify_session (sv_key sv) (sv_auth sv) cookie (clock 0) then Inl ''admin.browser_session_required''
      else (let username = request_username (sv_key sv) (sv_auth sv) cookie None (clock 1)
            in if is_admin (sv_auth sv) username then Inr username else Inl ''admin.admin_required''))"

definition bump :: "string \<Rightarrow> server \<Rightarrow> server" where
  "bump username sv = sv\<lparr>sv_data := bump_session_epoch username (sv_data sv)\<rparr>"

definition auth_logout :: "string \<Rightarrow> rat \<Rightarrow> server \<Rightarrow> reply \<times> server" where
  "auth_logout cookie t sv =
     (let username = request_username (sv_key sv) (sv_auth sv) cookie None t
      in (Done, if username \<noteq> [] then bump username sv else sv))"

definition auth_change_password ::
  "string \<Rightarrow> string \<Rightarrow> bytes \<Rightarrow> string \<Rightarrow> string \<Rightarrow> string \<Rightarrow> (nat \<Rightarrow> rat) \<Rightarrow> server \<Rightarrow> reply \<times> server" where
  "auth_change_password client cookie salt username current new clock sv =
     (if setup_required (sv_auth sv) then (Refused ''auth.setup_required'', sv)
      else if \<not> verify_session (sv_key sv) (sv_auth sv) cookie (clock 0) then (Refused ''auth.login_required'', sv)
      else
        (let caller = request_username (sv_key sv) (sv_auth sv) cookie None (clock 1); name = strip username in
         if name = [] then (Refused ''auth.username_required'', sv)
         else if caller = [] then (Refused ''auth.login_required'', sv)
         else if \<not> is_admin (sv_auth sv) caller \<and> name \<noteq> caller then (Refused ''auth.admin_required'', sv)
         else
           (let (allowed, sv) = attempt client (clock 2) sv in
            if \<not> allowed then (Refused ''auth.rate_limited'', sv)
            else if \<not> verify_account_password (sv_auth sv) caller current then (Refused ''auth.bad_credentials'', sv)
            else if verify_account_password (sv_auth sv) caller new then (Refused ''auth.password_reused'', sv)
            else
              (let (err, data) =
                 (if name = caller
                  then (case set_account_password salt (sv_auth sv) name new (sv_data sv) of
                          (Inl e, d) \<Rightarrow> (Some e, d) | (Inr _, d) \<Rightarrow> (None, d))
                  else (case set_password salt new name True False (sv_data sv) of
                          (Inl e, d) \<Rightarrow> (Some e, d) | (Inr _, d) \<Rightarrow> (None, d)));
                 sv = sv\<lparr>sv_data := data\<rparr>
               in case err of
                    Some e \<Rightarrow>
                      (Refused (if e = ''bad_username'' then ''accounts.bad_username'' else ''auth.password_too_short''), sv)
                  | None \<Rightarrow>
                      (SignedIn (session_of sv name (clock 3)) name,
                       sv\<lparr>sv_attempts := clear_login_failures client (sv_attempts sv)\<rparr>)))))"

section \<open>Managing the second factor\<close>

definition totp_enroll :: "disk \<Rightarrow> string \<Rightarrow> bytes \<Rightarrow> (nat \<Rightarrow> rat) \<Rightarrow> server \<Rightarrow> (string + string \<times> string \<times> string) \<times> server" where
  "totp_enroll dk cookie rnd clock sv =
     (case session_user sv cookie clock of
        Inl e \<Rightarrow> (Inl e, sv)
      | Inr username \<Rightarrow>
          (case begin_enrollment dk username rnd (sv_totp sv) of
             (Inl _, _) \<Rightarrow> (Inl ''auth.totp_already_enabled'', sv)
           | (Inr out, file) \<Rightarrow> (Inr out, sv\<lparr>sv_totp := file\<rparr>)))"

definition totp_confirm ::
  "disk \<Rightarrow> string \<Rightarrow> string \<Rightarrow> string \<Rightarrow> pyval \<Rightarrow> (nat \<Rightarrow> nat \<Rightarrow> nat) \<Rightarrow> pyval \<Rightarrow> (nat \<Rightarrow> rat) \<Rightarrow> server \<Rightarrow> reply \<times> server" where
  "totp_confirm dk client cookie code stamp draws now clock sv =
     (case session_user sv cookie clock of
        Inl e \<Rightarrow> (Refused e, sv)
      | Inr username \<Rightarrow>
          (let (allowed, sv) = attempt client (clock 2) sv in
           if \<not> allowed then (Refused ''auth.rate_limited'', sv)
           else (case confirm_enrollment dk username code stamp draws now (sv_totp sv) of
                   (Inl NotPending, _) \<Rightarrow> (Refused ''auth.totp_not_pending'', sv)
                 | (Inl _, _) \<Rightarrow> (Crashed, sv)
                 | (Inr None, _) \<Rightarrow> (Refused ''auth.bad_totp'', sv)
                 | (Inr (Some codes), file) \<Rightarrow>
                     (let sv = bump username (sv\<lparr>sv_attempts := clear_login_failures client (sv_attempts sv), sv_totp := file\<rparr>)
                      in (NewCodes codes (Some (session_of sv username (clock 3))), sv)))))"

definition totp_disable ::
  "disk \<Rightarrow> string \<Rightarrow> string \<Rightarrow> string \<Rightarrow> pyval \<Rightarrow> (nat \<Rightarrow> rat) \<Rightarrow> server \<Rightarrow> reply \<times> server" where
  "totp_disable dk client cookie code stamp clock sv =
     (case session_user sv cookie clock of
        Inl e \<Rightarrow> (Refused e, sv)
      | Inr username \<Rightarrow>
          (let (allowed, sv) = attempt client (clock 2) sv in
           if \<not> allowed then (Refused ''auth.rate_limited'', sv)
           else if \<not> enabled dk username (sv_totp sv) then (Refused ''auth.totp_not_enabled'', sv)
           else (case verify_second_factor dk username code stamp (sv_totp sv) of
                   (Inl _, file) \<Rightarrow> (Crashed, sv\<lparr>sv_totp := file\<rparr>)
                 | (Inr None, file) \<Rightarrow> (Refused ''auth.bad_totp'', sv\<lparr>sv_totp := file\<rparr>)
                 | (Inr (Some _), file) \<Rightarrow>
                     (let sv = bump username (sv\<lparr>sv_totp := snd (disable dk username file)\<rparr>)
                      in (SignedIn (session_of sv username (clock 3)) username, sv)))))"

definition totp_regenerate_recovery ::
  "disk \<Rightarrow> string \<Rightarrow> string \<Rightarrow> string \<Rightarrow> pyval \<Rightarrow> (nat \<Rightarrow> nat \<Rightarrow> nat) \<Rightarrow> (nat \<Rightarrow> rat) \<Rightarrow> server \<Rightarrow> reply \<times> server" where
  "totp_regenerate_recovery dk client cookie code stamp draws clock sv =
     (case session_user sv cookie clock of
        Inl e \<Rightarrow> (Refused e, sv)
      | Inr username \<Rightarrow>
          (let (allowed, sv) = attempt client (clock 2) sv in
           if \<not> allowed then (Refused ''auth.rate_limited'', sv)
           else if \<not> enabled dk username (sv_totp sv) then (Refused ''auth.totp_not_enabled'', sv)
           else (case verify_second_factor dk username code stamp (sv_totp sv) of
                   (Inl _, file) \<Rightarrow> (Crashed, sv\<lparr>sv_totp := file\<rparr>)
                 | (Inr None, file) \<Rightarrow> (Refused ''auth.bad_totp'', sv\<lparr>sv_totp := file\<rparr>)
                 | (Inr (Some _), file) \<Rightarrow>
                     (case regenerate_recovery dk username draws file of
                        (Inl _, file') \<Rightarrow> (Refused ''auth.totp_not_enabled'', sv\<lparr>sv_totp := file'\<rparr>)
                      | (Inr codes, file') \<Rightarrow> (NewCodes codes None, sv\<lparr>sv_totp := file'\<rparr>)))))"

definition totp_admin_disable :: "disk \<Rightarrow> string \<Rightarrow> string \<Rightarrow> (nat \<Rightarrow> rat) \<Rightarrow> server \<Rightarrow> reply \<times> server" where
  "totp_admin_disable dk cookie username clock sv =
     (case session_user sv cookie clock of
        Inl e \<Rightarrow> (Refused e, sv)
      | Inr operator \<Rightarrow>
          if \<not> is_admin (sv_auth sv) operator then (Refused ''auth.admin_required'', sv)
          else
            (let target = strip username; (was, file) = disable dk target (sv_totp sv); sv = sv\<lparr>sv_totp := file\<rparr> in
             if \<not> was then (Refused ''auth.totp_not_enabled'', sv)
             else (let sv = bump target sv
                   in (if target = operator then SignedIn (session_of sv operator (clock 2)) operator else Done, sv))))"

section \<open>Managing accounts\<close>

definition account_error :: "string \<Rightarrow> string" where
  "account_error reason =
     (if reason = ''password_too_short'' then ''auth.password_too_short''
      else if reason \<in> {''exists'', ''too_many'', ''not_found'', ''not_member''} then ''accounts.'' @ reason
      else ''accounts.bad_username'')"

definition with_admin :: "server \<Rightarrow> string \<Rightarrow> (nat \<Rightarrow> rat) \<Rightarrow> (string + reply) \<times> pydict \<Rightarrow> reply \<times> server" where
  \<comment> \<open>the guard, then a writer of the configuration with its errors mapped\<close>
  "with_admin sv cookie clock act =
     (case require_admin_browser sv cookie clock of
        Inl e \<Rightarrow> (Refused e, sv)
      | Inr _ \<Rightarrow>
          (case act of
             (Inl reason, data) \<Rightarrow> (Refused (account_error reason), sv\<lparr>sv_data := data\<rparr>)
           | (Inr out, data) \<Rightarrow> (out, sv\<lparr>sv_data := data\<rparr>)))"

definition accounts_create :: "string \<Rightarrow> bytes \<Rightarrow> string \<Rightarrow> string \<Rightarrow> string list \<Rightarrow> (nat \<Rightarrow> rat) \<Rightarrow> server \<Rightarrow> reply \<times> server" where
  "accounts_create cookie salt username password resources clock sv =
     with_admin sv cookie clock
       (case create_account salt username password ''member'' (PList (map PStr resources)) (sv_data sv) of
          (Inl e, data) \<Rightarrow> (Inl e, data) | (Inr out, data) \<Rightarrow> (Inr (Created out), data))"

definition accounts_set_resources :: "string \<Rightarrow> string \<Rightarrow> string list \<Rightarrow> (nat \<Rightarrow> rat) \<Rightarrow> server \<Rightarrow> reply \<times> server" where
  "accounts_set_resources cookie username resources clock sv =
     with_admin sv cookie clock
       (case set_account_resources (sv_auth sv) username (PList (map PStr resources)) (sv_data sv) of
          (Inl e, data) \<Rightarrow> (Inl e, data) | (Inr granted, data) \<Rightarrow> (Inr (Granted granted), data))"

definition accounts_reset_password :: "string \<Rightarrow> bytes \<Rightarrow> string \<Rightarrow> string \<Rightarrow> (nat \<Rightarrow> rat) \<Rightarrow> server \<Rightarrow> reply \<times> server" where
  "accounts_reset_password cookie salt username password clock sv =
     with_admin sv cookie clock
       (case account (sv_auth sv) username of
          None \<Rightarrow> (Inl ''not_found'', sv_data sv)
        | Some target \<Rightarrow>
            if ac_role target = Admin then (Inl ''not_member'', sv_data sv)
            else (case set_account_password salt (sv_auth sv) (ac_username target) password (sv_data sv) of
                    (Inl e, data) \<Rightarrow> (Inl e, data) | (Inr _, data) \<Rightarrow> (Inr Done, data)))"

definition accounts_delete :: "disk \<Rightarrow> string \<Rightarrow> string \<Rightarrow> (nat \<Rightarrow> rat) \<Rightarrow> server \<Rightarrow> reply \<times> server" where
  \<comment> \<open>the two-factor row is dropped under the name as the path spells it\<close>
  "accounts_delete dk cookie username clock sv =
     (case with_admin sv cookie clock
             (case delete_account (sv_auth sv) username (sv_data sv) of
                (Inl e, data) \<Rightarrow> (Inl e, data) | (Inr _, data) \<Rightarrow> (Inr Done, data)) of
        (Done, sv') \<Rightarrow> (Done, sv'\<lparr>sv_totp := snd (disable dk username (sv_totp sv'))\<rparr>)
      | other \<Rightarrow> other)"

end
