(* ===== verification/Twofa_Safety.thy ===== *)
theory Twofa_Safety
  imports Twofa
begin

text \<open>
  The second factor against its specification. \<open>spec\<close> is what an operation promises on plain
  account states (enabled, last counter, recovery digests, active and pending secret); \<open>exec\<close>
  is the code's operation on the stored document, and refines it through every load, coercion
  and save. On the specification: a counter is never accepted twice nor after a later one, and
  a recovery digest is spent at most as often as it is stored.
\<close>

section \<open>Fields through load and save\<close>

lemma json_safe_idem: "json_safe d (json_safe d v) = json_safe d v"
proof (induction d v rule: json_safe.induct)
  case (1 d v)
  show ?case
  proof (cases "32 < d")
    case False
    note IH = "1.IH"[OF False]
    show ?thesis
    proof (cases v)
      case (PList xs)
      have "map (json_safe (Suc d)) (map (json_safe (Suc d)) xs) = map (json_safe (Suc d)) xs"
        using IH(1)[OF PList] by simp
      then show ?thesis using PList False by (simp add: json_safe.simps[of d])
    next
      case (PTuple xs)
      have "map (json_safe (Suc d)) (map (json_safe (Suc d)) xs) = map (json_safe (Suc d)) xs"
        using IH(2)[OF PTuple] by simp
      then show ?thesis using PTuple False by (simp add: json_safe.simps[of d])
    next
      case (PDict kvs)
      have "json_safe (Suc d) (json_safe (Suc d) (snd p)) = json_safe (Suc d) (snd p)" if "p \<in> set kvs" for p
        using IH(3)[OF PDict that] .
      then show ?thesis using PDict False by (simp add: json_safe.simps[of d])
    qed (use False in \<open>simp_all add: json_safe.simps[of d]\<close>)
  qed (simp add: json_safe.simps[of d])
qed

lemma json_safe_scalars [simp]:
  "json_safe (Suc 0) PNone = PNone" "json_safe (Suc 0) (PBool b) = PBool b" "json_safe (Suc 0) (PStr s) = PStr s"
  "json_safe (Suc 0) (PList (map (\<lambda>c. PStr (f c)) ss)) = PList (map (\<lambda>c. PStr (f c)) ss)"
  "json_safe (Suc 0) (PList (map PStr rs)) = PList (map PStr rs)"
  "fits_digit_cap i \<Longrightarrow> json_safe (Suc 0) (PInt i) = PInt i"
  by (simp_all add: json_safe.simps comp_def)

lemma pyget_map: "f PNone = PNone \<Longrightarrow> pyget (map (\<lambda>p. (fst p, f (snd p))) e) k = f (pyget e k)"
  by (induction e) (auto simp: pyget_def dict_get_def)

lemma dict_get_map: "dict_get (map (\<lambda>p. (fst p, f (snd p))) e) k = map_option f (dict_get e k)"
  by (induction e) (auto simp: dict_get_def)

lemma pyget_missing: "dict_get e k = None \<Longrightarrow> pyget e k = PNone"
  by (simp add: pyget_def)

lemma pyget_persistable:
  "k \<noteq> ''last_counter'' \<Longrightarrow> k \<noteq> ''confirmed_at'' \<Longrightarrow> pyget (persistable_entry e) k = json_safe 1 (pyget e k)"
  by (simp add: persistable_entry_def Let_def dict_simps pyget_map)

lemma counter_persistable:
  "pyget (persistable_entry e) ''last_counter'' = (if dict_get e ''last_counter'' = None then PNone
     else opt_int (as_int (json_safe 1 (pyget e ''last_counter'')) (Some 0)))"
  by (auto simp: persistable_entry_def Let_def dict_simps pyget_map dict_get_map pyget_missing)

section \<open>Accounts\<close>

record acct =
  a_enabled :: bool
  a_counter :: int
  a_recovery :: "string list"
  a_secret :: string
  a_pending :: string

definition entry_view :: "pydict \<Rightarrow> acct" where
  "entry_view e = \<lparr>a_enabled = truthy (pyget e ''enabled''),
     a_counter = or_zero (as_int (pyget e ''last_counter'') (Some 0)),
     a_recovery = stored_recovery (pyget e ''recovery''),
     a_secret = as_secret (pyget e ''secret''), a_pending = as_secret (pyget e ''pending_secret'')\<rparr>"

definition no_acct :: acct where
  "no_acct = \<lparr>a_enabled = False, a_counter = 0, a_recovery = [], a_secret = [], a_pending = []\<rparr>"

definition stored_entry :: "doc \<Rightarrow> string \<Rightarrow> pydict" where
  "stored_entry file user = user_entry (load good_disk file) user"

definition abs_doc :: "doc \<Rightarrow> string \<Rightarrow> acct" where
  "abs_doc file user = entry_view (stored_entry file user)"

text \<open>
  A settled entry reads back as itself. Every loaded entry is settled but for one artefact of
  the model: its floats have no upper bound, while a double has at most 309 integer digits.
\<close>

definition settled_entry :: "pydict \<Rightarrow> bool" where
  "settled_entry e \<longleftrightarrow>
     (\<forall>k \<in> {''enabled'', ''recovery'', ''secret'', ''pending_secret''}. json_safe 1 (pyget e k) = pyget e k)
     \<and> (case pyget e ''last_counter'' of PNone \<Rightarrow> True | PInt n \<Rightarrow> fits_digit_cap n | _ \<Rightarrow> False)"

definition settled :: "doc \<Rightarrow> bool" where
  "settled file \<longleftrightarrow> (\<forall>user. settled_entry (stored_entry file user))"

lemma fits_zero: "fits_digit_cap 0"
  by (simp add: fits_digit_cap_def int_max_str_digits_def) (subst show_nat.simps, simp)

lemma persistable_view:
  assumes "settled_entry e"
  shows "settled_entry (persistable_entry e) \<and> entry_view (persistable_entry e) = entry_view e"
proof -
  have f: "pyget (persistable_entry e) k = pyget e k"
    if "k \<in> {''enabled'', ''recovery'', ''secret'', ''pending_secret''}" for k
    using assms that by (auto simp: pyget_persistable settled_entry_def)
  have c: "pyget (persistable_entry e) ''last_counter'' = PNone \<and> pyget e ''last_counter'' = PNone
      \<or> (\<exists>n. fits_digit_cap n \<and> pyget (persistable_entry e) ''last_counter'' = PInt n
           \<and> (pyget e ''last_counter'' = PInt n \<or> n = 0 \<and> pyget e ''last_counter'' = PNone))"
  proof (cases "pyget e ''last_counter''")
    case (PInt n)
    moreover from PInt have "dict_get e ''last_counter'' \<noteq> None" by (auto simp: pyget_def split: option.splits)
    ultimately show ?thesis using assms by (auto simp: counter_persistable settled_entry_def opt_int_def)
  qed (use assms in \<open>auto simp: counter_persistable settled_entry_def opt_int_def fits_zero\<close>)
  note fs = f[of "''enabled''"] f[of "''recovery''"] f[of "''secret''"] f[of "''pending_secret''"]
  have "entry_view (persistable_entry e) = entry_view e"
    using c by (elim disjE exE conjE) (simp_all add: entry_view_def or_zero_def fs)
  moreover have "settled_entry (persistable_entry e)"
    using c assms by (elim disjE exE conjE) (simp_all add: settled_entry_def fs)
  ultimately show ?thesis by (rule conjI[rotated])
qed

lemma settled_entry_Nil [simp]: "settled_entry []"
  by (simp add: settled_entry_def dict_simps)

lemma entry_view_Nil [simp]: "entry_view [] = no_acct"
  by (simp add: entry_view_def no_acct_def dict_simps or_zero_def stored_recovery_def as_secret_def)

lemma dict_rows_saved:
  "dict_rows (map (\<lambda>p. (fst p, PDict (f (snd p)))) data) = map (\<lambda>p. (fst p, persistable_entry (f (snd p)))) data"
  by (induction data) auto

lemma account_save:
  "stored_entry (save good_disk data file) user
    = (case dict_get data user of None \<Rightarrow> [] | Some e \<Rightarrow> persistable_entry (persistable_entry e))"
proof -
  have "load good_disk (save good_disk data file) = map (\<lambda>p. (fst p, persistable_entry (persistable_entry (snd p)))) data"
    by (simp add: save_def load_def dict_rows_saved[of persistable_entry])
  moreover have "dict_get \<dots> user = map_option (persistable_entry \<circ> persistable_entry) (dict_get data user)"
    using dict_get_map[of "persistable_entry \<circ> persistable_entry" data user] by simp
  ultimately show ?thesis by (simp add: stored_entry_def user_entry_def split: option.split)
qed

lemma persistable_Nil [simp]: "persistable_entry [] = []"
  by (simp add: persistable_entry_def dict_simps)

lemma account_set:
  "stored_entry (save good_disk (dict_set v e (load good_disk file)) file) user
    = persistable_entry (persistable_entry (if user = v then e else stored_entry file user))"
  unfolding account_save by (auto simp: dict_simps stored_entry_def user_entry_def split: option.split)

lemma account_del:
  "stored_entry (save good_disk (dict_del v (load good_disk file)) file) user
    = (if user = v then [] else persistable_entry (persistable_entry (stored_entry file user)))"
  unfolding account_save by (auto simp: dict_simps stored_entry_def user_entry_def split: option.split)

text \<open>One write of one account: the others keep their view, and the document stays settled.\<close>

lemma write_account:
  assumes "settled file" "settled_entry e"
  shows "settled (save good_disk (dict_set v e (load good_disk file)) file)
    \<and> abs_doc (save good_disk (dict_set v e (load good_disk file)) file) = (abs_doc file)(v := entry_view e)"
  using assms persistable_view by (auto simp: settled_def abs_doc_def account_set fun_eq_iff)

lemma drop_account:
  assumes "settled file"
  shows "settled (save good_disk (dict_del v (load good_disk file)) file)
    \<and> abs_doc (save good_disk (dict_del v (load good_disk file)) file) = (abs_doc file)(v := no_acct)"
  using assms persistable_view by (auto simp: settled_def abs_doc_def account_del fun_eq_iff)

section \<open>Calls\<close>

datatype call =
    Begin string bytes
  | Confirm string string pyval "nat \<Rightarrow> nat \<Rightarrow> nat" pyval
  | Code string string pyval
  | Recover string string
  | Second string string pyval
  | Regenerate string "nat \<Rightarrow> nat \<Rightarrow> nat"
  | Disable string

datatype answer =
    Failed twofa_error
  | Pairing "string \<times> string \<times> string"
  | Codes "string list option"
  | Verdict bool
  | Factor "factor option"

definition answered :: "('a \<Rightarrow> answer) \<Rightarrow> (twofa_error + 'a) \<times> doc \<Rightarrow> answer \<times> doc" where
  "answered f r = (case r of (Inl e, d) \<Rightarrow> (Failed e, d) | (Inr x, d) \<Rightarrow> (f x, d))"

fun exec :: "call \<Rightarrow> doc \<Rightarrow> answer \<times> doc" where
  "exec (Begin u rnd) d = answered Pairing (begin_enrollment good_disk u rnd d)"
| "exec (Confirm u code stamp draws now) d = answered Codes (confirm_enrollment good_disk u code stamp draws now d)"
| "exec (Code u code stamp) d = answered Verdict (verify_totp_code good_disk u code stamp d)"
| "exec (Recover u code) d = (case use_recovery_code good_disk u code d of (b, d') \<Rightarrow> (Verdict b, d'))"
| "exec (Second u code stamp) d = answered Factor (verify_second_factor good_disk u code stamp d)"
| "exec (Regenerate u draws) d = answered (Codes \<circ> Some) (regenerate_recovery good_disk u draws d)"
| "exec (Disable u) d = (case disable good_disk u d of (b, d') \<Rightarrow> (Verdict b, d'))"

text \<open>What each call promises, on account states.\<close>

definition digests :: "(nat \<Rightarrow> nat \<Rightarrow> nat) \<Rightarrow> string list" where
  "digests draws = map hash_recovery (new_recovery_codes draws)"

definition spec_code :: "string \<Rightarrow> pyval \<Rightarrow> acct \<Rightarrow> (twofa_error + bool) \<times> acct" where
  "spec_code code stamp a =
     (if \<not> a_enabled a \<or> a_secret a = [] then (Inr False, a)
      else (case totp_verify (a_secret a) code stamp of
              Inl e \<Rightarrow> (Inl (Raised e), a)
            | Inr None \<Rightarrow> (Inr False, a)
            | Inr (Some m) \<Rightarrow> if a_counter a < m then (Inr True, a\<lparr>a_counter := m\<rparr>) else (Inr False, a)))"

text \<open>The last stored copy of a digest goes.\<close>

definition drop_digest :: "string \<Rightarrow> string list \<Rightarrow> string list" where
  "drop_digest d ds = rev (remove1 d (rev ds))"

definition spec_recover :: "string \<Rightarrow> acct \<Rightarrow> bool \<times> acct" where
  "spec_recover code a =
     (if a_enabled a \<and> hash_recovery code \<in> set (a_recovery a)
      then (True, a\<lparr>a_recovery := drop_digest (hash_recovery code) (a_recovery a)\<rparr>) else (False, a))"

definition spec_second :: "string \<Rightarrow> pyval \<Rightarrow> acct \<Rightarrow> (twofa_error + factor option) \<times> acct" where
  "spec_second code stamp a =
     (case spec_code code stamp a of
        (Inl e, a') \<Rightarrow> (Inl e, a')
      | (Inr True, a') \<Rightarrow> (Inr (Some ByTotp), a')
      | (Inr False, a') \<Rightarrow>
          (case spec_recover code a' of (True, a'') \<Rightarrow> (Inr (Some ByRecovery), a'') | (False, a'') \<Rightarrow> (Inr None, a'')))"

definition answer_of :: "('a \<Rightarrow> answer) \<Rightarrow> (twofa_error + 'a) \<Rightarrow> answer" where
  "answer_of f r = (case r of Inl e \<Rightarrow> Failed e | Inr x \<Rightarrow> f x)"

fun spec_call :: "call \<Rightarrow> acct \<Rightarrow> answer \<times> acct" where
  "spec_call (Begin u rnd) a =
     (if a_enabled a then (Failed AlreadyEnabled, a)
      else (let s = generate_secret rnd in
            (Pairing (s, otpauth_uri s u ''ServerHub'', manual_entry_groups s), a\<lparr>a_pending := strip s\<rparr>)))"
| "spec_call (Confirm u code stamp draws now) a =
     (if a_enabled a \<or> a_pending a = [] then (Failed NotPending, a)
      else (case totp_verify (a_pending a) code stamp of
              Inl e \<Rightarrow> (Failed (Raised e), a)
            | Inr None \<Rightarrow> (Codes None, a)
            | Inr (Some m) \<Rightarrow>
                (Codes (Some (new_recovery_codes draws)),
                 \<lparr>a_enabled = True, a_counter = m, a_recovery = digests draws, a_secret = a_pending a, a_pending = []\<rparr>)))"
| "spec_call (Code u code stamp) a = (case spec_code code stamp a of (r, a') \<Rightarrow> (answer_of Verdict r, a'))"
| "spec_call (Recover u code) a = (case spec_recover code a of (b, a') \<Rightarrow> (Verdict b, a'))"
| "spec_call (Second u code stamp) a = (case spec_second code stamp a of (r, a') \<Rightarrow> (answer_of Factor r, a'))"
| "spec_call (Regenerate u draws) a =
     (if a_enabled a then (Codes (Some (new_recovery_codes draws)), a\<lparr>a_recovery := digests draws\<rparr>)
      else (Failed NotEnabled, a))"
| "spec_call (Disable u) a = (Verdict (a_enabled a), no_acct)"

fun target :: "call \<Rightarrow> string" where
  "target (Begin u _) = u"
| "target (Confirm u _ _ _ _) = u"
| "target (Code u _ _) = u"
| "target (Recover u _) = u"
| "target (Second u _ _) = u"
| "target (Regenerate u _) = u"
| "target (Disable u) = u"

definition spec :: "call \<Rightarrow> (string \<Rightarrow> acct) \<Rightarrow> answer \<times> (string \<Rightarrow> acct)" where
  "spec c st = (case spec_call c (st (target c)) of (ans, a) \<Rightarrow> (ans, st(target c := a)))"

section \<open>Refinement\<close>

lemma totp_verify_bound: "totp_verify secret code stamp = Inr (Some m) \<Longrightarrow> 0 \<le> m \<and> m < 2 ^ 64"
proof -
  assume v: "totp_verify secret code stamp = Inr (Some m)"
  then obtain key c where k: "decode_secret secret = Inr key" "step_counter stamp step_seconds = Inr (Some c)"
    by (auto simp: totp_verify_def verify_def Let_def bind_ok_Inr_iff split: if_splits sum.splits option.splits)
  show ?thesis
    using v verify_result[OF k, of drift_window "remove_char (CHR '' '') (strip code)" totp_digits code m]
    by (auto simp: totp_verify_def drift_window_def in_window_def verify_def Let_def split: if_splits)
qed

lemma fits_counter: "0 \<le> m \<Longrightarrow> m < 2 ^ 64 \<Longrightarrow> fits_digit_cap m"
proof -
  assume m: "0 \<le> m" "m < 2 ^ 64"
  then have "nat m < 10 ^ 20" by simp
  then have "length (show_nat (nat m)) \<le> 20" by (intro length_show_nat) simp_all
  then show ?thesis using m by (simp add: fits_digit_cap_def int_max_str_digits_def)
qed

lemma set_view [simp]:
  "settled_entry e \<Longrightarrow> settled_entry (dict_set ''pending_secret'' (PStr s) e)"
  "settled_entry e \<Longrightarrow> fits_digit_cap m \<Longrightarrow> settled_entry (dict_set ''last_counter'' (PInt m) e)"
  "settled_entry e \<Longrightarrow> settled_entry (dict_set ''recovery'' (PList (map PStr rs)) e)"
  "settled_entry e \<Longrightarrow> settled_entry (dict_set ''recovery'' (PList (map (\<lambda>c. PStr (f c)) rs)) e)"
  by (auto simp: settled_entry_def dict_simps)

lemma stored_recovery_PStr [simp]:
  "stored_recovery (PList (map PStr rs)) = rs"
  "stored_recovery (PList (map (\<lambda>c. PStr (f c)) cs)) = map f cs"
  by (induction rs) (simp_all add: stored_recovery_def map_filter_def comp_def)

lemma entry_view_set:
  "entry_view (dict_set ''pending_secret'' (PStr s) e) = (entry_view e)\<lparr>a_pending := strip s\<rparr>"
  "fits_digit_cap m \<Longrightarrow> entry_view (dict_set ''last_counter'' (PInt m) e) = (entry_view e)\<lparr>a_counter := m\<rparr>"
  "entry_view (dict_set ''recovery'' (PList (map PStr rs)) e) = (entry_view e)\<lparr>a_recovery := rs\<rparr>"
  "entry_view (dict_set ''recovery'' (PList (map (\<lambda>c. PStr (f c)) cs)) e) = (entry_view e)\<lparr>a_recovery := map f cs\<rparr>"
  by (simp_all add: entry_view_def dict_simps as_secret_def or_zero_def)

lemma entry_fields:
  "truthy (pyget e ''enabled'') = a_enabled (entry_view e)"
  "or_zero (as_int (pyget e ''last_counter'') (Some 0)) = a_counter (entry_view e)"
  "stored_recovery (pyget e ''recovery'') = a_recovery (entry_view e)"
  "as_secret (pyget e ''secret'') = a_secret (entry_view e)"
  "as_secret (pyget e ''pending_secret'') = a_pending (entry_view e)"
  by (simp_all add: entry_view_def)

lemma digest_eq_hash [simp]: "digest_eq d (hash_recovery code) \<longleftrightarrow> d = hash_recovery code"
  using hexdigest_ascii by (auto simp: digest_eq_def hash_recovery_def)

lemma last_match_snoc:
  "last_match s (ds @ [x]) i found = (if digest_eq x s then Some (i + length ds) else last_match s ds i found)"
  by (induction ds arbitrary: i found) auto

lemma last_match_drop:
  "(case last_match (hash_recovery code) ds 0 None of
      None \<Rightarrow> hash_recovery code \<notin> set ds
    | Some k \<Rightarrow> k < length ds \<and> hash_recovery code \<in> set ds
        \<and> take k ds @ drop (Suc k) ds = drop_digest (hash_recovery code) ds)"
proof (induction ds rule: rev_induct)
  case (snoc x ds)
  show ?case
  proof (cases "x = hash_recovery code")
    case False
    then show ?thesis
      using snoc by (auto simp: last_match_snoc drop_digest_def split: option.splits)
  qed (simp add: last_match_snoc drop_digest_def)
qed (simp add: drop_digest_def)

lemma use_recovery_spec:
  assumes "settled d" "use_recovery_code good_disk u code d = (b, d')"
  shows "settled d' \<and> spec_recover code (abs_doc d u) = (b, abs_doc d' u) \<and> (\<forall>v. v \<noteq> u \<longrightarrow> abs_doc d' v = abs_doc d v)"
proof -
  let ?e = "stored_entry d u" and ?h = "hash_recovery code"
  let ?rs = "a_recovery (abs_doc d u)"
  have e: "settled_entry ?e" using assms(1) by (simp add: settled_def)
  have u: "user_entry (load good_disk d) u = ?e" by (simp add: stored_entry_def)
  have m: "case last_match ?h ?rs 0 None of None \<Rightarrow> ?h \<notin> set ?rs
      | Some k \<Rightarrow> k < length ?rs \<and> ?h \<in> set ?rs \<and> take k ?rs @ drop (Suc k) ?rs = drop_digest ?h ?rs"
    by (rule last_match_drop)
  show ?thesis
  proof (cases "a_enabled (abs_doc d u) \<and> ?h \<in> set ?rs")
    case False
    then have "(b, d') = (False, d)"
      using assms(2) m
      by (auto simp: use_recovery_code_def Let_def u entry_fields abs_doc_def split: option.splits if_splits)
    then show ?thesis using False assms(1) by (auto simp: spec_recover_def)
  next
    case True
    then obtain k where k: "last_match ?h ?rs 0 None = Some k" "take k ?rs @ drop (Suc k) ?rs = drop_digest ?h ?rs"
      using m by (auto split: option.splits)
    let ?e' = "dict_set ''recovery'' (PList (map PStr (drop_digest ?h ?rs))) ?e"
    have "b" "d' = save good_disk (dict_set u ?e' (load good_disk d)) d"
      using assms(2) True k by (auto simp: use_recovery_code_def Let_def u entry_fields abs_doc_def)
    then show ?thesis
      using write_account[OF assms(1), of ?e' u] e True
      by (auto simp: spec_recover_def entry_view_set abs_doc_def fun_eq_iff)
  qed
qed

lemma verify_code_spec:
  assumes "settled d" "verify_totp_code good_disk u code stamp d = (r, d')"
  shows "settled d' \<and> spec_code code stamp (abs_doc d u) = (r, abs_doc d' u) \<and> (\<forall>v. v \<noteq> u \<longrightarrow> abs_doc d' v = abs_doc d v)"
proof -
  let ?e = "stored_entry d u"
  have e: "settled_entry ?e" using assms(1) by (simp add: settled_def)
  have u: "user_entry (load good_disk d) u = ?e" by (simp add: stored_entry_def)
  consider (hit) m where "a_enabled (abs_doc d u)" "a_secret (abs_doc d u) \<noteq> []"
      "totp_verify (a_secret (abs_doc d u)) code stamp = Inr (Some m)" "a_counter (abs_doc d u) < m"
    | (miss) "d' = d" "spec_code code stamp (abs_doc d u) = (r, abs_doc d u)"
    using assms(2)
    by (auto simp: verify_totp_code_def Let_def u entry_fields abs_doc_def spec_code_def
        split: if_splits sum.splits option.splits)
  then show ?thesis
  proof cases
    case hit
    let ?e' = "dict_set ''last_counter'' (PInt m) ?e"
    have f: "fits_digit_cap m" using totp_verify_bound[OF hit(3)] fits_counter by blast
    have "r = Inr True" "d' = save good_disk (dict_set u ?e' (load good_disk d)) d"
      using assms(2) hit by (auto simp: verify_totp_code_def Let_def u entry_fields abs_doc_def)
    then show ?thesis
      using write_account[OF assms(1), of ?e' u] e f hit
      by (auto simp: spec_code_def entry_view_set abs_doc_def fun_eq_iff)
  qed (use assms(1) in simp)
qed

lemma begin_spec:
  assumes "settled d" "begin_enrollment good_disk u rnd d = (r, d')"
  shows "settled d' \<and> spec_call (Begin u rnd) (abs_doc d u) = (answer_of Pairing r, abs_doc d' u)
    \<and> (\<forall>v. v \<noteq> u \<longrightarrow> abs_doc d' v = abs_doc d v)"
proof -
  let ?e = "stored_entry d u"
  let ?e' = "dict_set ''pending_secret'' (PStr (generate_secret rnd)) ?e"
  have e: "settled_entry ?e'" using assms(1) by (simp add: settled_def)
  have u: "user_entry (load good_disk d) u = ?e" by (simp add: stored_entry_def)
  show ?thesis
    using assms write_account[OF assms(1) e, of u]
    by (auto simp: begin_enrollment_def Let_def u entry_fields abs_doc_def answer_of_def entry_view_set fun_eq_iff
        split: if_splits)
qed

lemma regenerate_spec:
  assumes "settled d" "regenerate_recovery good_disk u draws d = (r, d')"
  shows "settled d' \<and> spec_call (Regenerate u draws) (abs_doc d u) = (answer_of (Codes \<circ> Some) r, abs_doc d' u)
    \<and> (\<forall>v. v \<noteq> u \<longrightarrow> abs_doc d' v = abs_doc d v)"
proof -
  let ?e = "stored_entry d u"
  let ?e' = "dict_set ''recovery'' (PList (map (\<lambda>c. PStr (hash_recovery c)) (new_recovery_codes draws))) ?e"
  have e: "settled_entry ?e'" using assms(1) by (simp add: settled_def)
  have u: "user_entry (load good_disk d) u = ?e" by (simp add: stored_entry_def)
  show ?thesis
    using assms write_account[OF assms(1) e, of u]
    by (auto simp: regenerate_recovery_def Let_def u entry_fields abs_doc_def answer_of_def entry_view_set
        digests_def fun_eq_iff split: if_splits)
qed

lemma confirmed_entry:
  assumes "fits_digit_cap m" "strip s = s"
  shows "settled_entry [(''secret'', PStr s), (''enabled'', PBool True), (''confirmed_at'', w),
        (''recovery'', PList (map (\<lambda>c. PStr (hash_recovery c)) cs)), (''last_counter'', PInt m)]
    \<and> entry_view [(''secret'', PStr s), (''enabled'', PBool True), (''confirmed_at'', w),
        (''recovery'', PList (map (\<lambda>c. PStr (hash_recovery c)) cs)), (''last_counter'', PInt m)]
      = \<lparr>a_enabled = True, a_counter = m, a_recovery = map hash_recovery cs, a_secret = s, a_pending = []\<rparr>"
  using assms by (simp add: settled_entry_def entry_view_def pyget_def dict_get_def or_zero_def as_secret_def)

lemma confirm_spec:
  assumes "settled d" "confirm_enrollment good_disk u code stamp draws now d = (r, d')"
  shows "settled d' \<and> spec_call (Confirm u code stamp draws now) (abs_doc d u) = (answer_of Codes r, abs_doc d' u)
    \<and> (\<forall>v. v \<noteq> u \<longrightarrow> abs_doc d' v = abs_doc d v)"
proof -
  have u: "user_entry (load good_disk d) u = stored_entry d u" by (simp add: stored_entry_def)
  let ?p = "a_pending (abs_doc d u)"
  consider (hit) m where "\<not> a_enabled (abs_doc d u)" "?p \<noteq> []" "totp_verify ?p code stamp = Inr (Some m)"
    | (miss) "d' = d" "spec_call (Confirm u code stamp draws now) (abs_doc d u) = (answer_of Codes r, abs_doc d u)"
    using assms(2)
    by (auto simp: confirm_enrollment_def Let_def u entry_fields abs_doc_def answer_of_def
        split: if_splits sum.splits option.splits)
  then show ?thesis
  proof cases
    case hit
    let ?e' = "[(''secret'', PStr ?p), (''enabled'', PBool True), (''confirmed_at'', opt_int (as_int now (Some 0))),
      (''recovery'', PList (map (\<lambda>c. PStr (hash_recovery c)) (new_recovery_codes draws))), (''last_counter'', PInt m)]"
    have f: "fits_digit_cap m" using totp_verify_bound[OF hit(3)] fits_counter by blast
    have s: "strip ?p = ?p" by (auto simp: abs_doc_def entry_view_def as_secret_def strip_id split: pyval.split)
    note e = confirmed_entry[OF f s, of "opt_int (as_int now (Some 0))" "new_recovery_codes draws"]
    have "r = Inr (Some (new_recovery_codes draws))" "d' = save good_disk (dict_set u ?e' (load good_disk d)) d"
      using assms(2) hit by (auto simp: confirm_enrollment_def Let_def u entry_fields abs_doc_def)
    then show ?thesis
      using write_account[OF assms(1), of ?e' u] e hit
      by (auto simp: answer_of_def digests_def fun_eq_iff)
  qed (use assms(1) in simp)
qed

lemma disable_spec:
  assumes "settled d" "disable good_disk u d = (b, d')"
  shows "settled d' \<and> spec_call (Disable u) (abs_doc d u) = (Verdict b, abs_doc d' u)
    \<and> (\<forall>v. v \<noteq> u \<longrightarrow> abs_doc d' v = abs_doc d v)"
proof -
  have u: "user_entry (load good_disk d) u = stored_entry d u" by (simp add: stored_entry_def)
  show ?thesis
  proof (cases "dict_get (load good_disk d) u")
    case None
    then have "stored_entry d u = []" by (simp add: stored_entry_def user_entry_def)
    then show ?thesis using None assms by (auto simp: disable_def Let_def u entry_fields abs_doc_def)
  next
    case (Some e)
    then show ?thesis
      using assms drop_account[OF assms(1), of u]
      by (auto simp: disable_def Let_def u entry_fields abs_doc_def fun_eq_iff)
  qed
qed

lemma second_spec:
  assumes "settled d" "verify_second_factor good_disk u code stamp d = (r, d')"
  shows "settled d' \<and> spec_second code stamp (abs_doc d u) = (r, abs_doc d' u) \<and> (\<forall>v. v \<noteq> u \<longrightarrow> abs_doc d' v = abs_doc d v)"
proof -
  obtain r1 d1 where c: "verify_totp_code good_disk u code stamp d = (r1, d1)" by fastforce
  obtain b d2 where k: "use_recovery_code good_disk u code d1 = (b, d2)" by fastforce
  note v = verify_code_spec[OF assms(1) c]
  then have s: "settled d1" by simp
  show ?thesis
    using assms(2) v use_recovery_spec[OF s k]
    by (auto simp: verify_second_factor_def spec_second_def c k split: sum.splits bool.splits)
qed

lemma answered_pair [simp]: "answered f (r, d') = (answer_of f r, d')"
  by (simp add: answered_def answer_of_def split: sum.split)

lemma exec_spec:
  assumes "settled d" "exec c d = (ans, d')"
  shows "settled d' \<and> spec_call c (abs_doc d (target c)) = (ans, abs_doc d' (target c))
    \<and> (\<forall>v. v \<noteq> target c \<longrightarrow> abs_doc d' v = abs_doc d v)"
proof -
  show ?thesis
  proof (cases c)
    case (Begin u rnd)
    obtain r e where x: "begin_enrollment good_disk u rnd d = (r, e)" by fastforce
    with begin_spec[OF assms(1) x] assms(2) Begin show ?thesis by (auto simp del: spec_call.simps(1,2,6,7))
  next
    case (Confirm u code stamp draws now)
    obtain r e where x: "confirm_enrollment good_disk u code stamp draws now d = (r, e)" by fastforce
    with confirm_spec[OF assms(1) x] assms(2) Confirm show ?thesis
      by (auto simp del: spec_call.simps)
  next
    case (Code u code stamp)
    obtain r e where x: "verify_totp_code good_disk u code stamp d = (r, e)" by fastforce
    with verify_code_spec[OF assms(1) x] assms(2) Code show ?thesis by (auto simp del: spec_call.simps(1,2,6,7))
  next
    case (Recover u code)
    obtain r e where x: "use_recovery_code good_disk u code d = (r, e)" by fastforce
    with use_recovery_spec[OF assms(1) x] assms(2) Recover show ?thesis by (auto simp del: spec_call.simps(1,2,6,7))
  next
    case (Second u code stamp)
    obtain r e where x: "verify_second_factor good_disk u code stamp d = (r, e)" by fastforce
    with second_spec[OF assms(1) x] assms(2) Second show ?thesis by (auto simp del: spec_call.simps(1,2,6,7))
  next
    case (Regenerate u draws)
    obtain r e where x: "regenerate_recovery good_disk u draws d = (r, e)" by fastforce
    with regenerate_spec[OF assms(1) x] assms(2) Regenerate show ?thesis
      by (auto simp del: spec_call.simps)
  next
    case (Disable u)
    obtain r e where x: "disable good_disk u d = (r, e)" by fastforce
    with disable_spec[OF assms(1) x] assms(2) Disable show ?thesis by (auto simp del: spec_call.simps(1,2,6,7))
  qed
qed

lemma secret_nonempty: "rnd \<noteq> [] \<Longrightarrow> generate_secret rnd \<noteq> []"
  using decode_secret_dressed[OF generate_secret_undressed(1), of rnd]
  by (auto simp: decode_secret_def strip_def lstrip_def rstrip_def remove_char_def upper_def)

section \<open>What a history of calls accepts\<close>

declare exec.simps [simp del]

definition counter_of :: "string \<Rightarrow> string \<Rightarrow> pyval \<Rightarrow> int option" where
  "counter_of secret code stamp = (case totp_verify secret code stamp of Inl _ \<Rightarrow> None | Inr r \<Rightarrow> r)"

definition accepted_counter :: "string \<Rightarrow> call \<Rightarrow> doc \<Rightarrow> int option" where
  "accepted_counter u c d =
     (if target c \<noteq> u then None
      else (case (c, fst (exec c d)) of
              (Code _ code stamp, Verdict True) \<Rightarrow> counter_of (a_secret (abs_doc d u)) code stamp
            | (Second _ code stamp, Factor (Some ByTotp)) \<Rightarrow> counter_of (a_secret (abs_doc d u)) code stamp
            | (Confirm _ code stamp _ _, Codes (Some _)) \<Rightarrow> counter_of (a_pending (abs_doc d u)) code stamp
            | _ \<Rightarrow> None))"

fun accepted_counters :: "string \<Rightarrow> call list \<Rightarrow> doc \<Rightarrow> int list" where
  "accepted_counters u [] d = []"
| "accepted_counters u (c # cs) d =
     (case accepted_counter u c d of None \<Rightarrow> [] | Some m \<Rightarrow> [m]) @ accepted_counters u cs (snd (exec c d))"

definition spent_digest :: "string \<Rightarrow> call \<Rightarrow> doc \<Rightarrow> string list" where
  "spent_digest u c d =
     (if target c \<noteq> u then []
      else (case (c, fst (exec c d)) of
              (Recover _ code, Verdict True) \<Rightarrow> [hash_recovery code]
            | (Second _ code _, Factor (Some ByRecovery)) \<Rightarrow> [hash_recovery code]
            | _ \<Rightarrow> []))"

fun spent_digests :: "string \<Rightarrow> call list \<Rightarrow> doc \<Rightarrow> string list" where
  "spent_digests u [] d = []"
| "spent_digests u (c # cs) d = spent_digest u c d @ spent_digests u cs (snd (exec c d))"

lemma spec_code_cases:
  "spec_code code stamp a = (r, a') \<Longrightarrow>
     (r = Inr True \<and> a_enabled a \<and> (\<exists>m. counter_of (a_secret a) code stamp = Some m \<and> a_counter a < m \<and> a' = a\<lparr>a_counter := m\<rparr>))
     \<or> (r \<noteq> Inr True \<and> a' = a)"
  by (auto simp: spec_code_def counter_of_def split: if_splits sum.splits option.splits)

lemma spec_recover_cases:
  "spec_recover code a = (b, a') \<Longrightarrow>
     (b \<and> a_enabled a \<and> hash_recovery code \<in> set (a_recovery a) \<and> a' = a\<lparr>a_recovery := drop_digest (hash_recovery code) (a_recovery a)\<rparr>)
     \<or> (\<not> b \<and> a' = a)"
  by (auto simp: spec_recover_def split: if_splits)

lemma spec_second_cases:
  assumes "spec_second code stamp a = (r, a')"
  shows "(r = Inr (Some ByTotp) \<and> spec_code code stamp a = (Inr True, a'))
    \<or> (r = Inr (Some ByRecovery) \<and> spec_recover code a = (True, a'))
    \<or> (r \<noteq> Inr (Some ByTotp) \<and> r \<noteq> Inr (Some ByRecovery) \<and> a' = a)"
proof -
  obtain r1 a1 where c: "spec_code code stamp a = (r1, a1)" by fastforce
  obtain b a2 where k: "spec_recover code a = (b, a2)" by fastforce
  have eq: "a1 = a" if "r1 \<noteq> Inr True" using spec_code_cases[OF c] that by simp
  consider (err) x where "r1 = Inl x" | (hit) "r1 = Inr True" | (miss) "r1 = Inr False"
    by (cases r1) auto
  then show ?thesis
  proof cases
    case miss
    then have "a1 = a" using eq by simp
    then show ?thesis using assms miss c k spec_recover_cases[OF k]
      by (auto simp: spec_second_def split: bool.splits)
  qed (use assms c eq in \<open>auto simp: spec_second_def\<close>)
qed

lemma accepted_unfold:
  "target c = u \<Longrightarrow> exec c d = (ans, d') \<Longrightarrow> accepted_counter u c d =
     (case (c, ans) of
        (Code _ code stamp, Verdict True) \<Rightarrow> counter_of (a_secret (abs_doc d u)) code stamp
      | (Second _ code stamp, Factor (Some ByTotp)) \<Rightarrow> counter_of (a_secret (abs_doc d u)) code stamp
      | (Confirm _ code stamp _ _, Codes (Some _)) \<Rightarrow> counter_of (a_pending (abs_doc d u)) code stamp
      | _ \<Rightarrow> None)"
  by (simp add: accepted_counter_def)

lemma spent_unfold:
  "target c = u \<Longrightarrow> exec c d = (ans, d') \<Longrightarrow> spent_digest u c d =
     (case (c, ans) of
        (Recover _ code, Verdict True) \<Rightarrow> [hash_recovery code]
      | (Second _ code _, Factor (Some ByRecovery)) \<Rightarrow> [hash_recovery code]
      | _ \<Rightarrow> [])"
  by (simp add: spent_digest_def)

text \<open>One call and the counter of an account.\<close>

lemma accepted_step:
  assumes "settled d" "exec c d = (ans, d')" "c \<noteq> Disable u"
  shows "case accepted_counter u c d of
      None \<Rightarrow> a_enabled (abs_doc d' u) = a_enabled (abs_doc d u)
        \<and> (a_enabled (abs_doc d u) \<longrightarrow> a_counter (abs_doc d' u) = a_counter (abs_doc d u))
    | Some m \<Rightarrow> (a_enabled (abs_doc d u) \<longrightarrow> a_counter (abs_doc d u) < m)
        \<and> a_enabled (abs_doc d' u) \<and> a_counter (abs_doc d' u) = m"
proof (cases "target c = u")
  case False
  then show ?thesis using exec_spec[OF assms(1,2)] by (simp add: accepted_counter_def)
next
  case True
  have s: "spec_call c (abs_doc d u) = (ans, abs_doc d' u)" using exec_spec[OF assms(1,2)] True by simp
  note ac = accepted_unfold[OF True assms(2)]
  show ?thesis
  proof (cases c)
    case (Confirm v code stamp draws now)
    with s show ?thesis unfolding ac
      by (auto simp: counter_of_def dest!: sym[of _ "abs_doc d' u"] split: if_splits sum.splits option.splits)
  next
    case (Code v code stamp)
    then obtain r where "spec_code code stamp (abs_doc d u) = (r, abs_doc d' u)" "ans = answer_of Verdict r"
      using s by (auto split: prod.splits)
    then show ?thesis using spec_code_cases Code unfolding ac
      by (fastforce simp: answer_of_def split: sum.splits option.splits bool.splits)
  next
    case (Recover v code)
    then obtain b where "spec_recover code (abs_doc d u) = (b, abs_doc d' u)"
      using s by (auto split: prod.splits)
    then show ?thesis using spec_recover_cases Recover unfolding ac by fastforce
  next
    case (Second v code stamp)
    then obtain r where r: "spec_second code stamp (abs_doc d u) = (r, abs_doc d' u)" "ans = answer_of Factor r"
      using s by (auto split: prod.splits)
    from spec_second_cases[OF r(1)] show ?thesis
    proof (elim disjE conjE)
      assume "r = Inr (Some ByTotp)" "spec_code code stamp (abs_doc d u) = (Inr True, abs_doc d' u)"
      with spec_code_cases show ?thesis using Second r(2) unfolding ac
        by (fastforce simp: answer_of_def)
    next
      assume "r = Inr (Some ByRecovery)" "spec_recover code (abs_doc d u) = (True, abs_doc d' u)"
      with spec_recover_cases show ?thesis using Second r(2) unfolding ac
        by (fastforce simp: answer_of_def)
    next
      assume "r \<noteq> Inr (Some ByTotp)" "abs_doc d' u = abs_doc d u"
      then show ?thesis using Second r(2) unfolding ac
        by (auto simp: answer_of_def split: option.splits sum.splits factor.splits)
    qed
  qed (use s True assms(3) ac in \<open>auto simp: Let_def dest!: sym[of _ "abs_doc d' u"] split: if_splits\<close>)
qed

text \<open>One call and the recovery digests of an account.\<close>

lemma count_drop: "x \<in> set ds \<Longrightarrow> count_list (drop_digest x ds) y = count_list ds y - (if x = y then 1 else 0)"
proof -
  assume "x \<in> set ds"
  then obtain us vs where ds: "ds = us @ x # vs" "x \<notin> set vs" by (metis split_list_last)
  then have "drop_digest x ds = us @ vs" by (simp add: drop_digest_def remove1_append)
  then show ?thesis using ds by simp
qed

lemma spent_step:
  assumes "settled d" "exec c d = (ans, d')" "a_enabled (abs_doc d u)" "c \<noteq> Disable u" "\<And>draws. c \<noteq> Regenerate u draws"
  shows "a_enabled (abs_doc d' u)
    \<and> count_list (a_recovery (abs_doc d' u)) h + count_list (spent_digest u c d) h = count_list (a_recovery (abs_doc d u)) h"
proof (cases "target c = u")
  case False
  then show ?thesis using exec_spec[OF assms(1,2)] assms(3) by (simp add: spent_digest_def)
next
  case True
  have s: "spec_call c (abs_doc d u) = (ans, abs_doc d' u)" using exec_spec[OF assms(1,2)] True by simp
  note sp = spent_unfold[OF True assms(2)]
  have dropped: "count_list (drop_digest x ds) h + (if x = h then 1 else 0) = count_list ds h" if "x \<in> set ds" for x ds
    using count_drop[OF that, of h] that count_list_0_iff[of ds x] by auto
  show ?thesis
  proof (cases c)
    case (Code v code stamp)
    then obtain r where "spec_code code stamp (abs_doc d u) = (r, abs_doc d' u)"
      using s by (auto split: prod.splits)
    then show ?thesis using spec_code_cases Code assms(3) unfolding sp by fastforce
  next
    case (Recover v code)
    then obtain b where b: "spec_recover code (abs_doc d u) = (b, abs_doc d' u)" "ans = Verdict b"
      using s by (auto split: prod.splits)
    from spec_recover_cases[OF b(1)] show ?thesis
      using Recover b(2) assms(3) dropped[of "hash_recovery code" "a_recovery (abs_doc d u)"] unfolding sp by auto
  next
    case (Second v code stamp)
    then obtain r where r: "spec_second code stamp (abs_doc d u) = (r, abs_doc d' u)" "ans = answer_of Factor r"
      using s by (auto split: prod.splits)
    from spec_second_cases[OF r(1)] show ?thesis
    proof (elim disjE conjE)
      assume x: "r = Inr (Some ByTotp)" "spec_code code stamp (abs_doc d u) = (Inr True, abs_doc d' u)"
      from spec_code_cases[OF x(2)] show ?thesis using Second r(2) x(1) assms(3) unfolding sp
        by (auto simp: answer_of_def)
    next
      assume x: "r = Inr (Some ByRecovery)" "spec_recover code (abs_doc d u) = (True, abs_doc d' u)"
      from spec_recover_cases[OF x(2)] show ?thesis
        using Second r(2) x(1) assms(3) dropped[of "hash_recovery code" "a_recovery (abs_doc d u)"] unfolding sp
        by (auto simp: answer_of_def)
    next
      assume "r \<noteq> Inr (Some ByRecovery)" "abs_doc d' u = abs_doc d u"
      then show ?thesis using Second r(2) assms(3) unfolding sp
        by (auto simp: answer_of_def split: option.splits sum.splits factor.splits)
    qed
  qed (use s True assms(3-5) sp in \<open>auto simp: Let_def dest!: sym[of _ "abs_doc d' u"] split: if_splits sum.splits option.splits\<close>)
qed

section \<open>Properties\<close>

text \<open>
  C20: every operation of the service implements its specification on account states. Over a
  settled document with a working disk, whatever the account, the code's answer and the account
  states after it are the specification's, no other account changes, and the document stays
  settled.
\<close>

theorem twofa_refines_spec:
  assumes "settled d"
  shows "settled (snd (exec c d)) \<and> spec c (abs_doc d) = (fst (exec c d), abs_doc (snd (exec c d)))"
proof -
  obtain ans d' where x: "exec c d = (ans, d')" by fastforce
  note e = exec_spec[OF assms x]
  then have "spec c (abs_doc d) = (ans, (abs_doc d)(target c := abs_doc d' (target c)))"
    by (simp add: spec_def)
  moreover have "(abs_doc d)(target c := abs_doc d' (target c)) = abs_doc d'" using e by (auto simp: fun_eq_iff)
  ultimately show ?thesis using e x by simp
qed

lemma settled_missing: "settled None"
  by (simp add: settled_def stored_entry_def load_def user_entry_def dict_simps)

lemma twofa_refines_spec_witness:
  "fst (exec (Recover ''a'' ''x'') None) = Verdict False \<and> settled (snd (exec (Disable ''a'') None))"
  using twofa_refines_spec[OF settled_missing, of "Recover ''a'' ''x''"] twofa_refines_spec[OF settled_missing, of "Disable ''a''"]
  by (simp add: spec_def spec_recover_def abs_doc_def stored_entry_def load_def user_entry_def dict_simps no_acct_def)

text \<open>
  C18: a one-time code is accepted once while the factor stays on. Over any history of calls on any
  accounts in which the account is not disabled (disabling forgets the last accepted counter), the counters its verifications accept (the confirming one
  included) are strictly increasing, and all above the counter stored for an enrolled account:
  no code of an accepted or earlier step is ever accepted again.
\<close>

theorem counters_single_use:
  assumes "settled d" and "Disable u \<notin> set cs"
  shows "sorted_wrt (<) (accepted_counters u cs d)
    \<and> (a_enabled (abs_doc d u) \<longrightarrow> (\<forall>m \<in> set (accepted_counters u cs d). a_counter (abs_doc d u) < m))"
  using assms
proof (induction cs arbitrary: d)
  case Nil
  then show ?case by simp
next
  case (Cons c cs)
  obtain ans d' where x: "exec c d = (ans, d')" by fastforce
  have s: "settled d'" using exec_spec[OF Cons.prems(1) x] by simp
  have IH: "sorted_wrt (<) (accepted_counters u cs d')
    \<and> (a_enabled (abs_doc d' u) \<longrightarrow> (\<forall>m \<in> set (accepted_counters u cs d'). a_counter (abs_doc d' u) < m))"
    using Cons.IH[OF s] Cons.prems(2) by simp
  have st: "case accepted_counter u c d of
      None \<Rightarrow> a_enabled (abs_doc d' u) = a_enabled (abs_doc d u)
        \<and> (a_enabled (abs_doc d u) \<longrightarrow> a_counter (abs_doc d' u) = a_counter (abs_doc d u))
    | Some m \<Rightarrow> (a_enabled (abs_doc d u) \<longrightarrow> a_counter (abs_doc d u) < m)
        \<and> a_enabled (abs_doc d' u) \<and> a_counter (abs_doc d' u) = m"
    by (rule accepted_step[OF Cons.prems(1) x]) (use Cons.prems(2) in auto)
  show ?case
    using IH st by (cases "accepted_counter u c d") (auto simp: x)
qed

text \<open>
  C19: a recovery code is spent at most as often as its digest is stored: over any history of
  calls on an enrolled account, without a regeneration or disable in between, each digest is
  accepted at most as many times as it occurs in the stored list, so once for the distinct
  codes of an enrollment.
\<close>

theorem recovery_single_use:
  assumes "settled d" and "a_enabled (abs_doc d u)" and "Disable u \<notin> set cs" and "\<And>draws. Regenerate u draws \<notin> set cs"
  shows "count_list (spent_digests u cs d) h \<le> count_list (a_recovery (abs_doc d u)) h"
  using assms
proof (induction cs arbitrary: d)
  case Nil
  then show ?case by simp
next
  case (Cons c cs)
  obtain ans d' where x: "exec c d = (ans, d')" by fastforce
  have st: "a_enabled (abs_doc d' u)
    \<and> count_list (a_recovery (abs_doc d' u)) h + count_list (spent_digest u c d) h = count_list (a_recovery (abs_doc d u)) h"
    by (rule spent_step[OF Cons.prems(1) x Cons.prems(2)]) (use Cons.prems(3,4) in auto)
  have "settled d'" using exec_spec[OF Cons.prems(1) x] by simp
  then have "count_list (spent_digests u cs d') h \<le> count_list (a_recovery (abs_doc d' u)) h"
    using Cons.IH[of d'] st Cons.prems(3,4) by auto
  then show ?case using st by (simp add: x)
qed

text \<open>
  Enrollment pairs. Beginning an enrollment of an account without 2FA enforces nothing;
  the code an authenticator holding the returned secret shows, within the drift window of the
  server's clock, confirms it; from then on 2FA is enabled, ten recovery codes were issued, and
  each of them signs in.
\<close>

lemma enrollment_pairs:
  assumes "settled d" and "\<not> a_enabled (abs_doc d u)" and "rnd \<noteq> []"
    and "exec (Begin u rnd) d = (Pairing (secret, uri, manual), d1)"
    and "0 \<le> n" "n div 30 < 2 ^ 64" "0 \<le> m" "m div 30 < 2 ^ 64" "\<bar>n div 30 - m div 30\<bar> \<le> 1"
    and "totp_at secret (PInt m) step_seconds totp_digits = Inr code"
  shows "\<not> enabled good_disk u d1
    \<and> (\<exists>codes d2. exec (Confirm u code (PInt n) draws now) d1 = (Codes (Some codes), d2)
        \<and> length codes = 10 \<and> enabled good_disk u d2
        \<and> (\<forall>c \<in> set codes. fst (exec (Recover u c) d2) = Verdict True))"
proof -
  have en: "enabled good_disk v e = a_enabled (abs_doc e v)" for v e
    by (simp add: enabled_def abs_doc_def stored_entry_def entry_view_def)
  have b: "settled d1" "abs_doc d1 u = (abs_doc d u)\<lparr>a_pending := strip secret\<rparr>" "secret = generate_secret rnd"
    using exec_spec[OF assms(1,4)] assms(2) by (auto simp: Let_def)
  have ne: "b32_body rnd \<noteq> []" using secret_nonempty[OF assms(3)] by (simp add: generate_secret_body)
  have st: "strip secret = secret" "secret \<noteq> []"
    using b(3) ne b32_body_chars[of _ rnd]
    by (auto simp: generate_secret_body list_all_iff intro!: strip_no_space)
  have "\<exists>c. verify secret code (PInt n) drift_window step_seconds totp_digits = Inr (Some c)
      \<and> m div step_seconds \<le> c \<and> \<bar>n div step_seconds - c\<bar> \<le> drift_window"
    by (rule shown_code_accepted[OF _ _ _ _ _ _ _ assms(10)])
      (use assms in \<open>simp_all add: step_seconds_def totp_digits_def drift_window_def\<close>)
  then obtain c where c: "totp_verify secret code (PInt n) = Inr (Some c)" by (auto simp: totp_verify_def)
  obtain ans d2 where x: "exec (Confirm u code (PInt n) draws now) d1 = (ans, d2)" by fastforce
  have e: "ans = Codes (Some (new_recovery_codes draws))" "a_enabled (abs_doc d2 u)" "a_recovery (abs_doc d2 u) = digests draws" "settled d2"
    using exec_spec[OF b(1) x] c st assms(2) by (auto simp: b(2) dest!: sym[of _ "abs_doc d2 u"])
  have "fst (exec (Recover u k) d2) = Verdict True" if "k \<in> set (new_recovery_codes draws)" for k
  proof -
    have "hash_recovery k \<in> set (digests draws)" using that by (simp add: digests_def)
    then show ?thesis
      using twofa_refines_spec[OF e(4), of "Recover u k"] e by (simp add: spec_def spec_recover_def)
  qed
  moreover have "length (new_recovery_codes draws) = 10" by (simp add: new_recovery_codes_def recovery_codes_def)
  ultimately show ?thesis using e x b(2) assms(2) by (auto simp: en)
qed

section \<open>Witnesses\<close>

definition sample_key :: bytes where "sample_key = replicate 20 7"

definition sample_code :: string where "sample_code = hotp sample_key 2 6"

text \<open>An enrolled account with one recovery code, as a save leaves it.\<close>

definition sample_entry :: pydict where
  "sample_entry = [(''secret'', PStr (generate_secret sample_key)), (''enabled'', PBool True), (''confirmed_at'', PInt 60),
     (''recovery'', PList (map (\<lambda>c. PStr (hash_recovery c)) [''AAAAA-BBBBB''])), (''last_counter'', PInt 1)]"

definition sample_doc :: doc where
  "sample_doc = save good_disk (dict_set ''a'' sample_entry (load good_disk None)) None"

lemma sample_secret_strip: "strip (generate_secret sample_key) = generate_secret sample_key"
  using b32_body_chars[of _ sample_key]
  by (auto simp: generate_secret_body list_all_iff intro!: strip_no_space)

lemma sample_state:
  "settled sample_doc"
  "abs_doc sample_doc ''a'' = \<lparr>a_enabled = True, a_counter = 1, a_recovery = [hash_recovery ''AAAAA-BBBBB''],
     a_secret = generate_secret sample_key, a_pending = []\<rparr>"
proof -
  have "fits_digit_cap 1" by (rule fits_counter) simp_all
  from confirmed_entry[OF this sample_secret_strip, of "PInt 60" "[''AAAAA-BBBBB'']"]
  have e: "settled_entry sample_entry" "entry_view sample_entry = \<lparr>a_enabled = True, a_counter = 1,
      a_recovery = [hash_recovery ''AAAAA-BBBBB''], a_secret = generate_secret sample_key, a_pending = []\<rparr>"
    by (simp_all add: sample_entry_def)
  from write_account[OF settled_missing e(1), of "''a''"] e(2)
  show "settled sample_doc"
    "abs_doc sample_doc ''a'' = \<lparr>a_enabled = True, a_counter = 1, a_recovery = [hash_recovery ''AAAAA-BBBBB''],
       a_secret = generate_secret sample_key, a_pending = []\<rparr>"
    by (simp_all add: sample_doc_def)
qed

lemma sample_code_accepted:
  "\<exists>m. totp_verify (generate_secret sample_key) sample_code (PInt 95) = Inr (Some m) \<and> 1 < m"
proof -
  have "decode_secret (generate_secret sample_key) = Inr sample_key"
    by (rule decode_secret_dressed) (simp_all add: generate_secret_undressed sample_key_def)
  then have shown: "totp_at (generate_secret sample_key) (PInt 60) step_seconds totp_digits = Inr sample_code"
    by (simp add: totp_at_def step_counter_PInt step_seconds_def totp_digits_def sample_code_def)
  have "\<exists>c. verify (generate_secret sample_key) sample_code (PInt 95) drift_window step_seconds totp_digits = Inr (Some c)
      \<and> 60 div step_seconds \<le> c \<and> \<bar>95 div step_seconds - c\<bar> \<le> drift_window"
    by (rule shown_code_accepted[OF _ _ _ _ _ _ _ shown]) (simp_all add: step_seconds_def totp_digits_def drift_window_def)
  then show ?thesis by (auto simp: totp_verify_def step_seconds_def)
qed

lemma sample_secret_nonempty: "generate_secret sample_key \<noteq> []"
  using secret_nonempty[of sample_key] by (simp add: sample_key_def)

lemma counters_single_use_witness:
  "\<exists>m. accepted_counters ''a'' [Code ''a'' sample_code (PInt 95), Code ''a'' sample_code (PInt 95)] sample_doc = [m]"
proof -
  let ?c = "Code ''a'' sample_code (PInt 95)"
  obtain m where m: "totp_verify (generate_secret sample_key) sample_code (PInt 95) = Inr (Some m)" "1 < m"
    using sample_code_accepted by blast
  obtain ans d where x: "exec ?c sample_doc = (ans, d)" by fastforce
  have e: "ans = Verdict True" "a_secret (abs_doc d ''a'') = generate_secret sample_key" "settled d"
    using exec_spec[OF sample_state(1) x] m sample_secret_nonempty
    by (auto simp: sample_state(2) spec_code_def answer_of_def dest!: sym[of _ "abs_doc d ''a''"])
  have first: "accepted_counter ''a'' ?c sample_doc = Some m"
    using m by (simp add: accepted_unfold[OF _ x] e(1) sample_state(2) counter_of_def)
  have second: "accepted_counter ''a'' ?c d = None \<or> accepted_counter ''a'' ?c d = Some m"
    using m e(2) by (auto simp: accepted_counter_def counter_of_def split: answer.split bool.split)
  show ?thesis
    using counters_single_use[OF sample_state(1), of "''a''" "[?c, ?c]"] first second by (auto simp: x)
qed

lemma recovery_single_use_witness:
  "count_list (spent_digests ''a'' [Recover ''a'' ''AAAAA-BBBBB'', Recover ''a'' ''aaaaa bbbbb''] sample_doc) (hash_recovery ''AAAAA-BBBBB'') = 1"
proof -
  let ?h = "hash_recovery ''AAAAA-BBBBB''"
  let ?c = "Recover ''a'' ''AAAAA-BBBBB''"
  obtain ans d where x: "exec ?c sample_doc = (ans, d)" by fastforce
  have "ans = Verdict True"
    using exec_spec[OF sample_state(1) x] by (auto simp: sample_state(2) spec_recover_def)
  then have "spent_digest ''a'' ?c sample_doc = [?h]" by (simp add: spent_unfold[OF _ x])
  then show ?thesis
    using recovery_single_use[OF sample_state(1), of "''a''" "[?c, Recover ''a'' ''aaaaa bbbbb'']" ?h]
    by (simp add: sample_state(2))
qed

lemma enrollment_pairs_witness:
  "\<exists>d1 d2 codes code. enabled good_disk ''a'' d1 = False
     \<and> exec (Confirm ''a'' code (PInt 95) (\<lambda>_ _. 0) PNone) d1 = (Codes (Some codes), d2) \<and> enabled good_disk ''a'' d2"
proof -
  let ?s = "generate_secret sample_key"
  obtain d1 where b: "exec (Begin ''a'' sample_key) None
      = (Pairing (?s, otpauth_uri ?s ''a'' ''ServerHub'', manual_entry_groups ?s), d1)"
    by (auto simp: exec.simps begin_enrollment_def Let_def load_def user_entry_def dict_simps answer_of_def)
  have "decode_secret ?s = Inr sample_key"
    by (rule decode_secret_dressed) (simp_all add: generate_secret_undressed sample_key_def)
  then have t: "totp_at ?s (PInt 60) step_seconds totp_digits = Inr sample_code"
    by (simp add: totp_at_def step_counter_PInt step_seconds_def totp_digits_def sample_code_def)
  have off: "\<not> a_enabled (abs_doc None ''a'')"
    by (simp add: abs_doc_def stored_entry_def load_def user_entry_def dict_simps no_acct_def)
  have ne: "sample_key \<noteq> []" by (simp add: sample_key_def)
  have num: "0 \<le> (95::int)" "(95::int) div 30 < 2 ^ 64" "0 \<le> (60::int)" "(60::int) div 30 < 2 ^ 64"
    "\<bar>95 div 30 - 60 div 30\<bar> \<le> (1::int)" by simp_all
  show ?thesis using enrollment_pairs[OF settled_missing off ne b num t, of "\<lambda>_ _. 0" PNone] by blast
qed

end
