(* ===== verification/Api_Keys_Safety.thy ===== *)
theory Api_Keys_Safety
  imports Api_Keys Twofa_Safety
begin

text \<open>
  What a key store grants. \<open>key_table\<close> reads the store as the list of its grants (id, name, role,
  digest, expiry); a history is any sequence of verifications, revocations and mintings, each with
  its own outcome of the disk. A verification never changes the grants, whatever it writes.
\<close>

section \<open>Grants through load and save\<close>

type_synonym key_core = "pyval \<times> pyval \<times> pyval \<times> pyval \<times> pyval"

definition key_core :: "pydict \<Rightarrow> key_core" where
  "key_core r = (pyget r ''id'', pyget r ''name'', pyget r ''role'', pyget r ''digest'', pyget r ''expires'')"

definition core_digest :: "key_core \<Rightarrow> pyval" where
  "core_digest c = fst (snd (snd (snd c)))"

definition core_named :: "string \<Rightarrow> key_core \<Rightarrow> bool" where
  "core_named kid c \<longleftrightarrow> py_str (fst c) = Inr kid"

definition key_table :: "doc \<Rightarrow> key_core list" where
  "key_table file = map key_core (load_keys good_disk file)"

definition expiry_val :: "pyval \<Rightarrow> pyval" where
  "expiry_val v = (if v = PNone then PNone else PInt (case as_epoch v None of None \<Rightarrow> 0 | Some n \<Rightarrow> n))"

lemma core_persistable:
  "pyget (persistable_record r) ''id'' = json_safe 1 (pyget r ''id'')"
  "pyget (persistable_record r) ''name'' = json_safe 1 (pyget r ''name'')"
  "pyget (persistable_record r) ''role'' = json_safe 1 (pyget r ''role'')"
  "pyget (persistable_record r) ''digest'' = json_safe 1 (pyget r ''digest'')"
  "pyget (persistable_record r) ''expires'' = json_safe 1 (expiry_val (pyget r ''expires''))"
  by (simp_all add: persistable_record_def Let_def json_safe.simps[of 0] pyget_map finite_stamp_def expiry_val_def dict_simps)

lemma expiry_val_safe: "json_safe 1 (expiry_val (json_safe 1 (expiry_val v))) = json_safe 1 (expiry_val v)"
  by (auto simp: expiry_val_def json_safe.simps[of "Suc 0"])

lemma core_idem: "key_core (persistable_record (persistable_record r)) = key_core (persistable_record r)"
  using json_safe_idem expiry_val_safe by (simp add: key_core_def core_persistable)

lemma core_cong: "key_core r = key_core s \<Longrightarrow> key_core (persistable_record r) = key_core (persistable_record s)"
  by (simp add: key_core_def core_persistable)

lemma loaded_core: "r \<in> set (load_keys dk file) \<Longrightarrow> key_core (persistable_record r) = key_core r"
  by (auto simp: load_keys_def core_idem split: if_splits option.splits)

lemma load_saved: "load_keys good_disk (save_keys dk keys file)
    = (if d_write dk then map (persistable_record \<circ> persistable_record) keys else load_keys good_disk file)"
  by (simp add: load_keys_def save_keys_def store_rows_def pyget_def dict_get_def map_filter_def comp_def)

lemma table_saved:
  assumes "\<And>r. r \<in> set keys \<Longrightarrow> \<exists>s \<in> set (load_keys dk' file'). key_core r = key_core s"
  shows "key_table (save_keys dk keys file) = (if d_write dk then map key_core keys else key_table file)"
proof -
  have "key_core (persistable_record (persistable_record r)) = key_core r" if r: "r \<in> set keys" for r
  proof -
    obtain s where "s \<in> set (load_keys dk' file')" "key_core r = key_core s" using assms[OF r] by blast
    then show ?thesis using core_idem[of r] core_cong[of r s] loaded_core by metis
  qed
  then show ?thesis by (simp add: key_table_def load_saved)
qed

lemma load_good: "d_read dk \<Longrightarrow> load_keys dk file = load_keys good_disk file"
  by (simp add: load_keys_def)

lemma load_bad: "\<not> d_read dk \<Longrightarrow> load_keys dk file = []"
  by (simp add: load_keys_def)

section \<open>One operation\<close>

lemma last_hit_Some: "last_hit d keys = Some i \<Longrightarrow> i < length keys \<and> key_digest_eq (pyget (keys ! i) ''digest'') d"
  by (induction keys arbitrary: i) (auto split: option.splits if_splits)

lemma last_hit_None: "last_hit d keys = None \<longleftrightarrow> (\<forall>r \<in> set keys. \<not> key_digest_eq (pyget r ''digest'') d)"
  by (induction keys) (auto split: option.split)

lemma last_hit_split:
  "key_digest_eq (pyget r ''digest'') d \<Longrightarrow> (\<forall>s \<in> set post. \<not> key_digest_eq (pyget s ''digest'') d)
    \<Longrightarrow> last_hit d (pre @ r # post) = Some (length pre)"
  by (induction pre) (auto simp: last_hit_None[symmetric])

lemma core_used: "key_core (dict_set ''last_used'' v r) = key_core r"
  by (simp add: key_core_def dict_simps)

lemma verify_table: "key_table (snd (snd (verify_key dk token t seen file))) = key_table file"
proof (cases "d_read dk")
  case False
  then show ?thesis by (simp add: verify_key_def load_bad Let_def)
next
  case True
  show ?thesis
  proof (cases "last_hit (key_digest token) (load_keys good_disk file)")
    case (Some i)
    let ?keys = "load_keys good_disk file"
    have i: "i < length ?keys" using last_hit_Some[OF Some] by simp
    let ?hit = "dict_set ''last_used'' (PInt (rat_int t)) (?keys ! i)"
    have "key_table (save_keys dk (?keys[i := ?hit]) file) = (if d_write dk then map key_core (?keys[i := ?hit]) else key_table file)"
    proof (rule table_saved[where dk' = good_disk and file' = "file"])
      fix r assume "r \<in> set (?keys[i := ?hit])"
      then have "r = ?hit \<or> r \<in> set ?keys" using set_update_subset_insert by fastforce
      then show "\<exists>s \<in> set ?keys. key_core r = key_core s" using i core_used nth_mem by metis
    qed
    moreover have "map key_core (?keys[i := ?hit]) = key_table file"
      using i by (simp add: key_table_def map_update core_used list_update_same_conv)
    ultimately have save: "key_table (save_keys dk (?keys[i := ?hit]) file) = key_table file" by simp
    show ?thesis
      using Some save unfolding verify_key_def load_good[OF True] by (auto simp: Let_def)
  qed (simp add: verify_key_def load_good[OF True] Let_def)
qed

fun drop_first :: "('a \<Rightarrow> bool) \<Rightarrow> 'a list \<Rightarrow> 'a list" where
  "drop_first P [] = []"
| "drop_first P (x # xs) = (if P x then xs else x # drop_first P xs)"

lemma names_key_core: "names_key kid r \<longleftrightarrow> core_named kid (key_core r)"
  by (simp add: names_key_def core_named_def key_core_def)

lemma remove_key_shape:
  "remove_key kid keys = Some (r, rest) \<Longrightarrow> set rest \<subseteq> set keys \<and> map key_core rest = drop_first (core_named kid) (map key_core keys)"
  by (induction keys arbitrary: r rest) (auto simp: names_key_core split: if_splits option.splits)

lemma revoke_table:
  assumes "revoke dk kid seen file = (v, seen', file')"
  shows "key_table file' = (if v \<noteq> None \<and> d_write dk then drop_first (core_named kid) (key_table file) else key_table file)"
proof (cases "remove_key kid (load_keys dk file)")
  case None
  then show ?thesis using assms by (simp add: revoke_def)
next
  case (Some p)
  obtain r rest where p: "p = (r, rest)" by fastforce
  note shape = remove_key_shape[OF Some[unfolded p]]
  have "key_table (save_keys dk rest file) = (if d_write dk then map key_core rest else key_table file)"
    using shape by (intro table_saved[where dk' = dk and file' = "file"]) blast
  moreover have rd: "d_read dk" using Some load_bad[of dk "file"] by (cases "d_read dk") simp_all
  ultimately show ?thesis using assms Some p shape by (auto simp: revoke_def key_table_def load_good[OF rd])
qed

text \<open>A fresh record as a save leaves it.\<close>

definition new_core :: "string \<Rightarrow> string \<Rightarrow> string \<Rightarrow> string \<Rightarrow> int option \<Rightarrow> key_core" where
  "new_core kid name role digest expires = (PStr (''ak_'' @ kid), PStr name, PStr role, PStr digest, opt_int expires)"

definition printable_expiry :: "int option \<Rightarrow> bool" where
  "printable_expiry e \<longleftrightarrow> (case e of None \<Rightarrow> True | Some n \<Rightarrow> fits_digit_cap n)"

lemma new_record_fields:
  "pyget (new_record kid name role digest created e) ''id'' = PStr (''ak_'' @ kid)"
  "pyget (new_record kid name role digest created e) ''name'' = PStr name"
  "pyget (new_record kid name role digest created e) ''role'' = PStr role"
  "pyget (new_record kid name role digest created e) ''digest'' = PStr digest"
  "pyget (new_record kid name role digest created e) ''expires'' = opt_int e"
  by (simp_all add: new_record_def pyget_def dict_get_def)

lemma new_record_core:
  "printable_expiry e \<Longrightarrow> key_core (persistable_record (new_record kid name role digest created e)) = new_core kid name role digest e
    \<and> key_core (new_record kid name role digest created e) = new_core kid name role digest e"
  by (cases e) (simp_all add: key_core_def core_persistable new_core_def new_record_fields expiry_val_def opt_int_def printable_expiry_def)

lemma key_expiry_printable: "reading t \<Longrightarrow> key_expiry days t = Inr e \<Longrightarrow> printable_expiry e"
proof -
  assume t: "reading t" and e: "key_expiry days t = Inr e"
  show "printable_expiry e"
  proof (cases e)
    case (Some n)
    then obtain k where k: "n = rat_int t + k * 86400" "1 \<le> k" "k \<le> 3650"
      using e by (auto simp: key_expiry_def split: if_splits sum.splits)
    then have "0 \<le> n" "length (show_nat (nat n)) \<le> 400" using reading_digits[OF t, of "k * 86400"] by simp_all
    then show ?thesis using Some by (simp add: printable_expiry_def fits_digit_cap_def int_max_str_digits_def)
  qed (simp add: printable_expiry_def)
qed

lemma create_key_table:
  assumes "create_key dk seen secret kid t1 t2 name role days file = (Inr (v, token), file')" "reading t1" "d_write dk"
  obtains e where "token = key_prefix @ secret" "key_expiry days t1 = Inr e" "printable_expiry e"
    "v = public_view seen (new_record kid (strip name) role (key_digest token) (rat_int t2) e)"
    "key_table file' = (if d_read dk then key_table file else []) @ [new_core kid (strip name) role (key_digest token) e]"
proof -
  let ?rec = "\<lambda>e. new_record kid (strip name) role (key_digest token) (rat_int t2) e"
  obtain e where e: "token = key_prefix @ secret" "key_expiry days t1 = Inr e" "v = public_view seen (?rec e)"
    and f: "file' = save_keys dk (load_keys dk file @ [?rec e]) file"
    using assms(1) by (auto simp: create_key_def Let_def split: if_splits sum.splits)
  note p = key_expiry_printable[OF assms(2) e(2)]
  have one: "key_core (persistable_record (persistable_record r)) = key_core r" if "r \<in> set (load_keys dk file @ [?rec e])" for r
    using that loaded_core[of r dk "file"] core_idem[of r] new_record_core[OF p] by auto
  have "key_table file' = map key_core (load_keys dk file @ [?rec e])"
    using one assms(3) by (simp add: f key_table_def load_saved)
  moreover have "map key_core (load_keys dk file) = (if d_read dk then key_table file else [])"
    by (cases "d_read dk") (simp_all add: key_table_def load_good[of dk] load_bad)
  ultimately show thesis using that[OF e(1,2) p e(3)] new_record_core[OF p] by simp
qed

section \<open>Histories\<close>

datatype key_op =
    Verify string rat
  | Revoke string
  | Create string string rat rat string string pyval

fun key_step :: "disk \<Rightarrow> key_op \<Rightarrow> (string, int) dict \<times> doc \<Rightarrow> (string, int) dict \<times> doc" where
  "key_step dk (Verify token t) (seen, file) = snd (verify_key dk token t seen file)"
| "key_step dk (Revoke kid) (seen, file) = snd (revoke dk kid seen file)"
| "key_step dk (Create secret kid t1 t2 name role days) (seen, file) =
     (seen, snd (create_key dk seen secret kid t1 t2 name role days file))"

definition key_run :: "(disk \<times> key_op) list \<Rightarrow> (string, int) dict \<times> doc \<Rightarrow> (string, int) dict \<times> doc" where
  "key_run ops st = foldl (\<lambda>st x. key_step (fst x) (snd x) st) st ops"

lemma key_run_simps [simp]: "key_run [] st = st" "key_run (x # ops) st = key_run ops (key_step (fst x) (snd x) st)"
  by (simp_all add: key_run_def)

text \<open>What one operation may add: a minting its grant, the rest nothing.\<close>

definition mints :: "key_op \<Rightarrow> string \<Rightarrow> bool" where
  "mints op digest \<longleftrightarrow> (\<exists>secret kid t1 t2 name role days. op = Create secret kid t1 t2 name role days \<and> key_digest (key_prefix @ secret) = digest)"

definition timely :: "key_op \<Rightarrow> bool" where
  "timely op \<longleftrightarrow> (\<forall>secret kid t1 t2 name role days. op = Create secret kid t1 t2 name role days \<longrightarrow> reading t1)"

definition grants :: "string \<Rightarrow> key_core \<Rightarrow> bool" where
  "grants digest c \<longleftrightarrow> key_digest_eq (core_digest c) digest"

lemma key_digest_text: "key_digest tok \<noteq> []" "list_all is_ascii (key_digest tok)"
proof -
  have "length (key_digest tok) = 64" by (simp add: key_digest_def)
  then show "key_digest tok \<noteq> []" by auto
qed (simp add: key_digest_def hexdigest_ascii)

lemma key_digest_eq_PStr [simp]: "key_digest_eq (PStr (key_digest x)) (key_digest y) \<longleftrightarrow> key_digest x = key_digest y"
  using key_digest_text[of x] by (auto simp: key_digest_eq_def Let_def)

lemma grants_record: "grants d (key_core r) \<longleftrightarrow> key_digest_eq (pyget r ''digest'') d"
  by (simp add: grants_def core_digest_def key_core_def)

lemma set_drop_first: "set (drop_first P xs) \<subseteq> set xs"
  by (induction xs) auto

text \<open>The table after one step, as a relation on tables.\<close>

lemma key_step_table:
  assumes "timely op"
  obtains (keep) "key_table (snd (key_step dk op (seen, file))) = key_table file"
  | (drop) kid where "op = Revoke kid"
      "key_table (snd (key_step dk op (seen, file))) = drop_first (core_named kid) (key_table file)"
  | (add) old secret kid t1 t2 name role days e where "op = Create secret kid t1 t2 name role days"
      "old = (if d_read dk then key_table file else [])"
      "key_table (snd (key_step dk op (seen, file))) = old @ [new_core kid (strip name) role (key_digest (key_prefix @ secret)) e]"
proof (cases op)
  case (Verify token t)
  then show thesis using keep verify_table by simp
next
  case (Revoke kid)
  obtain v seen' file' where r: "revoke dk kid seen file = (v, seen', file')" by (metis prod_cases3)
  show thesis
    using keep drop[OF Revoke] revoke_table[OF r] Revoke r by (cases "v \<noteq> None \<and> d_write dk") auto
next
  case (Create secret kid t1 t2 name role days)
  obtain res file' where c: "create_key dk seen secret kid t1 t2 name role days file = (res, file')" by fastforce
  show thesis
  proof (cases "res")
    case (Inl x)
    then have "file' = file" using c by (auto simp: create_key_def Let_def split: if_splits sum.splits)
    then show thesis using keep Create c by simp
  next
    case (Inr p)
    obtain v token where p: "p = (v, token)" by fastforce
    have t: "token = key_prefix @ secret" using c Inr p by (auto simp: create_key_def Let_def split: if_splits sum.splits)
    show thesis
    proof (cases "d_write dk")
      case True
      from create_key_table[OF c[unfolded Inr p] _ True] assms Create t add[OF Create refl] c
      show thesis by (auto simp: timely_def)
    next
      case False
      then have "file' = file" using c Inr by (auto simp: create_key_def save_keys_def Let_def split: if_splits sum.splits)
      then show thesis using keep Create c by simp
    qed
  qed
qed

lemma verify_no_grant: "(\<And>c. c \<in> set (key_table file) \<Longrightarrow> \<not> grants (key_digest token) c) \<Longrightarrow> fst (verify_key dk token t seen file) = None"
proof -
  assume n: "\<And>c. c \<in> set (key_table file) \<Longrightarrow> \<not> grants (key_digest token) c"
  have "set (load_keys dk file) \<subseteq> set (load_keys good_disk file)"
    by (cases "d_read dk") (simp_all add: load_good[of dk] load_bad)
  moreover have "\<not> key_digest_eq (pyget r ''digest'') (key_digest token)" if "r \<in> set (load_keys good_disk file)" for r
    using n[of "key_core r"] that by (simp add: key_table_def grants_record)
  ultimately have "last_hit (key_digest token) (load_keys dk file) = None" by (auto simp: last_hit_None)
  then show ?thesis by (simp add: verify_key_def Let_def)
qed

text \<open>
  C10: a revoked key stays revoked. When the key that presents a digest is revoked and saved, no
  later history of verifications, revocations and mintings of other keys, whatever reads and writes
  fail on the way, makes its token verify again.
\<close>

theorem revoked_key_rejected:
  assumes "revoke good_disk kid seen file = (Some v, seen', file')"
    and "\<And>c. c \<in> set (drop_first (core_named kid) (key_table file)) \<Longrightarrow> \<not> grants (key_digest token) c"
    and "\<And>x. x \<in> set ops \<Longrightarrow> timely (snd x) \<and> \<not> mints (snd x) (key_digest token)"
  shows "fst (verify_key dk token t (fst (key_run ops (seen', file'))) (snd (key_run ops (seen', file')))) = None"
proof -
  have run: "\<forall>c \<in> set (key_table (snd (key_run ops st))). \<not> grants (key_digest token) c"
    if "\<forall>c \<in> set (key_table (snd st)). \<not> grants (key_digest token) c" for st
    using that assms(3)
  proof (induction ops arbitrary: st)
    case (Cons x ops)
    obtain sn fl where st: "st = (sn, fl)" by fastforce
    have x: "timely (snd x)" "\<not> mints (snd x) (key_digest token)" using Cons.prems(2)[of x] by auto
    have "\<forall>c \<in> set (key_table (snd (key_step (fst x) (snd x) st))). \<not> grants (key_digest token) c"
    proof (rule key_step_table[OF x(1), of "fst x" sn fl])
      fix kid assume "key_table (snd (key_step (fst x) (snd x) (sn, fl))) = drop_first (core_named kid) (key_table fl)"
      then show ?thesis using Cons.prems(1) set_drop_first[of "core_named kid" "key_table fl"] st by auto
    next
      fix old secret kid t1 t2 name role days e
      assume a: "snd x = Create secret kid t1 t2 name role days" "old = (if d_read (fst x) then key_table fl else [])"
        "key_table (snd (key_step (fst x) (snd x) (sn, fl))) = old @ [new_core kid (strip name) role (key_digest (key_prefix @ secret)) e]"
      have "key_digest (key_prefix @ secret) \<noteq> key_digest token" using x(2) a(1) by (auto simp: mints_def)
      then show ?thesis using Cons.prems(1) a st by (auto simp: grants_def core_digest_def new_core_def)
    qed (use Cons.prems(1) st in simp)
    then show ?case using Cons.IH Cons.prems(2) by simp
  qed simp
  have "key_table file' = drop_first (core_named kid) (key_table file)" using revoke_table[OF assms(1)] by simp
  then show ?thesis using run[of "(seen', file')"] assms(2) by (intro verify_no_grant) auto
qed

lemma drop_first_split:
  "\<not> P c \<Longrightarrow> \<exists>pre' post'. drop_first P (pre @ c # post) = pre' @ c # post' \<and> set post' \<subseteq> set post"
proof (induction pre)
  case Nil
  then show ?case using set_drop_first[of P post] by (intro exI[of _ "[]"] exI[of _ "drop_first P post"]) simp
next
  case (Cons x pre)
  show ?case
  proof (cases "P x")
    case False
    obtain pre' post' where "drop_first P (pre @ c # post) = pre' @ c # post'" "set post' \<subseteq> set post" using Cons by blast
    then show ?thesis using False by (intro exI[of _ "x # pre'"] exI[of _ post']) simp
  qed auto
qed

text \<open>The grant stands in the table, and no later grant has its digest.\<close>

definition standing :: "key_core \<Rightarrow> string \<Rightarrow> doc \<Rightarrow> bool" where
  "standing c digest file \<longleftrightarrow> (\<exists>pre post. key_table file = pre @ c # post \<and> (\<forall>x \<in> set post. \<not> grants digest x))"

definition spares :: "string \<Rightarrow> string \<Rightarrow> disk \<times> key_op \<Rightarrow> bool" where
  "spares kid digest x \<longleftrightarrow>
     timely (snd x) \<and> \<not> mints (snd x) digest \<and> snd x \<noteq> Revoke kid
     \<and> (d_read (fst x) \<or> (\<forall>secret k t1 t2 name role days. snd x \<noteq> Create secret k t1 t2 name role days))"

lemma standing_step:
  assumes "standing c (key_digest token) file" "fst c = PStr kid" "spares kid (key_digest token) (dk, op)"
  shows "standing c (key_digest token) (snd (key_step dk op (seen, file)))"
proof -
  obtain pre post where t: "key_table file = pre @ c # post" "\<forall>x \<in> set post. \<not> grants (key_digest token) x"
    using assms(1) by (auto simp: standing_def)
  have op: "timely op" "\<not> mints op (key_digest token)" "op \<noteq> Revoke kid" using assms(3) by (auto simp: spares_def)
  show ?thesis
  proof (rule key_step_table[OF op(1), of dk seen "file"])
    fix k assume k: "op = Revoke k" "key_table (snd (key_step dk op (seen, file))) = drop_first (core_named k) (key_table file)"
    then have "\<not> core_named k c" using op(3) assms(2) by (auto simp: core_named_def)
    from drop_first_split[of "core_named k", OF this, of pre post] show ?thesis using k t by (auto simp: standing_def)
  next
    fix old secret k t1 t2 name role days e
    assume a: "op = Create secret k t1 t2 name role days" "old = (if d_read dk then key_table file else [])"
      "key_table (snd (key_step dk op (seen, file))) = old @ [new_core k (strip name) role (key_digest (key_prefix @ secret)) e]"
    have "\<not> grants (key_digest token) (new_core k (strip name) role (key_digest (key_prefix @ secret)) e)"
      using op(2) a(1) by (auto simp: mints_def grants_def core_digest_def new_core_def)
    moreover have "old = pre @ c # post" using a assms(3) t(1) by (auto simp: spares_def)
    ultimately show ?thesis using a(3) t(2) unfolding standing_def by fastforce
  qed (use assms(1) in \<open>simp add: standing_def\<close>)
qed

lemma standing_run:
  "standing c (key_digest token) (snd st) \<Longrightarrow> fst c = PStr kid \<Longrightarrow> (\<And>x. x \<in> set ops \<Longrightarrow> spares kid (key_digest token) x)
    \<Longrightarrow> standing c (key_digest token) (snd (key_run ops st))"
proof (induction ops arbitrary: st)
  case (Cons x ops)
  have "standing c (key_digest token) (snd (key_step (fst x) (snd x) st))"
    using standing_step[of c token "snd st" kid "fst x" "snd x" "fst st"] Cons.prems(1,2) Cons.prems(3)[of x] by simp
  then show ?case using Cons by simp
qed simp

lemma expired_core: "pyget r ''expires'' = opt_int e \<Longrightarrow> printable_expiry e
    \<Longrightarrow> key_expired r now \<longleftrightarrow> (case e of None \<Rightarrow> False | Some n \<Rightarrow> n \<le> now)"
  by (auto simp: key_expired_def opt_int_def printable_expiry_def split: option.split)

lemma verify_standing:
  assumes "standing (new_core kid name role (key_digest token) e) (key_digest token) file" "d_read dk" "looks_like_key token"
    and "printable_expiry e" "name \<noteq> []" "role \<noteq> []"
  shows "map_option (\<lambda>v. (kv_id v, kv_name v, kv_role v)) (fst (verify_key dk token t seen file))
    = (case e of None \<Rightarrow> Some (''ak_'' @ kid, name, role)
       | Some n \<Rightarrow> if n \<le> rat_int t then None else Some (''ak_'' @ kid, name, role))"
proof -
  let ?c = "new_core kid name role (key_digest token) e"
  obtain pre post where t: "key_table file = pre @ ?c # post" "\<forall>x \<in> set post. \<not> grants (key_digest token) x"
    using assms(1) by (auto simp: standing_def)
  then obtain xs r ys where k: "load_keys good_disk file = xs @ r # ys" "key_core r = ?c" "map key_core ys = post"
    by (auto simp: key_table_def map_eq_append_conv map_eq_Cons_conv)
  have r: "pyget r ''id'' = PStr (''ak_'' @ kid)" "pyget r ''name'' = PStr name" "pyget r ''role'' = PStr role"
    "pyget r ''digest'' = PStr (key_digest token)" "pyget r ''expires'' = opt_int e"
    using k(2) by (simp_all add: key_core_def new_core_def)
  have "\<forall>s \<in> set ys. \<not> key_digest_eq (pyget s ''digest'') (key_digest token)"
    using t(2) k(3) by (auto simp: grants_record)
  then have hit: "last_hit (key_digest token) (load_keys dk file) = Some (length xs)"
    unfolding load_good[OF assms(2)] k(1) using r(4) by (intro last_hit_split) simp_all
  have at: "load_keys dk file ! length xs = r" unfolding load_good[OF assms(2)] k(1) by simp
  have view: "kv_id (public_view sn (dict_set ''last_used'' v r)) = ''ak_'' @ kid \<and> kv_id (public_view sn r) = ''ak_'' @ kid"
    "kv_name (public_view sn (dict_set ''last_used'' v r)) = name \<and> kv_name (public_view sn r) = name"
    "kv_role (public_view sn (dict_set ''last_used'' v r)) = role \<and> kv_role (public_view sn r) = role" for sn v
    using r assms(5,6) by (simp_all add: public_view_def Let_def field_text_def dict_simps)
  show ?thesis
    using hit at assms(3) view expired_core[OF r(5) assms(4), of "rat_int t"]
    by (auto simp: verify_key_def Let_def split: option.split)
qed

text \<open>
  A minted key works until it expires. After a successful, saved minting the shown token
  verifies as exactly that key's id, name and role at every reading before its expiry and at none
  from then on, through every later history that neither revokes its id nor mints its digest again
  (and mints nothing over a store it could not read).
\<close>

lemma minted_key_works:
  assumes "create_key good_disk seen secret kid t1 t2 name role days file = (Inr (view, token), file')" "reading t1"
    and "\<And>x. x \<in> set ops \<Longrightarrow> spares (kv_id view) (key_digest token) x" "d_read dk"
  shows "(kv_name view, kv_role view) = (strip name, role)
    \<and> map_option (\<lambda>v. (kv_id v, kv_name v, kv_role v))
        (fst (verify_key dk token t (fst (key_run ops (seen, file'))) (snd (key_run ops (seen, file')))))
      = (case kv_expires view of None \<Rightarrow> Some (kv_id view, kv_name view, kv_role view)
         | Some n \<Rightarrow> if n \<le> rat_int t then None else Some (kv_id view, kv_name view, kv_role view))"
proof -
  obtain e where c: "token = key_prefix @ secret" "printable_expiry e"
    "view = public_view seen (new_record kid (strip name) role (key_digest token) (rat_int t2) e)"
    "key_table file' = key_table file @ [new_core kid (strip name) role (key_digest token) e]"
    using create_key_table[OF assms(1,2)] by auto
  have ne: "strip name \<noteq> []" "role \<noteq> []"
    using assms(1) by (auto simp: create_key_def Let_def key_roles_def split: if_splits)
  have view: "kv_id view = ''ak_'' @ kid" "kv_name view = strip name" "kv_role view = role" "kv_expires view = e"
    using ne c(2) unfolding c(3)
    by (auto simp: public_view_def Let_def field_text_def new_record_fields stamp_view_def opt_int_def printable_expiry_def split: option.splits)
  have "standing (new_core kid (strip name) role (key_digest token) e) (key_digest token) (snd (seen, file'))"
    unfolding standing_def by (intro exI[of _ "key_table file"] exI[of _ "[]"]) (simp add: c(4))
  from standing_run[OF this _ assms(3)] view(1)
  have "standing (new_core kid (strip name) role (key_digest token) e) (key_digest token) (snd (key_run ops (seen, file')))"
    by (simp add: new_core_def)
  moreover have "looks_like_key token" by (simp add: c(1) looks_like_key_def startswith_def key_prefix_def)
  ultimately show ?thesis unfolding view using verify_standing[OF _ assms(4) _ c(2) ne] by simp
qed

section \<open>Witnesses\<close>

definition torn_disk :: disk where
  "torn_disk = \<lparr>d_read = False, d_write = False\<rparr>"

lemma minted_key_works_witness:
  "\<exists>view file'. create_key good_disk [] ''s'' ''01'' 0 0 ''mon'' ''member'' (PInt 1) None = (Inr (view, ''shk_s''), file')
    \<and> kv_expires view = Some 86400
    \<and> map_option kv_role (fst (verify_key good_disk ''shk_s'' 86399
          (fst (key_run [(good_disk, Verify ''shk_s'' 5), (torn_disk, Revoke ''ak_02'')] ([], file')))
          (snd (key_run [(good_disk, Verify ''shk_s'' 5), (torn_disk, Revoke ''ak_02'')] ([], file'))))) = Some ''member''"
proof -
  let ?ops = "[(good_disk, Verify ''shk_s'' 5), (torn_disk, Revoke ''ak_02'')]"
  have st: "strip ''mon'' = ''mon''" "py_len ''mon'' = 3" by code_simp+
  have f: "fits_digit_cap 86400" using length_show_nat[of 5 86400] by (simp add: fits_digit_cap_def int_max_str_digits_def)
  obtain view file' where c: "create_key good_disk [] ''s'' ''01'' 0 0 ''mon'' ''member'' (PInt 1) None = (Inr (view, ''shk_s''), file')"
    "kv_id view = ''ak_01''" "kv_expires view = Some 86400"
  proof (rule that)
    let ?view = "public_view [] (new_record ''01'' ''mon'' ''member'' (key_digest ''shk_s'') 0 (Some 86400))"
    show "create_key good_disk [] ''s'' ''01'' 0 0 ''mon'' ''member'' (PInt 1) None
      = (Inr (?view, ''shk_s''), save_keys good_disk [new_record ''01'' ''mon'' ''member'' (key_digest ''shk_s'') 0 (Some 86400)] None)"
      by (simp add: create_key_def Let_def st max_name_length_def key_roles_def key_expiry_def load_keys_def max_keys_def
          key_prefix_def rat_int_def)
    show "kv_id ?view = ''ak_01''" "kv_expires ?view = Some 86400"
      using f by (simp_all add: public_view_def Let_def field_text_def new_record_fields stamp_view_def opt_int_def)
  qed
  have r: "reading 0" by (simp add: reading_def)
  have sp: "spares (kv_id view) (key_digest ''shk_s'') x" if "x \<in> set ?ops" for x
    using that by (auto simp: spares_def timely_def mints_def c(2))
  have "kv_role view = ''member'' \<and> map_option (\<lambda>v. (kv_id v, kv_name v, kv_role v))
      (fst (verify_key good_disk ''shk_s'' 86399 (fst (key_run ?ops ([], file'))) (snd (key_run ?ops ([], file')))))
    = Some (kv_id view, kv_name view, kv_role view)"
    using minted_key_works[OF c(1) r sp, of ?ops good_disk 86399] c(3) by (auto simp: rat_int_def simp del: key_run_simps)
  then show ?thesis
    using c by (intro exI[of _ view] exI[of _ file']) (auto simp del: key_run_simps)
qed

definition one_key :: "string \<Rightarrow> doc" where
  "one_key digest = Some (PDict [(''keys'', PList [PDict [(''id'', PStr ''ak_1''), (''digest'', PStr digest)]])])"

lemma revoked_key_rejected_witness:
  "\<exists>v seen file. revoke good_disk ''ak_1'' [] (one_key (key_digest ''shk_s'')) = (Some v, seen, file)
    \<and> fst (verify_key good_disk ''shk_s'' 7 (fst (key_run [(torn_disk, Verify ''shk_s'' 5)] (seen, file)))
        (snd (key_run [(torn_disk, Verify ''shk_s'' 5)] (seen, file)))) = None"
proof -
  let ?f = "one_key (key_digest ''shk_s'')"
  have l: "load_keys good_disk ?f = [[(''id'', PStr ''ak_1''), (''digest'', PStr (key_digest ''shk_s''))]]"
    by (simp add: load_keys_def one_key_def store_rows_def pyget_def dict_get_def List.map_filter_simps
        persistable_record_def finite_stamp_def Let_def json_safe.simps[of 0])
  obtain v seen' file' where r: "revoke good_disk ''ak_1'' [] ?f = (Some v, seen', file')"
    by (simp add: revoke_def l names_key_def pyget_def dict_get_def)
  have d: "drop_first (core_named ''ak_1'') (key_table ?f) = []"
    by (simp add: key_table_def l core_named_def key_core_def pyget_def dict_get_def)
  have "fst (verify_key good_disk ''shk_s'' 7 (fst (key_run [(torn_disk, Verify ''shk_s'' 5)] (seen', file')))
        (snd (key_run [(torn_disk, Verify ''shk_s'' 5)] (seen', file')))) = None"
    by (rule revoked_key_rejected[OF r]) (auto simp: d timely_def mints_def)
  then show ?thesis using r by blast
qed

end
