(* ===== verification/Gate_Safety.thy ===== *)
theory Gate_Safety
  imports Request_Gate Api_Keys_Safety
begin

text \<open>
  What the gate lets through: the credential behind every accepted mutation, and the few read-only
  routes a member session or a member key reaches, the routes' own guards included.
\<close>

lemma live_earlier: "live_stamp a p later \<Longrightarrow> now \<le> later \<Longrightarrow> live_stamp a p now"
  by (cases p) (auto simp: live_stamp_def split: sum.splits)

lemma verify_session_earlier: "verify_session key a token later \<Longrightarrow> now \<le> later \<Longrightarrow> verify_session key a token now"
  using live_earlier by (auto simp: verify_session_fields split: option.splits)

lemma session_username_known: "session_username key a token now \<noteq> [] \<Longrightarrow> verify_session key a token now"
  by (auto simp: session_username_def split: if_splits)

lemma nobody_not_admin: "\<not> is_admin a []"
  by (simp add: is_admin_def role_of_def account_def)

lemma keyless_username: "request_username key a cookie None now = session_username key a cookie now"
  by (simp add: request_username_def Let_def)

text \<open>The grant behind an accepted key.\<close>

lemma verify_key_grant:
  assumes "verify_key dk token t seen file = (Some view, st)"
  shows "\<exists>c \<in> set (key_table file). grants (key_digest token) c \<and> looks_like_key token
    \<and> (\<exists>r \<in> set (load_keys good_disk file). c = key_core r \<and> \<not> key_expired r (rat_int t)
        \<and> kv_role view = field_text r ''role'' ''member'' \<and> kv_name view = field_text r ''name'' [])"
proof -
  have l: "looks_like_key token" using assms by (auto simp: verify_key_def split: if_splits)
  obtain i where i: "last_hit (key_digest token) (load_keys dk file) = Some i"
    using assms by (auto simp: verify_key_def Let_def split: if_splits option.splits)
  note hit = last_hit_Some[OF i]
  then have rd: "d_read dk" using load_bad[of dk "file"] by (cases "d_read dk") auto
  let ?r = "load_keys good_disk file ! i"
  have r: "?r \<in> set (load_keys good_disk file)" "key_digest_eq (pyget ?r ''digest'') (key_digest token)"
    using hit unfolding load_good[OF rd] by auto
  have "\<not> key_expired ?r (rat_int t)" "kv_role view = field_text ?r ''role'' ''member''" "kv_name view = field_text ?r ''name'' []"
    using assms i l unfolding load_good[OF rd]
    by (auto simp: verify_key_def Let_def load_good[OF rd] public_view_def field_text_def dict_simps split: if_splits)
  then show ?thesis using r l by (intro bexI[of _ "key_core ?r"]) (auto simp: key_table_def grants_record)
qed

text \<open>Every branch of the gate that lets a request through.\<close>

lemma require_auth_cases:
  assumes "require_auth dk p clock r (seen, file) = (Inr kind, keys')"
  obtains (session) "verify_session (pn_key p) (pn_auth p) (rq_cookie r) (clock 0)"
      "kind = (if is_admin (pn_auth p) (session_username (pn_key p) (pn_auth p) (rq_cookie r) (clock 1)) then BrowserAdmin
        else if route_has_own_admin_guard r then OwnGuard else BrowserMember)"
      "kind = BrowserMember \<Longrightarrow> member_request_authorized (pn_auth p) r
        (session_username (pn_key p) (pn_auth p) (rq_cookie r) (clock 1))"
  | (key) view st where "\<not> verify_session (pn_key p) (pn_auth p) (rq_cookie r) (clock 0)"
      "verify_key dk (bearer_token r) (clock 1) seen file = (Some view, st)"
      "kind = (if kv_role view = ''admin'' then KeyAdmin else KeyMember)"
      "kind = KeyMember \<Longrightarrow> member_request_authorized (pn_auth p) r
        (request_username (pn_key p) (pn_auth p) (rq_cookie r) (Some view) (clock 2))"
  | (other) "\<not> verify_session (pn_key p) (pn_auth p) (rq_cookie r) (clock 0)" "local_or_basic p r = Inr kind"
proof -
  let ?s = "verify_session (pn_key p) (pn_auth p) (rq_cookie r) (clock 0)"
  let ?u = "session_username (pn_key p) (pn_auth p) (rq_cookie r) (clock 1)"
  have set: "\<not> setup_required (pn_auth p)" using assms by (auto simp: require_auth_def Let_def)
  show thesis
  proof (cases ?s)
    case True
    have "(if is_admin (pn_auth p) ?u then Inr BrowserAdmin
          else if route_has_own_admin_guard r then Inr OwnGuard
          else if member_request_authorized (pn_auth p) r ?u then Inr BrowserMember
          else Inl ''auth.admin_required'') = Inr kind"
      using arg_cong[OF assms, of fst] set True by (simp add: require_auth_def Let_def keyless_username split del: if_split del: One_nat_def)
    then show thesis by (intro session[OF True]) (auto split: if_splits)
  next
    case False
    show thesis
    proof (cases "looks_like_key (bearer_token r)")
      case True
      obtain v st where v: "verify_key dk (bearer_token r) (clock 1) seen file = (v, st)" by (cases "verify_key dk (bearer_token r) (clock 1) seen file") simp
      then obtain view where view: "v = Some view"
        using assms set False True by (cases v) (simp_all add: require_auth_def Let_def)
      have "(if kv_role view = ''admin'' then Inr KeyAdmin
            else if member_request_authorized (pn_auth p) r
              (request_username (pn_key p) (pn_auth p) (rq_cookie r) (Some view) (clock 2)) then Inr KeyMember
            else Inl ''auth.admin_required'') = Inr kind"
        using arg_cong[OF assms, of fst] set False True v view by (simp add: require_auth_def Let_def split del: if_split del: One_nat_def)
      then show thesis by (intro key[OF False v[unfolded view]]) (auto split: if_splits)
    next
      case no: False
      then show thesis using other[OF False] assms set False no by (simp add: require_auth_def Let_def)
    qed
  qed
qed

text \<open>
  C2: a mutation needs authority. Whatever credentials a request carries, if the gate lets a
  method other than GET, HEAD and OPTIONS through, then either the route guards itself and the
  caller holds a session or the local token, or one of four things holds: the session is an
  administrator's; the bearer is a stored, unexpired key with the administrator role; the caller is
  the machine itself (loopback peer, no proxy header) with the local token, on one of two routes; or
  the Basic password is right for an administrator or for the configured administrator name.
\<close>

theorem mutation_needs_authority:
  assumes "require_auth dk p clock r (seen, file) = (Inr kind, keys')" "\<not> reads_only r"
  shows "(route_has_own_admin_guard r \<and>
      (verify_session (pn_key p) (pn_auth p) (rq_cookie r) (clock 0) \<or> local_client_authenticated (pn_local_token p) r))
    \<or> is_admin (pn_auth p) (session_username (pn_key p) (pn_auth p) (rq_cookie r) (clock 1))
    \<or> (\<exists>k \<in> set (load_keys good_disk file). grants (key_digest (bearer_token r)) (key_core k)
        \<and> \<not> key_expired k (rat_int (clock 1)) \<and> field_text k ''role'' ''member'' = ''admin'')
    \<or> (local_client_authenticated (pn_local_token p) r \<and> rq_peer r \<in> {''127.0.0.1'', ''::1''}
        \<and> header r ''x-forwarded-for'' = [] \<and> upper (rq_method r) = ''POST''
        \<and> route_path r \<in> {''/api/action'', ''/api/containers/all''})
    \<or> (\<exists>user password. rq_basic r = Some (user, password) \<and> verify_account_password (pn_auth p) user password
        \<and> (is_admin (pn_auth p) user \<or> user = basic_admin_name (pn_auth p)))"
  using assms(1)
proof (cases rule: require_auth_cases)
  case session
  then show ?thesis using assms(2) by (auto simp: member_request_authorized_def split: if_splits)
next
  case (key view st)
  have "kv_role view = ''admin''"
    using key(3,4) assms(2) by (auto simp: member_request_authorized_def split: if_splits)
  then show ?thesis using verify_key_grant[OF key(2)] by fastforce
next
  case other
  have loc: "rq_peer r \<in> {''127.0.0.1'', ''::1''} \<and> header r ''x-forwarded-for'' = []"
    if "local_client_authenticated (pn_local_token p) r"
    using that by (auto simp: local_client_authenticated_def is_direct_loopback_def is_loopback_def loopback_hosts_def
        proxy_hint_headers_def Let_def)
  have route: "upper (rq_method r) = ''POST'' \<and> route_path r \<in> {''/api/action'', ''/api/containers/all''}"
    if "local_client_authorized r"
    using that assms(2) by (auto simp: local_client_authorized_def local_routes_def reads_only_def)
  show ?thesis using other(2) loc route by (auto simp: local_or_basic_def Let_def split: if_splits option.splits)
qed

text \<open>What the gate alone lets through: what it leaves to a route's own guard is the first disjunct.\<close>

lemma gate_lets_read:
  assumes "require_auth dk p clock r (seen, file) = (Inr kind, keys')" "clock 0 \<le> clock 2"
    and "\<not> is_admin (pn_auth p) (session_username (pn_key p) (pn_auth p) (rq_cookie r) (clock 1))"
    and "\<And>k. k \<in> set (load_keys good_disk file) \<Longrightarrow> grants (key_digest (bearer_token r)) (key_core k)
      \<Longrightarrow> field_text k ''role'' ''member'' \<noteq> ''admin''"
    and "\<not> local_client_authenticated (pn_local_token p) r" "rq_basic r = None"
  shows "(route_has_own_admin_guard r \<and> verify_session (pn_key p) (pn_auth p) (rq_cookie r) (clock 0))
    \<or> (reads_only r \<and> (route_path r \<in> {''/api/health'', ''/api/status'', ''/api/services''}
        \<or> (\<exists>res. path_parts r = [''api'', ''services'', res, ''detail''] \<and> res \<noteq> []
            \<and> res \<in> set (allowed_resources (pn_auth p) (session_username (pn_key p) (pn_auth p) (rq_cookie r) (clock 1))))))"
  using assms(1)
proof (cases rule: require_auth_cases)
  case session
  show ?thesis
  proof (cases "route_has_own_admin_guard r")
    case True
    then show ?thesis using session(1) by simp
  next
    case False
    then have "kind = BrowserMember" using session(2) assms(3) by simp
    from session(3)[OF this] show ?thesis
      using assms(3) by (auto simp: member_request_authorized_def member_routes_def may_use_resource_def split: list.splits)
  qed
next
  case (key view st)
  have role: "kv_role view \<noteq> ''admin''" using verify_key_grant[OF key(2)] assms(4) by fastforce
  then have m: "kind = KeyMember" using key(3) by simp
  have "session_username (pn_key p) (pn_auth p) (rq_cookie r) (clock 2) = []"
    using session_username_known verify_session_earlier[OF _ assms(2)] key(1) by blast
  then obtain x where "request_username (pn_key p) (pn_auth p) (rq_cookie r) (Some view) (clock 2) = ''key:'' @ x"
    using role by (auto simp: request_username_def Let_def)
  then show ?thesis
    using key(4)[OF m] synthetic_no_account[of "pn_auth p" x]
    by (auto simp: member_request_authorized_def member_routes_def may_use_resource_def is_admin_def role_of_def
        allowed_resources_def split: list.splits)
next
  case other
  then show ?thesis using assms(5,6) by (auto simp: local_or_basic_def Let_def split: if_splits)
qed

lemma own_guard_admin:
  assumes "own_admin_guard p later r api_key = Inr username"
  shows "is_admin (pn_auth p) (session_username (pn_key p) (pn_auth p) (rq_cookie r) (later 1))"
proof -
  have u: "is_admin (pn_auth p) (request_username (pn_key p) (pn_auth p) (rq_cookie r) api_key (later 1))"
    using assms by (auto simp: own_admin_guard_def Let_def split: if_splits)
  have "\<not> is_admin (pn_auth p) (''key:'' @ x)" "\<not> is_admin (pn_auth p) []" for x
    using synthetic_no_account[of "pn_auth p" x] by (auto simp: is_admin_def role_of_def account_def)
  with u show ?thesis by (auto simp: request_username_def Let_def split: if_splits option.splits)
qed

text \<open>
  C3: members only read. Take a request that carries no administrator's authority: its cookie is
  no administrator's session (when the gate reads it, and when a route's own guard reads it again), its bearer
  token grants no stored key of the administrator role, it shows neither the local token nor Basic
  credentials. If it gets to the body of its route, through the gate and the route's own guard, then it
  is a GET, HEAD or OPTIONS on one of three listings, or on the detail of a service granted to the
  session's own account (a member key reaches the listings only, whatever the key is called).
\<close>

theorem members_only_read:
  assumes "route_entered dk p clock later r api_key (seen, file)" "clock 0 \<le> clock 2"
    and "\<And>now. now \<in> {clock 1, later 1} \<Longrightarrow>
      \<not> is_admin (pn_auth p) (session_username (pn_key p) (pn_auth p) (rq_cookie r) now)"
    and "\<And>k. k \<in> set (load_keys good_disk file) \<Longrightarrow> grants (key_digest (bearer_token r)) (key_core k)
      \<Longrightarrow> field_text k ''role'' ''member'' \<noteq> ''admin''"
    and "\<not> local_client_authenticated (pn_local_token p) r" "rq_basic r = None"
  shows "reads_only r \<and> (route_path r \<in> {''/api/health'', ''/api/status'', ''/api/services''}
    \<or> (\<exists>res. path_parts r = [''api'', ''services'', res, ''detail''] \<and> res \<noteq> []
        \<and> res \<in> set (allowed_resources (pn_auth p) (session_username (pn_key p) (pn_auth p) (rq_cookie r) (clock 1)))))"
proof -
  obtain kind keys' where g: "require_auth dk p clock r (seen, file) = (Inr kind, keys')"
    using assms(1) by (cases "require_auth dk p clock r (seen, file)") (auto simp: route_entered_def split: sum.splits)
  have "\<not> route_has_own_admin_guard r"
    using assms(1,3) own_guard_admin[of p later r api_key] by (auto simp: route_entered_def split: sum.splits)
  then show ?thesis using gate_lets_read[OF g assms(2) _ assms(4) assms(5,6)] assms(3) by blast
qed

section \<open>A member with the administrator's name\<close>

text \<open>
  Basic authentication accepts the configured administrator name without asking for the
  role. Once a member carries that name (\<open>create_account_hides_admin\<close>), the member's password opens every mutating route through Basic authentication.
\<close>

theorem member_basic_admin:
  assumes "rq_cookie r = []" "rq_headers r = []" "rq_basic r = Some (''admin'', ''0123456789'')" "rq_peer r = ''192.0.2.7''"
  shows "\<exists>data'. create_account salt ''admin'' ''0123456789'' ''member'' PNone unnamed_admin = (Inr (''admin'', ''member'', []), data')
    \<and> \<not> is_admin (stored_auth data') ''admin''
    \<and> fst (require_auth dk \<lparr>pn_key = key, pn_auth = stored_auth data', pn_local_token = tok\<rparr> clock r keys) = Inr BasicAdmin"
proof -
  obtain data' where c: "create_account salt ''admin'' ''0123456789'' ''member'' PNone unnamed_admin = (Inr (''admin'', ''member'', []), data')"
    using unnamed_create by blast
  from create_account_effect(1)[OF unnamed_state(2) c]
  have v: "verify_account_password (stored_auth data') ''admin'' ''0123456789''" "role_of (stored_auth data') ''admin'' = Member"
    by simp_all
  have "pyget (stored_auth data') ''username'' = PNone \<and> pyget (stored_auth data') ''password_hash'' = PStr ''h''"
    using create_account_effect(2)[OF unnamed_state(2) c] by (simp add: unnamed_state(1) pyget_def dict_get_def)
  then have n: "basic_admin_name (stored_auth data') = ''admin''" "\<not> setup_required (stored_auth data')"
    by (simp_all add: basic_admin_name_def pick_def strip_no_space is_space_def ordc_def or_text_def setup_required_def auth_is_claimed_def)
  have l: "\<not> local_client_authenticated tok r"
    using assms(4) by (simp add: local_client_authenticated_def is_direct_loopback_def is_loopback_def loopback_hosts_def)
  have b: "bearer_token r = []" using assms(2) by (simp add: bearer_token_def header_def dict_simps partition_on_def lower_def strip_no_space)
  have "fst (require_auth dk \<lparr>pn_key = key, pn_auth = stored_auth data', pn_local_token = tok\<rparr> clock r keys) = Inr BasicAdmin"
    using n l b assms(1,3) v by (simp add: require_auth_def Let_def verify_session_def looks_like_key_def local_or_basic_def)
  then show ?thesis using c v(2) by (auto simp: is_admin_def)
qed

section \<open>Witnesses\<close>

definition plain_panel :: panel where
  "plain_panel = \<lparr>pn_key = [], pn_auth = [(''password'', PStr ''opensesame'')], pn_local_token = ''t''\<rparr>"

definition basic_post :: request where
  "basic_post = \<lparr>rq_method = ''POST'', rq_path = ''/api/files'', rq_headers = [], rq_peer = ''192.0.2.7'', rq_cookie = [],
     rq_basic = Some (''admin'', ''opensesame'')\<rparr>"

lemma mutation_needs_authority_witness:
  "fst (require_auth good_disk plain_panel (\<lambda>_. 1) basic_post ([], None)) = Inr BasicAdmin
    \<and> verify_account_password (pn_auth plain_panel) ''admin'' ''opensesame''"
proof -
  have g: "require_auth good_disk plain_panel (\<lambda>_. 1) basic_post ([], None) = (Inr BasicAdmin, [], None)" by code_simp
  have m: "\<not> reads_only basic_post" "\<not> route_has_own_admin_guard basic_post"
    "\<not> local_client_authenticated (pn_local_token plain_panel) basic_post"
    "\<not> is_admin (pn_auth plain_panel) (session_username (pn_key plain_panel) (pn_auth plain_panel) (rq_cookie basic_post) 1)"
    by code_simp+
  show ?thesis
    using mutation_needs_authority[OF g m(1)] m g by (simp add: load_keys_def) (simp add: basic_post_def)
qed

definition kid_request :: "string \<Rightarrow> request" where
  "kid_request cookie = \<lparr>rq_method = ''get'', rq_path = ''/api/services/media/detail/'', rq_headers = [], rq_peer = ''192.0.2.7'',
     rq_cookie = cookie, rq_basic = None\<rparr>"

lemma members_only_read_witness:
  "let p = \<lparr>pn_key = [], pn_auth = stored_auth family, pn_local_token = ''t''\<rparr>;
       r = kid_request (create_session [] (stored_auth family) ''kid'' 1700000000)
   in route_entered good_disk p (\<lambda>_. 1700000001) (\<lambda>_. 1700000002) r None ([], None)
     \<and> fst (require_auth good_disk p (\<lambda>_. 1700000001) r ([], None)) = Inr BrowserMember
     \<and> reads_only r \<and> ''media'' \<in> set (allowed_resources (stored_auth family) ''kid'')"
proof -
  let ?a = "stored_auth family" and ?c = "create_session [] (stored_auth family) ''kid'' 1700000000"
  let ?p = "\<lparr>pn_key = [], pn_auth = ?a, pn_local_token = ''t''\<rparr>"
  have s: "session_username [] ?a ?c 1700000001 = ''kid''" "verify_session [] ?a ?c 1700000001"
    "session_username [] ?a ?c 1700000002 = ''kid''"
    using session_lifetime[of ?a "''kid''" 1700000000 "[]" 1700000001, OF _ kid_text reading_2023]
      session_lifetime[of ?a "''kid''" 1700000000 "[]" 1700000002, OF _ kid_text reading_2023]
    by (simp_all add: kid_known session_ttl_def)
  have f: "\<not> setup_required ?a" "\<not> is_admin ?a ''kid''" by code_simp+
  have k: "reads_only (kid_request [])" "route_path (kid_request []) = ''/api/services/media/detail''"
    "path_parts (kid_request []) = [''api'', ''services'', ''media'', ''detail'']" "may_use_resource ?a ''kid'' ''media''" by code_simp+
  have c: "rq_cookie (kid_request ?c) = ?c" "reads_only (kid_request ?c)" "route_path (kid_request ?c) = ''/api/services/media/detail''"
    "path_parts (kid_request ?c) = [''api'', ''services'', ''media'', ''detail'']"
    using k by (simp_all add: kid_request_def reads_only_def route_path_def path_parts_def)
  have g: "require_auth good_disk ?p (\<lambda>_. 1700000001) (kid_request ?c) ([], None) = (Inr BrowserMember, [], None)"
    using s f c k(4) by (simp add: require_auth_def Let_def keyless_username route_has_own_admin_guard_def member_request_authorized_def)
  have l: "\<not> local_client_authenticated ''t'' (kid_request ?c)" "rq_basic (kid_request ?c) = None" "load_keys good_disk None = []"
    by (simp_all add: kid_request_def local_client_authenticated_def is_direct_loopback_def is_loopback_def loopback_hosts_def load_keys_def)
  have "\<not> route_has_own_admin_guard (kid_request ?c)" using c(2) by (simp add: route_has_own_admin_guard_def)
  then have e: "route_entered good_disk ?p (\<lambda>_. 1700000001) (\<lambda>_. 1700000002) (kid_request ?c) None ([], None)"
    using g by (simp add: route_entered_def)
  have m: "\<not> is_admin (pn_auth ?p) (session_username (pn_key ?p) (pn_auth ?p) (rq_cookie (kid_request ?c)) now)"
    if "now \<in> {1700000001, 1700000002}" for now
    using that s f(2) c(1) by auto
  have "''media'' \<in> set (allowed_resources ?a ''kid'')"
    using members_only_read[OF e order_refl m] s c l by simp
  then show ?thesis using e g c(2) by (simp add: Let_def)
qed

end
