(* ===== verification/Sign_In_Safety.thy ===== *)
theory Sign_In_Safety
  imports Sign_In Gate_Safety
begin

text \<open>
  Lemmas on the sign-in handlers: what a limiter attempt leaves, what the handlers answer on their
  successful branch, and what a claim of the installation stores. The properties that span the
  components are in the root theory.
\<close>

section \<open>Attempts\<close>

definition orderly :: "rat \<Rightarrow> server \<Rightarrow> bool" where
  "orderly now sv \<longleftrightarrow> dict_ok (sv_attempts sv) \<and> (\<forall>c. ordered now (bucket (sv_attempts sv) c))"

lemma attempt_keeps [simp]:
  "sv_key (snd (attempt client t sv)) = sv_key sv" "sv_data (snd (attempt client t sv)) = sv_data sv"
  "sv_totp (snd (attempt client t sv)) = sv_totp sv"
  by (simp_all add: attempt_def Let_def split: prod.split)

lemma attempt_state:
  "attempt client t sv = (ok, sv1) \<Longrightarrow> sv_key sv1 = sv_key sv \<and> sv_data sv1 = sv_data sv \<and> sv_totp sv1 = sv_totp sv"
  using attempt_keeps[of client t sv] by simp

lemma attempt_shape:
  assumes "orderly now sv"
  shows "fst (attempt client now sv) \<longleftrightarrow> length (filter (fresh now) (bucket (sv_attempts sv) client)) < login_cap"
    and "fst (attempt client now sv) \<Longrightarrow>
      bucket (sv_attempts (snd (attempt client now sv))) client = filter (fresh now) (bucket (sv_attempts sv) client) @ [now]"
    and "dict_ok (sv_attempts (snd (attempt client now sv)))"
proof -
  obtain d' where d: "login_allowed client True now (sv_attempts sv) =
      (if login_cap \<le> length (filter (fresh now) (bucket (sv_attempts sv) client))
       then ((False, max 1 (rat_int (login_window - (now - hd (filter (fresh now) (bucket (sv_attempts sv) client)))))), d')
       else ((True, 0), d'))"
    "dict_ok d'"
    "bucket d' client = (if \<not> login_cap \<le> length (filter (fresh now) (bucket (sv_attempts sv) client)) \<and> True
       then filter (fresh now) (bucket (sv_attempts sv) client) @ [now] else filter (fresh now) (bucket (sv_attempts sv) client))"
    using login_allowed_shape[of "sv_attempts sv" now client True] assms unfolding orderly_def by metis
  show "fst (attempt client now sv) \<longleftrightarrow> length (filter (fresh now) (bucket (sv_attempts sv) client)) < login_cap"
    by (simp add: attempt_def d(1))
  show "fst (attempt client now sv) \<Longrightarrow>
      bucket (sv_attempts (snd (attempt client now sv))) client = filter (fresh now) (bucket (sv_attempts sv) client) @ [now]"
    using d(3) by (auto simp: attempt_def d(1) split: if_splits)
  show "dict_ok (sv_attempts (snd (attempt client now sv)))"
    using d(2) by (simp add: attempt_def d(1))
qed

text \<open>A released reservation leaves room for the second step of the same client.\<close>

lemma second_attempt:
  assumes "orderly now sv" "fst (attempt client now sv)" "now \<le> later"
  defines "sv1 \<equiv> (snd (attempt client now sv))\<lparr>sv_attempts := release_login_reservation client
      (sv_attempts (snd (attempt client now sv)))\<rparr>"
  shows "fst (attempt client later sv1)"
proof -
  let ?live = "filter (fresh now) (bucket (sv_attempts sv) client)"
  let ?d = "sv_attempts (snd (attempt client now sv))"
  have few: "length ?live < login_cap" using assms(2) attempt_shape(1)[OF assms(1)] by simp
  have b: "bucket (sv_attempts sv1) client = ?live"
    using attempt_shape(2)[OF assms(1,2)] release_bucket(1)[OF attempt_shape(3)[OF assms(1)], of client client client]
    by (simp add: sv1_def)
  have sw: "bucket (sweep_login_attempts later (sv_attempts sv1)) client \<in> {[], ?live}"
  proof -
    have ok: "dict_ok (sv_attempts sv1)"
      using release_bucket(2)[OF attempt_shape(3)[OF assms(1)]] by (simp add: sv1_def)
    have "ordered now ?live" using assms(1) ordered_filter by (simp add: orderly_def)
    then show ?thesis using sweep_bucket(2)[OF ok, of now client later] b by simp
  qed
  then have "length (filter (fresh later) (bucket (sweep_login_attempts later (sv_attempts sv1)) client)) < login_cap"
    using few le_less_trans[OF length_filter_le few] by (auto simp: login_cap_def)
  then show ?thesis by (simp add: attempt_def login_allowed_def Let_def)
qed

section \<open>The handlers on success\<close>

lemma login_cases:
  assumes "auth_login dk client username password clock sv = (SignedIn cookie u, sv')"
  shows "fst (attempt client (clock 0) sv) \<and> u = strip username \<and> verify_account_password (sv_auth sv) u password
    \<and> \<not> enabled dk u (sv_totp sv) \<and> sv_data sv' = sv_data sv \<and> sv_totp sv' = sv_totp sv
    \<and> cookie = create_session (sv_key sv) (sv_auth sv) u (clock 1)"
proof -
  obtain ok sv1 where a: "attempt client (clock 0) sv = (ok, sv1)" by fastforce
  then have k: "sv_key sv1 = sv_key sv" "sv_data sv1 = sv_data sv" "sv_totp sv1 = sv_totp sv"
    using attempt_keeps[of client "clock 0" sv] by simp_all
  show ?thesis using assms a k by (auto simp: auth_login_def session_of_def Let_def split: if_splits)
qed

lemma second_step_cases:
  assumes "totp_verify_route dk client pending code stamp clock sv = (SignedIn cookie u, sv')"
  shows "fst (attempt client (clock 0) sv) \<and> pending_totp_username (sv_key sv) (sv_auth sv) pending (clock 1) = u \<and> u \<noteq> []
    \<and> (\<exists>m. fst (verify_second_factor dk u code stamp (sv_totp sv)) = Inr (Some m))
    \<and> sv_data sv' = sv_data sv \<and> sv_totp sv' = snd (verify_second_factor dk u code stamp (sv_totp sv))
    \<and> cookie = create_session (sv_key sv) (sv_auth sv) u (clock 2)"
proof -
  obtain ok sv1 where a: "attempt client (clock 0) sv = (ok, sv1)" by fastforce
  then have k: "sv_key sv1 = sv_key sv" "sv_data sv1 = sv_data sv" "sv_totp sv1 = sv_totp sv"
    using attempt_keeps[of client "clock 0" sv] by simp_all
  obtain res left where v: "verify_second_factor dk (pending_totp_username (sv_key sv) (sv_auth sv) pending (clock 1)) code stamp (sv_totp sv) = (res, left)"
    by fastforce
  show ?thesis
    using assms a k v by (auto simp: totp_verify_route_def session_of_def Let_def split: if_splits sum.splits option.splits)
qed

text \<open>The other five handlers that set a cookie.\<close>

lemma request_username_session: "request_username key a cookie None now = session_username key a cookie now"
  by (simp add: request_username_def Let_def)

lemma setup_cases:
  assumes "auth_setup r expected salt supplied password username t sv = (reply, sv')" "reply = SignedIn cookie u"
  shows "setup_required (sv_auth sv) \<and> u = or_text (strip username) ''admin''
    \<and> (setup_token_required (sv_auth sv) r \<longrightarrow> supplied \<noteq> [] \<and> supplied = expected)
    \<and> cookie = create_session (sv_key sv') (sv_auth sv') u t"
proof -
  obtain res data where c: "complete_setup (sv_auth sv) expected salt supplied password (or_text (strip username) ''admin'')
      (setup_token_required (sv_auth sv) r) (sv_data sv) = (res, data)" by fastforce
  then show ?thesis
    using assms by (auto simp: auth_setup_def session_of_def complete_setup_def Let_def split: if_splits sum.splits bool.splits)
qed

lemma session_user_Inr:
  "session_user sv cookie clock = Inr u \<Longrightarrow>
    verify_session (sv_key sv) (sv_auth sv) cookie (clock 0) \<and> session_username (sv_key sv) (sv_auth sv) cookie (clock 1) = u"
  by (auto simp: session_user_def request_username_session split: if_splits)

lemma change_cases:
  assumes "auth_change_password client old salt username current new clock sv = (reply, sv')" "reply = SignedIn cookie u"
  shows "u = strip username \<and> fst (attempt client (clock 2) sv) \<and> verify_session (sv_key sv) (sv_auth sv) old (clock 0)
    \<and> (\<exists>caller. session_username (sv_key sv) (sv_auth sv) old (clock 1) = caller \<and> caller \<noteq> []
        \<and> verify_account_password (sv_auth sv) caller current \<and> (u = caller \<or> is_admin (sv_auth sv) caller))
    \<and> cookie = create_session (sv_key sv') (sv_auth sv') u (clock 3)"
proof -
  obtain ok sv1 where a: "attempt client (clock 2) sv = (ok, sv1)" by fastforce
  note k = attempt_state[OF a]
  show ?thesis
    using assms a k
    by (auto simp: auth_change_password_def session_of_def request_username_session Let_def split: if_splits sum.splits prod.splits)
qed

lemma confirm_cases:
  assumes "totp_confirm dk client old code stamp draws now clock sv = (reply, sv')" "reply = NewCodes codes (Some cookie)"
  shows "\<exists>u. session_user sv old clock = Inr u \<and> fst (attempt client (clock 2) sv)
    \<and> fst (confirm_enrollment dk u code stamp draws now (sv_totp sv)) = Inr (Some codes)
    \<and> cookie = create_session (sv_key sv') (sv_auth sv') u (clock 3)"
proof -
  obtain ok sv1 where a: "attempt client (clock 2) sv = (ok, sv1)" by fastforce
  note k = attempt_state[OF a]
  obtain u where u: "session_user sv old clock = Inr u"
    using assms by (cases "session_user sv old clock") (auto simp: totp_confirm_def)
  obtain res left where v: "confirm_enrollment dk u code stamp draws now (sv_totp sv) = (res, left)" by fastforce
  show ?thesis
    using assms a k u v
    by (auto simp: totp_confirm_def session_of_def bump_def Let_def split: if_splits sum.splits option.splits twofa_error.splits)
qed

lemma disable_cases:
  assumes "totp_disable dk client old code stamp clock sv = (reply, sv')" "reply = SignedIn cookie u"
  shows "session_user sv old clock = Inr u \<and> fst (attempt client (clock 2) sv) \<and> enabled dk u (sv_totp sv)
    \<and> (\<exists>m. fst (verify_second_factor dk u code stamp (sv_totp sv)) = Inr (Some m))
    \<and> cookie = create_session (sv_key sv') (sv_auth sv') u (clock 3)"
proof -
  obtain ok sv1 where a: "attempt client (clock 2) sv = (ok, sv1)" by fastforce
  note k = attempt_state[OF a]
  obtain v where u: "session_user sv old clock = Inr v"
    using assms by (cases "session_user sv old clock") (auto simp: totp_disable_def)
  obtain res left where v: "verify_second_factor dk v code stamp (sv_totp sv) = (res, left)" by fastforce
  show ?thesis
    using assms a k u v
    by (auto simp: totp_disable_def session_of_def bump_def Let_def split: if_splits sum.splits option.splits)
qed

lemma admin_disable_cases:
  assumes "totp_admin_disable dk old username clock sv = (reply, sv')" "reply = SignedIn cookie u"
  shows "session_user sv old clock = Inr u \<and> is_admin (sv_auth sv) u \<and> u = strip username
    \<and> cookie = create_session (sv_key sv') (sv_auth sv') u (clock 2)"
  using assms
  by (auto simp: totp_admin_disable_def session_of_def bump_def Let_def split: if_splits sum.splits prod.splits)

lemma no_other_cookies:
  "fst (auth_setup r expected salt supplied password username t sv) \<noteq> NewCodes codes (Some cookie)"
  "fst (auth_login dk client username password clock sv) \<noteq> NewCodes codes (Some cookie)"
  "fst (totp_verify_route dk client pending code stamp clock sv) \<noteq> NewCodes codes (Some cookie)"
  "fst (auth_change_password client old salt username current new clock sv) \<noteq> NewCodes codes (Some cookie)"
  "fst (totp_confirm dk client old code stamp draws now clock sv) \<noteq> SignedIn cookie u"
  "fst (totp_disable dk client old code stamp clock sv) \<noteq> NewCodes codes (Some cookie)"
  "fst (totp_admin_disable dk old username clock sv) \<noteq> NewCodes codes (Some cookie)"
  by (auto simp: auth_setup_def auth_login_def totp_verify_route_def auth_change_password_def totp_confirm_def totp_disable_def
      totp_admin_disable_def Let_def split: if_splits sum.splits option.splits prod.splits bool.splits twofa_error.splits)

text \<open>
  The second factor is only asked for while its store can be read: a document beyond the size cap, torn or
  unreadable counts as empty, and an enrolled account signs in with its password alone.
\<close>

lemma unreadable_store_skips_factor:
  assumes "\<not> d_read dk" "\<not> setup_required (sv_auth sv)" "fst (attempt client (clock 0) sv)"
    and "verify_account_password (sv_auth sv) (strip username) password"
  shows "\<exists>cookie. fst (auth_login dk client username password clock sv) = SignedIn cookie (strip username)"
proof -
  obtain sv1 where a: "attempt client (clock 0) sv = (True, sv1)" using assms(3) by (cases "attempt client (clock 0) sv") auto
  have "\<not> enabled dk u d" for u d
    using assms(1) by (simp add: enabled_def load_def user_entry_def dict_simps)
  then show ?thesis using assms(2,4) a attempt_state[OF a] by (auto simp: auth_login_def Let_def)
qed

lemma verified_account: "verify_account_password a u pw \<Longrightarrow> account a u \<noteq> None"
  by (auto simp: verify_account_password_def split: option.splits)

lemma pending_account: "pending_totp_username key a token now = u \<Longrightarrow> u \<noteq> [] \<Longrightarrow> account a u \<noteq> None"
  by (auto simp: pending_username_fields live_stamp_def account_get split: option.splits if_splits)

section \<open>Claiming\<close>

lemma plain_rewritten: "plain_auth a \<Longrightarrow> plain_auth (rewritten a)"
  using renderable_epochs[OF clean_epochs_ok(3)]
  by (auto simp: plain_auth_def rewritten_def dest!: in_dict_set)

lemma plain_set: "plain_auth a \<Longrightarrow> renderable 1 v = Some v \<Longrightarrow> plain_auth (dict_set k v a)"
  by (auto simp: plain_auth_def dest!: in_dict_set)

lemma plain_del: "plain_auth a \<Longrightarrow> plain_auth (dict_del k a)"
  by (auto simp: plain_auth_def dict_del_def)

lemma renderable_scalars [simp]: "renderable (Suc 0) (PStr s) = Some (PStr s)" "renderable (Suc 0) (PBool b) = Some (PBool b)"
  by (simp_all add: renderable.simps[of "Suc 0"])

lemma auth_is_claimed_rewritten: "auth_is_claimed (rewritten a) \<longleftrightarrow> auth_is_claimed a"
  by (simp add: auth_is_claimed_def rewritten_field)

lemma stored_auth_settings:
  assumes "auth_block data = (settings, auth)"
  shows "stored_auth (dict_set ''settings'' (PDict settings) data) = stored_auth data"
proof -
  have "settings = (case pyget data ''settings'' of PDict s \<Rightarrow> s | _ \<Rightarrow> [])"
    using assms by (simp add: auth_block_def Let_def)
  then show ?thesis by (cases "pyget data ''settings''") (simp_all add: stored_auth_def auth_cfg_def dict_simps)
qed

lemma set_password_claims:
  assumes "plain_auth (stored_auth data)" "set_password salt pw n True True data = (Inr True, data')"
  shows "auth_is_claimed (stored_auth data') \<and> verify_password (stored_auth data') pw \<and> plain_auth (stored_auth data')
    \<and> \<not> auth_is_claimed (stored_auth data)"
proof -
  obtain settings auth where b: "auth_block data = (settings, auth)" by fastforce
  have au: "auth = rewritten (stored_auth data)" using auth_block_plain[OF assms(1)] b by simp
  obtain enc where h: "hash_password salt pw = Inr enc" using hash_password_shape by blast
  have enc: "enc \<noteq> []" "startswith enc ''scrypt$''" "verify_scrypt enc pw" using hash_prefix[OF h] by simp_all
  obtain m where d': "stored_auth data' = dict_del ''password'' (dict_set ''password_hash'' (PStr enc)
      (dict_set ''username'' (PStr m) (dict_set ''enabled'' (PBool True) auth)))" and c: "\<not> auth_is_claimed auth"
    using assms(2) b h by (auto simp: set_password_def Let_def split: if_splits)
  have un: "\<not> auth_is_claimed (stored_auth data)" using c au by (simp add: auth_is_claimed_rewritten)
  have "plain_auth (stored_auth data')"
    unfolding d' au by (intro plain_del plain_set plain_rewritten assms(1)) simp_all
  then show ?thesis
    using enc un by (simp add: d' auth_is_claimed_def[of "dict_del k d" for k d] verify_password_def dict_simps pick_str Let_def)
qed

lemma set_password_claimed:
  assumes "plain_auth (stored_auth data)" "auth_is_claimed (stored_auth data)"
    and "set_password salt pw n e True data = (res, data')"
  shows "res \<noteq> Inr True \<and> stored_auth data' = stored_auth data"
proof -
  obtain settings auth where b: "auth_block data = (settings, auth)" by fastforce
  have "auth = rewritten (stored_auth data)" using auth_block_plain[OF assms(1)] b by simp
  then have "auth_is_claimed auth" using assms(2) by (simp add: auth_is_claimed_rewritten)
  then show ?thesis
    using assms(3) b stored_auth_settings[OF b] by (auto simp: set_password_def Let_def split: if_splits sum.splits)
qed

section \<open>Renaming the administrator\<close>

text \<open>
  The rename path of a password change checks neither that the new name is free nor that it has a
  second factor. Renamed onto a listed member, the legacy administrator disappears behind the
  member's row, and when every listed account is a member no administrator is left.
\<close>

lemma rename_onto_member:
  assumes "plain_auth (stored_auth data)" "set_password salt pw n True False data = (Inr w, data')"
    and "row_lookup (account_rows (stored_auth data)) n = Some r"
    and "\<And>k r. row_lookup (account_rows (stored_auth data)) k = Some r \<Longrightarrow> ac_role r = Member"
  shows "\<not> is_admin (stored_auth data') k"
proof -
  obtain row where "row_account row = Some r" "ac_username r = n" using row_lookup_Some[OF assms(3)] by blast
  then have n: "n \<noteq> []" "strip n = n" "utf8_ok n" "CHR '':'' \<notin> set n" using row_account_Some[of row r] by auto
  obtain enc where e: "account_rows (stored_auth data') = account_rows (stored_auth data)"
    "legacy_account (stored_auth data') = [(n, \<lparr>ac_username = n, ac_hash = enc, ac_role = Admin, ac_resources = []\<rparr>)]"
    by (rule set_password_effect[OF assms(1,2) n])
  have "dict_get (legacy_account (stored_auth data')) k \<noteq> None \<Longrightarrow> k = n" unfolding e(2) by (simp add: dict_get_def split: if_splits)
  then show ?thesis
    using assms(3,4) by (cases "k = n") (auto simp: is_admin_def role_of_def account_get accounts_get e(1) split: option.splits)
qed

text \<open>The second factor stays under the old name: the new one signs in with the password alone.\<close>

lemma change_password_keeps_totp:
  "sv_totp (snd (auth_change_password client cookie salt username current new clock sv)) = sv_totp sv"
proof -
  obtain ok sv1 where a: "attempt client (clock 2) sv = (ok, sv1)" by fastforce
  then have "sv_totp sv1 = sv_totp sv" using attempt_state by blast
  then show ?thesis by (simp add: auth_change_password_def a Let_def split: prod.split option.split)
qed

end
