(* ===== verification/Ups_Power.thy ===== *)
theory Ups_Power
  imports Twofa
begin

text \<open>
  Battery and UPS power (\<open>hub/ups_svc.py\<close>): the parser of \<open>pmset\<close>'s reports, the settings with
  their defaults, and the scrub that makes a value fit for JSON. \<open>pmset\<close> itself is a parameter:
  its exit status and its (ASCII) output are arguments.
\<close>

section \<open>Text that encodes\<close>

text \<open>\<open>s.encode("utf-8", "replace").decode("utf-8")\<close>: each lone surrogate becomes a question mark.\<close>

fun surrogate :: "string \<Rightarrow> bool" where
  "surrogate (a # b # r) \<longleftrightarrow> ordc a = 237 \<and> 160 \<le> ordc b"
| "surrogate _ \<longleftrightarrow> False"

definition launder :: "string \<Rightarrow> string" where
  "launder s = concat (map (\<lambda>c. if surrogate c then ''?'' else c) (text_chars s))"

definition launder_keys :: "pydict \<Rightarrow> pydict" where
  "launder_keys kvs = foldl (\<lambda>out p. dict_set (launder (fst p)) (snd p) out) [] kvs"

text \<open>
  \<open>_jsonable\<close>, the same in \<open>ups_svc\<close> and \<open>ups_policy\<close>: what JSON cannot hold is dropped or
  rendered, and nothing below depth 32 survives.
\<close>

fun jsonable :: "nat \<Rightarrow> pyval \<Rightarrow> pyval" where
  "jsonable depth v =
     (if 32 < depth then PNone
      else (case v of
              PInt i \<Rightarrow> if fits_digit_cap i then PInt i else PNone
            | PFloat f \<Rightarrow> if is_finite_float f then PFloat f else PNone
            | PStr s \<Rightarrow> PStr (launder s)
            | PBytes s \<Rightarrow> PStr (launder s)
            | PDict kvs \<Rightarrow> PDict (launder_keys (map (\<lambda>p. (fst p, jsonable (Suc depth) (snd p))) kvs))
            | PList xs \<Rightarrow> PList (map (jsonable (Suc depth)) xs)
            | PTuple xs \<Rightarrow> PList (map (jsonable (Suc depth)) xs)
            | PHostile \<Rightarrow> PStr []
            | _ \<Rightarrow> v))"

declare jsonable.simps [simp del]

section \<open>Reading pmset\<close>

fun search_text :: "(string \<Rightarrow> 'a option) \<Rightarrow> string \<Rightarrow> 'a option" where
  \<comment> \<open>\<open>re.search\<close>: the leftmost position where the pattern matches\<close>
  "search_text m [] = m []"
| "search_text m (c # cs) = (case m (c # cs) of Some x \<Rightarrow> Some x | None \<Rightarrow> search_text m cs)"

definition match_percent :: "string \<Rightarrow> string option" where
  \<comment> \<open>\<open>(\d{1,3})%\<close>, the longest run of digits first\<close>
  "match_percent s =
     List.find (\<lambda>ds. isdigit ds \<and> take 1 (drop (length ds) s) = ''%'') [take 3 s, take 2 s, take 1 s]"

definition match_remaining :: "string \<Rightarrow> (string \<times> string) option" where
  \<comment> \<open>\<open>(\d+):(\d{2})\s+remaining\<close>\<close>
  "match_remaining s =
     (let hours = takeWhile is_digit s; r = dropWhile is_digit s; minutes = take 2 (drop 1 r); r' = drop 3 r
      in if hours \<noteq> [] \<and> take 1 r = '':'' \<and> length minutes = 2 \<and> isdigit minutes
            \<and> takeWhile is_space r' \<noteq> [] \<and> startswith (dropWhile is_space r') ''remaining''
         then Some (hours, minutes) else None)"

definition match_source :: "string \<Rightarrow> string option" where
  \<comment> \<open>\<open>now drawing from\s+'([^']+)'\<close> on the lower-cased line\<close>
  "match_source s =
     (let r = drop 16 s; q = dropWhile is_space r;
          label = takeWhile (\<lambda>c. c \<noteq> CHR 39) (drop 1 q)
      in if startswith s ''now drawing from'' \<and> takeWhile is_space r \<noteq> [] \<and> take 1 q = [CHR 39]
            \<and> label \<noteq> [] \<and> length label + 1 < length q
         then Some label else None)"

fun before_text :: "string \<Rightarrow> string \<Rightarrow> string" where
  \<comment> \<open>\<open>s.split(sep)[0]\<close>\<close>
  "before_text sep [] = []"
| "before_text sep (c # cs) = (if startswith (c # cs) sep then [] else c # before_text sep cs)"

definition is_line_break :: "char \<Rightarrow> bool" where
  "is_line_break c \<longleftrightarrow> ordc c \<in> {10, 11, 12, 13, 28, 29, 30}"

definition text_lines :: "string \<Rightarrow> string list" where
  \<comment> \<open>\<open>splitlines()\<close> up to empty lines, which both readers skip\<close>
  "text_lines s = split_on (CHR 10) (map (\<lambda>c. if is_line_break c then CHR 10 else c) s)"

datatype power_kind = InternalBattery | UpsDevice

datatype power_source = OnUnknown | OnAc | OnUps | OnBattery

record battery =
  bt_source :: power_source
  bt_name :: "string option"
  bt_kind :: "power_kind option"
  bt_percent :: "nat option"
  bt_charging :: "bool option"
  bt_remaining :: "int option"

definition float_fits :: "int \<Rightarrow> bool" where
  \<comment> \<open>\<open>float(n)\<close> of an int overflows from the first integer that rounds to \<open>2 ^ 1024\<close>\<close>
  "float_fits n \<longleftrightarrow> \<bar>n\<bar> < 2 ^ 1024 - 2 ^ 970"

definition remaining_minutes :: "string \<times> string \<Rightarrow> int option" where
  "remaining_minutes m =
     (case py_int_of_str (fst m) of
        Inl _ \<Rightarrow> None
      | Inr h \<Rightarrow> (let t = h * 60 + int (digits_val (snd m)) in if float_fits t then Some t else None))"

definition batt_source :: "string \<Rightarrow> power_source \<Rightarrow> power_source" where
  "batt_source label old =
     (if contains_text label ''ac'' then OnAc
      else if contains_text label ''ups'' then OnUps
      else if contains_text label ''battery'' then OnBattery
      else old)"

definition batt_device :: "string \<Rightarrow> battery \<Rightarrow> battery" where
  "batt_device body b =
     (let low = lower body; name = strip (before_text [CHR 9] (before_text ''(id='' body)) in
      if contains_text low ''present: false'' then b
      else b\<lparr>bt_percent := (case search_text match_percent body of
                             None \<Rightarrow> bt_percent b | Some ds \<Rightarrow> Some (min 100 (digits_val ds))),
             bt_name := (if name \<noteq> [] then Some name else bt_name b),
             bt_kind := Some (if startswith (lower name) ''internalbattery'' then InternalBattery else UpsDevice),
             bt_charging := Some (contains_text low ''charging'' \<and> \<not> contains_text low ''discharging''
                                  \<and> \<not> contains_text low ''not charging''),
             bt_remaining := (case search_text match_remaining low of
                               None \<Rightarrow> bt_remaining b | Some m \<Rightarrow> remaining_minutes m)\<rparr>)"

definition batt_line :: "battery \<Rightarrow> string \<Rightarrow> battery" where
  "batt_line b line =
     (let s = strip line in
      if s = [] then b
      else (case search_text match_source (lower s) of
              Some label \<Rightarrow> b\<lparr>bt_source := batt_source label (bt_source b)\<rparr>
            | None \<Rightarrow> if \<not> startswith s ''-'' then b else batt_device (drop 1 s) b))"

definition parse_batt :: "string \<Rightarrow> battery" where
  "parse_batt report =
     (let b = foldl batt_line
                \<lparr>bt_source = OnUnknown, bt_name = None, bt_kind = None, bt_percent = None, bt_charging = None,
                 bt_remaining = None\<rparr> (text_lines report)
      in if bt_name b = None then b\<lparr>bt_charging := None\<rparr> else b)"

definition bt_present :: "battery \<Rightarrow> bool" where
  "bt_present b \<longleftrightarrow> bt_name b \<noteq> None"

definition bt_on_ac :: "battery \<Rightarrow> bool" where
  "bt_on_ac b \<longleftrightarrow> bt_source b = OnAc"

definition bt_on_battery :: "battery \<Rightarrow> bool" where
  "bt_on_battery b \<longleftrightarrow> bt_source b \<in> {OnBattery, OnUps}"

definition threshold_names :: "string list" where
  "threshold_names = [''haltlevel'', ''haltafter'', ''haltremain'']"

definition threshold_line :: "(string, int) dict \<Rightarrow> string \<Rightarrow> (string, int) dict" where
  "threshold_line out line =
     (case split_ws (strip line) of
        [name, v] \<Rightarrow>
          if name \<in> set threshold_names
          then (case py_int_of_str v of Inl _ \<Rightarrow> out | Inr n \<Rightarrow> if 0 \<le> n then dict_set name n out else out)
          else out
      | _ \<Rightarrow> out)"

definition parse_ups_thresholds :: "string \<Rightarrow> (string, int) dict option" where
  "parse_ups_thresholds report =
     (let out = foldl threshold_line [] (text_lines report) in if out = [] then None else Some out)"

text \<open>\<open>ups_snapshot\<close>, over the exit status and the output of the two \<open>pmset\<close> calls.\<close>

definition ups_snapshot :: "int \<times> string \<Rightarrow> int \<times> string \<Rightarrow> battery \<times> (string, int) dict option" where
  "ups_snapshot batt ups =
     (let b = parse_batt (if fst batt = 0 then snd batt else [])
      in (b, if bt_present b then parse_ups_thresholds (if fst ups = 0 then snd ups else []) else None))"

section \<open>Settings\<close>

definition shutdown_defaults :: pydict where
  "shutdown_defaults =
     [(''enabled'', PBool False), (''trigger_pct'', PInt 25), (''trigger_remaining_min'', PNone),
      (''require_both'', PBool False), (''stacks'', PStr ''all''), (''stop_scripts'', PList [])]"

definition ups_defaults :: pydict where
  "ups_defaults =
     [(''alerts_enabled'', PBool True), (''low_battery_pct'', PInt 20), (''shutdown'', PDict shutdown_defaults)]"

fun finite_int :: "pyval \<Rightarrow> int option" where
  \<comment> \<open>\<open>_finite_int(raw, default)\<close>, None where the code answers its default\<close>
  "finite_int (PBool _) = None"
| "finite_int PNone = None"
| "finite_int (PFloat f) =
     (if is_finite_float f then (case py_int (PFloat f) of Inl _ \<Rightarrow> None | Inr n \<Rightarrow> if float_fits n then Some n else None)
      else None)"
| "finite_int v = (case py_int v of Inl _ \<Rightarrow> None | Inr n \<Rightarrow> if float_fits n then Some n else None)"

definition known_pairs :: "pydict \<Rightarrow> pydict \<Rightarrow> pydict" where
  "known_pairs defaults items =
     foldl (\<lambda>out p. if dict_get defaults (fst p) \<noteq> None then dict_set (fst p) (snd p) out else out) defaults items"

definition floor_setting :: "string \<Rightarrow> pydict \<Rightarrow> pydict" where
  "floor_setting k out = (if pyget out k = PNone then out else dict_set k (opt_int (finite_int (pyget out k))) out)"

definition normalized_shutdown :: "pyval \<Rightarrow> pydict" where
  "normalized_shutdown raw =
     (let out = (case raw of PDict items \<Rightarrow> known_pairs shutdown_defaults items | _ \<Rightarrow> shutdown_defaults)
      in floor_setting ''trigger_remaining_min'' (floor_setting ''trigger_pct'' out))"

definition flat_settings :: "pydict \<Rightarrow> pydict" where
  "flat_settings items =
     foldl (\<lambda>out p. if dict_get ups_defaults (fst p) \<noteq> None \<and> fst p \<noteq> ''shutdown'' \<and> snd p \<noteq> PNone
                    then dict_set (fst p) (snd p) out else out) ups_defaults items"

definition ups_settings :: "pyval \<Rightarrow> pyval" where
  \<comment> \<open>over the configuration's root\<close>
  "ups_settings cfg =
     (let raw = (case mapping_get (mapping_get cfg ''settings'') ''ups'' of PDict d \<Rightarrow> d | _ \<Rightarrow> []);
          out = flat_settings raw;
          out = dict_set ''alerts_enabled'' (PBool (case py_bool (pyget out ''alerts_enabled'') of Inl _ \<Rightarrow> True | Inr b \<Rightarrow> b)) out;
          out = dict_set ''low_battery_pct''
                  (PInt (case finite_int (pyget out ''low_battery_pct'') of None \<Rightarrow> 20 | Some n \<Rightarrow> n)) out
      in jsonable 0 (PDict (dict_set ''shutdown'' (PDict (normalized_shutdown (pyget raw ''shutdown''))) out)))"

text \<open>The part of a settings patch that \<open>save_ups_settings\<close> hands to the configuration's merge.\<close>

definition clean_patch :: "pydict \<Rightarrow> pydict" where
  "clean_patch patch =
     (let clean = filter (\<lambda>p. dict_get ups_defaults (fst p) \<noteq> None \<and> fst p \<noteq> ''shutdown'') patch
      in case pyget patch ''shutdown'' of
           PDict sh \<Rightarrow> dict_set ''shutdown'' (PDict (filter (\<lambda>p. dict_get shutdown_defaults (fst p) \<noteq> None) sh)) clean
         | _ \<Rightarrow> clean)"

end
