(* ===== verification/Ups_Policy.thy ===== *)
theory Ups_Policy
  imports Ups_Power
begin

text \<open>
  The UPS safe-shutdown policy (\<open>hub/ups_policy.py\<close>): a persisted machine idle, engaged, restoring.
  A sweep decides under the file lock; the stop and restore sequences run on one worker thread,
  whose every read, write and command is one action here, so that sweeps and a death of the panel
  can fall between any two. The command outcomes, the container engine, the stack listing and the
  service states are arguments.
\<close>

section \<open>The persisted state\<close>

definition load_state :: "disk \<Rightarrow> doc \<Rightarrow> pydict" where
  "load_state dk file = (if d_read dk then (case file of Some (PDict st) \<Rightarrow> st | _ \<Rightarrow> []) else [])"

definition save_state :: "disk \<Rightarrow> pydict \<Rightarrow> doc \<Rightarrow> doc" where
  \<comment> \<open>a failed write is swallowed\<close>
  "save_state dk st file = (if d_write dk then Some (jsonable 0 (PDict st)) else file)"

definition mutate_state :: "disk \<Rightarrow> (pydict \<Rightarrow> pydict) \<Rightarrow> doc \<Rightarrow> doc" where
  "mutate_state dk f file = save_state dk (f (load_state dk file)) file"

definition phase_of :: "pydict \<Rightarrow> pyval" where
  \<comment> \<open>\<open>st.get("phase") or PHASE_IDLE\<close>\<close>
  "phase_of st = (if truthy (pyget st ''phase'') then pyget st ''phase'' else PStr ''idle'')"

definition public_state :: "disk \<Rightarrow> doc \<Rightarrow> pyval" where
  "public_state dk file =
     (let st = load_state dk file in
      jsonable 0 (PDict
        [(''phase'', case pyget st ''phase'' of PStr p \<Rightarrow> PStr (if p = [] then ''idle'' else p) | _ \<Rightarrow> PStr ''idle''),
         (''engaged_at'', pyget st ''engaged_at''),
         (''reason'', case pyget st ''reason'' of PStr r \<Rightarrow> PStr r | _ \<Rightarrow> PStr []),
         (''steps'', PList (case pyget st ''steps'' of PList xs \<Rightarrow> filter is_dict xs | _ \<Rightarrow> [])),
         (''last'', if is_dict (pyget st ''last'') then pyget st ''last'' else PNone)]))"

section \<open>The trigger\<close>

definition as_double :: "int \<Rightarrow> rat" where
  "as_double n = of_int (sgn n) * double_nearest (of_int \<bar>n\<bar>)"

fun below_floor :: "int option \<Rightarrow> pyval \<Rightarrow> bool" where
  \<comment> \<open>the floors are None or ints that fit a double once \<open>normalized_shutdown\<close> has read them\<close>
  "below_floor (Some v) (PInt f) \<longleftrightarrow> float_fits v \<and> float_fits f \<and> as_double v \<le> as_double f"
| "below_floor _ _ \<longleftrightarrow> False"

text \<open>The label of a fired condition; a number that will not print leaves none.\<close>

definition at_most_sign :: string where "at_most_sign = [CHR '' '', CHR 0xE2, CHR 0x89, CHR 0xA4, CHR '' '']"
definition about_sign :: string where "about_sign = [CHR 0xE2, CHR 0x89, CHR 0x88]"

definition floor_reason :: "string \<Rightarrow> string \<Rightarrow> string \<Rightarrow> int option \<Rightarrow> pyval \<Rightarrow> string" where
  "floor_reason before middle after v f =
     (case v of
        None \<Rightarrow> []
      | Some n \<Rightarrow>
          (case (py_str (PInt n), py_str f) of
             (Inr shown, Inr limit) \<Rightarrow> before @ shown @ middle @ at_most_sign @ limit @ after
           | _ \<Rightarrow> []))"

definition floor_checks :: "pydict \<Rightarrow> battery \<Rightarrow> (bool \<times> string) list" where
  "floor_checks policy b =
     (let pct = map_option int (bt_percent b); pct_floor = pyget policy ''trigger_pct'';
          remain = bt_remaining b; min_floor = pyget policy ''trigger_remaining_min''
      in (if pct_floor = PNone then []
          else let hit = below_floor pct pct_floor
               in [(hit, if hit then floor_reason ''battery '' ''%'' ''%'' pct pct_floor else [])]) @
         (if min_floor = PNone then []
          else let hit = below_floor remain min_floor
               in [(hit, if hit then floor_reason about_sign '' min left'' '' min'' remain min_floor else [])]))"

definition condition :: "battery \<Rightarrow> pydict \<Rightarrow> bool" where
  "condition b policy \<longleftrightarrow>
     bt_on_battery b
     \<and> (let checks = floor_checks policy b; hits = filter fst checks
        in if checks = [] then False
           else if truthy (pyget policy ''require_both'') \<and> 1 < length checks then length hits = length checks
           else hits \<noteq> [])"

definition condition_reason :: "battery \<Rightarrow> pydict \<Rightarrow> string" where
  \<comment> \<open>the second component of \<open>_condition\<close>\<close>
  "condition_reason b policy =
     (if condition b policy then join_on '' and '' (map snd (filter fst (floor_checks policy b))) else [])"

section \<open>The plan\<close>

fun ups_text :: "pyval \<Rightarrow> string" where
  \<comment> \<open>\<open>_cfg_text\<close>\<close>
  "ups_text (PBool _) = []"
| "ups_text PNone = []"
| "ups_text (PStr s) = s"
| "ups_text v = (case py_str v of Inl _ \<Rightarrow> [] | Inr s \<Rightarrow> s)"

definition or_id :: "string \<Rightarrow> string \<Rightarrow> string" where
  "or_id label sid = (if label = [] then sid else label)"

fun first_rows :: "pydict list \<Rightarrow> (string, pydict) dict \<Rightarrow> (string, pydict) dict" where
  "first_rows [] out = out"
| "first_rows (s # ss) out =
     (let sid = ups_text (pyget s ''id'')
      in first_rows ss (if sid \<noteq> [] \<and> dict_get out sid = None then dict_set sid s out else out))"

fun dedupe :: "string list \<Rightarrow> string list \<Rightarrow> string list" where
  "dedupe seen [] = []"
| "dedupe seen (x # xs) = (if x = [] \<or> x \<in> set seen then dedupe seen xs else x # dedupe (x # seen) xs)"

definition stack_step :: "(string, pydict) dict \<Rightarrow> string \<Rightarrow> pydict" where
  "stack_step by_id sid =
     (case dict_get by_id sid of
        None \<Rightarrow> [(''kind'', PStr ''stack''), (''id'', PStr sid), (''name'', PStr sid),
                 (''running'', PBool False), (''known'', PBool False)]
      | Some s \<Rightarrow> [(''kind'', PStr ''stack''), (''id'', PStr sid), (''name'', PStr (or_id (ups_text (pyget s ''name'')) sid)),
                   (''running'', PBool (pyget s ''status'' = PStr ''ok'')), (''known'', PBool True)])"

definition service_step :: "(string, string) dict \<Rightarrow> string \<Rightarrow> pydict" where
  "service_step states sid =
     [(''kind'', PStr ''service''), (''id'', PStr sid), (''name'', PStr sid),
      (''running'', PBool (dict_get states sid \<in> {Some ''ok'', Some ''warn''})),
      (''known'', PBool (dict_get states sid \<noteq> None))]"

text \<open>The listing of the stacks and the states of the services; None when reading them raised.\<close>

record seams =
  sm_stacks :: "pyval list option"
  sm_groups :: "pyval option"

definition stack_rows :: "seams \<Rightarrow> pydict list" where
  "stack_rows sm = (case sm_stacks sm of None \<Rightarrow> [] | Some xs \<Rightarrow> List.map_filter plain_dict xs)"

fun add_states :: "pyval list \<Rightarrow> (string, string) dict \<Rightarrow> (string, string) dict" where
  "add_states [] out = out"
| "add_states (PDict s # ss) out =
     (let sid = ups_text (pyget s ''id'')
      in add_states ss (if sid = [] then out else dict_set sid (or_id (ups_text (pyget s ''state'')) ''unknown'') out))"
| "add_states (_ # ss) out = add_states ss out"

fun group_states :: "pyval list \<Rightarrow> (string, string) dict \<Rightarrow> (string, string) dict" where
  "group_states [] out = out"
| "group_states (PDict g # gs) out =
     group_states gs (case pyget g ''services'' of PList ss \<Rightarrow> add_states ss out | _ \<Rightarrow> out)"
| "group_states (_ # gs) out = group_states gs out"

definition service_states :: "seams \<Rightarrow> (string, string) dict" where
  "service_states sm = (case sm_groups sm of Some (PList gs) \<Rightarrow> group_states gs [] | _ \<Rightarrow> [])"

definition wanted_stacks :: "pydict \<Rightarrow> pydict list \<Rightarrow> string list" where
  "wanted_stacks policy stacks =
     dedupe [] (case pyget policy ''stacks'' of
                  PList xs \<Rightarrow> map ups_text xs
                | _ \<Rightarrow> map (\<lambda>s. ups_text (pyget s ''id'')) stacks)"

definition wanted_scripts :: "pydict \<Rightarrow> string list" where
  "wanted_scripts policy = dedupe [] (case pyget policy ''stop_scripts'' of PList xs \<Rightarrow> map ups_text xs | _ \<Rightarrow> [])"

definition build_plan :: "seams \<Rightarrow> pydict \<Rightarrow> pydict list" where
  "build_plan sm policy =
     (let stacks = stack_rows sm in
      map (stack_step (first_rows stacks [])) (wanted_stacks policy stacks)
      @ map (service_step (service_states sm)) (wanted_scripts policy))"

section \<open>The worker\<close>

text \<open>
  \<open>x or []\<close> iterated: the dict rows of a stored list. Iterating a number or True raises; the
  members of a text or of a dict are no rows.
\<close>

definition step_rows :: "pydict \<Rightarrow> pydict list result" where
  "step_rows st =
     (case pyget st ''steps'' of
        PList xs \<Rightarrow> Inr (List.map_filter plain_dict xs)
      | PInt i \<Rightarrow> if i = 0 then Inr [] else Inl TypeError
      | PBool b \<Rightarrow> if b then Inl TypeError else Inr []
      | PFloat f \<Rightarrow> if truthy (PFloat f) then Inl TypeError else Inr []
      | _ \<Rightarrow> Inr [])"

definition update_fields :: "pydict \<Rightarrow> pydict \<Rightarrow> pydict" where
  "update_fields new d = foldl (\<lambda>out p. dict_set (fst p) (snd p) out) d new"

definition is_step :: "pyval \<Rightarrow> string \<Rightarrow> pydict \<Rightarrow> bool" where
  "is_step kind sid step \<longleftrightarrow> pyget step ''kind'' = kind \<and> pyget step ''id'' = PStr sid"

fun update_step :: "pyval \<Rightarrow> string \<Rightarrow> pydict \<Rightarrow> pyval list \<Rightarrow> pyval list" where
  "update_step kind sid new [] = []"
| "update_step kind sid new (PDict step # xs) =
     (if is_step kind sid step then PDict (update_fields new step) # xs
      else PDict step # update_step kind sid new xs)"
| "update_step kind sid new (x # xs) = x # update_step kind sid new xs"

definition apply_step :: "pyval \<Rightarrow> string \<Rightarrow> pydict \<Rightarrow> pydict \<Rightarrow> pydict" where
  "apply_step kind sid new st =
     (case pyget st ''steps'' of
        PList xs \<Rightarrow> if list_ex (\<lambda>x. case x of PDict s \<Rightarrow> is_step kind sid s | _ \<Rightarrow> False) xs
                    then dict_set ''steps'' (PList (update_step kind sid new xs)) st else st
      | _ \<Rightarrow> st)"

definition record_step :: "disk \<Rightarrow> pyval \<Rightarrow> string \<Rightarrow> pydict \<Rightarrow> doc \<Rightarrow> doc result" where
  "record_step dk kind sid new file =
     (case step_rows (load_state dk file) of
        Inl e \<Rightarrow> Inl e
      | Inr _ \<Rightarrow> Inr (mutate_state dk (apply_step kind sid new) file))"

text \<open>What the operator sees from outside.\<close>

datatype act =
    Engaged "(pyval \<times> string) list"
  | StopCmd pyval string
  | PowerBack
  | StartCmd pyval string
  | Reset "string list" "string list"

text \<open>
  Where the worker is: about to read the state (\<open>StopBegin\<close>), at the head of the stop loop, about
  to record fields of a step and go on, about to issue a stop, about to note the sequence done; the
  same for the restore; and in the \<open>finally\<close> of \<open>_spawn\<close>, before the flag is cleared and before
  the owner is dropped.
\<close>

datatype pc =
    StopBegin
  | StopLoop bool "(string, pyval) dict" "pydict list"
  | Recording pyval string pydict pc
  | Stopping pyval string pc
  | StopFinish
  | RestoreBegin
  | RestoreLoop int "pydict list" "string list" "string list"
  | Starting pyval string int "pydict list" "string list" "string list"
  | RestoreFinish int "string list" "string list"
  | Clearing
  | Popping

text \<open>
  What one action of the worker meets: the disk, whether the engine is up (it may raise), the
  compose files (\<open>_stack_paths\<close>, which may raise), the clock, and the outcome of a command: its
  exit status with its output and error text.
\<close>

record meets =
  me_disk :: disk
  me_engine :: "bool result"
  me_paths :: "pydict list result"
  me_now :: int
  me_rc :: int
  me_out :: string
  me_err :: string

definition detail_text :: "meets \<Rightarrow> string" where
  "detail_text me =
     (if me_rc me = 0 then []
      else py_take 200 (strip (or_id (or_id (me_err me) (me_out me)) (''exit '' @ show_int (me_rc me)))))"

fun paths_by_id :: "pydict list \<Rightarrow> (string, pyval) dict \<Rightarrow> (string, pyval) dict result" where
  "paths_by_id [] out = Inr out"
| "paths_by_id (s # ss) out =
     bind_ok (py_str (pyget s ''id'')) (\<lambda>sid. paths_by_id ss (dict_set sid (pyget s ''compose_path'') out))"

definition compose_by_id :: "pydict list result \<Rightarrow> (string, pyval) dict" where
  "compose_by_id rows = (case bind_ok rows (\<lambda>rs. paths_by_id rs []) of Inl _ \<Rightarrow> [] | Inr d \<Rightarrow> d)"

text \<open>The branch of the stop loop for one step, once the phase check passed.\<close>

definition stop_step :: "bool \<Rightarrow> (string, pyval) dict \<Rightarrow> pydict \<Rightarrow> pc \<Rightarrow> pc result" where
  "stop_step engine paths step next =
     (if truthy (pyget step ''done'') then Inr next
      else bind_ok (py_str (pyget step ''id'')) (\<lambda>sid.
        (let kind = pyget step ''kind''; compose_path = pyget paths sid in
         if \<not> truthy (pyget step ''running'')
         then Inr (Recording kind sid [(''done'', PBool True), (''skipped'', PStr ''not_running'')] next)
         else if kind = PStr ''stack'' then
           (if \<not> engine then Inr (Recording kind sid [(''done'', PBool True), (''skipped'', PStr ''engine_down'')] next)
            else if \<not> truthy compose_path
            then Inr (Recording kind sid [(''done'', PBool True), (''skipped'', PStr ''no_compose_file'')] next)
            else bind_ok (py_str compose_path) (\<lambda>p.
              Inr (Recording kind sid [(''stop_issued'', PBool True), (''compose_path'', PStr p)] (Stopping kind sid next))))
         else Inr (Recording kind sid [(''stop_issued'', PBool True)] (Stopping kind sid next)))))"

definition no_path_fields :: pydict where
  "no_path_fields = [(''start_ok'', PBool False), (''start_detail'', PStr ''no compose path recorded'')]"

definition restore_step :: "int \<Rightarrow> pydict \<Rightarrow> pydict list \<Rightarrow> string list \<Rightarrow> string list \<Rightarrow> pc result" where
  "restore_step now step rest started failures =
     (if \<not> truthy (pyget step ''stop_issued'') then Inr (RestoreLoop now rest started failures)
      else bind_ok (py_str (pyget step ''id'')) (\<lambda>sid.
        (let kind = pyget step ''kind'' in
         if kind = PStr ''stack'' \<and> \<not> truthy (pyget step ''compose_path'')
         then Inr (Recording kind sid no_path_fields (RestoreLoop now rest started (failures @ [sid])))
         else Inr (Starting kind sid now rest started failures))))"

definition finish_cycle :: "int \<Rightarrow> string list \<Rightarrow> string list \<Rightarrow> pydict \<Rightarrow> pydict" where
  "finish_cycle now started failures st =
     foldl (\<lambda>s k. dict_del k s)
       (dict_set ''phase'' (PStr ''idle'')
         (dict_set ''last'' (PDict
           [(''engaged_at'', pyget st ''engaged_at''), (''reason'', pyget st ''reason''),
            (''steps'', if truthy (pyget st ''steps'') then pyget st ''steps'' else PList []),
            (''restored_at'', PInt now), (''restarted'', PList (map PStr started)), (''failed'', PList (map PStr failures))]) st))
       [''engaged_at'', ''reason'', ''steps'', ''stop_done'']"

definition or_clear :: "pc result \<Rightarrow> pc" where
  \<comment> \<open>an exception ends the worker in its \<open>finally\<close>\<close>
  "or_clear r = (case r of Inl _ \<Rightarrow> Clearing | Inr p \<Rightarrow> p)"

fun worker_act :: "meets \<Rightarrow> pc \<Rightarrow> doc \<Rightarrow> pc \<times> doc \<times> act list" where
  "worker_act me StopBegin file =
     (or_clear (bind_ok (step_rows (load_state (me_disk me) file)) (\<lambda>rows.
        bind_ok (if list_ex (\<lambda>s. pyget s ''kind'' = PStr ''stack'' \<and> truthy (pyget s ''running'')) rows
                 then me_engine me else Inr True) (\<lambda>engine.
          Inr (StopLoop engine (compose_by_id (me_paths me)) rows)))), file, [])"
| "worker_act me (StopLoop engine paths []) file = (StopFinish, file, [])"
| "worker_act me (StopLoop engine paths (step # rest)) file =
     (if phase_of (load_state (me_disk me) file) \<noteq> PStr ''engaged'' then (Clearing, file, [])
      else (or_clear (stop_step engine paths step (StopLoop engine paths rest)), file, []))"
| "worker_act me (Recording kind sid new next) file =
     (case record_step (me_disk me) kind sid new file of
        Inl _ \<Rightarrow> (Clearing, file, [])
      | Inr file' \<Rightarrow> (next, file', []))"
| "worker_act me (Stopping kind sid next) file =
     (Recording kind sid [(''done'', PBool True), (''stop_ok'', PBool (me_rc me = 0)), (''detail'', PStr (detail_text me))] next,
      file, [StopCmd kind sid])"
| "worker_act me StopFinish file = (Clearing, mutate_state (me_disk me) (dict_set ''stop_done'' (PBool True)) file, [])"
| "worker_act me RestoreBegin file =
     (or_clear (bind_ok (step_rows (load_state (me_disk me) file)) (\<lambda>rows. Inr (RestoreLoop (me_now me) rows [] []))), file, [])"
| "worker_act me (RestoreLoop now [] started failures) file = (RestoreFinish now started failures, file, [])"
| "worker_act me (RestoreLoop now (step # rest) started failures) file =
     (or_clear (restore_step now step rest started failures), file, [])"
| "worker_act me (Starting kind sid now rest started failures) file =
     (Recording kind sid [(''start_ok'', PBool (me_rc me = 0)), (''start_detail'', PStr (detail_text me))]
        (if me_rc me = 0 then RestoreLoop now rest (started @ [sid]) failures
         else RestoreLoop now rest started (failures @ [sid])),
      file, [StartCmd kind sid])"
| "worker_act me (RestoreFinish now started failures) file =
     (Clearing, mutate_state (me_disk me) (finish_cycle now started failures) file, [Reset started failures])"
| "worker_act me Clearing file = (Popping, file, [])"
| "worker_act me Popping file = (Popping, mutate_state (me_disk me) (dict_del ''worker_owner'') file, [])"

section \<open>The sweep\<close>

text \<open>
  One tick: the clock, this process's id, whether the recorded owner's process answers signal 0,
  the sensor (None when reading it raised), the policy of the settings and the seams of the plan.
  The label of the fired floors only enters the state and the alert's text.
\<close>

record tick =
  tk_disk :: disk
  tk_now :: int
  tk_clock :: int
  tk_pid :: int
  tk_alive :: bool
  tk_status :: "battery option"
  tk_policy :: pydict
  tk_seams :: seams

definition worker_busy :: "tick \<Rightarrow> bool \<Rightarrow> pydict \<Rightarrow> bool" where
  "worker_busy tk active st \<longleftrightarrow>
     active
     \<or> (case pyget st ''worker_owner'' of
          PDict owner \<Rightarrow>
            (case pyget owner ''pid'' of
               PInt pid \<Rightarrow>
                 0 < pid
                 \<and> (case py_int (if truthy (pyget owner ''ts'') then pyget owner ''ts'' else PInt 0) of
                      Inl _ \<Rightarrow> False
                    | Inr claimed \<Rightarrow> tk_clock tk - claimed \<le> 86400 \<and> tk_alive tk)
             | _ \<Rightarrow> False)
        | _ \<Rightarrow> False)"

definition latch :: "int \<Rightarrow> string \<Rightarrow> pydict list \<Rightarrow> pydict \<Rightarrow> pydict" where
  "latch now reason steps st =
     [(''phase'', PStr ''engaged''), (''engaged_at'', PInt now), (''reason'', PStr reason),
      (''steps'', PList (map PDict steps)), (''stop_done'', PBool False)]
     @ (if truthy (pyget st ''last'') then [(''last'', pyget st ''last'')] else [])"

definition plan_targets :: "pydict list \<Rightarrow> (pyval \<times> string) list" where
  "plan_targets steps =
     map (\<lambda>s. (pyget s ''kind'', ups_text (pyget s ''id''))) (filter (\<lambda>s. truthy (pyget s ''running'')) steps)"

text \<open>The decision: the document it leaves, the worker it spawns and what it announces.\<close>

definition sweep_decide :: "tick \<Rightarrow> bool \<Rightarrow> doc \<Rightarrow> doc \<times> pc option \<times> act list" where
  "sweep_decide tk active file =
     (let st = load_state (tk_disk tk) file; phase = phase_of st in
      case tk_status tk of
        None \<Rightarrow> (file, None, [])
      | Some b \<Rightarrow>
          if \<not> bt_present b then (file, None, [])
          else if phase = PStr ''idle'' then
            (if \<not> truthy (pyget (tk_policy tk) ''enabled'') \<or> \<not> condition b (tk_policy tk) then (file, None, [])
             else
               (let steps = build_plan (tk_seams tk) (tk_policy tk)
                in (mutate_state (tk_disk tk) (latch (tk_now tk) (condition_reason b (tk_policy tk)) steps) file,
                    Some StopBegin, [Engaged (plan_targets steps)])))
          else if bt_on_ac b then
            (if worker_busy tk active st then (file, None, [])
             else (mutate_state (tk_disk tk) (dict_set ''phase'' (PStr ''restoring'')) file, Some RestoreBegin, [PowerBack]))
          else if phase = PStr ''engaged'' \<and> \<not> truthy (pyget st ''stop_done'') \<and> \<not> worker_busy tk active st
          then (file, Some StopBegin, [])
          else (file, None, []))"

text \<open>The single policy worker of this process: the flag, the persisted owner and its threads.\<close>

record guard =
  gd_doc :: doc
  gd_active :: bool
  gd_threads :: "pc list"

definition spawn_worker :: "tick \<Rightarrow> pc \<Rightarrow> guard \<Rightarrow> guard" where
  "spawn_worker tk target g =
     (if gd_active g then g
      else g\<lparr>gd_active := True,
             gd_doc := mutate_state (tk_disk tk)
               (dict_set ''worker_owner'' (PDict [(''pid'', PInt (tk_pid tk)), (''ts'', PInt (tk_clock tk))])) (gd_doc g),
             gd_threads := gd_threads g @ [target]\<rparr>)"

definition sweep :: "tick \<Rightarrow> guard \<Rightarrow> guard \<times> act list" where
  "sweep tk g =
     (let (file, target, acts) = sweep_decide tk (gd_active g) (gd_doc g); g = g\<lparr>gd_doc := file\<rparr>
      in (case target of None \<Rightarrow> g | Some t \<Rightarrow> spawn_worker tk t g, acts))"

section \<open>The drill\<close>

definition catalog :: "seams \<Rightarrow> pyval \<Rightarrow> (string \<times> string \<times> bool) list \<times> (string \<times> string \<times> bool) list" where
  \<comment> \<open>the pickers: stacks with whether they run, scripts with whether they have a stop command\<close>
  "catalog sm cfg =
     (List.map_filter (\<lambda>s. let sid = ups_text (pyget s ''id'') in
        if sid = [] then None
        else Some (sid, or_id (ups_text (pyget s ''name'')) sid, pyget s ''status'' = PStr ''ok'')) (stack_rows sm),
      List.map_filter (\<lambda>s. let sid = ups_text (pyget s ''id'') in
        if sid = [] then None
        else Some (sid, or_id (ups_text (pyget s ''name'')) sid, truthy (pyget s ''stop'')))
        (case mapping_get cfg ''scripts'' of PList xs \<Rightarrow> List.map_filter plain_dict xs | _ \<Rightarrow> []))"

record drilled =
  dr_enabled :: bool
  dr_would :: bool
  dr_reason :: string
  dr_present :: bool
  dr_on_battery :: bool
  dr_percent :: "nat option"
  dr_remaining :: "int option"
  dr_steps :: "pydict list"
  dr_catalog :: "(string \<times> string \<times> bool) list \<times> (string \<times> string \<times> bool) list"
  dr_settings :: pydict
  dr_state :: pyval

definition drill :: "disk \<Rightarrow> battery option \<Rightarrow> pydict \<Rightarrow> seams \<Rightarrow> pyval \<Rightarrow> doc \<Rightarrow> drilled" where
  "drill dk sensed policy sm cfg file =
     (let present = (case sensed of None \<Rightarrow> False | Some b \<Rightarrow> bt_present b);
          would = (case sensed of None \<Rightarrow> False | Some b \<Rightarrow> present \<and> condition b policy);
          reason = (case sensed of None \<Rightarrow> [] | Some b \<Rightarrow> if present then condition_reason b policy else []);
          enabled = truthy (pyget policy ''enabled'')
      in \<lparr>dr_enabled = enabled, dr_would = enabled \<and> would, dr_reason = reason, dr_present = present,
          dr_on_battery = (case sensed of None \<Rightarrow> False | Some b \<Rightarrow> bt_on_battery b),
          dr_percent = (case sensed of None \<Rightarrow> None | Some b \<Rightarrow> bt_percent b),
          dr_remaining = (case sensed of None \<Rightarrow> None | Some b \<Rightarrow> bt_remaining b),
          dr_steps = build_plan sm policy, dr_catalog = catalog sm cfg, dr_settings = policy, dr_state = public_state dk file\<rparr>)"

definition catalog_rows :: "string \<Rightarrow> (string \<times> string \<times> bool) list \<Rightarrow> pyval" where
  "catalog_rows flag rows =
     PList (map (\<lambda>(sid, name, b). PDict [(''id'', PStr sid), (''name'', PStr name), (flag, PBool b)]) rows)"

definition drill_reply :: "drilled \<Rightarrow> pyval" where
  "drill_reply d =
     jsonable 0 (PDict
       [(''enabled'', PBool (dr_enabled d)), (''would_trigger_now'', PBool (dr_would d)), (''reason'', PStr (dr_reason d)),
        (''sensor_present'', PBool (dr_present d)), (''on_battery'', PBool (dr_on_battery d)),
        (''battery_percent'', opt_int (map_option int (dr_percent d))), (''time_remaining_min'', opt_int (dr_remaining d)),
        (''steps'', PList (map PDict (dr_steps d))),
        (''catalog'', PDict [(''stacks'', catalog_rows ''running'' (fst (dr_catalog d))),
           (''scripts'', catalog_rows ''has_stop'' (snd (dr_catalog d)))]),
        (''settings'', PDict (dr_settings d)), (''state'', dr_state d)])"

end
