(* ===== verification/Ups_Json.thy ===== *)
theory Ups_Json
  imports Ups_Policy
begin

text \<open>
  What the scrub of the policy's state leaves: a tree JSON can hold, equal to its input when that
  already was one. From it, how each write of the state changes the fields and the step rows.
\<close>

section \<open>Laundered text\<close>

definition clean_text :: "string \<Rightarrow> bool" where
  "clean_text s \<longleftrightarrow> list_all (\<lambda>c. \<not> surrogate c) (text_chars s)"

lemma launder_clean: "clean_text s \<Longrightarrow> launder s = s"
proof -
  assume "clean_text s"
  then have "map (\<lambda>c. if surrogate c then ''?'' else c) (text_chars s) = text_chars s"
    by (auto simp: clean_text_def list_all_iff intro: map_idI)
  then show ?thesis by (simp add: launder_def concat_text_chars)
qed

text \<open>Characters in a row: every one but the first starts with a byte that is no continuation.\<close>

definition pieces :: "string list \<Rightarrow> bool" where
  "pieces ps \<longleftrightarrow> list_all (\<lambda>p. p \<noteq> [] \<and> list_all continuation (tl p)) ps
     \<and> list_all (\<lambda>p. \<not> continuation (hd p)) (tl ps)"

lemma dropWhile_head: "dropWhile P xs = y # ys \<Longrightarrow> \<not> P y"
  by (metis hd_dropWhile list.distinct(1) list.sel(1))

lemma pieces_text_chars: "pieces (text_chars s)"
proof (induction s rule: text_chars.induct)
  case (2 c cs)
  have "\<not> continuation (hd p)" if "p \<in> set (text_chars (dropWhile continuation cs))" for p
  proof (cases "dropWhile continuation cs")
    case Nil
    show ?thesis using that unfolding Nil by simp
  next
    case (Cons d ds)
    then have "\<not> continuation d" by (rule dropWhile_head)
    moreover have "p = d # takeWhile continuation ds \<or> p \<in> set (tl (text_chars (dropWhile continuation cs)))"
      using that unfolding Cons by auto
    ultimately show ?thesis using 2 by (auto simp: pieces_def list_all_iff)
  qed
  then have "list_all (\<lambda>p. \<not> continuation (hd p)) (tl (text_chars (c # cs)))" by (simp add: list_all_iff)
  moreover have "list_all (\<lambda>p. p \<noteq> [] \<and> list_all continuation (tl p)) (text_chars (c # cs))"
    using 2 by (auto simp: pieces_def list_all_iff dest: set_takeWhileD)
  ultimately show ?case unfolding pieces_def by blast
qed (simp add: pieces_def)

lemma text_chars_pieces: "pieces ps \<Longrightarrow> text_chars (concat ps) = ps"
proof (induction ps)
  case (Cons p ps)
  obtain c t where p: "p = c # t" and t: "list_all continuation t" using Cons.prems by (cases p) (auto simp: pieces_def)
  have "concat ps = [] \<or> \<not> continuation (hd (concat ps))"
    using Cons.prems by (cases ps) (auto simp: pieces_def hd_append)
  then have "takeWhile continuation (t @ concat ps) = t" "dropWhile continuation (t @ concat ps) = concat ps"
    using t by (auto simp: list_all_iff takeWhile_append dropWhile_append takeWhile_eq_Nil_iff dropWhile_eq_self_iff)
  moreover have "pieces ps" using Cons.prems by (cases ps) (auto simp: pieces_def)
  ultimately show ?case using Cons.IH p by simp
qed simp

lemma clean_launder: "clean_text (launder s)"
proof -
  let ?f = "\<lambda>c. if surrogate c then ''?'' else c"
  have q: "\<not> continuation (CHR ''?'')" "\<not> surrogate ''?''" by (simp_all add: continuation_def ordc_def)
  have "pieces (map ?f ps)" if "pieces ps" for ps
    using that q(1) by (cases ps) (auto simp: pieces_def list_all_iff)
  then have "pieces (map ?f (text_chars s))" using pieces_text_chars by blast
  then have "text_chars (launder s) = map ?f (text_chars s)" by (simp add: launder_def text_chars_pieces)
  then show ?thesis using q by (auto simp: clean_text_def list_all_iff)
qed

lemma launder_launder [simp]: "launder (launder s) = launder s"
  by (rule launder_clean) (rule clean_launder)

lemma clean_ascii: "list_all is_ascii s \<Longrightarrow> clean_text s"
  by (simp add: clean_text_def text_chars_ascii list_all_iff)

lemma launder_ascii: "list_all is_ascii s \<Longrightarrow> launder s = s"
  by (simp add: launder_clean clean_ascii)

lemma launder_empty [simp]: "launder s = [] \<longleftrightarrow> s = []"
proof (cases s)
  case (Cons c cs)
  have "text_chars s = (c # takeWhile continuation cs) # text_chars (dropWhile continuation cs)" using Cons by simp
  then have "launder s \<noteq> []" by (simp add: launder_def)
  then show ?thesis using Cons by blast
qed (simp add: launder_def)

section \<open>Scrubbed values\<close>

fun json_ok :: "nat \<Rightarrow> pyval \<Rightarrow> bool" where
  "json_ok depth v \<longleftrightarrow>
     (if 32 < depth then v = PNone
      else (case v of
              PNone \<Rightarrow> True
            | PBool _ \<Rightarrow> True
            | PInt i \<Rightarrow> fits_digit_cap i
            | PFloat f \<Rightarrow> is_finite_float f
            | PStr s \<Rightarrow> clean_text s
            | PDict kvs \<Rightarrow> dict_ok kvs \<and> list_all (\<lambda>p. clean_text (fst p) \<and> json_ok (Suc depth) (snd p)) kvs
            | PList xs \<Rightarrow> list_all (json_ok (Suc depth)) xs
            | _ \<Rightarrow> False))"

declare json_ok.simps [simp del]

lemma launder_keys_all:
  "(\<And>p. p \<in> set kvs \<Longrightarrow> P (snd p)) \<Longrightarrow>
    dict_ok (launder_keys kvs) \<and> list_all (\<lambda>p. clean_text (fst p) \<and> P (snd p)) (launder_keys kvs)"
proof (induction kvs rule: rev_induct)
  case Nil
  show ?case by (simp add: launder_keys_def dict_ok_def)
next
  case (snoc q kvs)
  have s: "launder_keys (kvs @ [q]) = dict_set (launder (fst q)) (snd q) (launder_keys kvs)" by (simp add: launder_keys_def)
  have "dict_ok (launder_keys kvs) \<and> list_all (\<lambda>p. clean_text (fst p) \<and> P (snd p)) (launder_keys kvs)" using snoc by simp
  then show ?case unfolding s using snoc.prems[of q]
    by (auto simp: list_all_iff clean_launder dict_ok_set dest!: in_dict_set)
qed

lemma dict_set_new: "k \<notin> fst ` set d \<Longrightarrow> dict_set k v d = d @ [(k, v)]"
  by (induction d) (auto simp: dict_set_def)

lemma launder_keys_clean: "dict_ok kvs \<Longrightarrow> list_all (\<lambda>p. clean_text (fst p)) kvs \<Longrightarrow> launder_keys kvs = kvs"
proof (induction kvs rule: rev_induct)
  case (snoc q kvs)
  have "launder_keys (kvs @ [q]) = dict_set (fst q) (snd q) (launder_keys kvs)"
    using snoc.prems by (simp add: launder_keys_def launder_clean)
  then show ?case using snoc by (simp add: dict_ok_def dict_set_new)
qed (simp add: launder_keys_def)

lemma jsonable_ok: "json_ok n (jsonable n v)"
proof (induction n v rule: jsonable.induct)
  case (1 n v)
  show ?case
  proof (cases "32 < n")
    case True
    then show ?thesis by (simp add: jsonable.simps[of n] json_ok.simps[of n])
  next
    case False
    show ?thesis
    proof (cases v)
      case (PDict kvs)
      let ?j = "map (\<lambda>p. (fst p, jsonable (Suc n) (snd p))) kvs"
      have "json_ok (Suc n) (snd p)" if "p \<in> set ?j" for p using 1(3)[OF False PDict] that by auto
      from launder_keys_all[of ?j "json_ok (Suc n)", OF this] show ?thesis
        using False PDict by (simp add: jsonable.simps[of n] json_ok.simps[of n])
    next
      case (PList xs)
      then show ?thesis using False 1(1)[OF False PList] by (simp add: jsonable.simps[of n] json_ok.simps[of n] list_all_iff)
    next
      case (PTuple xs)
      then show ?thesis using False 1(2)[OF False PTuple] by (simp add: jsonable.simps[of n] json_ok.simps[of n] list_all_iff)
    qed (use False in \<open>simp_all add: jsonable.simps[of n] json_ok.simps[of n] clean_launder clean_ascii\<close>)
  qed
qed

lemma jsonable_id: "json_ok n v \<Longrightarrow> jsonable n v = v"
proof (induction n v rule: jsonable.induct)
  case (1 n v)
  show ?case
  proof (cases "32 < n")
    case True
    then show ?thesis using 1(4) by (simp add: jsonable.simps[of n] json_ok.simps[of n])
  next
    case False
    show ?thesis
    proof (cases v)
      case (PDict kvs)
      have k: "dict_ok kvs" "list_all (\<lambda>p. clean_text (fst p)) kvs" "\<And>p. p \<in> set kvs \<Longrightarrow> json_ok (Suc n) (snd p)"
        using 1(4) False PDict by (auto simp: json_ok.simps[of n] list_all_iff)
      have "map (\<lambda>p. (fst p, jsonable (Suc n) (snd p))) kvs = kvs"
        using 1(3)[OF False PDict _ k(3)] by (intro map_idI) auto
      then show ?thesis using False PDict launder_keys_clean[OF k(1,2)] by (simp add: jsonable.simps[of n])
    next
      case (PList xs)
      have "json_ok (Suc n) x" if "x \<in> set xs" for x using 1(4) False PList that by (simp add: json_ok.simps[of n] list_all_iff)
      then have "map (jsonable (Suc n)) xs = xs" using 1(1)[OF False PList] by (intro map_idI) auto
      then show ?thesis using False PList by (simp add: jsonable.simps[of n])
    qed (use False 1(4) in \<open>auto simp: jsonable.simps[of n] json_ok.simps[of n] launder_clean\<close>)
  qed
qed

lemma json_ok_fix: "json_ok n v \<longleftrightarrow> jsonable n v = v"
  using jsonable_ok[of n v] jsonable_id[of n v] by auto

section \<open>Scrubbed dictionaries\<close>

definition scrub_at :: "nat \<Rightarrow> pydict \<Rightarrow> pydict" where
  "scrub_at n d = launder_keys (map (\<lambda>p. (fst p, jsonable (Suc n) (snd p))) d)"

definition keys_ok :: "pydict \<Rightarrow> bool" where
  "keys_ok d \<longleftrightarrow> dict_ok d \<and> list_all (\<lambda>p. clean_text (fst p)) d"

abbreviation state_ok :: "pydict \<Rightarrow> bool" where
  "state_ok st \<equiv> json_ok 0 (PDict st)"

lemma jsonable_PDict: "n \<le> 32 \<Longrightarrow> jsonable n (PDict d) = PDict (scrub_at n d)"
  by (simp add: jsonable.simps[of n] scrub_at_def)

lemma scrub_ok: "n \<le> 32 \<Longrightarrow> json_ok n (PDict (scrub_at n d))"
  using jsonable_ok[of n "PDict d"] by (simp add: jsonable_PDict)

lemma scrub_id: "n \<le> 32 \<Longrightarrow> json_ok n (PDict d) \<Longrightarrow> scrub_at n d = d"
  using jsonable_id[of n "PDict d"] by (simp add: jsonable_PDict)

lemma json_ok_keys: "n \<le> 32 \<Longrightarrow> json_ok n (PDict d) \<Longrightarrow> keys_ok d"
  by (auto simp: json_ok.simps[of n] keys_ok_def list_all_iff)

lemma keys_ok_set: "keys_ok d \<Longrightarrow> clean_text k \<Longrightarrow> keys_ok (dict_set k v d)"
  by (auto simp: keys_ok_def list_all_iff dict_ok_set dest!: in_dict_set)

lemma keys_ok_del: "keys_ok d \<Longrightarrow> keys_ok (dict_del k d)"
  using dict_ok_del[of d k] by (auto simp: keys_ok_def list_all_iff dict_del_def)

lemma scrub_map: "keys_ok d \<Longrightarrow> scrub_at n d = map (\<lambda>p. (fst p, jsonable (Suc n) (snd p))) d"
  unfolding scrub_at_def by (rule launder_keys_clean) (auto simp: keys_ok_def dict_ok_def comp_def list_all_iff)

lemma map_dict_set: "map (\<lambda>p. (fst p, f (snd p))) (dict_set k v d) = dict_set k (f v) (map (\<lambda>p. (fst p, f (snd p))) d)"
  by (induction d) (auto simp: dict_set_def)

lemma scrub_set: "keys_ok d \<Longrightarrow> clean_text k \<Longrightarrow> scrub_at n (dict_set k v d) = dict_set k (jsonable (Suc n) v) (scrub_at n d)"
  by (simp add: scrub_map keys_ok_set map_dict_set)

lemma jsonable_PNone [simp]: "jsonable n PNone = PNone"
  by (simp add: jsonable.simps[of n])

lemma jsonable_PBool: "n \<le> 32 \<Longrightarrow> jsonable n (PBool b) = PBool b"
  by (simp add: jsonable.simps[of n])

lemma jsonable_PStr: "n \<le> 32 \<Longrightarrow> jsonable n (PStr s) = PStr (launder s)"
  by (simp add: jsonable.simps[of n])

lemma jsonable_PList: "n \<le> 32 \<Longrightarrow> jsonable n (PList xs) = PList (map (jsonable (Suc n)) xs)"
  by (simp add: jsonable.simps[of n])

lemma jsonable_Some: "dict_get (map (\<lambda>p. (fst p, f (snd p))) d) k = map_option f (dict_get d k)"
  by (induction d) (auto simp: dict_get_def)

lemma pyget_scrub: "keys_ok d \<Longrightarrow> pyget (scrub_at n d) k = jsonable (Suc n) (pyget d k)"
  by (simp add: scrub_map pyget_def jsonable_Some split: option.split)

lemma scrub_update:
  "keys_ok d \<Longrightarrow> list_all (\<lambda>p. clean_text (fst p)) new \<Longrightarrow>
    scrub_at n (update_fields new d) = update_fields (map (\<lambda>p. (fst p, jsonable (Suc n) (snd p))) new) (scrub_at n d)"
proof (induction new arbitrary: d)
  case (Cons p new)
  then show ?case using Cons.IH[of "dict_set (fst p) (snd p) d"]
    by (simp add: update_fields_def keys_ok_set scrub_set)
qed (simp add: update_fields_def)

lemma pyget_update: "pyget (update_fields new d) k = (case dict_get (rev new) k of None \<Rightarrow> pyget d k | Some v \<Rightarrow> v)"
proof (induction new arbitrary: d rule: rev_induct)
  case (snoc p new)
  have "update_fields (new @ [p]) d = dict_set (fst p) (snd p) (update_fields new d)" by (simp add: update_fields_def)
  then show ?case using snoc by (cases p) (auto simp: dict_simps dict_get_def)
qed (simp add: update_fields_def dict_simps)

section \<open>Writes of the state\<close>

text \<open>The step rows, when they are a list of rows, and the state a document holds.\<close>

definition rows_are :: "pydict \<Rightarrow> pydict list \<Rightarrow> bool" where
  "rows_are st rows \<longleftrightarrow> pyget st ''steps'' = PList (map PDict rows)"

abbreviation stored :: "doc \<Rightarrow> pydict" where
  "stored file \<equiv> load_state good_disk file"

lemma stored_mutate: "stored (mutate_state good_disk f file) = scrub_at 0 (f (stored file))"
  by (simp add: load_state_def mutate_state_def save_state_def jsonable_PDict)

lemma stored_mutate_ok: "state_ok (stored (mutate_state good_disk f file))"
  by (simp add: stored_mutate scrub_ok)

lemma stored_set:
  assumes "state_ok (stored file)" "clean_text k"
  shows "stored (mutate_state good_disk (dict_set k v) file) = dict_set k (jsonable 1 v) (stored file)"
  using assms by (simp add: stored_mutate scrub_set json_ok_keys[of 0] scrub_id)

lemma json_ok_del: "n \<le> 32 \<Longrightarrow> json_ok n (PDict d) \<Longrightarrow> json_ok n (PDict (dict_del k d))"
  using dict_ok_del[of d k] by (auto simp: json_ok.simps[of n] list_all_iff dict_del_def)

lemma stored_del:
  assumes "state_ok (stored file)"
  shows "stored (mutate_state good_disk (dict_del k) file) = dict_del k (stored file)"
  using assms by (simp add: stored_mutate scrub_id json_ok_del)

lemma map_filter_PDict_id: "List.map_filter plain_dict (map PDict ds) = ds"
  by (induction ds) (simp_all add: List.map_filter_simps)

lemma step_rows_are: "rows_are st rows \<Longrightarrow> step_rows st = Inr rows"
  by (simp add: rows_are_def step_rows_def map_filter_PDict_id)

fun update_row :: "pyval \<Rightarrow> string \<Rightarrow> pydict \<Rightarrow> pydict list \<Rightarrow> pydict list" where
  "update_row kind sid new [] = []"
| "update_row kind sid new (r # rs) = (if is_step kind sid r then update_fields new r # rs else r # update_row kind sid new rs)"

lemma update_step_rows: "update_step kind sid new (map PDict rs) = map PDict (update_row kind sid new rs)"
  by (induction rs) auto

lemma update_row_none: "\<not> list_ex (is_step kind sid) rs \<Longrightarrow> update_row kind sid new rs = rs"
  by (induction rs) auto

lemma apply_step_rows:
  "rows_are st rs \<Longrightarrow> rows_are (apply_step kind sid new st) (update_row kind sid new rs)"
  by (auto simp: rows_are_def apply_step_def update_step_rows update_row_none dict_simps list_ex_iff)

lemma apply_step_other: "k \<noteq> ''steps'' \<Longrightarrow> pyget (apply_step kind sid new st) k = pyget st k"
  by (simp add: apply_step_def dict_simps split: pyval.split)

lemma row_ok:
  assumes "state_ok st" "rows_are st rs" "r \<in> set rs"
  shows "json_ok 2 (PDict r)"
proof -
  obtain v where v: "dict_get st ''steps'' = Some v" "v = PList (map PDict rs)"
    using assms(2) by (auto simp: rows_are_def pyget_def split: option.splits)
  then have "json_ok 1 v" using assms(1) dict_get_in[OF v(1)] by (fastforce simp: json_ok.simps[of 0] list_all_iff)
  then show ?thesis using v(2) assms(3) by (auto simp: json_ok.simps[of "Suc 0"] list_all_iff numeral_2_eq_2)
qed

abbreviation row_fields :: "pydict \<Rightarrow> pydict" where
  "row_fields new \<equiv> map (\<lambda>p. (fst p, jsonable 3 (snd p))) new"

lemma scrub_update_row:
  assumes "\<And>r. r \<in> set rs \<Longrightarrow> json_ok 2 (PDict r)" "list_all (\<lambda>p. clean_text (fst p)) new"
  shows "map (\<lambda>r. scrub_at 2 r) (update_row kind sid new rs) = update_row kind sid (row_fields new) rs"
  using assms(1)
proof (induction rs)
  case (Cons r rs)
  have r: "scrub_at 2 r = r" "keys_ok r" "map (scrub_at 2) rs = rs"
    using Cons.prems scrub_id[of 2] json_ok_keys[of 2] by (auto intro: map_idI)
  then show ?case using Cons scrub_update[OF r(2) assms(2), of 2] by (simp add: numeral_3_eq_3 numeral_2_eq_2)
qed simp

text \<open>Recording fields changes the first row of that kind and id, and nothing else.\<close>

lemma record_step_rows:
  assumes "state_ok (stored file)" "rows_are (stored file) rs" "list_all (\<lambda>p. clean_text (fst p)) new"
  obtains file' where "record_step good_disk kind sid new file = Inr file'" "state_ok (stored file')"
    "rows_are (stored file') (update_row kind sid (row_fields new) rs)"
    "\<And>k. k \<noteq> ''steps'' \<Longrightarrow> pyget (stored file') k = pyget (stored file) k"
proof
  let ?st = "stored file" and ?file' = "mutate_state good_disk (apply_step kind sid new) file"
  show "record_step good_disk kind sid new file = Inr ?file'" using assms(2) by (simp add: record_step_def step_rows_are)
  show "state_ok (stored ?file')" by (rule stored_mutate_ok)
  have k: "keys_ok ?st" using json_ok_keys[of 0] assms(1) by simp
  have ks: "keys_ok (apply_step kind sid new ?st)"
    using k keys_ok_set[OF k, of "''steps''"] clean_ascii[of "''steps''"] by (auto simp: apply_step_def is_ascii_def ordc_def split: pyval.split)
  have g: "pyget (stored ?file') x = jsonable 1 (pyget (apply_step kind sid new ?st) x)" for x
    by (simp add: stored_mutate pyget_scrub[OF ks])
  have row: "json_ok 2 (PDict r)" if "r \<in> set rs" for r by (rule row_ok[OF assms(1,2) that])
  have "pyget (apply_step kind sid new ?st) ''steps'' = PList (map PDict (update_row kind sid new rs))"
    using apply_step_rows[OF assms(2)] by (simp add: rows_are_def)
  then have "pyget (stored ?file') ''steps'' = PList (map PDict (map (scrub_at 2) (update_row kind sid new rs)))"
    using g[of "''steps''"] by (simp add: jsonable_PList jsonable_PDict numeral_2_eq_2)
  then show "rows_are (stored ?file') (update_row kind sid (row_fields new) rs)"
    using scrub_update_row[OF row assms(3)] by (simp add: rows_are_def)
  show "pyget (stored ?file') x = pyget ?st x" if "x \<noteq> ''steps''" for x
  proof -
    have "pyget (stored ?file') x = pyget (scrub_at 0 ?st) x"
      using g[of x] that by (simp add: apply_step_other pyget_scrub[OF k])
    then show ?thesis using scrub_id[of 0] assms(1) by simp
  qed
qed

end
