(* ===== verification/Ups_Safety.thy ===== *)
theory Ups_Safety
  imports Ups_Json
begin

text \<open>
  The safe-shutdown policy against an abstract soft landing: sweeps, worker actions and deaths of
  the panel interleave in any order, and every trace of announcements, stops and starts is one the
  abstract machine accepts.
\<close>

section \<open>The abstract soft landing\<close>

type_synonym target = "pyval \<times> string"

text \<open>Quiet; landing for some targets with those stopped so far; restoring, with those started.\<close>

datatype landing =
    Quiet
  | Landing "target set" "target set"
  | Restoring "target set" "target set" "target set"

definition kept_targets :: "target list \<Rightarrow> target set" where
  \<comment> \<open>as the state file keeps them: ids with lone surrogates laundered\<close>
  "kept_targets ts = (\<lambda>(k, i). (k, launder i)) ` set ts"

fun landing_step :: "landing \<Rightarrow> act \<Rightarrow> landing option" where
  "landing_step Quiet (Engaged ts) = Some (Landing (kept_targets ts) {})"
| "landing_step (Landing T S) (StopCmd k i) = (if (k, i) \<in> T then Some (Landing T (insert (k, i) S)) else None)"
| "landing_step (Landing T S) PowerBack = Some (Restoring T S {})"
| "landing_step (Restoring T S R) PowerBack = Some (Restoring T S R)"
| "landing_step (Restoring T S R) (StartCmd k i) =
     (if (k, i) \<in> T then Some (Restoring T S (insert (k, i) R)) else None)"
| "landing_step (Restoring T S R) (Reset _ _) = (if S \<subseteq> R then Some Quiet else None)"
| "landing_step _ _ = None"

fun landing_run :: "landing \<Rightarrow> act list \<Rightarrow> landing option" where
  "landing_run a [] = Some a"
| "landing_run a (x # xs) = (case landing_step a x of None \<Rightarrow> None | Some b \<Rightarrow> landing_run b xs)"

lemma landing_run_append: "landing_run a (xs @ ys) = (case landing_run a xs of None \<Rightarrow> None | Some b \<Rightarrow> landing_run b ys)"
  by (induction xs arbitrary: a) (auto split: option.split)

section \<open>The panel as a labelled step relation\<close>

inductive guard_step :: "guard \<Rightarrow> act list \<Rightarrow> guard \<Rightarrow> bool" where
  swept: "tk_disk tk = good_disk \<Longrightarrow> sweep tk g = (g', xs) \<Longrightarrow> guard_step g xs g'"
| worked: "gd_threads g = us @ pc # vs \<Longrightarrow> pc \<noteq> Clearing \<Longrightarrow> pc \<noteq> Popping \<Longrightarrow> me_disk me = good_disk \<Longrightarrow>
    worker_act me pc (gd_doc g) = (pc', file, xs) \<Longrightarrow>
    guard_step g xs (g\<lparr>gd_doc := file, gd_threads := us @ pc' # vs\<rparr>)"
| cleared: "gd_threads g = us @ Clearing # vs \<Longrightarrow>
    guard_step g [] (g\<lparr>gd_active := False, gd_threads := us @ Popping # vs\<rparr>)"
| popped: "gd_threads g = us @ Popping # vs \<Longrightarrow> me_disk me = good_disk \<Longrightarrow>
    worker_act me Popping (gd_doc g) = (pc', file, xs) \<Longrightarrow>
    guard_step g xs (g\<lparr>gd_doc := file, gd_threads := us @ vs\<rparr>)"
| died: "guard_step g [] \<lparr>gd_doc = gd_doc g, gd_active = False, gd_threads = []\<rparr>"
| died_deciding: "tk_disk tk = good_disk \<Longrightarrow> sweep_decide tk (gd_active g) (gd_doc g) = (file, t, xs) \<Longrightarrow>
    guard_step g xs \<lparr>gd_doc = file, gd_active = False, gd_threads = []\<rparr>"

text \<open>A history: the announcements, stops and starts of a run, in order.\<close>

inductive guard_run :: "guard \<Rightarrow> act list \<Rightarrow> guard \<Rightarrow> bool" where
  start: "guard_run g [] g"
| more: "guard_run g xs g' \<Longrightarrow> guard_step g' ys g'' \<Longrightarrow> guard_run g (xs @ ys) g''"

definition at_rest :: "doc \<Rightarrow> guard" where
  "at_rest file = \<lparr>gd_doc = file, gd_active = False, gd_threads = []\<rparr>"

section \<open>Rows\<close>

abbreviation issued :: "pydict \<Rightarrow> bool" where
  "issued r \<equiv> truthy (pyget r ''stop_issued'')"

abbreviation has_path :: "pyval \<Rightarrow> pydict \<Rightarrow> bool" where
  "has_path k r \<equiv> k = PStr ''stack'' \<longrightarrow> truthy (pyget r ''compose_path'')"

definition marked :: "pydict list \<Rightarrow> pyval \<Rightarrow> string \<Rightarrow> bool" where
  "marked D k i \<longleftrightarrow> (\<exists>r \<in> set D. is_step k i r \<and> issued r)"

definition due :: "target set \<Rightarrow> pydict \<Rightarrow> bool" where
  "due T r \<longleftrightarrow> (\<exists>k i. is_step k i r \<and> (issued r \<longrightarrow> (k, i) \<in> T \<and> has_path k r))"

definition rows_ok :: "target set \<Rightarrow> pydict list \<Rightarrow> bool" where
  "rows_ok T D \<longleftrightarrow>
     (\<forall>r \<in> set D. due T r \<and> (\<forall>k i. is_step k i r \<longrightarrow> truthy (pyget r ''running'') \<longrightarrow> (k, i) \<in> T))"

definition present_row :: "target set \<Rightarrow> pydict list \<Rightarrow> pydict \<Rightarrow> bool" where
  "present_row T D r \<longleftrightarrow>
     (\<exists>k i. is_step k i r \<and> (\<exists>r' \<in> set D. is_step k i r') \<and> (truthy (pyget r ''running'') \<longrightarrow> (k, i) \<in> T))"

definition view_keys :: "string set" where
  "view_keys = {''kind'', ''id'', ''running'', ''stop_issued'', ''compose_path''}"

definition harmless :: "pydict \<Rightarrow> bool" where
  "harmless new \<longleftrightarrow> list_all (\<lambda>p. clean_text (fst p) \<and> fst p \<notin> view_keys) new"

definition arms :: "pyval \<Rightarrow> pydict \<Rightarrow> bool" where
  "arms k new \<longleftrightarrow>
     (k \<noteq> PStr ''stack'' \<and> new = [(''stop_issued'', PBool True)])
     \<or> (\<exists>p. p \<noteq> [] \<and> new = [(''stop_issued'', PBool True), (''compose_path'', PStr p)])"

lemma is_step_fun: "is_step k i r \<Longrightarrow> is_step k' i' r \<Longrightarrow> k' = k \<and> i' = i"
  by (simp add: is_step_def)

lemma in_update_row:
  "r' \<in> set (update_row k s new D) \<Longrightarrow> r' \<in> set D \<or> (\<exists>r \<in> set D. is_step k s r \<and> r' = update_fields new r)"
  by (induction D) (auto split: if_splits)

lemma of_update_row:
  "r \<in> set D \<Longrightarrow> r \<in> set (update_row k s new D) \<or> (is_step k s r \<and> update_fields new r \<in> set (update_row k s new D))"
  by (induction D) auto

lemma updated_row: "\<exists>r \<in> set D. is_step k s r \<Longrightarrow> \<exists>r \<in> set D. is_step k s r \<and> update_fields new r \<in> set (update_row k s new D)"
  by (induction D) auto

lemma pyget_row_fields:
  assumes "x \<notin> fst ` set new"
  shows "pyget (update_fields (row_fields new) r) x = pyget r x"
proof -
  have "dict_get (rev (row_fields new)) x = None"
    unfolding dict_get_def map_of_eq_None_iff using assms by force
  then show ?thesis by (simp add: pyget_update)
qed

lemma harmless_view: "harmless new \<Longrightarrow> x \<in> view_keys \<Longrightarrow> pyget (update_fields (row_fields new) r) x = pyget r x"
  by (rule pyget_row_fields) (auto simp: harmless_def list_all_iff)

lemma arms_view:
  assumes "arms k new"
  shows "x \<notin> {''stop_issued'', ''compose_path''} \<Longrightarrow> pyget (update_fields (row_fields new) r) x = pyget r x"
    and "issued (update_fields (row_fields new) r)" and "has_path k (update_fields (row_fields new) r)"
  using assms by (auto simp: arms_def pyget_update dict_get_def jsonable_PBool jsonable_PStr)

lemma arms_clean: "arms k new \<Longrightarrow> list_all (\<lambda>p. clean_text (fst p)) new"
  by (auto simp: arms_def is_ascii_def ordc_def intro!: clean_ascii)

lemma harmless_row:
  assumes "harmless new"
  shows "is_step k i (update_fields (row_fields new) r) \<longleftrightarrow> is_step k i r"
    "issued (update_fields (row_fields new) r) \<longleftrightarrow> issued r"
    "has_path k (update_fields (row_fields new) r) \<longleftrightarrow> has_path k r"
    "truthy (pyget (update_fields (row_fields new) r) ''running'') \<longleftrightarrow> truthy (pyget r ''running'')"
  using assms by (simp_all add: is_step_def harmless_view view_keys_def)

lemma arms_row:
  assumes "arms k new"
  shows "is_step k' i (update_fields (row_fields new) r) \<longleftrightarrow> is_step k' i r"
    "truthy (pyget (update_fields (row_fields new) r) ''running'') \<longleftrightarrow> truthy (pyget r ''running'')"
  using arms_view(1)[OF assms] by (simp_all add: is_step_def)

text \<open>Recording harmless fields keeps every fact about the rows; arming a row marks it.\<close>

lemma harmless_rows:
  assumes "harmless new" "D' = update_row k s (row_fields new) D"
  shows "rows_ok T D \<Longrightarrow> rows_ok T D'" "marked D' k' i' \<longleftrightarrow> marked D k' i'"
    "(\<exists>r \<in> set D'. is_step k' i' r) \<longleftrightarrow> (\<exists>r \<in> set D. is_step k' i' r)"
proof -
  note v = harmless_row[OF assms(1)]
  have fwd: "r \<in> set D \<or> (\<exists>q \<in> set D. r = update_fields (row_fields new) q)" if "r \<in> set D'" for r
    using in_update_row[of r k s "row_fields new" D] that assms(2) by blast
  have bwd: "r \<in> set D' \<or> update_fields (row_fields new) r \<in> set D'" if "r \<in> set D" for r
    using of_update_row[OF that, of k s "row_fields new"] assms(2) by blast
  show "rows_ok T D'" if ok: "rows_ok T D"
    unfolding rows_ok_def
  proof
    fix r assume "r \<in> set D'"
    from fwd[OF this] show "due T r \<and> (\<forall>k i. is_step k i r \<longrightarrow> truthy (pyget r ''running'') \<longrightarrow> (k, i) \<in> T)"
    proof
      assume "\<exists>q \<in> set D. r = update_fields (row_fields new) q"
      then obtain q where "q \<in> set D" "r = update_fields (row_fields new) q" by blast
      then show ?thesis using ok unfolding rows_ok_def due_def by (simp only: v) blast
    qed (use ok in \<open>auto simp: rows_ok_def\<close>)
  qed
  show "marked D' k' i' \<longleftrightarrow> marked D k' i'"
    unfolding marked_def using fwd bwd v(1,2) by blast
  show "(\<exists>r \<in> set D'. is_step k' i' r) \<longleftrightarrow> (\<exists>r \<in> set D. is_step k' i' r)"
    using fwd bwd v(1) by blast
qed

lemma arms_rows:
  assumes "arms k new" "D' = update_row k s (row_fields new) D" "(k, s) \<in> T" "\<exists>r \<in> set D. is_step k s r"
  shows "rows_ok T D \<Longrightarrow> rows_ok T D'" "marked D' k' i' \<longleftrightarrow> marked D k' i' \<or> (k', i') = (k, s)"
    "(\<exists>r \<in> set D'. is_step k' i' r) \<longleftrightarrow> (\<exists>r \<in> set D. is_step k' i' r)"
proof -
  note v = arms_row[OF assms(1)] arms_view(2,3)[OF assms(1)]
  have fwd: "r \<in> set D \<or> (\<exists>q \<in> set D. is_step k s q \<and> r = update_fields (row_fields new) q)" if "r \<in> set D'" for r
    using in_update_row[of r k s "row_fields new" D] that assms(2) by blast
  have bwd: "r \<in> set D' \<or> (is_step k s r \<and> update_fields (row_fields new) r \<in> set D')" if "r \<in> set D" for r
    using of_update_row[OF that, of k s "row_fields new"] assms(2) by blast
  have hit: "\<exists>r \<in> set D'. is_step k s r \<and> issued r"
    using updated_row[OF assms(4), of "row_fields new"] assms(2) v by blast
  show "rows_ok T D'" if ok: "rows_ok T D"
    unfolding rows_ok_def
  proof
    fix r assume "r \<in> set D'"
    from fwd[OF this] show "due T r \<and> (\<forall>k i. is_step k i r \<longrightarrow> truthy (pyget r ''running'') \<longrightarrow> (k, i) \<in> T)"
    proof
      assume "\<exists>q \<in> set D. is_step k s q \<and> r = update_fields (row_fields new) q"
      then obtain q where q: "q \<in> set D" "is_step k s q" "r = update_fields (row_fields new) q" by blast
      then have "is_step k s r" "has_path k r" using v by blast+
      moreover have "\<forall>k' i. is_step k' i r \<longrightarrow> (k', i) \<in> T" using q(2,3) v(1) is_step_fun assms(3) by metis
      ultimately show ?thesis using assms(3) unfolding due_def by blast
    qed (use ok in \<open>auto simp: rows_ok_def\<close>)
  qed
  show "marked D' k' i' \<longleftrightarrow> marked D k' i' \<or> (k', i') = (k, s)"
  proof
    assume "marked D' k' i'"
    then show "marked D k' i' \<or> (k', i') = (k, s)" unfolding marked_def using fwd v(1) is_step_fun by blast
  next
    assume "marked D k' i' \<or> (k', i') = (k, s)"
    then show "marked D' k' i'"
    proof
      assume "marked D k' i'"
      then obtain r where r: "r \<in> set D" "is_step k' i' r" "issued r" by (auto simp: marked_def)
      from bwd[OF r(1)] show ?thesis using r v unfolding marked_def by blast
    qed (use hit in \<open>auto simp: marked_def\<close>)
  qed
  show "(\<exists>r \<in> set D'. is_step k' i' r) \<longleftrightarrow> (\<exists>r \<in> set D. is_step k' i' r)"
    using fwd bwd v(1) by blast
qed

section \<open>Where the worker may be\<close>

fun is_loop :: "pc \<Rightarrow> bool" where
  "is_loop (StopLoop engine paths rs) \<longleftrightarrow> True"
| "is_loop _ \<longleftrightarrow> False"

fun stop_pc :: "target set \<Rightarrow> pydict list \<Rightarrow> pc \<Rightarrow> bool" where
  "stop_pc T D StopBegin \<longleftrightarrow> True"
| "stop_pc T D (StopLoop engine paths rs) \<longleftrightarrow> list_all (present_row T D) rs"
| "stop_pc T D (Recording k s new next) \<longleftrightarrow>
     (case next of
        Stopping k' s' next' \<Rightarrow> k' = k \<and> s' = s \<and> arms k new \<and> (k, s) \<in> T \<and> (\<exists>r \<in> set D. is_step k s r) \<and> is_loop next' \<and> stop_pc T D next'
      | _ \<Rightarrow> harmless new \<and> stop_pc T D next)"
| "stop_pc T D (Stopping k s next) \<longleftrightarrow> (k, s) \<in> T \<and> marked D k s \<and> is_loop next \<and> stop_pc T D next"
| "stop_pc T D StopFinish \<longleftrightarrow> True"
| "stop_pc T D _ \<longleftrightarrow> False"

fun restore_pc :: "target set \<Rightarrow> pydict list \<Rightarrow> target set \<Rightarrow> pc \<Rightarrow> bool" where
  "restore_pc T D R RestoreBegin \<longleftrightarrow> True"
| "restore_pc T D R (RestoreLoop now rs started failures) \<longleftrightarrow>
     list_all (due T) rs \<and> (\<forall>k i. marked D k i \<longrightarrow> (k, i) \<in> R \<or> marked rs k i)"
| "restore_pc T D R (Starting k s now rs started failures) \<longleftrightarrow>
     (k, s) \<in> T \<and> list_all (due T) rs \<and> (\<forall>k' i. marked D k' i \<longrightarrow> (k', i) = (k, s) \<or> (k', i) \<in> R \<or> marked rs k' i)"
| "restore_pc T D R (Recording k s new next) \<longleftrightarrow> harmless new \<and> restore_pc T D R next"
| "restore_pc T D R (RestoreFinish now started failures) \<longleftrightarrow> (\<forall>k i. marked D k i \<longrightarrow> (k, i) \<in> R)"
| "restore_pc T D R _ \<longleftrightarrow> False"

lemma stop_pc_arm [simp]:
  "stop_pc T D (Recording k s new (Stopping k' s' next)) \<longleftrightarrow>
    k' = k \<and> s' = s \<and> arms k new \<and> (k, s) \<in> T \<and> (\<exists>r \<in> set D. is_step k s r) \<and> is_loop next \<and> stop_pc T D next"
  by simp

lemma stop_pc_note:
  "(\<And>k s n. next \<noteq> Stopping k s n) \<Longrightarrow> stop_pc T D (Recording k s new next) \<longleftrightarrow> harmless new \<and> stop_pc T D next"
  by (cases "next") auto

lemma stop_pc_rows:
  "rows_ok T D \<Longrightarrow> (\<And>k i. marked D k i \<Longrightarrow> marked D' k i) \<Longrightarrow>
    (\<And>k i. (\<exists>r \<in> set D. is_step k i r) \<Longrightarrow> (\<exists>r \<in> set D'. is_step k i r)) \<Longrightarrow> stop_pc T D pc \<Longrightarrow> stop_pc T D' pc"
proof (induction T D pc rule: stop_pc.induct)
  case (2 T D engine paths rs)
  then show ?case by (fastforce simp: list_all_iff present_row_def)
next
  case (3 T D k s new nxt)
  then show ?case by (cases nxt) auto
qed auto

lemma restore_pc_rows: "(\<And>k i. marked D' k i \<Longrightarrow> marked D k i) \<Longrightarrow> restore_pc T D R pc \<Longrightarrow> restore_pc T D' R pc"
  by (induction T D R pc rule: restore_pc.induct) auto

declare stop_pc.simps(3) [simp del]

lemma stop_pc_busy: "stop_pc T D pc \<Longrightarrow> pc \<noteq> Clearing \<and> pc \<noteq> Popping"
  by (cases pc) auto

lemma restore_pc_busy: "restore_pc T D R pc \<Longrightarrow> pc \<noteq> Clearing \<and> pc \<noteq> Popping"
  by (cases pc) auto

lemma harmless_note: "harmless [(''done'', PBool True), (''skipped'', v)]"
  "harmless [(''done'', PBool True), (''stop_ok'', w), (''detail'', v)]" "harmless [(''start_ok'', w), (''start_detail'', v)]"
  "harmless no_path_fields"
  by (simp_all add: harmless_def view_keys_def no_path_fields_def is_ascii_def ordc_def clean_ascii)

lemma py_str_nonempty: "py_str v = Inr p \<Longrightarrow> truthy v \<Longrightarrow> p \<noteq> []"
proof (cases v)
  case (PFloat f)
  have m: "show_decimal m e \<noteq> []" for m e by (simp add: show_decimal_def Let_def)
  assume "py_str v = Inr p"
  then show ?thesis using m PFloat by (cases f) auto
qed (auto simp: py_str_of_int_def show_int_def bind_ok_Inr_iff split: if_splits)

text \<open>The branch the loop picks for a step.\<close>

lemma stop_step_pc:
  assumes "present_row T D r" "stop_pc T D next" "is_loop next"
  shows "\<exists>pc. or_clear (stop_step engine paths r next) = pc \<and> (pc = Clearing \<or> stop_pc T D pc)"
proof -
  obtain k i where r: "is_step k i r" "\<exists>r' \<in> set D. is_step k i r'" "truthy (pyget r ''running'') \<longrightarrow> (k, i) \<in> T"
    using assms(1) by (auto simp: present_row_def)
  have id: "py_str (pyget r ''id'') = Inr i" "pyget r ''kind'' = k" using r(1) by (simp_all add: is_step_def)
  have "next \<noteq> Stopping k s n" for k s n using assms(3) by (cases "next") auto
  note plain = stop_pc_note[OF this] assms(3)
  show ?thesis
  proof (cases "k = PStr ''stack'' \<and> truthy (pyget r ''running'') \<and> \<not> truthy (pyget r ''done'') \<and> engine \<and> truthy (pyget paths i)")
    case True
    then show ?thesis
      using id r assms(2) py_str_nonempty[of "pyget paths i"]
      by (cases "py_str (pyget paths i)") (auto simp: plain stop_step_def or_clear_def arms_def Let_def)
  next
    case False
    then show ?thesis
      using id r assms(2) by (auto simp: plain harmless_note stop_step_def or_clear_def arms_def Let_def)
  qed
qed

lemma marked_Cons: "marked (r # rs) k i \<longleftrightarrow> (is_step k i r \<and> issued r) \<or> marked rs k i"
  by (auto simp: marked_def)

lemma restore_step_pc:
  assumes "due T r" "list_all (due T) rs" "\<forall>k i. marked D k i \<longrightarrow> (k, i) \<in> R \<or> marked (r # rs) k i"
  shows "restore_pc T D R (or_clear (restore_step now r rs started failures))"
proof -
  obtain k i where r: "is_step k i r" "issued r \<longrightarrow> (k, i) \<in> T \<and> has_path k r" using assms(1) by (auto simp: due_def)
  have id: "py_str (pyget r ''id'') = Inr i" "pyget r ''kind'' = k" using r(1) by (simp_all add: is_step_def)
  have u: "is_step k' i' r \<Longrightarrow> k' = k \<and> i' = i" for k' i' using r(1) is_step_fun by blast
  show ?thesis
  proof (cases "issued r")
    case True
    then show ?thesis using r(2) id assms(2,3) u by (auto simp: restore_step_def or_clear_def Let_def marked_Cons)
  next
    case False
    then show ?thesis using assms(2,3) by (auto simp: restore_step_def or_clear_def marked_Cons)
  qed
qed

section \<open>The simulation\<close>

definition holds :: "string \<Rightarrow> target set \<Rightarrow> target set \<Rightarrow> pydict list \<Rightarrow> doc \<Rightarrow> bool" where
  "holds phase T S D file \<longleftrightarrow>
     state_ok (stored file) \<and> pyget (stored file) ''phase'' = PStr phase \<and> rows_are (stored file) D \<and> rows_ok T D
     \<and> (\<forall>(k, i) \<in> S. marked D k i)"

lemma step_fields_clean:
  "harmless new \<Longrightarrow> list_all (\<lambda>p. clean_text (fst p)) new"
  by (simp add: harmless_def list_all_iff)

lemma record_harmless:
  assumes "holds ph T S D file" "harmless new"
  obtains file' D' where "record_step good_disk k s new file = Inr file'" "holds ph T S D' file'"
    "\<And>k i. marked D' k i \<longleftrightarrow> marked D k i" "\<And>k i. (\<exists>r \<in> set D'. is_step k i r) \<longleftrightarrow> (\<exists>r \<in> set D. is_step k i r)"
proof -
  have h: "state_ok (stored file)" "rows_are (stored file) D" using assms(1) by (simp_all add: holds_def)
  let ?D' = "update_row k s (row_fields new) D"
  note r = harmless_rows[OF assms(2) refl[of ?D']]
  obtain file' where f: "record_step good_disk k s new file = Inr file'" "state_ok (stored file')" "rows_are (stored file') ?D'"
    "\<And>x. x \<noteq> ''steps'' \<Longrightarrow> pyget (stored file') x = pyget (stored file) x"
    by (rule record_step_rows[where kind = k and sid = s, OF h step_fields_clean[OF assms(2)]]) blast
  then have "holds ph T S ?D' file'" using assms(1) r(1,2) by (simp add: holds_def)
  then show thesis by (rule that[OF f(1) _ r(2,3)])
qed

lemma record_arms:
  assumes "holds ph T S D file" "arms k new" "(k, s) \<in> T" "\<exists>r \<in> set D. is_step k s r"
  obtains file' D' where "record_step good_disk k s new file = Inr file'" "holds ph T S D' file'" "marked D' k s"
    "\<And>k i. marked D k i \<Longrightarrow> marked D' k i" "\<And>k i. (\<exists>r \<in> set D'. is_step k i r) \<longleftrightarrow> (\<exists>r \<in> set D. is_step k i r)"
proof -
  have h: "state_ok (stored file)" "rows_are (stored file) D" using assms(1) by (simp_all add: holds_def)
  let ?D' = "update_row k s (row_fields new) D"
  note r = arms_rows[OF assms(2) refl[of ?D'] assms(3,4)]
  obtain file' where f: "record_step good_disk k s new file = Inr file'" "state_ok (stored file')" "rows_are (stored file') ?D'"
    "\<And>x. x \<noteq> ''steps'' \<Longrightarrow> pyget (stored file') x = pyget (stored file) x"
    by (rule record_step_rows[where kind = k and sid = s, OF h arms_clean[OF assms(2)]]) blast
  then have "holds ph T S ?D' file'" using assms(1) r(1,2) by (auto simp: holds_def)
  moreover have "marked ?D' k s" "\<And>k' i. marked D k' i \<Longrightarrow> marked ?D' k' i" using r(2) by simp_all
  ultimately show thesis by (rule that[OF f(1) _ _ _ r(3)])
qed

lemma holds_set:
  assumes "holds ph T S D file" "k \<notin> {''phase'', ''steps''}" "clean_text k"
  shows "holds ph T S D (mutate_state good_disk (dict_set k v) file)"
proof -
  have "''phase'' \<noteq> k" "''steps'' \<noteq> k" using assms(2) by auto
  then show ?thesis
    using assms(1,3) stored_mutate_ok[of "dict_set k v" "file"] stored_set[of "file" k v]
    by (simp add: holds_def rows_are_def dict_simps)
qed

lemma holds_del:
  assumes "holds ph T S D file" "k \<notin> {''phase'', ''steps''}"
  shows "holds ph T S D (mutate_state good_disk (dict_del k) file)"
proof -
  have "''phase'' \<noteq> k" "''steps'' \<noteq> k" using assms(2) by auto
  then show ?thesis
    using assms(1) stored_mutate_ok[of "dict_del k" "file"] stored_del[of "file" k]
    by (simp add: holds_def rows_are_def dict_simps)
qed

lemma present_rows:
  assumes "rows_ok T D"
  shows "list_all (present_row T D) D"
proof -
  have "present_row T D r" if "r \<in> set D" for r
    using assms that unfolding rows_ok_def present_row_def due_def by blast
  then show ?thesis by (simp add: list_all_iff)
qed

lemma due_rows: "rows_ok T D \<Longrightarrow> list_all (due T) D"
  by (simp add: rows_ok_def list_all_iff)

lemma worker_landing:
  assumes "holds ''engaged'' T S D file" "stop_pc T D pc" "me_disk me = good_disk"
    and "worker_act me pc file = (pc', file', xs)"
  shows "\<exists>S' D'. landing_run (Landing T S) xs = Some (Landing T S') \<and> holds ''engaged'' T S' D' file'
    \<and> (pc' = Clearing \<or> stop_pc T D' pc')"
proof -
  have rows: "step_rows (stored file) = Inr D" "rows_ok T D" using assms(1) by (simp_all add: holds_def step_rows_are)
  show ?thesis
  proof (cases pc)
    case StopBegin
    then have "file' = file" "xs = []" "pc' = Clearing \<or> (\<exists>e p. pc' = StopLoop e p D)"
      using assms(3,4) rows(1) by (auto simp: or_clear_def bind_ok_def split: sum.splits)
    then show ?thesis using assms(1) present_rows[OF rows(2)] by auto
  next
    case (StopLoop e p rs)
    show ?thesis
    proof (cases rs)
      case Nil
      then show ?thesis using StopLoop assms by auto
    next
      case (Cons r rest)
      have "\<exists>q. or_clear (stop_step e p r (StopLoop e p rest)) = q \<and> (q = Clearing \<or> stop_pc T D q)"
        using assms(2) StopLoop Cons by (intro stop_step_pc) auto
      then show ?thesis using assms StopLoop Cons by (auto split: if_splits)
    qed
  next
    case (Recording k s new nxt)
    show ?thesis
    proof (cases "\<exists>k' s' n. nxt = Stopping k' s' n")
      case True
      then obtain n where n: "nxt = Stopping k s n" "arms k new" "(k, s) \<in> T" "\<exists>r \<in> set D. is_step k s r" "stop_pc T D n" "is_loop n"
        using assms(2) Recording by auto
      obtain file2 D' where f: "record_step good_disk k s new file = Inr file2" "holds ''engaged'' T S D' file2" "marked D' k s"
        "\<And>k i. marked D k i \<Longrightarrow> marked D' k i" "\<And>k i. (\<exists>r \<in> set D'. is_step k i r) \<longleftrightarrow> (\<exists>r \<in> set D. is_step k i r)"
        by (rule record_arms[OF assms(1) n(2-4)]) blast
      have "stop_pc T D' n" by (rule stop_pc_rows[OF rows(2) _ _ n(5)]) (simp_all only: f(4,5))
      then show ?thesis using f(1-3) n(1,3,6) assms(3,4) Recording by auto
    next
      case False
      then have n: "harmless new" "stop_pc T D nxt" using assms(2) Recording stop_pc_note[of nxt T D k s new] by auto
      obtain file2 D' where f: "record_step good_disk k s new file = Inr file2" "holds ''engaged'' T S D' file2"
        "\<And>k i. marked D' k i \<longleftrightarrow> marked D k i" "\<And>k i. (\<exists>r \<in> set D'. is_step k i r) \<longleftrightarrow> (\<exists>r \<in> set D. is_step k i r)"
        by (rule record_harmless[where k = k and s = s, OF assms(1) n(1)]) blast
      have "stop_pc T D' nxt" by (rule stop_pc_rows[OF rows(2) _ _ n(2)]) (simp_all add: f(3,4))
      then show ?thesis using f(1,2) assms(3,4) Recording by auto
    qed
  next
    case (Stopping k s nxt)
    then have n: "(k, s) \<in> T" "marked D k s" "is_loop nxt" "stop_pc T D nxt" using assms(2) by auto
    have "holds ''engaged'' T (insert (k, s) S) D file" using assms(1) n(2) by (simp add: holds_def)
    moreover have "stop_pc T D pc'"
    proof -
      have "nxt \<noteq> Stopping k' s' q" for k' s' q using n(3) by (cases nxt) auto
      from stop_pc_note[OF this] show ?thesis using assms(4) Stopping n(4) harmless_note(2) by auto
    qed
    ultimately show ?thesis using assms(4) Stopping n by auto
  next
    case StopFinish
    then show ?thesis using assms holds_set[OF assms(1), of "''stop_done''" "PBool True"]
      by (auto simp: is_ascii_def ordc_def clean_ascii)
  qed (use assms(2) in auto)
qed

definition resting :: "doc \<Rightarrow> bool" where
  "resting file \<longleftrightarrow> state_ok (stored file) \<and> phase_of (stored file) = PStr ''idle''"

lemma finish_rests:
  assumes "state_ok (stored file)"
  shows "resting (mutate_state good_disk (finish_cycle now started failures) file)"
proof -
  let ?st = "finish_cycle now started failures (stored file)"
  have k: "keys_ok (stored file)" using json_ok_keys[of 0] assms by simp
  have c: "clean_text ''phase''" "clean_text ''last''" by (simp_all add: clean_ascii is_ascii_def ordc_def)
  have ks: "keys_ok ?st" using k c by (simp add: finish_cycle_def keys_ok_set keys_ok_del)
  have "pyget ?st ''phase'' = PStr ''idle''" by (simp add: finish_cycle_def dict_simps)
  then have "pyget (stored (mutate_state good_disk (finish_cycle now started failures) file)) ''phase'' = PStr ''idle''"
    by (simp add: stored_mutate pyget_scrub[OF ks] jsonable_PStr launder_ascii is_ascii_def ordc_def)
  then show ?thesis by (simp add: resting_def phase_of_def stored_mutate_ok)
qed

lemma worker_restoring:
  assumes "holds ''restoring'' T S D file" "restore_pc T D R pc" "me_disk me = good_disk"
    and "worker_act me pc file = (pc', file', xs)"
  shows "(\<exists>R' D'. landing_run (Restoring T S R) xs = Some (Restoring T S R') \<and> holds ''restoring'' T S D' file'
      \<and> (pc' = Clearing \<or> restore_pc T D' R' pc'))
    \<or> (landing_run (Restoring T S R) xs = Some Quiet \<and> resting file' \<and> pc' = Clearing)"
proof -
  have rows: "step_rows (stored file) = Inr D" "rows_ok T D" "state_ok (stored file)"
    using assms(1) by (simp_all add: holds_def step_rows_are)
  show ?thesis
  proof (cases pc)
    case RestoreBegin
    then show ?thesis using assms rows(1) due_rows[OF rows(2)] by (auto simp: or_clear_def)
  next
    case (RestoreLoop now rs started failures)
    show ?thesis
    proof (cases rs)
      case Nil
      then show ?thesis using RestoreLoop assms by (auto simp: marked_def)
    next
      case (Cons r rest)
      have "restore_pc T D R (or_clear (restore_step now r rest started failures))"
        using assms(2) RestoreLoop Cons by (intro restore_step_pc) auto
      then show ?thesis using assms(1,4) RestoreLoop Cons by auto
    qed
  next
    case (Recording k s new nxt)
    then have n: "harmless new" "restore_pc T D R nxt" using assms(2) by auto
    obtain file2 D' where f: "record_step good_disk k s new file = Inr file2" "holds ''restoring'' T S D' file2"
      "\<And>k i. marked D' k i \<longleftrightarrow> marked D k i" "\<And>k i. (\<exists>r \<in> set D'. is_step k i r) \<longleftrightarrow> (\<exists>r \<in> set D. is_step k i r)"
      by (rule record_harmless[where k = k and s = s, OF assms(1) n(1)]) blast
    have "restore_pc T D' R nxt" by (rule restore_pc_rows[OF _ n(2)]) (simp only: f(3))
    then show ?thesis using f(1,2) assms(3,4) Recording by auto
  next
    case (Starting k s now rs started failures)
    let ?R = "insert (k, s) R"
    have "restore_pc T D ?R (RestoreLoop now rs a b)" for a b using assms(2) Starting by auto
    then have "restore_pc T D ?R pc'" using assms(4) Starting harmless_note(3) by (auto split: if_splits)
    moreover have "landing_run (Restoring T S R) xs = Some (Restoring T S ?R)" "file' = file" using assms(2,4) Starting by auto
    ultimately show ?thesis using assms(1) by blast
  next
    case (RestoreFinish now started failures)
    have "S \<subseteq> R" using assms(1,2) RestoreFinish by (fastforce simp: holds_def)
    moreover have "file' = mutate_state good_disk (finish_cycle now started failures) file" "pc' = Clearing" "xs = [Reset started failures]"
      using assms(3,4) RestoreFinish by auto
    ultimately show ?thesis using finish_rests[OF rows(3)] by simp
  qed (use assms(2) in auto)
qed

section \<open>Sweeps\<close>

lemma phase_of_text: "pyget st ''phase'' = PStr p \<Longrightarrow> p \<noteq> [] \<Longrightarrow> phase_of st = PStr p"
  by (simp add: phase_of_def)

text \<open>A plan's rows name their step, and the running ones are the targets.\<close>

lemma plan_row:
  assumes "r \<in> set (build_plan sm policy)"
  obtains k i where "k \<in> {''stack'', ''service''}" "pyget r ''kind'' = PStr k" "pyget r ''id'' = PStr i" "keys_ok r"
    "pyget r ''stop_issued'' = PNone"
proof -
  have c: "list_all (\<lambda>x. clean_text x) [''kind'', ''id'', ''name'', ''running'', ''known'']"
    by (simp add: clean_ascii is_ascii_def ordc_def)
  from assms consider (a) f i where "r = stack_step f i" | (b) f i where "r = service_step f i"
    by (auto simp: build_plan_def Let_def)
  then show thesis
  proof cases
    case (a f i)
    then show ?thesis using c
      by (intro that[of "''stack''" i]) (auto simp: stack_step_def pyget_def dict_get_def keys_ok_def dict_ok_def split: option.split)
  next
    case (b f i)
    then show ?thesis using c
      by (intro that[of "''service''" i]) (auto simp: service_step_def pyget_def dict_get_def keys_ok_def dict_ok_def)
  qed
qed

lemma latch_holds:
  assumes "steps = build_plan sm policy"
  shows "holds ''engaged'' (kept_targets (plan_targets steps)) {} (map (scrub_at 2) steps)
    (mutate_state good_disk (latch now label steps) file)"
proof -
  let ?T = "kept_targets (plan_targets steps)" and ?D = "map (scrub_at 2) steps" and ?st = "latch now label steps (stored file)"
  have c: "list_all clean_text [''phase'', ''engaged_at'', ''reason'', ''steps'', ''stop_done'', ''last'']"
    by (simp add: clean_ascii is_ascii_def ordc_def)
  have ks: "keys_ok ?st" using c by (auto simp: latch_def keys_ok_def dict_ok_def)
  have g: "pyget (stored (mutate_state good_disk (latch now label steps) file)) x = jsonable 1 (pyget ?st x)" for x
    by (simp add: stored_mutate pyget_scrub[OF ks])
  have ph: "pyget (stored (mutate_state good_disk (latch now label steps) file)) ''phase'' = PStr ''engaged''"
    using g[of "''phase''"] by (simp add: latch_def pyget_def dict_get_def jsonable_PStr launder_ascii is_ascii_def ordc_def)
  have rows: "rows_are (stored (mutate_state good_disk (latch now label steps) file)) ?D"
    using g[of "''steps''"]
    by (simp add: rows_are_def latch_def pyget_def dict_get_def jsonable_PList jsonable_PDict numeral_2_eq_2)
  have "due ?T r \<and> (\<forall>k i. is_step k i r \<longrightarrow> truthy (pyget r ''running'') \<longrightarrow> (k, i) \<in> ?T)" if r: "r \<in> set ?D" for r
  proof -
    obtain p where p: "p \<in> set steps" "r = scrub_at 2 p" using r by auto
    obtain k i where q: "k \<in> {''stack'', ''service''}" "pyget p ''kind'' = PStr k" "pyget p ''id'' = PStr i" "keys_ok p"
      "pyget p ''stop_issued'' = PNone"
      by (rule plan_row[of p sm policy]) (use p(1) assms in auto)
    have k: "launder k = k" using q(1) by (auto simp: launder_ascii is_ascii_def ordc_def)
    have v: "pyget r ''kind'' = PStr k" "pyget r ''id'' = PStr (launder i)" "pyget r ''stop_issued'' = PNone"
      "pyget r ''running'' = jsonable 3 (pyget p ''running'')"
      using q k by (simp_all add: p(2) pyget_scrub[OF q(4)] jsonable_PStr numeral_3_eq_3 numeral_2_eq_2)
    have "truthy (pyget r ''running'') \<Longrightarrow> truthy (pyget p ''running'')"
      unfolding v(4) by (cases "pyget p ''running''") (auto simp: jsonable.simps[of 3] truthy_def launder_keys_def split: if_splits pyfloat.splits)
    then have "truthy (pyget r ''running'') \<Longrightarrow> (PStr k, launder i) \<in> ?T"
      using p(1) q(2,3) by (force simp: kept_targets_def plan_targets_def)
    then show ?thesis using v by (auto simp: due_def is_step_def)
  qed
  then have "rows_ok ?T ?D" by (simp add: rows_ok_def)
  then show ?thesis using ph rows stored_mutate_ok[of "latch now label steps" "file"] by (auto simp: holds_def)
qed

section \<open>Every run refines the soft landing\<close>

text \<open>At most one thread does more than drop its owner, exactly while the flag is set.\<close>

definition threads_ok :: "guard \<Rightarrow> (pc \<Rightarrow> bool) \<Rightarrow> bool" where
  "threads_ok g P \<longleftrightarrow>
     (let busy = filter (\<lambda>p. p \<noteq> Popping) (gd_threads g)
      in if gd_active g then (\<exists>p. busy = [p] \<and> (p = Clearing \<or> P p)) else busy = [])"

fun sim :: "landing \<Rightarrow> guard \<Rightarrow> bool" where
  "sim Quiet g \<longleftrightarrow> resting (gd_doc g) \<and> threads_ok g (\<lambda>p. False)"
| "sim (Landing T S) g \<longleftrightarrow> (\<exists>D. holds ''engaged'' T S D (gd_doc g) \<and> threads_ok g (stop_pc T D))"
| "sim (Restoring T S R) g \<longleftrightarrow> (\<exists>D. holds ''restoring'' T S D (gd_doc g) \<and> threads_ok g (restore_pc T D R))"

lemma threads_gone: "threads_ok (at_rest file) P"
  by (simp add: threads_ok_def at_rest_def)

lemma threads_working:
  assumes "threads_ok g P" "gd_threads g = us @ pc # vs" "pc \<noteq> Popping"
  shows "gd_active g" "pc = Clearing \<or> P pc"
    "threads_ok (g\<lparr>gd_doc := file, gd_threads := us @ pc' # vs\<rparr>) Q \<longleftrightarrow>
      (if pc' = Popping then False else pc' = Clearing \<or> Q pc')"
    "threads_ok (g\<lparr>gd_active := False, gd_threads := us @ Popping # vs\<rparr>) Q"
proof -
  let ?b = "filter (\<lambda>p. p \<noteq> Popping)"
  have b: "?b (gd_threads g) = ?b us @ pc # ?b vs" using assms(2,3) by simp
  show a: "gd_active g" using assms(1) b by (auto simp: threads_ok_def Let_def split: if_splits)
  then obtain p where p: "?b us @ pc # ?b vs = [p]" "p = Clearing \<or> P p" using assms(1) b by (auto simp: threads_ok_def Let_def)
  then have e: "?b us = []" "?b vs = []" "p = pc" by (cases "?b us"; simp)+
  show "pc = Clearing \<or> P pc" using p(2) e(3) by simp
  show "threads_ok (g\<lparr>gd_doc := file, gd_threads := us @ pc' # vs\<rparr>) Q \<longleftrightarrow>
      (if pc' = Popping then False else pc' = Clearing \<or> Q pc')"
    "threads_ok (g\<lparr>gd_active := False, gd_threads := us @ Popping # vs\<rparr>) Q"
    using a e(1,2) by (simp_all add: threads_ok_def)
qed

lemma threads_popped:
  "threads_ok g P \<Longrightarrow> gd_threads g = us @ Popping # vs \<Longrightarrow> threads_ok (g\<lparr>gd_doc := file, gd_threads := us @ vs\<rparr>) P"
  by (simp add: threads_ok_def)

lemma threads_mono: "threads_ok g P \<Longrightarrow> (\<And>p. P p \<Longrightarrow> Q p) \<Longrightarrow> threads_ok g Q"
  by (auto simp: threads_ok_def Let_def split: if_splits)

lemma threads_doc: "threads_ok (g\<lparr>gd_doc := file\<rparr>) P \<longleftrightarrow> threads_ok g P"
  by (simp add: threads_ok_def)

lemma threads_spawn:
  assumes "threads_ok g P" "Q t" "t \<noteq> Popping" "gd_active g \<Longrightarrow> threads_ok g Q"
  shows "threads_ok (spawn_worker tk t g) Q"
  using assms by (auto simp: spawn_worker_def threads_ok_def Let_def split: if_splits)

lemma owner_clean: "clean_text ''worker_owner''" "''worker_owner'' \<notin> {''phase'', ''steps''}"
  by (simp_all add: clean_ascii is_ascii_def ordc_def)

lemma spawn_holds: "tk_disk tk = good_disk \<Longrightarrow> holds ph T S D (gd_doc g) \<Longrightarrow> holds ph T S D (gd_doc (spawn_worker tk t g))"
  using owner_clean by (simp add: spawn_worker_def holds_set)

text \<open>What a sweep decides, phase by phase.\<close>

lemma decide_quiet:
  assumes "resting file" "tk_disk tk = good_disk" "sweep_decide tk active file = (file', t, xs)"
  shows "(file' = file \<and> t = None \<and> xs = [])
    \<or> (\<exists>ts D. xs = [Engaged ts] \<and> t = Some StopBegin \<and> holds ''engaged'' (kept_targets ts) {} D file')"
proof (cases "tk_status tk")
  case None
  then show ?thesis using assms by (simp add: sweep_decide_def Let_def)
next
  case (Some b)
  then show ?thesis
    using assms latch_holds[OF refl, of "tk_seams tk" "tk_policy tk" "tk_now tk" "condition_reason b (tk_policy tk)" "file"]
    by (auto simp: sweep_decide_def Let_def resting_def split: if_splits)
qed

lemma holds_phase:
  assumes "holds ph T S D file" "ph \<noteq> []" "ph \<noteq> ''idle''"
  shows "phase_of (stored file) = PStr ph" "phase_of (stored file) \<noteq> PStr ''idle''"
  using assms phase_of_text by (auto simp: holds_def)

lemma set_restoring:
  assumes "holds ph T S D file"
  shows "holds ''restoring'' T S D (mutate_state good_disk (dict_set ''phase'' (PStr ''restoring'')) file)"
  using assms stored_mutate_ok[of "dict_set ''phase'' (PStr ''restoring'')" "file"]
    stored_set[of "file" "''phase''" "PStr ''restoring''"]
  by (simp add: holds_def rows_are_def dict_simps clean_ascii is_ascii_def ordc_def jsonable_PStr launder_ascii)

lemma busy_active: "\<not> worker_busy tk active st \<Longrightarrow> \<not> active"
  by (simp add: worker_busy_def)

lemma decide_engaged:
  assumes "holds ''engaged'' T S D file" "tk_disk tk = good_disk" "sweep_decide tk active file = (file', t, xs)"
  shows "(file' = file \<and> xs = [] \<and> (t = None \<or> t = Some StopBegin \<and> \<not> active))
    \<or> (xs = [PowerBack] \<and> t = Some RestoreBegin \<and> \<not> active \<and> holds ''restoring'' T S D file')"
proof (cases "tk_status tk")
  case None
  then show ?thesis using assms by (simp add: sweep_decide_def Let_def)
next
  case (Some b)
  then show ?thesis
    using assms holds_phase[OF assms(1)] set_restoring[OF assms(1)] busy_active[of tk active "stored file"]
    by (auto simp: sweep_decide_def Let_def split: if_splits)
qed

lemma decide_restoring:
  assumes "holds ''restoring'' T S D file" "tk_disk tk = good_disk" "sweep_decide tk active file = (file', t, xs)"
  shows "(file' = file \<and> xs = [] \<and> t = None)
    \<or> (xs = [PowerBack] \<and> t = Some RestoreBegin \<and> \<not> active \<and> holds ''restoring'' T S D file')"
proof (cases "tk_status tk")
  case None
  then show ?thesis using assms by (simp add: sweep_decide_def Let_def)
next
  case (Some b)
  then show ?thesis
    using assms holds_phase[OF assms(1)] set_restoring[OF assms(1)] busy_active[of tk active "stored file"]
    by (auto simp: sweep_decide_def Let_def split: if_splits)
qed

lemma sim_decide:
  assumes "sim a g" "tk_disk tk = good_disk" "sweep_decide tk (gd_active g) (gd_doc g) = (file, t, xs)"
  shows "\<exists>b. landing_run a xs = Some b \<and> sim b (at_rest file)
    \<and> sim b (case t of None \<Rightarrow> g\<lparr>gd_doc := file\<rparr> | Some p \<Rightarrow> spawn_worker tk p (g\<lparr>gd_doc := file\<rparr>))"
proof (cases a)
  case Quiet
  then have r: "resting (gd_doc g)" "threads_ok g (\<lambda>p. False)" using assms(1) by auto
  from decide_quiet[OF r(1) assms(2,3)] show ?thesis
  proof (elim disjE exE conjE)
    assume "file = gd_doc g" "t = None" "xs = []"
    then show ?thesis using r Quiet threads_gone by (simp add: at_rest_def)
  next
    fix ts D assume d: "xs = [Engaged ts]" "t = Some StopBegin" "holds ''engaged'' (kept_targets ts) {} D file"
    have h: "threads_ok (g\<lparr>gd_doc := file\<rparr>) (\<lambda>p. False)" using r(2) by (simp add: threads_doc)
    have "threads_ok (spawn_worker tk StopBegin (g\<lparr>gd_doc := file\<rparr>)) (stop_pc (kept_targets ts) D)"
      by (rule threads_spawn[OF h]) (use h in \<open>auto elim: threads_mono\<close>)
    then show ?thesis
      using d Quiet threads_gone spawn_holds[OF assms(2), of _ _ _ _ "g\<lparr>gd_doc := file\<rparr>"] by (fastforce simp: at_rest_def)
  qed
next
  case (Landing T S)
  then obtain D where r: "holds ''engaged'' T S D (gd_doc g)" "threads_ok g (stop_pc T D)" using assms(1) by auto
  have h: "threads_ok (g\<lparr>gd_doc := file\<rparr>) (stop_pc T D)" using r(2) by (simp add: threads_doc)
  from decide_engaged[OF r(1) assms(2,3)] show ?thesis
  proof (elim disjE conjE)
    assume "file = gd_doc g" "xs = []" "t = None"
    then show ?thesis using r Landing threads_gone by (auto simp: at_rest_def)
  next
    assume d: "file = gd_doc g" "xs = []" "t = Some StopBegin" "\<not> gd_active g"
    have "threads_ok (spawn_worker tk StopBegin (g\<lparr>gd_doc := file\<rparr>)) (stop_pc T D)"
      by (rule threads_spawn[OF h]) (use d(4) in auto)
    then show ?thesis
      using d r Landing threads_gone spawn_holds[OF assms(2), of _ _ _ _ "g\<lparr>gd_doc := file\<rparr>"] by (fastforce simp: at_rest_def)
  next
    assume d: "xs = [PowerBack]" "t = Some RestoreBegin" "\<not> gd_active g" "holds ''restoring'' T S D file"
    have "threads_ok (spawn_worker tk RestoreBegin (g\<lparr>gd_doc := file\<rparr>)) (restore_pc T D {})"
      by (rule threads_spawn[OF h]) (use d(3) in auto)
    then show ?thesis
      using d Landing threads_gone spawn_holds[OF assms(2), of _ _ _ _ "g\<lparr>gd_doc := file\<rparr>"] by (fastforce simp: at_rest_def)
  qed
next
  case (Restoring T S R)
  then obtain D where r: "holds ''restoring'' T S D (gd_doc g)" "threads_ok g (restore_pc T D R)" using assms(1) by auto
  have h: "threads_ok (g\<lparr>gd_doc := file\<rparr>) (restore_pc T D R)" using r(2) by (simp add: threads_doc)
  from decide_restoring[OF r(1) assms(2,3)] show ?thesis
  proof (elim disjE conjE)
    assume "file = gd_doc g" "xs = []" "t = None"
    then show ?thesis using r Restoring threads_gone by (auto simp: at_rest_def)
  next
    assume d: "xs = [PowerBack]" "t = Some RestoreBegin" "\<not> gd_active g" "holds ''restoring'' T S D file"
    have "threads_ok (spawn_worker tk RestoreBegin (g\<lparr>gd_doc := file\<rparr>)) (restore_pc T D R)"
      by (rule threads_spawn[OF h]) (use d(3) in auto)
    then show ?thesis
      using d Restoring threads_gone spawn_holds[OF assms(2), of _ _ _ _ "g\<lparr>gd_doc := file\<rparr>"] by (fastforce simp: at_rest_def)
  qed
qed

lemma sim_worker:
  assumes "sim a g" "gd_threads g = us @ pc # vs" "pc \<noteq> Clearing" "pc \<noteq> Popping" "me_disk me = good_disk"
    and "worker_act me pc (gd_doc g) = (pc', file, xs)"
  shows "\<exists>b. landing_run a xs = Some b \<and> sim b (g\<lparr>gd_doc := file, gd_threads := us @ pc' # vs\<rparr>)"
proof (cases a)
  case Quiet
  then show ?thesis using assms(1-4) threads_working(2)[of g] by fastforce
next
  case (Landing T S)
  then obtain D where r: "holds ''engaged'' T S D (gd_doc g)" "threads_ok g (stop_pc T D)" using assms(1) by auto
  note w = threads_working[OF r(2) assms(2,4)]
  obtain S' D' where q: "landing_run (Landing T S) xs = Some (Landing T S')" "holds ''engaged'' T S' D' file"
    "pc' = Clearing \<or> stop_pc T D' pc'"
    using worker_landing[OF r(1) _ assms(5,6)] w(2) assms(3) by blast
  then show ?thesis using Landing w(3) stop_pc_busy by (auto intro!: exI[of _ D'])
next
  case (Restoring T S R)
  then obtain D where r: "holds ''restoring'' T S D (gd_doc g)" "threads_ok g (restore_pc T D R)" using assms(1) by auto
  note w = threads_working[OF r(2) assms(2,4)]
  have "restore_pc T D R pc" using w(2) assms(3) by simp
  from worker_restoring[OF r(1) this assms(5,6)] show ?thesis
  proof
    assume "\<exists>R' D'. landing_run (Restoring T S R) xs = Some (Restoring T S R') \<and> holds ''restoring'' T S D' file
      \<and> (pc' = Clearing \<or> restore_pc T D' R' pc')"
    then obtain R' D' where "landing_run (Restoring T S R) xs = Some (Restoring T S R')" "holds ''restoring'' T S D' file"
      "pc' = Clearing \<or> restore_pc T D' R' pc'" by blast
    then show ?thesis using Restoring w(3) restore_pc_busy by (auto intro!: exI[of _ D'])
  qed (use Restoring w(3) in auto)
qed

lemma sim_step:
  assumes "guard_step g xs g'" "sim a g"
  shows "\<exists>b. landing_run a xs = Some b \<and> sim b g'"
  using assms
proof (cases rule: guard_step.cases)
  case (swept tk)
  obtain fl t ys where d: "sweep_decide tk (gd_active g) (gd_doc g) = (fl, t, ys)" by (cases "sweep_decide tk (gd_active g) (gd_doc g)")
  then have "xs = ys" "g' = (case t of None \<Rightarrow> g\<lparr>gd_doc := fl\<rparr> | Some p \<Rightarrow> spawn_worker tk p (g\<lparr>gd_doc := fl\<rparr>))"
    using swept(2) by (simp_all add: sweep_def Let_def)
  then show ?thesis using sim_decide[OF assms(2) swept(1) d] by blast
next
  case (worked us pc vs me pc' fl)
  then show ?thesis using sim_worker[OF assms(2)] by blast
next
  case (cleared us vs)
  have "sim a g'"
    using assms(2) threads_working(4)[OF _ cleared(3)] unfolding cleared(2) by (cases a) auto
  then show ?thesis using cleared(1) by simp
next
  case (popped us vs me pc' fl)
  have e: "fl = mutate_state good_disk (dict_del ''worker_owner'') (gd_doc g)" "xs = []" using popped by auto
  have "sim a (g\<lparr>gd_doc := fl, gd_threads := us @ vs\<rparr>)"
  proof (cases a)
    case Quiet
    have "resting fl"
      using assms(2) Quiet stored_del[of "gd_doc g" "''worker_owner''"] stored_mutate_ok[of "dict_del ''worker_owner''" "gd_doc g"]
      by (auto simp: e(1) resting_def phase_of_def dict_simps split: if_splits)
    then show ?thesis using assms(2) Quiet threads_popped[OF _ popped(2)] by auto
  next
    case (Landing T S)
    then obtain D where "holds ''engaged'' T S D (gd_doc g)" "threads_ok g (stop_pc T D)" using assms(2) by auto
    from holds_del[OF this(1) owner_clean(2)] threads_popped[OF this(2) popped(2)] show ?thesis
      unfolding Landing sim.simps e(1) by auto
  next
    case (Restoring T S R)
    then obtain D where "holds ''restoring'' T S D (gd_doc g)" "threads_ok g (restore_pc T D R)" using assms(2) by auto
    from holds_del[OF this(1) owner_clean(2)] threads_popped[OF this(2) popped(2)] show ?thesis
      unfolding Restoring sim.simps e(1) by auto
  qed
  then show ?thesis using popped(1) e(2) by auto
next
  case died
  then show ?thesis using assms(2) threads_gone[of "gd_doc g"] by (cases a) (auto simp: at_rest_def)
next
  case (died_deciding tk fl t)
  then show ?thesis using sim_decide[OF assms(2) died_deciding(2,3)] by (auto simp: at_rest_def)
qed

lemma sim_run: "guard_run g xs g' \<Longrightarrow> sim a g \<Longrightarrow> \<exists>b. landing_run a xs = Some b \<and> sim b g'"
proof (induction rule: guard_run.induct)
  case (more g xs g' ys g'')
  then obtain b c where "landing_run a xs = Some b" "landing_run b ys = Some c" "sim c g''" using sim_step by blast
  then show ?case by (simp add: landing_run_append)
qed simp

lemma sim_start: "resting file \<Longrightarrow> sim Quiet (at_rest file)"
  using threads_gone by (simp add: at_rest_def)

section \<open>Properties of every run\<close>

text \<open>
  C7: the policy refines the soft landing. However sweeps, worker actions and deaths of the panel
  interleave from a resting state, the announcements, stops and starts they make are a trace of
  the abstract machine, which is quiet exactly while the persisted phase is idle.
\<close>

theorem soft_landing_refined:
  assumes "resting file" "guard_run (at_rest file) xs g"
  shows "\<exists>a. landing_run Quiet xs = Some a \<and> (a = Quiet \<longleftrightarrow> phase_of (stored (gd_doc g)) = PStr ''idle'')"
proof -
  obtain a where a: "landing_run Quiet xs = Some a" "sim a g" using sim_run[OF assms(2) sim_start[OF assms(1)]] by blast
  then show ?thesis using holds_phase by (cases a) (auto simp: resting_def)
qed

definition stops :: "act list \<Rightarrow> target set" where
  "stops xs = {(k, i). StopCmd k i \<in> set xs}"

definition starts :: "act list \<Rightarrow> target set" where
  "starts xs = {(k, i). StartCmd k i \<in> set xs}"

fun inside_cycle :: "act \<Rightarrow> bool" where
  "inside_cycle (Engaged _) \<longleftrightarrow> False"
| "inside_cycle (Reset _ _) \<longleftrightarrow> False"
| "inside_cycle _ \<longleftrightarrow> True"

lemma command_sets:
  "stops [] = {}" "starts [] = {}" "stops (StopCmd k i # xs) = insert (k, i) (stops xs)" "starts (StopCmd k i # xs) = starts xs"
  "stops (StartCmd k i # xs) = stops xs" "starts (StartCmd k i # xs) = insert (k, i) (starts xs)"
  "stops (PowerBack # xs) = stops xs" "starts (PowerBack # xs) = starts xs"
  by (auto simp: stops_def starts_def)

lemma restoring_run:
  "landing_run (Restoring T S R) xs = Some b \<Longrightarrow> list_all inside_cycle xs \<Longrightarrow>
    b = Restoring T S (R \<union> starts xs) \<and> stops xs = {} \<and> starts xs \<subseteq> T"
proof (induction xs arbitrary: R)
  case (Cons x xs)
  then show ?case by (cases x) (auto simp: command_sets split: if_splits)
qed (simp add: command_sets)

lemma landing_run_within:
  "landing_run (Landing T S) xs = Some b \<Longrightarrow> list_all inside_cycle xs \<Longrightarrow>
    stops xs \<subseteq> T \<and> starts xs \<subseteq> T
    \<and> (b = Landing T (S \<union> stops xs) \<and> starts xs = {} \<and> PowerBack \<notin> set xs
       \<or> b = Restoring T (S \<union> stops xs) (starts xs) \<and> PowerBack \<in> set xs)"
proof (induction xs arbitrary: S)
  case (Cons x xs)
  show ?case
  proof (cases x)
    case (StopCmd k i)
    then show ?thesis using Cons.prems Cons.IH[of "insert (k, i) S"] by (auto simp: command_sets split: if_splits)
  next
    case PowerBack
    then show ?thesis using Cons.prems restoring_run[of T S "{}" xs b] by (auto simp: command_sets)
  qed (use Cons.prems in auto)
qed (simp add: command_sets)

lemma engaged_from_quiet:
  "landing_run a (us @ Engaged ts # vs) = Some b \<Longrightarrow> landing_run (Landing (kept_targets ts) {}) vs = Some b"
proof -
  assume r: "landing_run a (us @ Engaged ts # vs) = Some b"
  then obtain c where c: "landing_run a us = Some c" "landing_run c (Engaged ts # vs) = Some b"
    by (auto simp: landing_run_append split: option.splits)
  then show ?thesis by (cases c) auto
qed

text \<open>
  C8: what was stopped is started back, and nothing else is touched. In every run, whatever
  crashes fell into it, when a cycle of the policy is over each target whose stop was ever issued has had
  its start issued, every target it stopped or started was running when the policy engaged, and no
  stop came after the first start.
\<close>

theorem stopped_is_started_back:
  assumes "resting file" "guard_run (at_rest file) (us @ Engaged ts # vs @ Reset ok bad # ws) g" "list_all inside_cycle vs"
  shows "stops vs \<subseteq> starts vs \<and> starts vs \<subseteq> kept_targets ts \<and> (vs = ps @ StartCmd k i # qs \<longrightarrow> stops qs = {})"
proof -
  let ?T = "kept_targets ts"
  obtain b where "landing_run Quiet (us @ Engaged ts # (vs @ Reset ok bad # ws)) = Some b"
    using sim_run[OF assms(2) sim_start[OF assms(1)]] by auto
  from engaged_from_quiet[OF this] obtain c where c: "landing_run (Landing ?T {}) vs = Some c" "landing_run c (Reset ok bad # ws) = Some b"
    by (auto simp: landing_run_append split: option.splits)
  note w = landing_run_within[OF c(1) assms(3)]
  have "c = Restoring ?T (stops vs) (starts vs)" using w c(2) by auto
  then have "stops vs \<subseteq> starts vs" using c(2) by (auto split: if_splits)
  moreover have "stops qs = {}" if v: "vs = ps @ StartCmd k i # qs"
  proof -
    obtain d where d: "landing_run (Landing ?T {}) ps = Some d" "landing_run d (StartCmd k i # qs) = Some c"
      using c(1) unfolding v by (auto simp: landing_run_append split: option.splits)
    have p: "list_all inside_cycle ps" "list_all inside_cycle qs" using assms(3) v by auto
    have "d = Restoring ?T (stops ps) (starts ps)" using landing_run_within[OF d(1) p(1)] d(2) by auto
    then have "landing_run (Restoring ?T (stops ps) (insert (k, i) (starts ps))) qs = Some c" using d(2) by (auto split: if_splits)
    from restoring_run[OF this p(2)] show ?thesis by simp
  qed
  ultimately show ?thesis using w by blast
qed

lemma first_boundary: "\<not> list_all inside_cycle vs \<Longrightarrow> \<exists>ps x qs. vs = ps @ x # qs \<and> list_all inside_cycle ps \<and> \<not> inside_cycle x"
  using split_list_first_prop[of vs "\<lambda>x. \<not> inside_cycle x"] by (auto simp: list_all_iff)

text \<open>
  C9: one outage engages the policy once. Between two engagements of any run the power was seen
  back and the cycle between them was finished; a charge that moves around the floor, a failing sensor or a
  restart of the panel never makes the policy engage again.
\<close>

theorem latched:
  assumes "resting file" "guard_run (at_rest file) (us @ Engaged ts # vs @ Engaged ts' # ws) g"
  shows "\<exists>ps ok bad qs. vs = ps @ Reset ok bad # qs \<and> PowerBack \<in> set ps \<and> list_all inside_cycle ps"
proof -
  obtain b where "landing_run Quiet (us @ Engaged ts # (vs @ Engaged ts' # ws)) = Some b"
    using sim_run[OF assms(2) sim_start[OF assms(1)]] by auto
  from engaged_from_quiet[OF this] obtain c where c: "landing_run (Landing (kept_targets ts) {}) vs = Some c"
    "landing_run c (Engaged ts' # ws) = Some b"
    by (auto simp: landing_run_append split: option.splits)
  have "\<not> list_all inside_cycle vs"
  proof
    assume "list_all inside_cycle vs"
    from landing_run_within[OF c(1) this] c(2) show False by auto
  qed
  then obtain ps x qs where v: "vs = ps @ x # qs" "list_all inside_cycle ps" "\<not> inside_cycle x" using first_boundary by blast
  obtain d where d: "landing_run (Landing (kept_targets ts) {}) ps = Some d" "landing_run d (x # qs) = Some c"
    using c(1) v(1) by (auto simp: landing_run_append split: option.splits)
  have "\<exists>ok bad. x = Reset ok bad \<and> PowerBack \<in> set ps"
    using landing_run_within[OF d(1) v(2)] d(2) v(3) by (cases x) auto
  then show ?thesis using v(1,2) by blast
qed

section \<open>What the machine does not do\<close>

text \<open>
  The comment in the stop loop expects a sweep to flip the phase when the power returns in the middle of
  the sequence, so that the remaining targets are spared. A sweep does so only when no worker is
  busy: while the sequence runs the phase stays engaged and every remaining target is stopped.
\<close>

lemma stop_never_cut_short:
  assumes "resting file" "guard_run (at_rest file) xs g" "StopLoop engine paths rs \<in> set (gd_threads g)"
  shows "phase_of (stored (gd_doc g)) = PStr ''engaged''"
proof -
  obtain a where a: "sim a g" using sim_run[OF assms(2) sim_start[OF assms(1)]] by blast
  have no: "\<not> threads_ok g P" if "\<not> P (StopLoop engine paths rs)" for P
  proof
    assume t: "threads_ok g P"
    have "StopLoop engine paths rs \<in> set (filter (\<lambda>p. p \<noteq> Popping) (gd_threads g))" using assms(3) by simp
    then show False using t that by (auto simp: threads_ok_def Let_def simp del: set_filter split: if_splits)
  qed
  show ?thesis using a no holds_phase(1) by (cases a) fastforce+
qed

end
