(* ===== verification/Ups_Settings.thy ===== *)
theory Ups_Settings
  imports Ups_Json
begin

text \<open>
  What the UPS settings and the sensor promise their readers, whatever the configuration or the
  report of \<open>pmset\<close> holds.
\<close>

section \<open>Floors that fit\<close>

lemma length_show_bits: "0 < k \<Longrightarrow> \<bar>i\<bar> < 2 ^ k \<Longrightarrow> length (show_nat (nat \<bar>i\<bar>)) \<le> k" for i :: int
proof -
  assume "0 < k" "\<bar>i\<bar> < 2 ^ k"
  then have "nat \<bar>i\<bar> < 2 ^ k" by (simp add: nat_less_iff)
  also have "(2::nat) ^ k \<le> 10 ^ k" by (rule power_mono) simp_all
  finally show ?thesis by (rule length_show_nat[OF \<open>0 < k\<close>])
qed

lemma float_fits_bits: "float_fits n \<Longrightarrow> \<bar>n\<bar> < 2 ^ 1024"
proof -
  have "\<bar>n\<bar> < a - 2 ^ k \<Longrightarrow> \<bar>n\<bar> < a" for a k using zero_less_power[of "2::int" k] by linarith
  then show "float_fits n \<Longrightarrow> \<bar>n\<bar> < 2 ^ 1024" unfolding float_fits_def by blast
qed

lemma float_fits_prints: "float_fits n \<Longrightarrow> fits_digit_cap n"
  using length_show_bits[OF _ float_fits_bits[of n]] unfolding fits_digit_cap_def int_max_str_digits_def by fastforce

lemma finite_int_fits: "finite_int v = Some n \<Longrightarrow> float_fits n"
  by (cases v) (auto split: if_splits sum.splits)

definition is_floor :: "pyval \<Rightarrow> bool" where
  \<comment> \<open>switched off, or an integer a double can hold\<close>
  "is_floor v \<longleftrightarrow> v = PNone \<or> (\<exists>n. v = PInt n \<and> float_fits n)"

lemma floor_finite: "is_floor (opt_int (finite_int v))"
  by (cases "finite_int v") (auto simp: is_floor_def opt_int_def dest: finite_int_fits)

lemma jsonable_floor: "n \<le> 32 \<Longrightarrow> is_floor v \<Longrightarrow> jsonable n v = v"
  by (auto simp: is_floor_def jsonable.simps[of n] float_fits_prints)

section \<open>Keys\<close>

lemma dict_set_keys: "k \<in> fst ` set d \<Longrightarrow> map fst (dict_set k v d) = map fst d"
  by (induction d) (auto simp: dict_set_def)

lemma dict_get_keys: "dict_get d k \<noteq> None \<longleftrightarrow> k \<in> fst ` set d"
  by (simp add: dict_get_def map_of_eq_None_iff)

lemma dict_keep_keys: "map fst d = map fst e \<Longrightarrow> dict_get e k \<noteq> None \<Longrightarrow> map fst (dict_set k w d) = map fst e"
  using dict_get_keys[of e k] dict_set_keys[of k d w] by (metis list.set_map)

lemma known_pairs_keys: "map fst (known_pairs defaults items) = map fst defaults"
proof (induction items rule: rev_induct)
  case (snoc p items)
  then show ?case using dict_keep_keys[of "known_pairs defaults items" defaults "fst p"] by (auto simp: known_pairs_def)
qed (simp add: known_pairs_def)

lemma flat_settings_keys: "map fst (flat_settings items) = map fst ups_defaults"
proof (induction items rule: rev_induct)
  case (snoc p items)
  then show ?case using dict_keep_keys[of "flat_settings items" ups_defaults "fst p"] by (auto simp: flat_settings_def)
qed (simp add: flat_settings_def)

lemma floor_setting_keys: "map fst (floor_setting k out) = map fst out"
  by (auto simp: floor_setting_def dict_set_keys pyget_def dict_get_keys[symmetric] split: option.splits)

lemma floor_setting_floor: "is_floor (pyget (floor_setting k out) k)"
  using floor_finite by (auto simp: floor_setting_def dict_simps) (simp add: is_floor_def)

lemma floor_setting_other: "k' \<noteq> k \<Longrightarrow> pyget (floor_setting k out) k' = pyget out k'"
  by (simp add: floor_setting_def dict_simps)

lemma normalized_keys: "map fst (normalized_shutdown raw) = map fst shutdown_defaults"
  by (cases raw) (simp_all add: normalized_shutdown_def floor_setting_keys known_pairs_keys Let_def)

lemma normalized_floors:
  "is_floor (pyget (normalized_shutdown raw) ''trigger_pct'')" "is_floor (pyget (normalized_shutdown raw) ''trigger_remaining_min'')"
  using floor_setting_floor by (simp_all add: normalized_shutdown_def floor_setting_other Let_def)

lemma clean_keys:
  assumes "map fst d = map fst e" "dict_ok e \<and> list_all (\<lambda>p. list_all is_ascii (fst p)) e"
  shows "keys_ok d"
proof -
  have "set (map fst d) = set (map fst e)" using assms(1) by simp
  then have "\<forall>k \<in> fst ` set d. list_all is_ascii k" using assms(2) by (auto simp: list_all_iff)
  then show ?thesis using assms by (auto simp: keys_ok_def dict_ok_def list_all_iff intro: clean_ascii)
qed

lemma defaults_ok: "dict_ok shutdown_defaults \<and> list_all (\<lambda>p. list_all is_ascii (fst p)) shutdown_defaults"
  "dict_ok ups_defaults \<and> list_all (\<lambda>p. list_all is_ascii (fst p)) ups_defaults"
  by code_simp+

lemma scrub_keys: "keys_ok d \<Longrightarrow> map fst (scrub_at n d) = map fst d"
  by (simp add: scrub_map)

text \<open>What the configuration stores, and what the panel makes of it.\<close>

definition stored_ups :: "pyval \<Rightarrow> pydict" where
  "stored_ups cfg = (case mapping_get (mapping_get cfg ''settings'') ''ups'' of PDict d \<Rightarrow> d | _ \<Rightarrow> [])"

lemma settings_parts:
  "\<exists>s a n. ups_settings cfg = PDict s \<and> json_ok 0 (PDict s) \<and> map fst s = [''alerts_enabled'', ''low_battery_pct'', ''shutdown'']
    \<and> pyget s ''alerts_enabled'' = PBool a \<and> pyget s ''low_battery_pct'' = PInt n
    \<and> pyget s ''shutdown'' = PDict (scrub_at 1 (normalized_shutdown (pyget (stored_ups cfg) ''shutdown'')))"
proof -
  define raw where "raw = stored_ups cfg"
  define sd where "sd = normalized_shutdown (pyget raw ''shutdown'')"
  define a where "a = (case py_bool (pyget (flat_settings raw) ''alerts_enabled'') of Inl _ \<Rightarrow> True | Inr b \<Rightarrow> b)"
  define o1 where "o1 = dict_set ''alerts_enabled'' (PBool a) (flat_settings raw)"
  define n where "n = (case finite_int (pyget o1 ''low_battery_pct'') of None \<Rightarrow> 20 | Some n \<Rightarrow> n)"
  define out where "out = dict_set ''shutdown'' (PDict sd) (dict_set ''low_battery_pct'' (PInt n) o1)"
  have s: "ups_settings cfg = PDict (scrub_at 0 out)"
    by (simp add: ups_settings_def Let_def out_def n_def o1_def sd_def raw_def a_def stored_ups_def jsonable_PDict)
  have names: "map fst ups_defaults = [''alerts_enabled'', ''low_battery_pct'', ''shutdown'']" by (simp add: ups_defaults_def)
  have d: "dict_get ups_defaults ''alerts_enabled'' \<noteq> None" "dict_get ups_defaults ''low_battery_pct'' \<noteq> None"
    "dict_get ups_defaults ''shutdown'' \<noteq> None" by (simp_all add: ups_defaults_def dict_get_def)
  have "map fst o1 = map fst ups_defaults" unfolding o1_def by (rule dict_keep_keys[OF flat_settings_keys d(1)])
  from dict_keep_keys[OF dict_keep_keys[OF this d(2)] d(3)] have keys: "map fst out = map fst ups_defaults" unfolding out_def .
  note ko = clean_keys[OF keys defaults_ok(2)]
  have n: "float_fits n" using finite_int_fits[of "pyget o1 ''low_battery_pct''"]
    by (auto simp: n_def split: option.split) (simp add: float_fits_def)
  have sk: "keys_ok sd" unfolding sd_def by (rule clean_keys[OF normalized_keys defaults_ok(1)])
  have o: "pyget out ''alerts_enabled'' = PBool a" "pyget out ''low_battery_pct'' = PInt n" "pyget out ''shutdown'' = PDict sd"
    by (simp_all add: out_def o1_def dict_simps)
  have "pyget (scrub_at 0 out) ''alerts_enabled'' = PBool a" "pyget (scrub_at 0 out) ''low_battery_pct'' = PInt n"
    "pyget (scrub_at 0 out) ''shutdown'' = PDict (scrub_at 1 sd)"
    using jsonable_floor[of 1 "PInt n"] n o unfolding pyget_scrub[OF ko]
    by (simp_all add: jsonable_PBool jsonable_PDict is_floor_def)
  then show ?thesis using s scrub_ok[of 0 out] scrub_keys[OF ko, of 0] unfolding keys names
    by (intro exI[of _ "scrub_at 0 out"] exI[of _ a] exI[of _ n]) (simp add: sd_def raw_def)
qed

text \<open>A field of the policy as the configuration has it: the last value stored under it, or the default.\<close>

definition stored_policy :: "pyval \<Rightarrow> string \<Rightarrow> pyval" where
  "stored_policy raw k =
     (case (case raw of PDict items \<Rightarrow> map_of (rev items) k | _ \<Rightarrow> None) of
        None \<Rightarrow> pyget shutdown_defaults k
      | Some v \<Rightarrow> v)"

lemma known_pairs_last:
  "dict_get defaults k \<noteq> None \<Longrightarrow>
    pyget (known_pairs defaults items) k = (case map_of (rev items) k of None \<Rightarrow> pyget defaults k | Some v \<Rightarrow> v)"
proof (induction items rule: rev_induct)
  case (snoc p items)
  have "known_pairs defaults (items @ [p]) = (if dict_get defaults (fst p) \<noteq> None
      then dict_set (fst p) (snd p) (known_pairs defaults items) else known_pairs defaults items)"
    by (simp add: known_pairs_def)
  then show ?case using snoc by (cases p) (auto simp: dict_simps)
qed (simp add: known_pairs_def)

lemma normalized_stored:
  "dict_get shutdown_defaults k \<noteq> None \<Longrightarrow> k \<noteq> ''trigger_pct'' \<Longrightarrow> k \<noteq> ''trigger_remaining_min''
    \<Longrightarrow> pyget (normalized_shutdown raw) k = stored_policy raw k"
  by (cases raw) (auto simp: normalized_shutdown_def stored_policy_def floor_setting_other known_pairs_last Let_def)

text \<open>
  The four remaining fields get no type of their own: a text under \<open>enabled\<close> is served as the text, and
  the policy, which asks for its truth value only, takes even \<open>off\<close> for a policy that is switched on.
\<close>

lemma off_text_counts_as_enabled:
  "truthy (jsonable 2 (stored_policy (PDict [(''enabled'', PStr ''off'')]) ''enabled''))"
  by code_simp

section \<open>Properties\<close>

text \<open>
  C26: the settings the panel serves and the policy reads are always complete and encode as JSON.
  Whatever the configuration holds under \<open>settings.ups\<close>, they have exactly the known keys, the alert
  switch is a flag and the low-charge level an integer, the shutdown block has exactly its known keys, and
  each of its two floors is off or an integer that a double can hold. Its other four fields get no type
  of their own: each is the last value stored under it, or its default, made JSON-encodable.
\<close>

theorem ups_settings_typed:
  "\<exists>s sh a n. ups_settings cfg = PDict s \<and> json_ok 0 (PDict s) \<and> map fst s = [''alerts_enabled'', ''low_battery_pct'', ''shutdown'']
    \<and> pyget s ''alerts_enabled'' = PBool a \<and> pyget s ''low_battery_pct'' = PInt n
    \<and> pyget s ''shutdown'' = PDict sh \<and> map fst sh = map fst shutdown_defaults
    \<and> is_floor (pyget sh ''trigger_pct'') \<and> is_floor (pyget sh ''trigger_remaining_min'')
    \<and> map (pyget sh) [''enabled'', ''require_both'', ''stacks'', ''stop_scripts'']
      = map (\<lambda>k. jsonable 2 (stored_policy (pyget (stored_ups cfg) ''shutdown'') k)) [''enabled'', ''require_both'', ''stacks'', ''stop_scripts'']"
proof -
  define raw where "raw = stored_ups cfg"
  define sd where "sd = normalized_shutdown (pyget raw ''shutdown'')"
  have sk: "keys_ok sd" unfolding sd_def by (rule clean_keys[OF normalized_keys defaults_ok(1)])
  have "is_floor (pyget (scrub_at 1 sd) ''trigger_pct'')" "is_floor (pyget (scrub_at 1 sd) ''trigger_remaining_min'')"
    using normalized_floors[of "pyget raw ''shutdown''", folded sd_def] unfolding pyget_scrub[OF sk] by (simp_all add: jsonable_floor)
  moreover have "map fst (scrub_at 1 sd) = map fst shutdown_defaults" using scrub_keys[OF sk] normalized_keys by (simp add: sd_def)
  moreover obtain s a n where "ups_settings cfg = PDict s \<and> json_ok 0 (PDict s)
      \<and> map fst s = [''alerts_enabled'', ''low_battery_pct'', ''shutdown'']
      \<and> pyget s ''alerts_enabled'' = PBool a \<and> pyget s ''low_battery_pct'' = PInt n \<and> pyget s ''shutdown'' = PDict (scrub_at 1 sd)"
    using settings_parts[of cfg, folded raw_def, folded sd_def] by (elim exE)
  moreover have "pyget (scrub_at 1 sd) k = jsonable 2 (stored_policy (pyget raw ''shutdown'') k)"
    if "k \<in> {''enabled'', ''require_both'', ''stacks'', ''stop_scripts''}" for k
    using that normalized_stored[of k "pyget raw ''shutdown''"] unfolding pyget_scrub[OF sk]
    by (auto simp: sd_def shutdown_defaults_def dict_get_def numeral_2_eq_2)
  ultimately show ?thesis by (intro exI[of _ s] exI[of _ "scrub_at 1 sd"] exI[of _ a] exI[of _ n]) (simp add: raw_def)
qed

section \<open>The sensor\<close>

lemma batt_line_bounds:
  "(\<And>p. bt_percent b = Some p \<Longrightarrow> p \<le> 100) \<Longrightarrow> bt_percent (batt_line b l) = Some p \<Longrightarrow> p \<le> 100"
  by (auto simp: batt_line_def batt_device_def Let_def split: if_splits option.splits)

lemma percent_bounds: "bt_percent (parse_batt report) = Some p \<Longrightarrow> p \<le> 100"
proof -
  have "bt_percent (foldl batt_line b ls) = Some p \<Longrightarrow> p \<le> 100" if "\<And>p. bt_percent b = Some p \<Longrightarrow> p \<le> 100" for b ls
    using that by (induction ls arbitrary: b) (auto intro: batt_line_bounds)
  note this[of "\<lparr>bt_source = OnUnknown, bt_name = None, bt_kind = None, bt_percent = None, bt_charging = None, bt_remaining = None\<rparr>"]
  moreover assume "bt_percent (parse_batt report) = Some p"
  ultimately show ?thesis by (auto simp: parse_batt_def Let_def split: if_splits)
qed

end
