(* ===== verification/Ups_Outage.thy ===== *)
theory Ups_Outage
  imports Ups_Safety Ups_Settings
begin

text \<open>
  One outage from end to end: what the plan holds, and that an undisturbed worker finishes its stop
  and its restore sequence, issuing exactly the planned commands in order.
\<close>

section \<open>The plan\<close>

lemma dedupe_distinct: "distinct (dedupe seen xs) \<and> set (dedupe seen xs) \<inter> set seen = {} \<and> [] \<notin> set (dedupe seen xs)"
  by (induction seen xs rule: dedupe.induct) auto

lemma dedupe_set: "set (dedupe seen xs) = set xs - set seen - {[]}"
  by (induction seen xs rule: dedupe.induct) auto

definition row_key :: "pydict \<Rightarrow> pyval \<times> pyval" where
  "row_key r = (pyget r ''kind'', pyget r ''id'')"

lemma stack_step_fields:
  "pyget (stack_step f i) ''kind'' = PStr ''stack''" "pyget (stack_step f i) ''id'' = PStr i"
  "pyget (stack_step f i) ''running'' = PBool (case dict_get f i of None \<Rightarrow> False | Some s \<Rightarrow> pyget s ''status'' = PStr ''ok'')"
  "pyget (stack_step f i) ''done'' = PNone" "pyget (stack_step f i) ''stop_issued'' = PNone"
  by (simp_all add: stack_step_def pyget_def dict_get_def split: option.split)

lemma service_step_fields:
  "pyget (service_step f i) ''kind'' = PStr ''service''" "pyget (service_step f i) ''id'' = PStr i"
  "pyget (service_step f i) ''running'' = PBool (dict_get f i \<in> {Some ''ok'', Some ''warn''})"
  "pyget (service_step f i) ''done'' = PNone" "pyget (service_step f i) ''stop_issued'' = PNone"
  by (simp_all add: service_step_def pyget_def dict_get_def)

lemmas step_fields = stack_step_fields service_step_fields

lemma plan_keys: "distinct (map row_key (build_plan sm policy))"
  using dedupe_distinct by (auto simp: build_plan_def Let_def distinct_map inj_on_def row_key_def step_fields wanted_stacks_def wanted_scripts_def)

lemma first_rows_get:
  "dict_get (first_rows ss out) i =
     (case dict_get out i of Some s \<Rightarrow> Some s | None \<Rightarrow> List.find (\<lambda>s. ups_text (pyget s ''id'') = i \<and> i \<noteq> []) ss)"
  by (induction ss out rule: first_rows.induct) (auto simp: Let_def dict_simps split: option.split)

section \<open>An undisturbed worker\<close>

inductive works :: "meets \<Rightarrow> pc \<Rightarrow> doc \<Rightarrow> act list \<Rightarrow> pc \<Rightarrow> doc \<Rightarrow> bool" for me where
  idle: "works me pc file [] pc file"
| next_act: "pc \<noteq> Clearing \<Longrightarrow> pc \<noteq> Popping \<Longrightarrow> worker_act me pc file = (pc1, file1, xs) \<Longrightarrow>
    works me pc1 file1 ys pc2 file2 \<Longrightarrow> works me pc file (xs @ ys) pc2 file2"

lemma works_act:
  "worker_act me pc file = (pc1, file1, xs) \<Longrightarrow> pc \<noteq> Clearing \<Longrightarrow> pc \<noteq> Popping \<Longrightarrow> works me pc1 file1 ys pc2 file2 \<Longrightarrow>
    zs = xs @ ys \<Longrightarrow> works me pc file zs pc2 file2"
  by (auto intro: next_act)

lemma works_trans: "works me pc file xs pc1 file1 \<Longrightarrow> works me pc1 file1 ys pc2 file2 \<Longrightarrow> works me pc file (xs @ ys) pc2 file2"
  by (induction rule: works.induct) (auto intro: works.intros)

definition chosen :: "bool \<Rightarrow> (string, pyval) dict \<Rightarrow> pydict \<Rightarrow> bool" where
  "chosen engine paths r \<longleftrightarrow>
     truthy (pyget r ''running'')
     \<and> (pyget r ''kind'' = PStr ''stack'' \<longrightarrow> engine \<and> (\<exists>i p. pyget r ''id'' = PStr i \<and> pyget paths i = PStr p \<and> p \<noteq> []))"

text \<open>A row nothing has happened to yet, under the id \<open>i\<close>.\<close>

definition fresh_row :: "(string, pyval) dict \<Rightarrow> pydict \<Rightarrow> bool" where
  "fresh_row paths r \<longleftrightarrow>
     (\<exists>i. pyget r ''id'' = PStr i \<and> (truthy (pyget paths i) \<longrightarrow> (\<exists>p. pyget paths i = PStr p)))
     \<and> \<not> truthy (pyget r ''done'') \<and> \<not> issued r"

definition row_id :: "pydict \<Rightarrow> string" where
  "row_id r = ups_text (pyget r ''id'')"

lemma update_row_at:
  assumes "distinct (map row_key (us @ r # vs))" "pyget r ''id'' = PStr i" "pyget r ''kind'' = k"
  shows "update_row k i new (us @ r # vs) = us @ update_fields new r # vs"
  using assms
proof (induction us)
  case Nil
  then show ?case by (simp add: is_step_def)
next
  case (Cons u us)
  then have "\<not> is_step k i u" by (auto simp: is_step_def row_key_def)
  then show ?case using Cons by simp
qed

text \<open>What one pass of the stop loop leaves of a row.\<close>

definition same_key :: "pydict \<Rightarrow> pydict \<Rightarrow> bool" where
  "same_key r q \<longleftrightarrow> row_key q = row_key r"

lemma record_at:
  assumes "state_ok (stored file)" "rows_are (stored file) (us @ r # vs)" "distinct (map row_key (us @ r # vs))"
    and "pyget r ''id'' = PStr i" "pyget r ''kind'' = k" "list_all (\<lambda>p. clean_text (fst p)) new"
  obtains file' where "record_step good_disk k i new file = Inr file'" "state_ok (stored file')"
    "rows_are (stored file') (us @ update_fields (row_fields new) r # vs)"
    "\<And>x. x \<noteq> ''steps'' \<Longrightarrow> pyget (stored file') x = pyget (stored file) x"
proof -
  note u = update_row_at[OF assms(3-5), of "row_fields new"]
  obtain file' where f: "record_step good_disk k i new file = Inr file'" "state_ok (stored file')"
    "rows_are (stored file') (update_row k i (row_fields new) (us @ r # vs))"
    "\<And>x. x \<noteq> ''steps'' \<Longrightarrow> pyget (stored file') x = pyget (stored file) x"
    by (rule record_step_rows[where kind = k and sid = i, OF assms(1,2,6)]) blast
  show thesis by (rule that[OF f(1,2) f(3)[unfolded u] f(4)])
qed

lemma stop_pass:
  assumes "state_ok (stored file)" "phase_of (stored file) = PStr ''engaged''" "rows_are (stored file) (us @ r # vs)"
    and "distinct (map row_key (us @ r # vs))" "fresh_row paths r" "me_disk me = good_disk"
  obtains file' q where "state_ok (stored file')" "phase_of (stored file') = PStr ''engaged''"
    "rows_are (stored file') (us @ q # vs)" "row_key q = row_key r" "issued q \<longleftrightarrow> chosen engine paths r" "has_path (pyget r ''kind'') q \<or> \<not> issued q"
    "\<And>xs pc fl. works me (StopLoop engine paths rest) file' xs pc fl \<Longrightarrow>
      works me (StopLoop engine paths (r # rest)) file
        ((if chosen engine paths r then [StopCmd (pyget r ''kind'') (row_id r)] else []) @ xs) pc fl"
proof -
  obtain i where i: "pyget r ''id'' = PStr i" "truthy (pyget paths i) \<longrightarrow> (\<exists>p. pyget paths i = PStr p)"
    "\<not> truthy (pyget r ''done'')" "\<not> issued r" using assms(5) by (auto simp: fresh_row_def)
  let ?k = "pyget r ''kind''"
  have id: "row_id r = i" "py_str (pyget r ''id'') = Inr i" using i(1) by (simp_all add: row_id_def)
  have phase: "phase_of (stored fl) = PStr ''engaged''" if "\<And>x. x \<noteq> ''steps'' \<Longrightarrow> pyget (stored fl) x = pyget (stored file) x" for fl
    using assms(2) that[of "''phase''"] by (auto simp: phase_of_def split: if_splits)
  show thesis
  proof (cases "chosen engine paths r")
    case False
    define reason where "reason = (if \<not> truthy (pyget r ''running'') then ''not_running''
      else if \<not> engine then ''engine_down'' else ''no_compose_file'')"
    have s: "or_clear (stop_step engine paths r (StopLoop engine paths rest))
        = Recording ?k i [(''done'', PBool True), (''skipped'', PStr reason)] (StopLoop engine paths rest)"
      using False i id by (auto simp: reason_def stop_step_def or_clear_def chosen_def Let_def)
    let ?new = "[(''done'', PBool True), (''skipped'', PStr reason)]"
    note h = harmless_note(1)[of "PStr reason"]
    obtain f1 where f: "record_step good_disk ?k i ?new file = Inr f1" "state_ok (stored f1)"
      "rows_are (stored f1) (us @ update_fields (row_fields ?new) r # vs)"
      "\<And>x. x \<noteq> ''steps'' \<Longrightarrow> pyget (stored f1) x = pyget (stored file) x"
      by (rule record_at[OF assms(1,3,4) i(1) refl step_fields_clean[OF h]]) blast
    show thesis
    proof (rule that[OF f(2) phase[OF f(4)] f(3)])
      show "row_key (update_fields (row_fields ?new) r) = row_key r"
        using harmless_view[OF h] by (simp add: row_key_def view_keys_def)
      show "issued (update_fields (row_fields ?new) r) \<longleftrightarrow> chosen engine paths r" using harmless_row(2)[OF h] i(4) False by simp
      show "has_path ?k (update_fields (row_fields ?new) r) \<or> \<not> issued (update_fields (row_fields ?new) r)"
        using harmless_row(2)[OF h] i(4) by simp
      fix xs pc fl assume w: "works me (StopLoop engine paths rest) f1 xs pc fl"
      have "works me (Recording ?k i ?new (StopLoop engine paths rest)) file xs pc fl"
        by (rule works_act[OF _ _ _ w]) (simp_all add: assms(6) f(1))
      then show "works me (StopLoop engine paths (r # rest)) file
          ((if chosen engine paths r then [StopCmd ?k (row_id r)] else []) @ xs) pc fl"
        using False assms(2,6) s by (intro works_act[of me "StopLoop engine paths (r # rest)"]) auto
    qed
  next
    case True
    define new where "new = (''stop_issued'', PBool True) # (if ?k = PStr ''stack'' then [(''compose_path'', pyget paths i)] else [])"
    have s: "or_clear (stop_step engine paths r (StopLoop engine paths rest))
        = Recording ?k i new (Stopping ?k i (StopLoop engine paths rest))"
      using True i id by (auto simp: new_def stop_step_def or_clear_def chosen_def Let_def)
    have a: "arms ?k new" using True i(1) by (auto simp: new_def chosen_def arms_def)
    obtain f1 where f: "record_step good_disk ?k i new file = Inr f1" "state_ok (stored f1)"
      "rows_are (stored f1) (us @ update_fields (row_fields new) r # vs)"
      "\<And>x. x \<noteq> ''steps'' \<Longrightarrow> pyget (stored f1) x = pyget (stored file) x"
      by (rule record_at[OF assms(1,3,4) i(1) refl arms_clean[OF a]]) blast
    let ?r = "update_fields (row_fields new) r"
    let ?new = "[(''done'', PBool True), (''stop_ok'', PBool (me_rc me = 0)), (''detail'', PStr (detail_text me))]"
    note h = harmless_note(2)[of "PBool (me_rc me = 0)" "PStr (detail_text me)"]
    have k1: "pyget ?r ''id'' = PStr i" "pyget ?r ''kind'' = ?k" "row_key ?r = row_key r"
      using arms_view(1)[OF a] i(1) by (simp_all add: row_key_def)
    have d1: "distinct (map row_key (us @ ?r # vs))" using assms(4) k1(3) by simp
    obtain f2 where g: "record_step good_disk ?k i ?new f1 = Inr f2" "state_ok (stored f2)"
      "rows_are (stored f2) (us @ update_fields (row_fields ?new) ?r # vs)"
      "\<And>x. x \<noteq> ''steps'' \<Longrightarrow> pyget (stored f2) x = pyget (stored f1) x"
      by (rule record_at[OF f(2,3) d1 k1(1,2) step_fields_clean[OF h]]) blast
    show thesis
    proof (rule that[OF g(2) phase g(3)])
      show "pyget (stored f2) x = pyget (stored file) x" if "x \<noteq> ''steps''" for x using f(4) g(4) that by simp
      show "row_key (update_fields (row_fields ?new) ?r) = row_key r"
        using harmless_view[OF h] k1(3) by (simp add: row_key_def view_keys_def)
      show "issued (update_fields (row_fields ?new) ?r) \<longleftrightarrow> chosen engine paths r"
        using harmless_row(2)[OF h] arms_view(2)[OF a] True by simp
      show "has_path ?k (update_fields (row_fields ?new) ?r) \<or> \<not> issued (update_fields (row_fields ?new) ?r)"
        using harmless_row(3)[OF h] arms_view(3)[OF a] by blast
      fix xs pc fl assume w: "works me (StopLoop engine paths rest) f2 xs pc fl"
      have "works me (Recording ?k i ?new (StopLoop engine paths rest)) f1 xs pc fl"
        by (rule works_act[OF _ _ _ w]) (simp_all add: assms(6) g(1))
      then have "works me (Stopping ?k i (StopLoop engine paths rest)) f1 (StopCmd ?k i # xs) pc fl"
        by (intro works_act[of me "Stopping ?k i (StopLoop engine paths rest)"]) auto
      then have "works me (Recording ?k i new (Stopping ?k i (StopLoop engine paths rest))) file (StopCmd ?k i # xs) pc fl"
        by (intro works_act[of me "Recording ?k i new (Stopping ?k i (StopLoop engine paths rest))"]) (auto simp: assms(6) f(1))
      then show "works me (StopLoop engine paths (r # rest)) file
          ((if chosen engine paths r then [StopCmd ?k (row_id r)] else []) @ xs) pc fl"
        using True assms(2,6) s id(1) by (intro works_act[of me "StopLoop engine paths (r # rest)"]) auto
    qed
  qed
qed

definition stop_of :: "pydict \<Rightarrow> act" where
  "stop_of r = StopCmd (pyget r ''kind'') (row_id r)"

definition start_of :: "pydict \<Rightarrow> act" where
  "start_of r = StartCmd (pyget r ''kind'') (row_id r)"

definition left_by :: "bool \<Rightarrow> (string, pyval) dict \<Rightarrow> pydict \<Rightarrow> pydict \<Rightarrow> bool" where
  "left_by engine paths r q \<longleftrightarrow>
     row_key q = row_key r \<and> (issued q \<longleftrightarrow> chosen engine paths r) \<and> (issued q \<longrightarrow> has_path (pyget q ''kind'') q)"

lemma stop_loop:
  assumes "state_ok (stored file)" "phase_of (stored file) = PStr ''engaged''" "rows_are (stored file) (us @ rs)"
    and "distinct (map row_key (us @ rs))" "list_all (fresh_row paths) rs" "me_disk me = good_disk"
  shows "\<exists>file' qs. state_ok (stored file') \<and> phase_of (stored file') = PStr ''engaged'' \<and> rows_are (stored file') (us @ qs)
    \<and> list_all2 (left_by engine paths) rs qs
    \<and> works me (StopLoop engine paths rs) file (map stop_of (filter (chosen engine paths) rs)) StopFinish file'"
  using assms
proof (induction rs arbitrary: us "file")
  case Nil
  have "works me (StopLoop engine paths []) file [] StopFinish file"
    by (rule works_act[OF _ _ _ works.idle]) auto
  then show ?case using Nil by auto
next
  case (Cons r rs)
  obtain file1 q where s: "state_ok (stored file1)" "phase_of (stored file1) = PStr ''engaged''"
    "rows_are (stored file1) (us @ q # rs)" "row_key q = row_key r" "issued q \<longleftrightarrow> chosen engine paths r"
    "has_path (pyget r ''kind'') q \<or> \<not> issued q"
    "\<And>xs pc fl. works me (StopLoop engine paths rs) file1 xs pc fl \<Longrightarrow>
      works me (StopLoop engine paths (r # rs)) file
        ((if chosen engine paths r then [StopCmd (pyget r ''kind'') (row_id r)] else []) @ xs) pc fl"
    by (rule stop_pass[OF Cons.prems(1-4) _ Cons.prems(6), where engine = engine and paths = paths and rest = rs])
      (use Cons.prems(5) in auto)
  have "rows_are (stored file1) ((us @ [q]) @ rs)" "distinct (map row_key ((us @ [q]) @ rs))" "list_all (fresh_row paths) rs"
    using s(3,4) Cons.prems(4,5) by simp_all
  from Cons.IH[OF s(1,2) this Cons.prems(6)] obtain file' qs where
    w: "state_ok (stored file')" "phase_of (stored file') = PStr ''engaged''" "rows_are (stored file') ((us @ [q]) @ qs)"
      "list_all2 (left_by engine paths) rs qs"
      "works me (StopLoop engine paths rs) file1 (map stop_of (filter (chosen engine paths) rs)) StopFinish file'" by blast
  have "left_by engine paths r q" using s(4-6) by (auto simp: left_by_def row_key_def)
  moreover have "works me (StopLoop engine paths (r # rs)) file
      (map stop_of (filter (chosen engine paths) (r # rs))) StopFinish file'"
    using s(7)[OF w(5)] by (simp add: stop_of_def split: if_splits)
  ultimately show ?case using w(1-4) by (intro exI[of _ file'] exI[of _ "q # qs"]) simp
qed

lemma restore_loop:
  assumes "state_ok (stored file)" "rows_are (stored file) D" "me_disk me = good_disk"
    and "\<And>r. r \<in> set rs \<Longrightarrow> issued r \<Longrightarrow> has_path (pyget r ''kind'') r" "\<And>r. r \<in> set rs \<Longrightarrow> \<exists>i. pyget r ''id'' = PStr i"
  shows "\<exists>file' ok bad. state_ok (stored file')
    \<and> (me_rc me = 0 \<longrightarrow> ok = started @ map row_id (filter issued rs) \<and> bad = failures)
    \<and> works me (RestoreLoop now rs started failures) file (map start_of (filter issued rs)) (RestoreFinish now ok bad) file'"
  using assms
proof (induction rs arbitrary: D "file" started failures)
  case Nil
  have "works me (RestoreLoop now [] started failures) file [] (RestoreFinish now started failures) file"
    by (rule works_act[OF _ _ _ works.idle]) auto
  then show ?case using Nil by auto
next
  case (Cons r rs)
  obtain i where i: "pyget r ''id'' = PStr i" using Cons.prems(5) by auto
  then have id: "row_id r = i" "py_str (pyget r ''id'') = Inr i" by (simp_all add: row_id_def)
  show ?case
  proof (cases "issued r")
    case False
    from Cons.IH[OF Cons.prems(1-3), of started failures] Cons.prems(4,5) obtain file' ok bad where
      w: "state_ok (stored file')" "me_rc me = 0 \<longrightarrow> ok = started @ map row_id (filter issued rs) \<and> bad = failures"
        "works me (RestoreLoop now rs started failures) file (map start_of (filter issued rs)) (RestoreFinish now ok bad) file'"
      by auto
    have "works me (RestoreLoop now (r # rs) started failures) file (map start_of (filter issued rs)) (RestoreFinish now ok bad) file'"
      by (rule works_act[OF _ _ _ w(3)]) (auto simp: restore_step_def or_clear_def False)
    then show ?thesis using w(1,2) False by auto
  next
    case True
    let ?k = "pyget r ''kind''"
    let ?new = "[(''start_ok'', PBool (me_rc me = 0)), (''start_detail'', PStr (detail_text me))]"
    let ?st = "if me_rc me = 0 then started @ [i] else started" and ?fl = "if me_rc me = 0 then failures else failures @ [i]"
    have path: "has_path ?k r" using Cons.prems(4) True by simp
    obtain f1 where f: "record_step good_disk ?k i ?new file = Inr f1" "state_ok (stored f1)"
      "rows_are (stored f1) (update_row ?k i (row_fields ?new) D)"
      by (rule record_step_rows[where kind = ?k and sid = i, OF Cons.prems(1,2) step_fields_clean[OF harmless_note(3)]]) blast
    from Cons.IH[OF f(2,3) Cons.prems(3), of ?st ?fl] Cons.prems(4,5) obtain file' ok bad where
      w: "state_ok (stored file')" "me_rc me = 0 \<longrightarrow> ok = ?st @ map row_id (filter issued rs) \<and> bad = ?fl"
        "works me (RestoreLoop now rs ?st ?fl) f1 (map start_of (filter issued rs)) (RestoreFinish now ok bad) file'"
      by auto
    have "works me (Recording ?k i ?new (RestoreLoop now rs ?st ?fl)) file (map start_of (filter issued rs)) (RestoreFinish now ok bad) file'"
      by (rule works_act[OF _ _ _ w(3)]) (simp_all add: f(1) Cons.prems(3))
    then have "works me (Starting ?k i now rs started failures) file (start_of r # map start_of (filter issued rs)) (RestoreFinish now ok bad) file'"
      by (intro works_act[of me "Starting ?k i now rs started failures"]) (auto simp: start_of_def id(1))
    then have "works me (RestoreLoop now (r # rs) started failures) file (start_of r # map start_of (filter issued rs)) (RestoreFinish now ok bad) file'"
      using path by (intro works_act[of me "RestoreLoop now (r # rs) started failures"]) (auto simp: restore_step_def or_clear_def True id(2) Let_def)
    then show ?thesis using w(1,2) True id(1) by (intro exI[of _ file'] exI[of _ ok] exI[of _ bad]) auto
  qed
qed

section \<open>One outage\<close>

lemma left_by_key: "left_by engine paths r q \<Longrightarrow> start_of q = start_of r \<and> row_id q = row_id r \<and> pyget q ''id'' = pyget r ''id''"
  by (simp add: left_by_def start_of_def row_id_def row_key_def)

lemma left_by_issued:
  "list_all2 (left_by engine paths) rs qs \<Longrightarrow>
    map start_of (filter issued qs) = map start_of (filter (chosen engine paths) rs)
    \<and> map row_id (filter issued qs) = map row_id (filter (chosen engine paths) rs)"
proof (induction rule: list_all2_induct)
  case (Cons r rs q qs)
  then show ?case using left_by_key[of engine paths r q] by (auto simp: left_by_def)
qed simp

text \<open>A planned step with a clean id, as the state keeps it.\<close>

lemma kept_step:
  assumes "r \<in> set (build_plan sm policy)" "clean_text (row_id r)" "list_all (\<lambda>p. is_str (snd p)) paths"
  defines "q \<equiv> scrub_at 2 r"
  shows "row_key q = row_key r" "fresh_row paths q" "pyget q ''id'' = PStr (row_id r)"
    "chosen True paths q \<longleftrightarrow> truthy (pyget r ''running'') \<and> (pyget r ''kind'' = PStr ''stack'' \<longrightarrow> truthy (pyget paths (row_id r)))"
    "stop_of q = StopCmd (pyget r ''kind'') (row_id r)" "start_of q = StartCmd (pyget r ''kind'') (row_id r)" "row_id q = row_id r"
proof -
  obtain k i where p: "k \<in> {''stack'', ''service''}" "pyget r ''kind'' = PStr k" "pyget r ''id'' = PStr i" "keys_ok r"
    "pyget r ''stop_issued'' = PNone" by (rule plan_row[OF assms(1)]) blast
  have rd: "pyget r ''done'' = PNone" "\<exists>b. pyget r ''running'' = PBool b"
    using assms(1) by (auto simp: build_plan_def Let_def step_fields)
  have i: "row_id r = i" "launder i = i" using p(3) assms(2) by (simp_all add: row_id_def launder_clean)
  have k: "launder k = k" using p(1) by (auto simp: launder_ascii is_ascii_def ordc_def)
  have g: "pyget q x = jsonable 3 (pyget r x)" for x unfolding q_def pyget_scrub[OF p(4)] by (simp add: numeral_3_eq_3 numeral_2_eq_2)
  have v: "pyget q ''kind'' = PStr k" "pyget q ''id'' = PStr i" "pyget q ''done'' = PNone" "pyget q ''stop_issued'' = PNone"
    "pyget q ''running'' = pyget r ''running''"
    using p rd i k by (auto simp: g jsonable_PStr jsonable_PBool)
  have str: "truthy (pyget paths i) \<longleftrightarrow> (\<exists>s. pyget paths i = PStr s \<and> s \<noteq> [])"
  proof
    assume t: "truthy (pyget paths i)"
    then obtain w where "dict_get paths i = Some w" "pyget paths i = w" by (auto simp: pyget_def split: option.splits)
    then have "is_str w" using assms(3) dict_get_in by (fastforce simp: list_all_iff)
    then show "\<exists>s. pyget paths i = PStr s \<and> s \<noteq> []" using t \<open>pyget paths i = w\<close> by (cases w) auto
  qed auto
  show "row_key q = row_key r" "pyget q ''id'' = PStr (row_id r)" "row_id q = row_id r"
    using v p(2,3) i by (simp_all add: row_key_def row_id_def)
  then show "stop_of q = StopCmd (pyget r ''kind'') (row_id r)" "start_of q = StartCmd (pyget r ''kind'') (row_id r)"
    using v(1) p(2) by (simp_all add: stop_of_def start_of_def)
  show "fresh_row paths q" using v str by (auto simp: fresh_row_def)
  show "chosen True paths q \<longleftrightarrow> truthy (pyget r ''running'') \<and> (pyget r ''kind'' = PStr ''stack'' \<longrightarrow> truthy (pyget paths (row_id r)))"
    using v p(2) str i(1) by (simp add: chosen_def)
qed

lemma kept_commands:
  assumes "\<And>r. r \<in> set steps \<Longrightarrow> r \<in> set (build_plan sm policy) \<and> clean_text (row_id r)" "list_all (\<lambda>p. is_str (snd p)) paths"
  defines "cs \<equiv> filter (\<lambda>(k, i). k = PStr ''stack'' \<longrightarrow> truthy (pyget paths i)) (plan_targets steps)"
    and "rs \<equiv> filter (chosen True paths) (map (scrub_at 2) steps)"
  shows "map stop_of rs = map (\<lambda>(k, i). StopCmd k i) cs \<and> map start_of rs = map (\<lambda>(k, i). StartCmd k i) cs
    \<and> map row_id rs = map snd cs"
  using assms(1) unfolding cs_def rs_def
proof (induction steps)
  case (Cons r steps)
  have "r \<in> set (build_plan sm policy)" "clean_text (row_id r)" using Cons.prems[of r] by auto
  note k = kept_step[OF this assms(2)]
  show ?case using Cons k(4-7) by (auto simp: plan_targets_def row_id_def[symmetric])
qed (simp add: plan_targets_def)

lemma sweep_engages:
  assumes "resting file" "tk_disk tk = good_disk" "sweep tk (at_rest file) = (g, [Engaged ts])"
  shows "ts = plan_targets (build_plan (tk_seams tk) (tk_policy tk))"
    "holds ''engaged'' (kept_targets ts) {} (map (scrub_at 2) (build_plan (tk_seams tk) (tk_policy tk))) (gd_doc g)"
    "gd_threads g = [StopBegin]"
proof -
  obtain fl t xs where d: "sweep_decide tk False file = (fl, t, xs)" by (cases "sweep_decide tk False file")
  then have x: "xs = [Engaged ts]" "g = (case t of None \<Rightarrow> at_rest fl | Some p \<Rightarrow> spawn_worker tk p (at_rest fl))"
    using assms(3) by (auto simp: sweep_def at_rest_def Let_def split: option.split)
  have "ts = plan_targets (build_plan (tk_seams tk) (tk_policy tk)) \<and> t = Some StopBegin
      \<and> (\<exists>label. fl = mutate_state good_disk (latch (tk_now tk) label (build_plan (tk_seams tk) (tk_policy tk))) file)"
    using d x(1) assms(1,2) by (auto simp: sweep_decide_def resting_def Let_def split: option.splits if_splits)
  then show "ts = plan_targets (build_plan (tk_seams tk) (tk_policy tk))"
    "holds ''engaged'' (kept_targets ts) {} (map (scrub_at 2) (build_plan (tk_seams tk) (tk_policy tk))) (gd_doc g)"
    "gd_threads g = [StopBegin]"
    using latch_holds[OF refl] x(2) spawn_holds[OF assms(2), of _ _ _ _ "at_rest fl"] by (auto simp: at_rest_def spawn_worker_def)
qed

lemma phase_of_set: "k \<noteq> ''phase'' \<Longrightarrow> phase_of (dict_set k v st) = phase_of st"
  by (simp add: phase_of_def dict_simps)

lemma phase_of_del: "k \<noteq> ''phase'' \<Longrightarrow> phase_of (dict_del k st) = phase_of st"
  by (simp add: phase_of_def dict_simps)

text \<open>The state after the stop sequence, its owner dropped.\<close>

lemma stop_sequence:
  assumes "holds ''engaged'' T S D file" "list_all (fresh_row paths) D" "distinct (map row_key D)"
    and "me_disk me = good_disk" "me_engine me = Inr True" "paths = compose_by_id (me_paths me)"
  shows "\<exists>file' qs. works me StopBegin file (map stop_of (filter (chosen True paths) D)) Clearing file'
    \<and> state_ok (stored file') \<and> pyget (stored file') ''stop_done'' = PBool True \<and> phase_of (stored file') = PStr ''engaged''
    \<and> rows_are (stored file') qs \<and> list_all2 (left_by True paths) D qs"
proof -
  have h: "state_ok (stored file)" "phase_of (stored file) = PStr ''engaged''" "rows_are (stored file) ([] @ D)"
    using assms(1) holds_phase by (auto simp: holds_def)
  have "distinct (map row_key ([] @ D))" using assms(3) by simp
  from stop_loop[OF h this assms(2,4), of True] obtain f1 qs where
    w: "state_ok (stored f1)" "phase_of (stored f1) = PStr ''engaged''" "rows_are (stored f1) qs" "list_all2 (left_by True paths) D qs"
      "works me (StopLoop True paths D) file (map stop_of (filter (chosen True paths) D)) StopFinish f1" by auto
  let ?f2 = "mutate_state good_disk (dict_set ''stop_done'' (PBool True)) f1"
  have c: "clean_text ''stop_done''" by (simp add: clean_ascii is_ascii_def ordc_def)
  have s: "stored ?f2 = dict_set ''stop_done'' (PBool True) (stored f1)"
    using stored_set[OF w(1) c, of "PBool True"] by (simp add: jsonable_PBool)
  have fin: "works me StopFinish f1 [] Clearing ?f2" by (rule works_act[OF _ _ _ works.idle]) (simp_all add: assms(4))
  have "works me (StopLoop True paths D) file (map stop_of (filter (chosen True paths) D)) Clearing ?f2"
    using works_trans[OF w(5) fin] by simp
  then have "works me StopBegin file (map stop_of (filter (chosen True paths) D)) Clearing ?f2"
    using h(3) assms(4-6) by (intro works_act[of me StopBegin]) (auto simp: or_clear_def step_rows_are)
  then show ?thesis using w(1-4) s stored_mutate_ok[of "dict_set ''stop_done'' (PBool True)" f1]
    by (intro exI[of _ ?f2] exI[of _ qs]) (simp add: phase_of_set rows_are_def dict_simps)
qed

text \<open>
  What leaves an outage undisturbed: the writes succeed, the engine is up, the compose files and the planned
  ids are plain text, and the second tick sees the power back.
\<close>

definition undisturbed :: "tick \<Rightarrow> meets \<Rightarrow> tick \<Rightarrow> meets \<Rightarrow> bool" where
  "undisturbed tk me tk' me' \<longleftrightarrow>
     tk_disk tk = good_disk \<and> me_disk me = good_disk \<and> tk_disk tk' = good_disk \<and> me_disk me' = good_disk
     \<and> me_engine me = Inr True \<and> list_all (\<lambda>p. is_str (snd p)) (compose_by_id (me_paths me))
     \<and> list_all (\<lambda>r. clean_text (row_id r)) (build_plan (tk_seams tk) (tk_policy tk))
     \<and> (case tk_status tk' of None \<Rightarrow> False | Some b \<Rightarrow> bt_present b \<and> bt_on_ac b)"

definition reachable_targets :: "meets \<Rightarrow> target list \<Rightarrow> target list" where
  \<comment> \<open>the services, and the stacks whose compose file is known\<close>
  "reachable_targets me ts = filter (\<lambda>(k, i). k = PStr ''stack'' \<longrightarrow> truthy (pyget (compose_by_id (me_paths me)) i)) ts"

abbreviation stops_of :: "target list \<Rightarrow> act list" where
  "stops_of cs \<equiv> map (\<lambda>(k, i). StopCmd k i) cs"

abbreviation starts_of :: "target list \<Rightarrow> act list" where
  "starts_of cs \<equiv> map (\<lambda>(k, i). StartCmd k i) cs"

lemma outage_facts:
  assumes "resting file" "sweep tk (at_rest file) = (g, [Engaged ts])" "undisturbed tk me tk' me'"
  shows "\<exists>file1 g2 file3 ok bad. works me StopBegin (gd_doc g) (stops_of (reachable_targets me ts)) Clearing file1
    \<and> pyget (stored file1) ''stop_done'' = PBool True
    \<and> sweep tk' (at_rest (mutate_state good_disk (dict_del ''worker_owner'') file1)) = (g2, [PowerBack])
    \<and> gd_active g2 \<and> gd_threads g2 = [RestoreBegin]
    \<and> works me' RestoreBegin (gd_doc g2) (starts_of (reachable_targets me ts) @ [Reset ok bad]) Clearing file3 \<and> resting file3
    \<and> (me_rc me' = 0 \<longrightarrow> ok = map snd (reachable_targets me ts) \<and> bad = [])"
proof -
  let ?steps = "build_plan (tk_seams tk) (tk_policy tk)" and ?D = "map (scrub_at 2) (build_plan (tk_seams tk) (tk_policy tk))"
  let ?paths = "compose_by_id (me_paths me)"
  have u: "tk_disk tk = good_disk" "me_disk me = good_disk" "tk_disk tk' = good_disk" "me_disk me' = good_disk"
    "me_engine me = Inr True" "list_all (\<lambda>p. is_str (snd p)) ?paths" "list_all (\<lambda>r. clean_text (row_id r)) ?steps"
    using assms(3) by (simp_all add: undisturbed_def)
  obtain b where b: "tk_status tk' = Some b" "bt_present b" "bt_on_ac b"
    using assms(3) by (auto simp: undisturbed_def split: option.splits)
  note e = sweep_engages[OF assms(1) u(1) assms(2)]
  have r: "r \<in> set ?steps \<Longrightarrow> r \<in> set (build_plan (tk_seams tk) (tk_policy tk)) \<and> clean_text (row_id r)" for r
    using u(7) by (simp add: list_all_iff)
  note k = kept_step[OF r[THEN conjunct1] r[THEN conjunct2] u(6)]
  have fresh: "list_all (fresh_row ?paths) ?D" using k(2) by (simp add: list_all_iff)
  have "map row_key ?D = map row_key ?steps" using k(1) by simp
  then have dist: "distinct (map row_key ?D)" using plan_keys by metis
  obtain f1 qs where s: "works me StopBegin (gd_doc g) (map stop_of (filter (chosen True ?paths) ?D)) Clearing f1"
    "state_ok (stored f1)" "pyget (stored f1) ''stop_done'' = PBool True" "phase_of (stored f1) = PStr ''engaged''"
    "rows_are (stored f1) qs" "list_all2 (left_by True ?paths) ?D qs"
    using stop_sequence[OF e(2) fresh dist u(2,5) refl] by blast
  let ?pop = "mutate_state good_disk (dict_del ''worker_owner'') f1"
  let ?f2 = "mutate_state good_disk (dict_set ''phase'' (PStr ''restoring'')) ?pop"
  let ?g2 = "spawn_worker tk' RestoreBegin (at_rest ?f2)"
  have p: "stored ?pop = dict_del ''worker_owner'' (stored f1)" "state_ok (stored ?pop)"
    using stored_del[OF s(2), of "''worker_owner''"] stored_mutate_ok[of "dict_del ''worker_owner''" f1] by simp_all
  have q: "stored ?f2 = dict_set ''phase'' (PStr ''restoring'') (stored ?pop)"
    using stored_set[OF p(2), of "''phase''" "PStr ''restoring''"]
    by (simp add: clean_ascii is_ascii_def ordc_def jsonable_PStr launder_ascii)
  have d: "sweep tk' (at_rest ?pop) = (?g2, [PowerBack])"
    using u(3) b s(4) p(1)
    by (simp add: sweep_def sweep_decide_def Let_def worker_busy_def phase_of_del dict_simps at_rest_def)
  have w2: "gd_active ?g2" "gd_threads ?g2 = [RestoreBegin]"
    "gd_doc ?g2 = mutate_state good_disk (dict_set ''worker_owner'' (PDict [(''pid'', PInt (tk_pid tk')), (''ts'', PInt (tk_clock tk'))])) ?f2"
    by (simp_all add: spawn_worker_def at_rest_def u(3))
  have ok2: "state_ok (stored (gd_doc ?g2))" unfolding w2(3) by (rule stored_mutate_ok)
  have "rows_are (stored ?f2) qs" using s(5) by (simp add: q p(1) rows_are_def dict_simps)
  then have rows: "rows_are (stored (gd_doc ?g2)) qs"
    unfolding w2(3) rows_are_def using stored_set[OF stored_mutate_ok owner_clean(1)] by (simp add: dict_simps)
  have rd: "(issued x \<longrightarrow> has_path (pyget x ''kind'') x) \<and> (\<exists>i. pyget x ''id'' = PStr i)" if x: "x \<in> set qs" for x
  proof -
    obtain j where j: "j < length qs" "x = qs ! j" using x by (auto simp: in_set_conv_nth)
    then have "?D ! j \<in> set ?D" "left_by True ?paths (?D ! j) x"
      using s(6) by (simp_all add: list_all2_conv_all_nth)
    then obtain y where "y \<in> set ?D" "left_by True ?paths y x" by blast
    moreover then obtain z where "z \<in> set ?steps" "y = scrub_at 2 z" by auto
    ultimately show ?thesis using k(3) by (auto simp: left_by_def row_key_def)
  qed
  obtain f3 ok bad where w: "state_ok (stored f3)"
    "me_rc me' = 0 \<longrightarrow> ok = [] @ map row_id (filter issued qs) \<and> bad = []"
    "works me' (RestoreLoop (me_now me') qs [] []) (gd_doc ?g2) (map start_of (filter issued qs)) (RestoreFinish (me_now me') ok bad) f3"
    using restore_loop[OF ok2 rows u(4), of qs "[]" "[]" "me_now me'"] rd by blast
  let ?f4 = "mutate_state good_disk (finish_cycle (me_now me') ok bad) f3"
  have fin: "works me' (RestoreFinish (me_now me') ok bad) f3 [Reset ok bad] Clearing ?f4"
    by (rule works_act[OF _ _ _ works.idle]) (simp_all add: u(4))
  have "works me' (RestoreLoop (me_now me') qs [] []) (gd_doc ?g2) (map start_of (filter issued qs) @ [Reset ok bad]) Clearing ?f4"
    by (rule works_trans[OF w(3) fin])
  then have run: "works me' RestoreBegin (gd_doc ?g2) (map start_of (filter issued qs) @ [Reset ok bad]) Clearing ?f4"
    using rows u(4) by (intro works_act[of me' RestoreBegin "gd_doc ?g2" "RestoreLoop (me_now me') qs [] []" "gd_doc ?g2" "[]"])
      (auto simp: or_clear_def step_rows_are)
  let ?cs = "reachable_targets me ts"
  have eqs: "map stop_of (filter (chosen True ?paths) ?D) = stops_of ?cs" "map start_of (filter issued qs) = starts_of ?cs"
    "map row_id (filter issued qs) = map snd ?cs"
    using kept_commands[of ?steps, OF r u(6)] left_by_issued[OF s(6)] unfolding reachable_targets_def e(1) by simp_all
  have "works me StopBegin (gd_doc g) (stops_of ?cs) Clearing f1"
    "works me' RestoreBegin (gd_doc ?g2) (starts_of ?cs @ [Reset ok bad]) Clearing ?f4"
    "me_rc me' = 0 \<longrightarrow> ok = map snd ?cs \<and> bad = []"
    using s(1) run w(2) unfolding eqs by simp_all
  then show ?thesis using s(3) d w2(1,2) finish_rests[OF w(1)] by blast
qed

text \<open>
  C24: one outage, end to end. The worker of a sweep that engages, left to run, stops in the
  plan's order every running service of the plan and every running stack whose compose file is known, and notes
  that it is done; the next sweep that sees the power back starts the restore, which starts
  exactly those targets again, in the same order, and leaves the policy at rest. When each start
  exits with status 0 the cycle reports all of them restarted and none failed.
\<close>

theorem outage_round_trip:
  assumes "resting file" "sweep tk (at_rest file) = (g, [Engaged ts])" "undisturbed tk me tk' me'"
  shows "\<exists>file1 g2 file3 ok bad. works me StopBegin (gd_doc g) (stops_of (reachable_targets me ts)) Clearing file1
    \<and> pyget (stored file1) ''stop_done'' = PBool True
    \<and> sweep tk' (at_rest (mutate_state good_disk (dict_del ''worker_owner'') file1)) = (g2, [PowerBack])
    \<and> works me' RestoreBegin (gd_doc g2) (starts_of (reachable_targets me ts) @ [Reset ok bad]) Clearing file3 \<and> resting file3
    \<and> (me_rc me' = 0 \<longrightarrow> ok = map snd (reachable_targets me ts) \<and> bad = [])
    \<and> ts = plan_targets (build_plan (tk_seams tk) (tk_policy tk))"
proof -
  have "tk_disk tk = good_disk" using assms(3) by (simp add: undisturbed_def)
  then show ?thesis using outage_facts[OF assms] sweep_engages(1)[OF assms(1) _ assms(2)] by blast
qed

text \<open>The same outage as a run of the panel.\<close>

lemma guard_run_trans: "guard_run g2 ys g3 \<Longrightarrow> guard_run g xs g2 \<Longrightarrow> guard_run g (xs @ ys) g3"
proof (induction arbitrary: xs rule: guard_run.induct)
  case (more g2 ys g3 zs g4)
  from guard_run.more[OF more.IH[OF more.prems] more.hyps(2)] show ?case by simp
qed simp

lemma works_run:
  "works me pc file xs pc' file' \<Longrightarrow> me_disk me = good_disk \<Longrightarrow> gd_threads g = [pc] \<Longrightarrow> gd_doc g = file \<Longrightarrow>
    guard_run g xs (g\<lparr>gd_doc := file', gd_threads := [pc']\<rparr>)"
proof (induction arbitrary: g rule: works.induct)
  case (idle pc "file")
  then have "g\<lparr>gd_doc := file, gd_threads := [pc]\<rparr> = g" by simp
  then show ?case using guard_run.start by simp
next
  case (next_act pc "file" pc1 file1 xs ys pc2 file2)
  let ?g = "g\<lparr>gd_doc := file1, gd_threads := [] @ pc1 # []\<rparr>"
  have w: "worker_act me pc (gd_doc g) = (pc1, file1, xs)" and t: "gd_threads g = [] @ pc # []" using next_act by simp_all
  have "guard_step g xs ?g" by (rule guard_step.worked[OF t next_act(1,2) next_act.prems(1) w])
  from guard_run.more[OF guard_run.start this] have "guard_run g ([] @ xs) ?g" .
  moreover have "guard_run ?g ys (?g\<lparr>gd_doc := file2, gd_threads := [pc2]\<rparr>)" using next_act by (intro next_act.IH) auto
  ultimately show ?case using guard_run_trans by force
qed

lemma worker_leaves:
  assumes "gd_threads g = [Clearing]"
  shows "guard_run g [] (at_rest (mutate_state good_disk (dict_del ''worker_owner'') (gd_doc g)))"
proof -
  let ?g = "g\<lparr>gd_active := False, gd_threads := [] @ Popping # []\<rparr>"
  define me where "me = \<lparr>me_disk = good_disk, me_engine = Inr True, me_paths = Inr [], me_now = 0, me_rc = 0, me_out = [], me_err = []\<rparr>"
  have "gd_threads g = [] @ Clearing # []" using assms by simp
  from guard_run.more[OF guard_run.start guard_step.cleared[OF this]] have 1: "guard_run g [] ?g" by simp
  have "gd_threads ?g = [] @ Popping # []" by simp
  from guard_run.more[OF 1 guard_step.popped[OF this, of me, OF _ surjective_pairing[THEN trans]]]
  have "guard_run g [] (?g\<lparr>gd_doc := mutate_state good_disk (dict_del ''worker_owner'') (gd_doc g), gd_threads := []\<rparr>)"
    by (simp add: me_def)
  moreover have "?g\<lparr>gd_doc := mutate_state good_disk (dict_del ''worker_owner'') (gd_doc g), gd_threads := []\<rparr>
      = at_rest (mutate_state good_disk (dict_del ''worker_owner'') (gd_doc g))"
    by (simp add: at_rest_def)
  ultimately show ?thesis by simp
qed

lemma outage_run:
  assumes "resting file" "sweep tk (at_rest file) = (g, [Engaged ts])" "undisturbed tk me tk' me'"
  shows "\<exists>file' ok bad. resting file' \<and> guard_run (at_rest file)
    (Engaged ts # stops_of (reachable_targets me ts) @ PowerBack # starts_of (reachable_targets me ts) @ [Reset ok bad]) (at_rest file')"
proof -
  have u: "tk_disk tk = good_disk" "me_disk me = good_disk" "tk_disk tk' = good_disk" "me_disk me' = good_disk"
    using assms(3) by (simp_all add: undisturbed_def)
  let ?cs = "reachable_targets me ts"
  obtain f1 g2 f3 ok bad where o:
    "works me StopBegin (gd_doc g) (stops_of ?cs) Clearing f1"
    "sweep tk' (at_rest (mutate_state good_disk (dict_del ''worker_owner'') f1)) = (g2, [PowerBack])"
    "gd_active g2" "gd_threads g2 = [RestoreBegin]"
    "works me' RestoreBegin (gd_doc g2) (starts_of ?cs @ [Reset ok bad]) Clearing f3" "resting f3"
    using outage_facts[OF assms] by blast
  note to = guard_run.more[OF guard_run.start]
  have 1: "guard_run (at_rest file) [Engaged ts] g" using to[OF guard_step.swept[OF u(1) assms(2)]] by simp
  have "gd_threads g = [StopBegin]" by (rule sweep_engages(3)[OF assms(1) u(1) assms(2)])
  from guard_run_trans[OF works_run[OF o(1) u(2) this refl] 1]
  have 2: "guard_run (at_rest file) (Engaged ts # stops_of ?cs) (g\<lparr>gd_doc := f1, gd_threads := [Clearing]\<rparr>)" by simp
  have "guard_run (at_rest file) (Engaged ts # stops_of ?cs) (at_rest (mutate_state good_disk (dict_del ''worker_owner'') f1))"
    using guard_run_trans[OF worker_leaves 2] by simp
  from guard_run.more[OF this guard_step.swept[OF u(3) o(2)]]
  have "guard_run (at_rest file) (Engaged ts # stops_of ?cs @ [PowerBack]) g2" by simp
  from guard_run_trans[OF works_run[OF o(5) u(4) o(4) refl] this]
  have 3: "guard_run (at_rest file) (Engaged ts # stops_of ?cs @ PowerBack # starts_of ?cs @ [Reset ok bad])
      (g2\<lparr>gd_doc := f3, gd_threads := [Clearing]\<rparr>)" by simp
  let ?f4 = "mutate_state good_disk (dict_del ''worker_owner'') f3"
  have "guard_run (at_rest file) (Engaged ts # stops_of ?cs @ PowerBack # starts_of ?cs @ [Reset ok bad]) (at_rest ?f4)"
    using guard_run_trans[OF worker_leaves 3] by simp
  moreover have "resting ?f4"
    using o(6) stored_del[of f3 "''worker_owner''"] stored_mutate_ok[of "dict_del ''worker_owner''" f3]
    by (simp add: resting_def phase_of_del)
  ultimately show ?thesis by blast
qed

section \<open>The trigger\<close>

lemma as_double_exact:
  assumes "\<bar>n\<bar> < 2 ^ 53"
  shows "as_double n = of_int n"
proof -
  define w where "w = 53 - bit_width (nat \<bar>n\<bar>)"
  have "nat \<bar>n\<bar> < 2 ^ 53" using assms by (simp add: nat_less_iff)
  then have b: "bit_width (nat \<bar>n\<bar>) \<le> 53" by (rule bit_width_le)
  have "round_half_even (of_int (\<bar>n\<bar> * 2 ^ w)) = \<bar>n\<bar> * 2 ^ w" by (simp only: round_half_even_def floor_of_int Let_def) simp
  then have "double_nearest (of_int \<bar>n\<bar>) = of_int (\<bar>n\<bar> * 2 ^ w) / 2 ^ w"
    unfolding double_nearest_def floor_of_int Let_def w_def using b by simp
  then have "double_nearest (of_int \<bar>n\<bar>) = of_int \<bar>n\<bar>" by simp
  then have "as_double n = of_int (sgn n) * of_int \<bar>n\<bar>" by (simp only: as_double_def)
  then show ?thesis by (simp only: of_int_mult[symmetric] sgn_mult_abs)
qed

definition low :: "int option \<Rightarrow> int option \<Rightarrow> bool" where
  \<comment> \<open>a readable value at or below a configured floor\<close>
  "low v f \<longleftrightarrow> (\<exists>x y. v = Some x \<and> f = Some y \<and> x \<le> y)"

definition small :: "int option \<Rightarrow> bool" where
  "small v \<longleftrightarrow> (case v of None \<Rightarrow> True | Some x \<Rightarrow> \<bar>x\<bar> < 2 ^ 53)"

lemma below_floor_low:
  assumes "small v" "small f"
  shows "below_floor v (opt_int f) \<longleftrightarrow> low v f"
proof (cases v; cases f)
  fix x y assume v: "v = Some x" "f = Some y"
  have b: "\<bar>x\<bar> < 2 ^ 53" "\<bar>y\<bar> < 2 ^ 53" using assms v by (simp_all add: small_def)
  have "(2::int) ^ 53 \<le> 2 ^ 1024 - 2 ^ 970" by simp
  then have "float_fits x" "float_fits y" using b unfolding float_fits_def by linarith+
  then show ?thesis using as_double_exact[OF b(1)] as_double_exact[OF b(2)] by (simp add: v opt_int_def low_def)
qed (simp_all add: opt_int_def low_def)

lemma condition_low:
  assumes "pyget policy ''trigger_pct'' = opt_int pf" "pyget policy ''trigger_remaining_min'' = opt_int mf"
    and "small pf" "small mf" "small (map_option int (bt_percent b))" "small (bt_remaining b)"
  shows "condition b policy \<longleftrightarrow> bt_on_battery b \<and> (pf \<noteq> None \<or> mf \<noteq> None)
      \<and> (if truthy (pyget policy ''require_both'') \<and> pf \<noteq> None \<and> mf \<noteq> None
         then low (map_option int (bt_percent b)) pf \<and> low (bt_remaining b) mf
         else low (map_option int (bt_percent b)) pf \<or> low (bt_remaining b) mf)"
proof -
  have no: "opt_int pf = PNone \<longleftrightarrow> pf = None" "opt_int mf = PNone \<longleftrightarrow> mf = None"
    by (simp_all add: opt_int_def split: option.split)
  have floors: "floor_checks policy b =
      (if pf = None then [] else [(low (map_option int (bt_percent b)) pf,
          if low (map_option int (bt_percent b)) pf then floor_reason ''battery '' ''%'' ''%'' (map_option int (bt_percent b)) (opt_int pf) else [])])
      @ (if mf = None then [] else [(low (bt_remaining b) mf,
          if low (bt_remaining b) mf then floor_reason about_sign '' min left'' '' min'' (bt_remaining b) (opt_int mf) else [])])"
    using below_floor_low[OF assms(5,3)] below_floor_low[OF assms(6,4)] by (simp add: floor_checks_def assms(1,2) no Let_def)
  have none: "\<not> low v None" for v by (simp add: low_def)
  show "condition b policy \<longleftrightarrow> bt_on_battery b \<and> (pf \<noteq> None \<or> mf \<noteq> None)
      \<and> (if truthy (pyget policy ''require_both'') \<and> pf \<noteq> None \<and> mf \<noteq> None
         then low (map_option int (bt_percent b)) pf \<and> low (bt_remaining b) mf
         else low (map_option int (bt_percent b)) pf \<or> low (bt_remaining b) mf)"
    unfolding condition_def floors using none by (cases "pf = None"; cases "mf = None") (auto simp: Let_def)
qed

text \<open>
  The policy engages exactly at the floor. At rest with a readable sensor, an enabled policy
  engages when the machine runs on battery and some floor is configured, and the charge or the
  remaining minutes are readable and at or below their floor: either one, or both when
  both are configured and both are required; otherwise the sweep changes nothing. In whatever phase,
  a sensor that cannot be read or that reports no device leaves everything as it is.
\<close>

lemma engages_at_the_floor:
  assumes "resting file" "tk_disk tk = good_disk" "tk_status tk = Some b" "bt_present b" "truthy (pyget (tk_policy tk) ''enabled'')"
    and "pyget (tk_policy tk) ''trigger_pct'' = opt_int pf" "pyget (tk_policy tk) ''trigger_remaining_min'' = opt_int mf"
    and "small pf" "small mf" "small (map_option int (bt_percent b))" "small (bt_remaining b)"
  shows "(if bt_on_battery b \<and> (pf \<noteq> None \<or> mf \<noteq> None)
            \<and> (if truthy (pyget (tk_policy tk) ''require_both'') \<and> pf \<noteq> None \<and> mf \<noteq> None
               then low (map_option int (bt_percent b)) pf \<and> low (bt_remaining b) mf
               else low (map_option int (bt_percent b)) pf \<or> low (bt_remaining b) mf)
          then snd (sweep tk (at_rest file)) = [Engaged (plan_targets (build_plan (tk_seams tk) (tk_policy tk)))]
          else sweep tk (at_rest file) = (at_rest file, []))
    \<and> ((case tk_status tk' of None \<Rightarrow> True | Some b' \<Rightarrow> \<not> bt_present b') \<longrightarrow> sweep tk' g = (g, []))"
proof
  note condition_low[OF assms(6-11)]
  then show "if bt_on_battery b \<and> (pf \<noteq> None \<or> mf \<noteq> None)
            \<and> (if truthy (pyget (tk_policy tk) ''require_both'') \<and> pf \<noteq> None \<and> mf \<noteq> None
               then low (map_option int (bt_percent b)) pf \<and> low (bt_remaining b) mf
               else low (map_option int (bt_percent b)) pf \<or> low (bt_remaining b) mf)
          then snd (sweep tk (at_rest file)) = [Engaged (plan_targets (build_plan (tk_seams tk) (tk_policy tk)))]
          else sweep tk (at_rest file) = (at_rest file, [])"
    using assms(1-5) by (simp add: sweep_def sweep_decide_def resting_def at_rest_def Let_def)
  show "(case tk_status tk' of None \<Rightarrow> True | Some b' \<Rightarrow> \<not> bt_present b') \<longrightarrow> sweep tk' g = (g, [])"
    by (auto simp: sweep_def sweep_decide_def Let_def split: option.splits)
qed

text \<open>
  C25: the drill tells what the next sweep does. At rest, with the same sensor reading, policy
  and seams, the dry run answers that it would trigger exactly when a sweep engages, and the sweep
  then announces the running targets of the very steps the drill listed; otherwise the sweep
  changes nothing.
\<close>

theorem drill_predicts:
  fixes cfg :: pyval
  assumes "resting file" "tk_disk tk = good_disk"
  defines "d \<equiv> drill (tk_disk tk) (tk_status tk) (tk_policy tk) (tk_seams tk) cfg file"
  shows "if dr_would d then snd (sweep tk (at_rest file)) = [Engaged (plan_targets (dr_steps d))]
    else sweep tk (at_rest file) = (at_rest file, [])"
  using assms(1,2)
  by (auto simp: d_def drill_def sweep_def sweep_decide_def resting_def at_rest_def Let_def split: option.splits)

section \<open>When the marker is not written\<close>

text \<open>
  The stop sequence records its marker before the command, so that a panel that dies in between still knows
  what to start again. A write that fails is swallowed, and the command is issued all the same: the
  service is stopped and no state says so.
\<close>

lemma marker_lost:
  assumes "d_read (me_disk me)" "\<not> d_write (me_disk me)" "phase_of (stored file) = PStr ''engaged''" "step_rows (stored file) = Inr rows"
    and "pyget q ''kind'' = PStr ''service''" "pyget q ''id'' = PStr i" "truthy (pyget q ''running'')" "\<not> truthy (pyget q ''done'')"
  shows "\<exists>pc. works me (StopLoop engine paths (q # rest)) file [StopCmd (PStr ''service'') i] pc file"
proof -
  let ?pc = "Recording (PStr ''service'') i [(''done'', PBool True), (''stop_ok'', PBool (me_rc me = 0)),
    (''detail'', PStr (detail_text me))] (StopLoop engine paths rest)"
  have l: "load_state (me_disk me) file = stored file" using assms(1) by (simp add: load_state_def)
  have m: "mutate_state (me_disk me) f file = file" for f using assms(2) by (simp add: mutate_state_def save_state_def)
  let ?stop = "Stopping (PStr ''service'') i (StopLoop engine paths rest)" and ?cmd = "[StopCmd (PStr ''service'') i]"
  have "worker_act me ?stop file = (?pc, file, ?cmd)" by simp
  then have 1: "works me ?stop file ?cmd ?pc file" by (rule works_act[OF _ _ _ works.idle]) simp_all
  have "worker_act me (Recording (PStr ''service'') i [(''stop_issued'', PBool True)] ?stop) file = (?stop, file, [])"
    by (simp add: record_step_def l m assms(4))
  then have 2: "works me (Recording (PStr ''service'') i [(''stop_issued'', PBool True)] ?stop) file ?cmd ?pc file"
    by (rule works_act[OF _ _ _ 1]) simp_all
  have "worker_act me (StopLoop engine paths (q # rest)) file
      = (Recording (PStr ''service'') i [(''stop_issued'', PBool True)] ?stop, file, [])"
    using assms(3,5-8) by (simp add: l stop_step_def or_clear_def Let_def)
  then have "works me (StopLoop engine paths (q # rest)) file ?cmd ?pc file" by (rule works_act[OF _ _ _ 2]) simp_all
  then show ?thesis by blast
qed

section \<open>A run on battery\<close>

text \<open>
  At 10 % on battery with a floor of 25 % and one running stack; the stack's compose file is known
  to the worker, and the power comes back.
\<close>

definition demo_battery :: battery where
  "demo_battery = \<lparr>bt_source = OnUps, bt_name = Some ''UPS'', bt_kind = Some UpsDevice, bt_percent = Some 10,
     bt_charging = Some False, bt_remaining = Some 4\<rparr>"

definition demo_policy :: pydict where
  "demo_policy = [(''enabled'', PBool True), (''trigger_pct'', PInt 25), (''trigger_remaining_min'', PNone),
     (''require_both'', PBool False), (''stacks'', PStr ''all''), (''stop_scripts'', PList [])]"

definition demo_tick :: tick where
  "demo_tick = \<lparr>tk_disk = good_disk, tk_now = 5, tk_clock = 5, tk_pid = 7, tk_alive = True, tk_status = Some demo_battery,
     tk_policy = demo_policy,
     tk_seams = \<lparr>sm_stacks = Some [PDict [(''id'', PStr ''db''), (''status'', PStr ''ok'')]], sm_groups = None\<rparr>\<rparr>"

definition demo_meets :: meets where
  "demo_meets = \<lparr>me_disk = good_disk, me_engine = Inr True,
     me_paths = Inr [[(''id'', PStr ''db''), (''compose_path'', PStr ''/db.yml'')]], me_now = 6, me_rc = 0, me_out = [], me_err = []\<rparr>"

definition demo_power_back :: tick where
  "demo_power_back = demo_tick\<lparr>tk_status := Some (demo_battery\<lparr>bt_source := OnAc\<rparr>)\<rparr>"

lemma demo_plan: "build_plan (tk_seams demo_tick) (tk_policy demo_tick) =
    [[(''kind'', PStr ''stack''), (''id'', PStr ''db''), (''name'', PStr ''db''), (''running'', PBool True), (''known'', PBool True)]]"
  by code_simp

lemma demo_targets: "plan_targets (build_plan (tk_seams demo_tick) (tk_policy demo_tick)) = [(PStr ''stack'', ''db'')]"
  unfolding demo_plan by code_simp

lemma demo_reachable: "reachable_targets demo_meets [(PStr ''stack'', ''db'')] = [(PStr ''stack'', ''db'')]"
  by code_simp

lemma demo_low: "condition demo_battery demo_policy"
proof -
  have "pyget demo_policy ''trigger_pct'' = opt_int (Some 25)" "pyget demo_policy ''trigger_remaining_min'' = opt_int None"
    by code_simp+
  from condition_low[OF this] show ?thesis
    by (simp add: small_def low_def demo_battery_def demo_policy_def bt_on_battery_def pyget_def dict_get_def)
qed

lemma demo_engages: "resting file \<Longrightarrow> \<exists>g. sweep demo_tick (at_rest file) = (g, [Engaged [(PStr ''stack'', ''db'')]])"
proof -
  assume r: "resting file"
  have "tk_status demo_tick = Some demo_battery" "tk_policy demo_tick = demo_policy" "tk_disk demo_tick = good_disk"
    "bt_present demo_battery" "truthy (pyget demo_policy ''enabled'')"
    by (simp_all add: demo_tick_def demo_battery_def demo_policy_def bt_present_def pyget_def dict_get_def)
  then show ?thesis using r demo_low demo_targets
    by (simp add: sweep_def sweep_decide_def resting_def at_rest_def Let_def)
qed

lemma demo_undisturbed: "undisturbed demo_tick demo_meets demo_power_back demo_meets"
  unfolding undisturbed_def demo_plan by (simp add: demo_power_back_def) code_simp

lemma demo_rest: "resting None"
  by code_simp

lemma demo_run:
  "resting file \<Longrightarrow> \<exists>file' ok bad. resting file' \<and> guard_run (at_rest file)
    [Engaged [(PStr ''stack'', ''db'')], StopCmd (PStr ''stack'') ''db'', PowerBack, StartCmd (PStr ''stack'') ''db'', Reset ok bad]
    (at_rest file')"
  using demo_engages outage_run[OF _ _ demo_undisturbed, of "file" _ "[(PStr ''stack'', ''db'')]"]
  by (fastforce simp: demo_reachable)

theorem soft_landing_refined_witness:
  "\<exists>g ok bad a. guard_run (at_rest None)
      [Engaged [(PStr ''stack'', ''db'')], StopCmd (PStr ''stack'') ''db'', PowerBack, StartCmd (PStr ''stack'') ''db'', Reset ok bad] g
    \<and> landing_run Quiet
      [Engaged [(PStr ''stack'', ''db'')], StopCmd (PStr ''stack'') ''db'', PowerBack, StartCmd (PStr ''stack'') ''db'', Reset ok bad] = Some a
    \<and> (a = Quiet \<longleftrightarrow> phase_of (stored (gd_doc g)) = PStr ''idle'')"
  using demo_run[OF demo_rest] soft_landing_refined[OF demo_rest] by blast

theorem stopped_is_started_back_witness:
  "\<exists>g ok bad. guard_run (at_rest None)
      ([] @ Engaged [(PStr ''stack'', ''db'')] # [StopCmd (PStr ''stack'') ''db'', PowerBack, StartCmd (PStr ''stack'') ''db''] @ Reset ok bad # []) g
    \<and> stops [StopCmd (PStr ''stack'') ''db'', PowerBack, StartCmd (PStr ''stack'') ''db'']
        \<subseteq> starts [StopCmd (PStr ''stack'') ''db'', PowerBack, StartCmd (PStr ''stack'') ''db'']
    \<and> (PStr ''stack'', ''db'') \<in> stops [StopCmd (PStr ''stack'') ''db'', PowerBack, StartCmd (PStr ''stack'') ''db'']"
proof -
  let ?vs = "[StopCmd (PStr ''stack'') ''db'', PowerBack, StartCmd (PStr ''stack'') ''db'']"
  obtain fl ok bad where r: "guard_run (at_rest None) ([] @ Engaged [(PStr ''stack'', ''db'')] # ?vs @ Reset ok bad # []) (at_rest fl)"
    using demo_run[OF demo_rest] by auto
  have "list_all inside_cycle ?vs" by simp
  from stopped_is_started_back[OF demo_rest r this] r show ?thesis by (auto simp: stops_def)
qed

theorem latched_witness:
  "\<exists>g us ws vs ps ok bad qs. guard_run (at_rest None)
      (us @ Engaged [(PStr ''stack'', ''db'')] # vs @ Engaged [(PStr ''stack'', ''db'')] # ws) g
    \<and> vs = ps @ Reset ok bad # qs \<and> PowerBack \<in> set ps \<and> list_all inside_cycle ps"
proof -
  let ?ts = "[(PStr ''stack'', ''db'')]"
  obtain f1 ok bad where 1: "resting f1" "guard_run (at_rest None)
    [Engaged ?ts, StopCmd (PStr ''stack'') ''db'', PowerBack, StartCmd (PStr ''stack'') ''db'', Reset ok bad] (at_rest f1)"
    using demo_run[OF demo_rest] by blast
  obtain f2 ok2 bad2 where 2: "guard_run (at_rest f1)
    [Engaged ?ts, StopCmd (PStr ''stack'') ''db'', PowerBack, StartCmd (PStr ''stack'') ''db'', Reset ok2 bad2] (at_rest f2)"
    using demo_run[OF 1(1)] by blast
  have r: "guard_run (at_rest None)
    ([] @ Engaged ?ts # [StopCmd (PStr ''stack'') ''db'', PowerBack, StartCmd (PStr ''stack'') ''db'', Reset ok bad]
      @ Engaged ?ts # [StopCmd (PStr ''stack'') ''db'', PowerBack, StartCmd (PStr ''stack'') ''db'', Reset ok2 bad2]) (at_rest f2)"
    using guard_run_trans[OF 2 1(2)] by simp
  from latched[OF demo_rest r] r show ?thesis by blast
qed

theorem outage_round_trip_witness:
  "\<exists>g file1 g2 file3 ok bad. sweep demo_tick (at_rest None) = (g, [Engaged [(PStr ''stack'', ''db'')]])
    \<and> works demo_meets StopBegin (gd_doc g) [StopCmd (PStr ''stack'') ''db''] Clearing file1
    \<and> sweep demo_power_back (at_rest (mutate_state good_disk (dict_del ''worker_owner'') file1)) = (g2, [PowerBack])
    \<and> works demo_meets RestoreBegin (gd_doc g2) [StartCmd (PStr ''stack'') ''db'', Reset ok bad] Clearing file3
    \<and> resting file3 \<and> ok = [''db''] \<and> bad = []"
proof -
  obtain g where g: "sweep demo_tick (at_rest None) = (g, [Engaged [(PStr ''stack'', ''db'')]])"
    using demo_engages[OF demo_rest] by blast
  have "me_rc demo_meets = 0" by (simp add: demo_meets_def)
  then obtain file1 g2 file3 ok bad where o: "works demo_meets StopBegin (gd_doc g) [StopCmd (PStr ''stack'') ''db''] Clearing file1"
    "sweep demo_power_back (at_rest (mutate_state good_disk (dict_del ''worker_owner'') file1)) = (g2, [PowerBack])"
    "works demo_meets RestoreBegin (gd_doc g2) [StartCmd (PStr ''stack'') ''db'', Reset ok bad] Clearing file3"
    "resting file3" "ok = [''db'']" "bad = []"
    using outage_round_trip[OF demo_rest g demo_undisturbed] unfolding demo_reachable by auto
  show ?thesis using g o by blast
qed

lemma engages_at_the_floor_witness:
  "snd (sweep demo_tick (at_rest None)) = [Engaged [(PStr ''stack'', ''db'')]]"
proof -
  have t: "tk_disk demo_tick = good_disk" "tk_status demo_tick = Some demo_battery" "bt_present demo_battery"
    "truthy (pyget (tk_policy demo_tick) ''enabled'')" "pyget (tk_policy demo_tick) ''trigger_pct'' = opt_int (Some 25)"
    "pyget (tk_policy demo_tick) ''trigger_remaining_min'' = opt_int None"
    "small (Some 25)" "small None" "small (map_option int (bt_percent demo_battery))" "small (bt_remaining demo_battery)"
    by code_simp+
  have "bt_on_battery demo_battery" "low (map_option int (bt_percent demo_battery)) (Some 25)"
    by (simp_all add: bt_on_battery_def demo_battery_def low_def)
  then show ?thesis using engages_at_the_floor[OF demo_rest t] by (simp add: demo_targets)
qed

theorem drill_predicts_witness:
  "dr_would (drill good_disk (tk_status demo_tick) demo_policy (tk_seams demo_tick) PNone None)
    \<and> snd (sweep demo_tick (at_rest None)) = [Engaged (plan_targets (build_plan (tk_seams demo_tick) demo_policy))]"
proof -
  have t: "tk_disk demo_tick = good_disk" "tk_policy demo_tick = demo_policy" "tk_status demo_tick = Some demo_battery"
    "bt_present demo_battery" "truthy (pyget demo_policy ''enabled'')" by code_simp+
  have "dr_would (drill good_disk (tk_status demo_tick) demo_policy (tk_seams demo_tick) PNone None)"
    using demo_low by (simp add: drill_def t(3-5))
  then show ?thesis using drill_predicts[OF demo_rest t(1)] unfolding t(1,2) by (simp add: drill_def Let_def)
qed

end
