(* ===== verification/Ups_Routes.thy ===== *)
theory Ups_Routes
  imports Ups_Settings Sched_Jobs
begin

text \<open>
  Changing the UPS settings: the merge of a patch into the configuration (\<open>hub/config.py\<close>) and the
  handlers of \<open>hub/routers/ups_api.py\<close> that change something. The validated request body is a
  record; a field is absent, an explicit null, or a value.
\<close>

section \<open>Merging into the configuration\<close>

text \<open>\<open>deep_merge(base, patch)\<close>; a value is a tree here, so the guard against cycles has nothing to do.\<close>

function deep_merge :: "pydict \<Rightarrow> pydict \<Rightarrow> pydict" where
  "deep_merge out [] = out"
| "deep_merge out ((k, v) # ps) =
     deep_merge (dict_set k (case v of PDict p \<Rightarrow> (case pyget out k of PDict b \<Rightarrow> PDict (deep_merge b p) | _ \<Rightarrow> v)
                                     | _ \<Rightarrow> v) out) ps"
  by pat_completeness auto

termination
  by (relation "measure (\<lambda>(out, ps). size_list (size_prod (\<lambda>_. 0) size) ps)") auto

text \<open>
  \<open>update_settings(patch)\<close> as the function of the configuration that \<open>mutate\<close> applies: a settings value
  that is no mapping is replaced when it is empty, and otherwise the assignment into it raises.
\<close>

definition update_settings :: "pydict \<Rightarrow> pydict \<Rightarrow> pydict result" where
  "update_settings patch data =
     (case (if truthy (pyget data ''settings'') then pyget data ''settings'' else PDict []) of
        PDict b \<Rightarrow> Inr (dict_set ''settings'' (PDict (deep_merge b patch)) data)
      | v \<Rightarrow> if patch = [] then Inr (dict_set ''settings'' v data) else Inl TypeError)"

definition save_ups_settings :: "pydict \<Rightarrow> pydict \<Rightarrow> pydict result" where
  "save_ups_settings patch data = update_settings [(''ups'', PDict (clean_patch patch))] data"

section \<open>The request\<close>

datatype stack_choice = AllStacks | TheseStacks "string list"

record shutdown_patch =
  sp_enabled :: "bool option option"
  sp_pct :: "int option option"
  sp_min :: "int option option"
  sp_both :: "bool option option"
  sp_stacks :: "stack_choice option option"
  sp_scripts :: "string list option option"

record settings_patch =
  pa_alerts :: "bool option option"
  pa_low :: "int option option"
  pa_shutdown :: "shutdown_patch option option"

text \<open>\<open>model_dump(exclude_unset=True)\<close>: the provided fields, in the order of the class.\<close>

definition provided :: "string \<Rightarrow> ('a \<Rightarrow> pyval) \<Rightarrow> 'a option option \<Rightarrow> pydict" where
  "provided k f v = (case v of None \<Rightarrow> [] | Some None \<Rightarrow> [(k, PNone)] | Some (Some x) \<Rightarrow> [(k, f x)])"

fun stack_value :: "stack_choice \<Rightarrow> pyval" where
  "stack_value AllStacks = PStr ''all''"
| "stack_value (TheseStacks ids) = PList (map PStr ids)"

definition shutdown_dump :: "shutdown_patch \<Rightarrow> pydict" where
  "shutdown_dump sp =
     provided ''enabled'' PBool (sp_enabled sp) @ provided ''trigger_pct'' PInt (sp_pct sp)
     @ provided ''trigger_remaining_min'' PInt (sp_min sp) @ provided ''require_both'' PBool (sp_both sp)
     @ provided ''stacks'' stack_value (sp_stacks sp) @ provided ''stop_scripts'' (\<lambda>ids. PList (map PStr ids)) (sp_scripts sp)"

definition patch_dump :: "settings_patch \<Rightarrow> pydict" where
  "patch_dump p =
     provided ''alerts_enabled'' PBool (pa_alerts p) @ provided ''low_battery_pct'' PInt (pa_low p)
     @ provided ''shutdown'' (\<lambda>sp. PDict (shutdown_dump sp)) (pa_shutdown p)"

definition in_bounds :: "int \<Rightarrow> int \<Rightarrow> int option option \<Rightarrow> bool" where
  "in_bounds lo hi v = (case v of Some (Some n) \<Rightarrow> lo \<le> n \<and> n \<le> hi | _ \<Rightarrow> True)"

definition shutdown_valid :: "shutdown_patch \<Rightarrow> bool" where
  "shutdown_valid sp \<longleftrightarrow> in_bounds 5 95 (sp_pct sp) \<and> in_bounds 1 720 (sp_min sp)"

definition patch_valid :: "settings_patch \<Rightarrow> bool" where
  "patch_valid p \<longleftrightarrow> in_bounds 5 95 (pa_low p) \<and> (case pa_shutdown p of Some (Some sp) \<Rightarrow> shutdown_valid sp | _ \<Rightarrow> True)"

section \<open>The handlers\<close>

fun checked_targets :: "pyval \<Rightarrow> unit result" where
  \<comment> \<open>the pattern is the one of the job identities\<close>
  "checked_targets (PList ids) =
     (if list_all (\<lambda>v. case v of PStr s \<Rightarrow> valid_job_id s | _ \<Rightarrow> False) ids then Inr () else api_error ''ups.bad_stack_id'')"
| "checked_targets _ = Inr ()"

text \<open>The judgement on the effective policy: the settings as seen now, overlaid with the patch.\<close>

definition never_fires :: "pydict \<Rightarrow> bool" where
  "never_fires sh \<longleftrightarrow>
     truthy (pyget sh ''enabled'') \<and> pyget sh ''trigger_pct'' = PNone \<and> pyget sh ''trigger_remaining_min'' = PNone"

definition shutdown_block :: "pyval \<Rightarrow> pydict" where
  "shutdown_block cfg = (case mapping_get (ups_settings cfg) ''shutdown'' of PDict d \<Rightarrow> d | _ \<Rightarrow> [])"

definition check_shutdown :: "pyval \<Rightarrow> pydict \<Rightarrow> unit result" where
  "check_shutdown seen sd =
     bind_ok (checked_targets (pyget sd ''stacks'')) (\<lambda>_.
     bind_ok (checked_targets (pyget sd ''stop_scripts'')) (\<lambda>_.
       if never_fires (update_fields sd (shutdown_block seen)) then api_error ''ups.policy_no_condition'' else Inr ()))"

text \<open>
  \<open>put_ups_settings\<close>, over the configuration it checks against and the one the write finds: the two
  are the same unless another write fell in between. A body outside its bounds is refused before.
\<close>

definition put_ups_settings :: "pyval \<Rightarrow> settings_patch \<Rightarrow> pydict \<Rightarrow> unit result \<times> pydict" where
  "put_ups_settings seen p data =
     (if \<not> patch_valid p then (Inl ValueError, data)
      else
        (let patch = patch_dump p in
         case (case pyget patch ''shutdown'' of PDict sd \<Rightarrow> check_shutdown seen sd | _ \<Rightarrow> Inr ()) of
           Inl e \<Rightarrow> (Inl e, data)
         | Inr _ \<Rightarrow>
             if patch = [] then (api_error ''ups.empty_patch'', data)
             else (case save_ups_settings patch data of Inl e \<Rightarrow> (Inl e, data) | Inr data' \<Rightarrow> (Inr (), data'))))"

definition put_halt_level :: "int \<Rightarrow> string list result" where
  \<comment> \<open>the command handed to the administrator flow\<close>
  "put_halt_level level =
     (if level \<noteq> - 1 \<and> \<not> (5 \<le> level \<and> level \<le> 95) then api_error ''ups.halt_bad_level''
      else Inr [''/usr/bin/pmset'', ''-u'', ''haltlevel'', show_int level])"


section \<open>What a merge leaves\<close>

definition merged :: "pyval \<Rightarrow> pyval \<Rightarrow> pyval" where
  "merged old v = (case v of PDict p \<Rightarrow> (case old of PDict b \<Rightarrow> PDict (deep_merge b p) | _ \<Rightarrow> v) | _ \<Rightarrow> v)"

lemma deep_merge_Cons: "deep_merge out ((k, v) # ps) = deep_merge (dict_set k (merged (pyget out k) v) out) ps"
  by (simp add: merged_def)

declare deep_merge.simps(2) [simp del]

lemma dict_get_Cons: "dict_get ((k0, v0) # ps) k = (if k = k0 then Some v0 else dict_get ps k)"
  by (simp add: dict_get_def)

lemma dict_get_deep_merge:
  "dict_ok ps \<Longrightarrow> dict_get (deep_merge out ps) k
    = (case dict_get ps k of None \<Rightarrow> dict_get out k | Some v \<Rightarrow> Some (merged (pyget out k) v))"
proof (induction ps arbitrary: out)
  case (Cons p ps)
  obtain k0 v0 where p: "p = (k0, v0)" by fastforce
  have ok: "dict_ok ps" and none: "dict_get ps k0 = None" using Cons.prems by (simp_all add: dict_ok_def p dict_get_def map_of_eq_None_iff)
  show ?case using Cons.IH[OF ok] none by (simp add: p deep_merge_Cons dict_simps dict_get_Cons split: option.split)
qed (simp add: dict_simps)

lemma pyget_deep_merge:
  "dict_ok ps \<Longrightarrow> pyget (deep_merge out ps) k = (case dict_get ps k of None \<Rightarrow> pyget out k | Some v \<Rightarrow> merged (pyget out k) v)"
  by (simp add: pyget_def dict_get_deep_merge split: option.split)

lemma dict_ok_deep_merge: "dict_ok out \<Longrightarrow> dict_ok (deep_merge out ps)"
proof (induction ps arbitrary: out)
  case (Cons p ps)
  then show ?case by (cases p) (simp add: deep_merge_Cons dict_ok_set)
qed simp

lemma pyget_known:
  assumes "dict_ok items" "k \<in> fst ` set defaults"
  shows "pyget (known_pairs defaults items) k = (case dict_get items k of None \<Rightarrow> pyget defaults k | Some v \<Rightarrow> v)"
  using assms(1)
proof (induction items rule: rev_induct)
  case (snoc p items)
  have "dict_ok items" "fst p = k \<Longrightarrow> dict_get items k = None"
    using snoc.prems by (auto simp: dict_ok_def dict_get_def map_of_eq_None_iff)
  then show ?case using snoc.IH assms(2) dict_get_keys[of defaults k]
    by (auto simp: known_pairs_def dict_simps dict_get_def map_add_def split: option.splits)
qed (simp add: known_pairs_def dict_simps)

section \<open>What the panel serves of a stored policy\<close>

abbreviation known_keys :: "string set" where
  "known_keys \<equiv> fst ` set shutdown_defaults"

definition floor_key :: "string \<Rightarrow> bool" where
  "floor_key k \<longleftrightarrow> k \<in> {''trigger_pct'', ''trigger_remaining_min''}"

definition read_floor :: "string \<Rightarrow> pyval \<Rightarrow> pyval" where
  "read_floor k v = (if floor_key k \<and> v \<noteq> PNone then opt_int (finite_int v) else v)"

lemma pyget_floor_setting: "pyget (floor_setting k out) k = (if pyget out k = PNone then PNone else opt_int (finite_int (pyget out k)))"
  by (simp add: floor_setting_def dict_simps)

lemma normalized_PDict:
  "normalized_shutdown (PDict q) = floor_setting ''trigger_remaining_min'' (floor_setting ''trigger_pct'' (known_pairs shutdown_defaults q))"
  by (simp add: normalized_shutdown_def)

lemma pyget_normalized:
  assumes "dict_ok q" "k \<in> known_keys"
  shows "pyget (normalized_shutdown (PDict q)) k = read_floor k (case dict_get q k of None \<Rightarrow> pyget shutdown_defaults k | Some v \<Rightarrow> v)"
  unfolding normalized_PDict pyget_known[OF assms, symmetric]
  by (cases "k = ''trigger_pct''"; cases "k = ''trigger_remaining_min''")
    (auto simp: read_floor_def floor_key_def pyget_floor_setting floor_setting_other)

text \<open>The stored block as a dictionary; anything else reads as empty.\<close>

definition stored_block :: "pyval \<Rightarrow> pydict" where
  "stored_block cfg = (case pyget (stored_ups cfg) ''shutdown'' of PDict q \<Rightarrow> q | _ \<Rightarrow> [])"

lemma normalized_block: "normalized_shutdown (pyget (stored_ups cfg) ''shutdown'') = normalized_shutdown (PDict (stored_block cfg))"
  by (cases "pyget (stored_ups cfg) ''shutdown''") (simp_all add: stored_block_def normalized_shutdown_def known_pairs_def)

lemma served_field:
  assumes "dict_ok (stored_block cfg)" "k \<in> known_keys"
  shows "pyget (shutdown_block cfg) k
    = jsonable 2 (read_floor k (case dict_get (stored_block cfg) k of None \<Rightarrow> pyget shutdown_defaults k | Some v \<Rightarrow> v))"
proof -
  obtain s where "ups_settings cfg = PDict s" "pyget s ''shutdown'' = PDict (scrub_at 1 (normalized_shutdown (PDict (stored_block cfg))))"
    using settings_parts[of cfg] unfolding normalized_block by blast
  then have "shutdown_block cfg = scrub_at 1 (normalized_shutdown (PDict (stored_block cfg)))" by (simp add: shutdown_block_def)
  then show ?thesis
    using pyget_scrub[OF clean_keys[OF normalized_keys defaults_ok(1)], of 1 "PDict (stored_block cfg)" k] pyget_normalized[OF assms]
    by (simp add: numeral_2_eq_2)
qed

section \<open>What a saved patch changes\<close>

lemma provided_in: "(x, v) \<in> set (provided k f w) \<Longrightarrow> x = k \<and> (v = PNone \<or> (\<exists>y. w = Some (Some y) \<and> v = f y))"
  by (auto simp: provided_def split: option.splits)

lemma provided_keys: "map fst (provided k f w) = (if w = None then [] else [k])"
  by (simp add: provided_def split: option.split)

lemma dict_ok_provided:
  "dict_ok (provided k f w @ ps) \<longleftrightarrow> dict_ok ps \<and> (w \<noteq> None \<longrightarrow> k \<notin> fst ` set ps)" "dict_ok (provided k f w)"
  by (cases w; cases "the w"; auto simp: dict_ok_def provided_def)+

lemma provided_key: "x \<in> fst ` set (provided k f w) \<Longrightarrow> x = k"
  by (auto dest: provided_in)

lemma dict_ok_dump: "dict_ok (shutdown_dump sp)" "dict_ok (patch_dump p)"
  by (auto simp only: shutdown_dump_def patch_dump_def dict_ok_provided set_append image_Un dest!: provided_key)

lemma dict_get_rev: "dict_ok d \<Longrightarrow> dict_get (rev d) k = dict_get d k"
  using map_of_inject_set[of "rev d" d] by (simp add: dict_get_def dict_ok_def rev_map[symmetric])

lemma stack_value_no_dict: "\<not> is_dict (stack_value s)"
  by (cases s) simp_all

lemma dump_in:
  assumes "(k, v) \<in> set (shutdown_dump sp)"
  shows "k \<in> known_keys" "\<not> is_dict v"
  using assms by (auto simp: shutdown_dump_def shutdown_defaults_def stack_value_no_dict dest!: provided_in)

lemma dump_known: "dict_get (shutdown_dump sp) k = Some v \<Longrightarrow> k \<in> known_keys"
  by (rule dump_in(1)[OF dict_get_in])

lemma dump_no_dict: "dict_get (shutdown_dump sp) k = Some v \<Longrightarrow> merged old v = v"
  using dump_in(2)[OF dict_get_in, of sp k v] by (auto simp: merged_def split: pyval.split)

lemma clean_dump:
  assumes "pa_shutdown p = Some (Some sp)"
  shows "pyget (patch_dump p) ''shutdown'' = PDict (shutdown_dump sp)" "dict_ok (clean_patch (patch_dump p))"
    "dict_get (clean_patch (patch_dump p)) ''shutdown'' = Some (PDict (shutdown_dump sp))"
proof -
  have "(''shutdown'', PDict (shutdown_dump sp)) \<in> set (patch_dump p)" by (simp add: patch_dump_def assms provided_def)
  then show p: "pyget (patch_dump p) ''shutdown'' = PDict (shutdown_dump sp)"
    using dict_get_ok[OF dict_ok_dump(2)] by (simp add: pyget_def)
  have f: "filter (\<lambda>p. dict_get shutdown_defaults (fst p) \<noteq> None) (shutdown_dump sp) = shutdown_dump sp"
    using dump_in(1) dict_get_keys by (fastforce simp: filter_id_conv)
  have "dict_ok (filter (\<lambda>q. dict_get ups_defaults (fst q) \<noteq> None \<and> fst q \<noteq> ''shutdown'') (patch_dump p))"
    using dict_ok_dump(2)[of p] by (simp add: dict_ok_def distinct_map_filter)
  then show "dict_ok (clean_patch (patch_dump p))"
    "dict_get (clean_patch (patch_dump p)) ''shutdown'' = Some (PDict (shutdown_dump sp))"
    by (simp_all add: clean_patch_def Let_def p f[simplified] dict_ok_set dict_simps)
qed

lemma update_settings_base:
  assumes "update_settings [(k, v)] data = Inr data'"
  obtains b where "data' = dict_set ''settings'' (PDict (dict_set k (merged (pyget b k) v) b)) data"
    "\<And>x. mapping_get (pyget data ''settings'') x = pyget b x"
proof -
  obtain b where b: "(if truthy (pyget data ''settings'') then pyget data ''settings'' else PDict []) = PDict b"
    "data' = dict_set ''settings'' (PDict (deep_merge b [(k, v)])) data"
    using assms by (auto simp: update_settings_def split: pyval.splits)
  have "mapping_get (pyget data ''settings'') x = pyget b x" for x
    using b(1) by (cases "pyget data ''settings''") (auto simp: dict_simps split: if_splits)
  then show thesis using that[of b] b(2) by (simp add: deep_merge_Cons)
qed

lemma saved_block:
  assumes "save_ups_settings (patch_dump p) data = Inr data'" "pa_shutdown p = Some (Some sp)" "dict_ok (stored_block (PDict data))"
  shows "dict_ok (stored_block (PDict data'))"
    "dict_get (stored_block (PDict data')) k
      = (case dict_get (shutdown_dump sp) k of Some v \<Rightarrow> Some v | None \<Rightarrow> dict_get (stored_block (PDict data)) k)"
proof -
  let ?clean = "clean_patch (patch_dump p)"
  obtain b where d: "data' = dict_set ''settings'' (PDict (dict_set ''ups'' (merged (pyget b ''ups'') (PDict ?clean)) b)) data"
    and b: "\<And>x. mapping_get (pyget data ''settings'') x = pyget b x"
    using assms(1) unfolding save_ups_settings_def by (rule update_settings_base) blast
  have u: "stored_ups (PDict data) = (case pyget b ''ups'' of PDict u \<Rightarrow> u | _ \<Rightarrow> [])" by (simp add: stored_ups_def b)
  have "pyget (stored_ups (PDict data')) ''shutdown'' = merged (pyget (stored_ups (PDict data)) ''shutdown'') (PDict (shutdown_dump sp))"
  proof -
    have c: "pyget ?clean ''shutdown'' = PDict (shutdown_dump sp)" using clean_dump(3)[OF assms(2)] by (simp add: pyget_def)
    have "stored_ups (PDict data') = (case pyget b ''ups'' of PDict u \<Rightarrow> deep_merge u ?clean | _ \<Rightarrow> ?clean)"
      by (simp add: stored_ups_def d dict_simps merged_def split: pyval.split)
    then show ?thesis using clean_dump(2,3)[OF assms(2)] c
      by (cases "pyget b ''ups''") (simp_all add: u pyget_deep_merge dict_simps, simp_all add: merged_def)
  qed
  then have s: "stored_block (PDict data') = (case pyget (stored_ups (PDict data)) ''shutdown'' of
      PDict q \<Rightarrow> deep_merge q (shutdown_dump sp) | _ \<Rightarrow> shutdown_dump sp)"
    by (simp add: stored_block_def merged_def split: pyval.split)
  show "dict_ok (stored_block (PDict data'))"
    using assms(3) unfolding s
    by (cases "pyget (stored_ups (PDict data)) ''shutdown''") (simp_all add: stored_block_def dict_ok_deep_merge dict_ok_dump)
  show "dict_get (stored_block (PDict data')) k
      = (case dict_get (shutdown_dump sp) k of Some v \<Rightarrow> Some v | None \<Rightarrow> dict_get (stored_block (PDict data)) k)"
    unfolding s by (cases "pyget (stored_ups (PDict data)) ''shutdown''")
      (simp_all add: stored_block_def dict_get_deep_merge dict_ok_dump dump_no_dict dict_simps split: option.split)
qed

section \<open>Properties\<close>

lemma small_fits: "\<bar>n\<bar> \<le> 720 \<Longrightarrow> float_fits n"
proof -
  have "(720::int) < 2 ^ 1024 - 2 ^ 970" by simp
  then show "\<bar>n\<bar> \<le> 720 \<Longrightarrow> float_fits n" unfolding float_fits_def by linarith
qed

lemma id_char_ascii: "is_alnum c \<or> c \<in> {CHR ''.'', CHR ''_'', CHR ''-''} \<Longrightarrow> is_ascii c"
  by (elim disjE) (auto simp: is_alnum_def is_digit_def is_ascii_def, auto simp: ordc_def)

lemma valid_id_clean: "valid_job_id s \<Longrightarrow> clean_text s"
proof -
  assume "valid_job_id s"
  then have "\<forall>c \<in> set s. is_alnum c \<or> c \<in> {CHR ''.'', CHR ''_'', CHR ''-''}" by (cases s) (auto simp: valid_job_id_def list_all_iff)
  then have "list_all is_ascii s" unfolding list_all_iff using id_char_ascii by blast
  then show ?thesis by (rule clean_ascii)
qed

lemma checked_clean:
  assumes "checked_targets (PList (map PStr ids)) = Inr u" "n \<le> 31"
  shows "jsonable n (PList (map PStr ids)) = PList (map PStr ids)"
  using assms by (auto simp: jsonable_PList jsonable_PStr list_all_iff api_error_def launder_clean valid_id_clean split: if_splits)

text \<open>A provided field is served as it was given.\<close>

lemma dump_served:
  assumes "dict_get (shutdown_dump sp) k = Some v" "shutdown_valid sp" "check_shutdown seen (shutdown_dump sp) = Inr u"
  shows "jsonable 2 (read_floor k v) = v"
proof -
  have b: "in_bounds 5 95 (sp_pct sp)" "in_bounds 1 720 (sp_min sp)" using assms(2) by (simp_all add: shutdown_valid_def)
  have c: "k \<in> {''stacks'', ''stop_scripts''} \<Longrightarrow> \<exists>u. checked_targets v = Inr u"
    using assms(1,3) by (cases "checked_targets v") (auto simp: check_shutdown_def pyget_def bind_ok_def split: sum.splits)
  have ids: "jsonable 2 (PList (map PStr ids)) = PList (map PStr ids)"
    if "v = PList (map PStr ids)" "k \<in> {''stacks'', ''stop_scripts''}" for ids
    using c[OF that(2)] that(1) checked_clean[of ids _ 2] by auto
  have all: "jsonable 2 (PStr ''all'') = PStr ''all''" by (simp add: jsonable_PStr launder_ascii is_ascii_def ordc_def)
  have num: "jsonable 2 (read_floor k (PInt n)) = PInt n" if "floor_key k" "\<bar>n\<bar> \<le> 720" for n
    using that small_fits[of n] by (simp add: read_floor_def opt_int_def jsonable_floor is_floor_def)
  have "(k, v) \<in> set (shutdown_dump sp)" using assms(1) by (rule dict_get_in)
  then consider "v = PNone" | y where "v = PBool y" "\<not> floor_key k" | n where "v = PInt n" "floor_key k" "\<bar>n\<bar> \<le> 720"
    | y where "v = stack_value y" "k = ''stacks''" | ids where "v = PList (map PStr ids)" "k = ''stop_scripts''"
    using b unfolding shutdown_dump_def by (auto simp: floor_key_def in_bounds_def dest!: provided_in)
  then show ?thesis
  proof cases
    case (4 y)
    then show ?thesis using all ids by (cases y) (simp_all add: read_floor_def floor_key_def)
  qed (use num ids in \<open>simp_all add: read_floor_def floor_key_def jsonable_PBool\<close>)
qed

text \<open>
  A saved policy is served as asked, and can fire. After an accepted change of the shutdown policy every
  field the request gave is served back as given, every other field of the policy as it was, and the
  policy is not one that is enabled with both its floors off.
\<close>

lemma saved_policy_served:
  assumes "put_ups_settings (PDict data) p data = (Inr u, data')" "pa_shutdown p = Some (Some sp)" "dict_ok (stored_block (PDict data))"
  shows "(k \<in> known_keys \<longrightarrow> pyget (shutdown_block (PDict data')) k
      = (case dict_get (shutdown_dump sp) k of Some v \<Rightarrow> v | None \<Rightarrow> pyget (shutdown_block (PDict data)) k))
    \<and> \<not> never_fires (shutdown_block (PDict data'))"
proof
  have v: "shutdown_valid sp" "check_shutdown (PDict data) (shutdown_dump sp) = Inr ()"
    "save_ups_settings (patch_dump p) data = Inr data'"
    using assms(1) unfolding put_ups_settings_def Let_def clean_dump(1)[OF assms(2)]
    by (auto simp: patch_valid_def assms(2) api_error_def split: if_splits sum.splits)
  note s = saved_block[OF v(3) assms(2,3)]
  have served: "k \<in> known_keys \<Longrightarrow> pyget (shutdown_block (PDict data')) k
      = (case dict_get (shutdown_dump sp) k of Some v \<Rightarrow> v | None \<Rightarrow> pyget (shutdown_block (PDict data)) k)" for k
    using dump_served[OF _ v(1,2)] by (simp add: served_field s assms(3) split: option.split)
  show "k \<in> known_keys \<longrightarrow> pyget (shutdown_block (PDict data')) k
      = (case dict_get (shutdown_dump sp) k of Some v \<Rightarrow> v | None \<Rightarrow> pyget (shutdown_block (PDict data)) k)"
    using served by blast
  have "\<not> never_fires (update_fields (shutdown_dump sp) (shutdown_block (PDict data)))"
    using v(2) by (auto simp: check_shutdown_def api_error_def bind_ok_Inr_iff split: if_splits)
  moreover have "pyget (update_fields (shutdown_dump sp) (shutdown_block (PDict data))) k = pyget (shutdown_block (PDict data')) k"
    if "k \<in> known_keys" for k
    using served[OF that] dict_get_rev[OF dict_ok_dump(1)] by (simp add: pyget_update)
  moreover have "''enabled'' \<in> known_keys" "''trigger_pct'' \<in> known_keys" "''trigger_remaining_min'' \<in> known_keys"
    by (simp_all add: shutdown_defaults_def)
  ultimately show "\<not> never_fires (shutdown_block (PDict data'))" by (simp add: never_fires_def)
qed

definition sample_shutdown :: shutdown_patch where
  "sample_shutdown = \<lparr>sp_enabled = Some (Some True), sp_pct = Some (Some 30), sp_min = None, sp_both = None,
     sp_stacks = Some (Some (TheseStacks [''db''])), sp_scripts = None\<rparr>"

definition sample_patch :: "shutdown_patch \<Rightarrow> settings_patch" where
  "sample_patch sp = \<lparr>pa_alerts = None, pa_low = None, pa_shutdown = Some (Some sp)\<rparr>"

lemma saved_policy_served_witness:
  "\<exists>data'. put_ups_settings (PDict []) (sample_patch sample_shutdown) [] = (Inr (), data')
    \<and> pyget (shutdown_block (PDict data')) ''trigger_pct'' = PInt 30
    \<and> pyget (shutdown_block (PDict data')) ''stacks'' = PList [PStr ''db'']
    \<and> \<not> never_fires (shutdown_block (PDict data'))"
proof -
  have "case put_ups_settings (PDict []) (sample_patch sample_shutdown) [] of (r, d) \<Rightarrow> r = Inr ()" by code_simp
  then obtain d where d: "put_ups_settings (PDict []) (sample_patch sample_shutdown) [] = (Inr (), d)"
    by (cases "put_ups_settings (PDict []) (sample_patch sample_shutdown) []") auto
  have o: "dict_ok (stored_block (PDict []))" by code_simp
  have k: "''trigger_pct'' \<in> known_keys" "''stacks'' \<in> known_keys" by (simp_all add: shutdown_defaults_def)
  have v: "dict_get (shutdown_dump sample_shutdown) ''trigger_pct'' = Some (PInt 30)"
    "dict_get (shutdown_dump sample_shutdown) ''stacks'' = Some (PList [PStr ''db''])" by code_simp+
  have p: "pa_shutdown (sample_patch sample_shutdown) = Some (Some sample_shutdown)" by (simp add: sample_patch_def)
  show ?thesis
    using saved_policy_served[OF d p o, of "''trigger_pct''"] saved_policy_served[OF d p o, of "''stacks''"] d k v by simp
qed

text \<open>
  The check reads the settings before the write lock is taken. Two requests that each switch one floor off,
  both judged against the policy as it was, leave it enabled with no floor at all.
\<close>

definition two_floors :: pydict where
  "two_floors = [(''settings'', PDict [(''ups'', PDict [(''shutdown'', PDict
     [(''enabled'', PBool True), (''trigger_pct'', PInt 25), (''trigger_remaining_min'', PInt 10)])])])]"

definition no_patch :: shutdown_patch where
  "no_patch = \<lparr>sp_enabled = None, sp_pct = None, sp_min = None, sp_both = None, sp_stacks = None, sp_scripts = None\<rparr>"

lemma floors_lost:
  "case put_ups_settings (PDict two_floors) (sample_patch (no_patch\<lparr>sp_pct := Some None\<rparr>)) two_floors of
     (r1, d1) \<Rightarrow> r1 = Inr ()
       \<and> (case put_ups_settings (PDict two_floors) (sample_patch (no_patch\<lparr>sp_min := Some None\<rparr>)) d1 of
            (r2, d2) \<Rightarrow> r2 = Inr () \<and> never_fires (shutdown_block (PDict d2)))"
  by code_simp

end
