(* ===== verification/Net_Address.thy ===== *)
theory Net_Address
  imports Auth_Config "HOL-Library.Word"
begin

text \<open>
  Internet addresses as \<open>hub/http_guard.py\<close> reads and judges them: \<open>ipaddress\<close> of Python (the parsers
  of both families, the networks behind its predicates) and the spellings the guard adds. The parser
  of the C library for the remaining spellings is an argument.
\<close>

section \<open>Reading an address\<close>

text \<open>A version 6 address carries its zone, as \<open>ipaddress\<close> keeps it.\<close>

datatype ip = V4 "32 word" | V6 "128 word" "string option"

definition parse_octet :: "string \<Rightarrow> nat option" where
  "parse_octet s =
     (if isdigit s \<and> length s \<le> 3 \<and> (s = ''0'' \<or> hd s \<noteq> CHR ''0'') \<and> digits_val s \<le> 255
      then Some (digits_val s) else None)"

definition v4_of_octets :: "nat \<Rightarrow> nat \<Rightarrow> nat \<Rightarrow> nat \<Rightarrow> 32 word" where
  "v4_of_octets a b c d = of_nat (((a * 256 + b) * 256 + c) * 256 + d)"

definition ipv4_of_text :: "string \<Rightarrow> (32 word) option" where
  "ipv4_of_text s =
     (case map parse_octet (split_on (CHR ''.'') s) of
        [Some a, Some b, Some c, Some d] \<Rightarrow> Some (v4_of_octets a b c d)
      | _ \<Rightarrow> None)"

definition hex_value :: "char \<Rightarrow> nat" where
  "hex_value c = (if is_digit c then ordc c - 48 else if 97 \<le> ordc c then ordc c - 87 else ordc c - 55)"

definition hex_val :: "string \<Rightarrow> nat" where
  \<comment> \<open>\<open>int(s, 16)\<close>\<close>
  "hex_val s = foldl (\<lambda>a c. a * 16 + hex_value c) 0 s"

fun show_hex :: "nat \<Rightarrow> string" where
  \<comment> \<open>\<open>'%x' % n\<close>\<close>
  "show_hex n = (if n < 16 then [hex_digit n] else show_hex (n div 16) @ [hex_digit (n mod 16)])"

declare show_hex.simps [simp del]

definition parse_hextet :: "string \<Rightarrow> nat option" where
  "parse_hextet s = (if s \<noteq> [] \<and> list_all is_hex_digit s \<and> length s \<le> 4 then Some (hex_val s) else None)"

fun hextets :: "string list \<Rightarrow> nat \<Rightarrow> nat option" where
  "hextets [] acc = Some acc"
| "hextets (p # ps) acc = (case parse_hextet p of None \<Rightarrow> None | Some h \<Rightarrow> hextets ps (acc * 65536 + h))"

text \<open>The parts between the colons; at most one of the inner ones is empty, and stands for the zeros left out.\<close>

definition ipv6_of_parts :: "string list \<Rightarrow> nat option" where
  "ipv6_of_parts parts =
     (let n = length parts in
      if 9 < n then None
      else (case filter (\<lambda>i. parts ! i = []) [1..<n - 1] of
              [] \<Rightarrow> if n = 8 \<and> hd parts \<noteq> [] \<and> last parts \<noteq> [] then hextets parts 0 else None
            | [k] \<Rightarrow>
                if (hd parts = [] \<and> k \<noteq> 1) \<or> (last parts = [] \<and> n - k - 1 \<noteq> 1) then None
                else
                  (let hi = (if hd parts = [] then [] else take k parts);
                       lo = (if last parts = [] then [] else drop (k + 1) parts);
                       skipped = 8 - (length hi + length lo)
                   in if skipped < 1 then None else hextets (hi @ replicate skipped ''0'' @ lo) 0)
            | _ \<Rightarrow> None))"

definition ipv6_of_text :: "string \<Rightarrow> nat option" where
  "ipv6_of_text s =
     (let parts = split_on (CHR '':'') s in
      if length parts < 3 then None
      else if CHR ''.'' \<in> set (last parts) then
        (case ipv4_of_text (last parts) of
           None \<Rightarrow> None
         | Some w \<Rightarrow> ipv6_of_parts (butlast parts @ [show_hex (unat w div 65536), show_hex (unat w mod 65536)]))
      else ipv6_of_parts parts)"

text \<open>\<open>ipaddress.ip_address(s)\<close>\<close>

definition ip_address :: "string \<Rightarrow> ip option" where
  "ip_address s =
     (case ipv4_of_text s of
        Some w \<Rightarrow> Some (V4 w)
      | None \<Rightarrow>
          if CHR ''/'' \<in> set s then None
          else
            (case partition_on (CHR ''%'') s of
               (addr, zoned, zone) \<Rightarrow>
                 if zoned \<and> (zone = [] \<or> CHR ''%'' \<in> set zone) then None
                 else map_option (\<lambda>n. V6 (of_nat n) (if zoned then Some zone else None)) (ipv6_of_text addr)))"

section \<open>Networks\<close>

definition in_network :: "'a::len word \<Rightarrow> nat \<Rightarrow> 'a word \<Rightarrow> bool" where
  \<comment> \<open>\<open>w in ip_network(base/len)\<close>\<close>
  "in_network base len w \<longleftrightarrow> drop_bit (LENGTH('a) - len) w = drop_bit (LENGTH('a) - len) base"

definition v4_private :: "(32 word \<times> nat) list" where
  "v4_private =
     [(v4_of_octets 0 0 0 0, 8), (v4_of_octets 10 0 0 0, 8), (v4_of_octets 127 0 0 0, 8), (v4_of_octets 169 254 0 0, 16),
      (v4_of_octets 172 16 0 0, 12), (v4_of_octets 192 0 0 0, 24), (v4_of_octets 192 0 0 170, 31),
      (v4_of_octets 192 0 2 0, 24), (v4_of_octets 192 168 0 0, 16), (v4_of_octets 198 18 0 0, 15),
      (v4_of_octets 198 51 100 0, 24), (v4_of_octets 203 0 113 0, 24), (v4_of_octets 240 0 0 0, 4),
      (v4_of_octets 255 255 255 255, 32)]"

definition v4_public :: "(32 word) list" where
  \<comment> \<open>the exceptions to the above\<close>
  "v4_public = [v4_of_octets 192 0 0 9, v4_of_octets 192 0 0 10]"

definition v6_net :: "nat \<Rightarrow> nat \<Rightarrow> nat \<Rightarrow> nat \<Rightarrow> 128 word" where
  \<comment> \<open>by its first four groups\<close>
  "v6_net a b c d = of_nat ((((a * 65536 + b) * 65536 + c) * 65536 + d) * 2 ^ 64)"

definition v6_private :: "(128 word \<times> nat) list" where
  "v6_private =
     [(1, 128), (0, 128), (of_nat (65535 * 2 ^ 32), 96), (v6_net 100 65435 1 0, 48), (v6_net 256 0 0 0, 64),
      (v6_net 8193 0 0 0, 23), (v6_net 8193 3512 0 0, 32), (v6_net 8194 0 0 0, 16), (v6_net 64512 0 0 0, 7),
      (v6_net 65152 0 0 0, 10)]"

definition v6_public :: "(128 word \<times> nat) list" where
  "v6_public =
     [(v6_net 8193 1 0 0 + 1, 128), (v6_net 8193 1 0 0 + 2, 128), (v6_net 8193 3 0 0, 32), (v6_net 8193 4 274 0, 48),
      (v6_net 8193 32 0 0, 28), (v6_net 8193 48 0 0, 28)]"

definition v6_reserved :: "(128 word \<times> nat) list" where
  "v6_reserved =
     [(0, 8), (v6_net 256 0 0 0, 8), (v6_net 512 0 0 0, 7), (v6_net 1024 0 0 0, 6), (v6_net 2048 0 0 0, 5),
      (v6_net 4096 0 0 0, 4), (v6_net 16384 0 0 0, 3), (v6_net 24576 0 0 0, 3), (v6_net 32768 0 0 0, 3),
      (v6_net 40960 0 0 0, 3), (v6_net 49152 0 0 0, 3), (v6_net 57344 0 0 0, 4), (v6_net 61440 0 0 0, 5),
      (v6_net 63488 0 0 0, 6), (v6_net 65024 0 0 0, 9)]"

definition in_any :: "('a::len word \<times> nat) list \<Rightarrow> 'a word \<Rightarrow> bool" where
  "in_any nets w \<longleftrightarrow> list_ex (\<lambda>(base, len). in_network base len w) nets"

fun is_loopback_ip :: "ip \<Rightarrow> bool" where
  "is_loopback_ip (V4 w) \<longleftrightarrow> in_network (v4_of_octets 127 0 0 0) 8 w"
| "is_loopback_ip (V6 w _) \<longleftrightarrow> w = 1"

fun is_unspecified :: "ip \<Rightarrow> bool" where
  "is_unspecified (V4 w) \<longleftrightarrow> w = 0"
| "is_unspecified (V6 w _) \<longleftrightarrow> w = 0"

fun is_multicast :: "ip \<Rightarrow> bool" where
  "is_multicast (V4 w) \<longleftrightarrow> in_network (v4_of_octets 224 0 0 0) 4 w"
| "is_multicast (V6 w _) \<longleftrightarrow> in_network (v6_net 65280 0 0 0) 8 w"

fun is_reserved :: "ip \<Rightarrow> bool" where
  "is_reserved (V4 w) \<longleftrightarrow> in_network (v4_of_octets 240 0 0 0) 4 w"
| "is_reserved (V6 w _) \<longleftrightarrow> in_any v6_reserved w"

fun is_link_local :: "ip \<Rightarrow> bool" where
  "is_link_local (V4 w) \<longleftrightarrow> in_network (v4_of_octets 169 254 0 0) 16 w"
| "is_link_local (V6 w _) \<longleftrightarrow> in_network (v6_net 65152 0 0 0) 10 w"

fun mapped_v4 :: "ip \<Rightarrow> ip" where
  \<comment> \<open>\<open>ip.ipv4_mapped\<close>, or the address itself\<close>
  "mapped_v4 (V6 w z) = (if drop_bit 32 w = 65535 then V4 (ucast w) else V6 w z)"
| "mapped_v4 ip = ip"

fun is_private :: "ip \<Rightarrow> bool" where
  "is_private (V4 w) \<longleftrightarrow> in_any v4_private w \<and> w \<notin> set v4_public"
| "is_private (V6 w _) \<longleftrightarrow>
     (case mapped_v4 (V6 w None) of
        V4 u \<Rightarrow> in_any v4_private u \<and> u \<notin> set v4_public
      | V6 u _ \<Rightarrow> in_any v6_private u \<and> \<not> in_any v6_public u)"

section \<open>The guard's judgement\<close>

definition blocked_ips :: "ip list" where
  "blocked_ips =
     [V4 (v4_of_octets 169 254 169 254), V6 (v6_net 64768 3778 0 0 + 596) None, V4 (v4_of_octets 100 100 100 200),
      V4 (v4_of_octets 192 0 0 192), V4 (v4_of_octets 168 63 129 16)]"

definition ip_is_local :: "ip \<Rightarrow> bool" where
  "ip_is_local i \<longleftrightarrow>
     is_loopback_ip i
     \<or> (\<not> (i \<in> set blocked_ips \<or> is_unspecified i \<or> is_multicast i \<or> is_reserved i \<or> is_link_local i) \<and> is_private i)"

definition webhook_ip_blocked :: "ip option \<Rightarrow> bool" where
  "webhook_ip_blocked i =
     (case i of None \<Rightarrow> False
      | Some a \<Rightarrow> a \<in> set blocked_ips \<or> is_unspecified a \<or> is_multicast a \<or> is_link_local a)"

text \<open>
  \<open>_ip_from_host\<close>: a decimal or hexadecimal number is a version 4 address, and what neither
  \<open>ipaddress\<close> nor that reads is left to \<open>inet_aton\<close>. The hexadecimal pattern lets one line feed end the text.
\<close>

definition hex_host :: "string \<Rightarrow> nat option" where
  "hex_host s =
     (let h = (if s \<noteq> [] \<and> last s = CHR 10 then butlast s else s); ds = drop 2 h
      in if take 2 h = ''0x'' \<and> ds \<noteq> [] \<and> list_all (\<lambda>c. is_digit c \<or> (97 \<le> ordc c \<and> ordc c \<le> 102)) ds
         then Some (hex_val ds) else None)"

definition number_host :: "string \<Rightarrow> nat option" where
  "number_host s =
     (if isdigit s then (if length s \<le> int_max_str_digits then Some (digits_val s) else None) else hex_host s)"

definition ip_from_host :: "(string \<Rightarrow> (32 word) option) \<Rightarrow> string \<Rightarrow> ip option" where
  "ip_from_host aton host =
     map_option mapped_v4
       (case ip_address host of
          Some i \<Rightarrow> Some i
        | None \<Rightarrow>
            (case number_host host of
               Some n \<Rightarrow> if n \<le> 4294967295 then Some (V4 (of_nat n)) else map_option V4 (aton host)
             | None \<Rightarrow> map_option V4 (aton host)))"

end
