(* ===== verification/Http_Guard.thy ===== *)
theory Http_Guard
  imports Net_Address
begin

text \<open>
  The guards of the requests the panel itself sends (\<open>hub/http_guard.py\<close>) over \<open>urlsplit\<close> of Python.
  The C library's address parser and the name lookup are arguments, as are two tables of Unicode: whether
  an authority beyond ASCII passes the compatibility check of \<open>urlsplit\<close>, and whether a text has a
  letter. Only an exact text is read; the coercions of other values are not modelled.
\<close>

section \<open>URLs\<close>

text \<open>The answer of \<open>getaddrinfo\<close>: the addresses as text, a failed lookup, or a name it cannot encode.\<close>

datatype lookup = Answers "string list" | LookupFailed | BadName

record net_env =
  ne_aton :: "string \<Rightarrow> (32 word) option"
  ne_nfkc :: "string \<Rightarrow> bool"
  ne_letter :: "string \<Rightarrow> bool"
  ne_lookup :: "string \<Rightarrow> lookup"

record url_parts =
  up_scheme :: string
  up_netloc :: string
  up_path :: string
  up_query :: string
  up_fragment :: string

definition before_char :: "char \<Rightarrow> string \<Rightarrow> string" where
  "before_char c s = takeWhile (\<lambda>x. x \<noteq> c) s"

definition after_char :: "char \<Rightarrow> string \<Rightarrow> string" where
  "after_char c s = drop 1 (dropWhile (\<lambda>x. x \<noteq> c) s)"

definition is_letter :: "char \<Rightarrow> bool" where
  "is_letter c \<longleftrightarrow> (65 \<le> ordc c \<and> ordc c \<le> 90) \<or> (97 \<le> ordc c \<and> ordc c \<le> 122)"

definition is_scheme_char :: "char \<Rightarrow> bool" where
  "is_scheme_char c \<longleftrightarrow> is_letter c \<or> is_digit c \<or> c \<in> {CHR ''+'', CHR ''-'', CHR ''.''}"

definition split_scheme :: "string \<Rightarrow> string \<times> string" where
  "split_scheme url =
     (let s = before_char (CHR '':'') url in
      if CHR '':'' \<in> set url \<and> s \<noteq> [] \<and> is_letter (hd s) \<and> list_all is_scheme_char s
      then (lower s, after_char (CHR '':'') url) else ([], url))"

definition bracketed_host :: "string \<Rightarrow> bool" where
  \<comment> \<open>\<open>_check_bracketed_host\<close> passes\<close>
  "bracketed_host h =
     (if startswith h ''v'' then
        (let ds = takeWhile is_hex_digit (drop 1 h); r = drop (1 + length ds) h
         in ds \<noteq> [] \<and> startswith r ''.'' \<and> 1 < length r)
      else (case ip_address h of Some (V6 _ _) \<Rightarrow> True | _ \<Rightarrow> False))"

definition netloc_ok :: "net_env \<Rightarrow> string \<Rightarrow> bool" where
  "netloc_ok e n \<longleftrightarrow>
     ((CHR ''['' \<in> set n) = (CHR '']'' \<in> set n))
     \<and> (CHR ''['' \<in> set n \<longrightarrow> bracketed_host (before_char (CHR '']'') (after_char (CHR ''['') n)))
     \<and> (list_all is_ascii n \<or> ne_nfkc e n)"

definition url_clean :: "string \<Rightarrow> string" where
  "url_clean url = filter (\<lambda>c. ordc c \<notin> {9, 10, 13}) (dropWhile (\<lambda>c. ordc c \<le> 32) url)"

text \<open>\<open>urlsplit(url)\<close>; None when it raises.\<close>

definition urlsplit :: "net_env \<Rightarrow> string \<Rightarrow> url_parts option" where
  "urlsplit e raw =
     (let (scheme, url) = split_scheme (url_clean raw);
          authority = startswith url ''//'';
          netloc = (if authority then takeWhile (\<lambda>c. c \<notin> set ''/?#'') (drop 2 url) else []);
          url = (if authority then dropWhile (\<lambda>c. c \<notin> set ''/?#'') (drop 2 url) else url);
          fragment = (if CHR ''#'' \<in> set url then after_char (CHR ''#'') url else []);
          url = before_char (CHR ''#'') url;
          query = (if CHR ''?'' \<in> set url then after_char (CHR ''?'') url else []);
          path = before_char (CHR ''?'') url
      in if netloc_ok e netloc
         then Some \<lparr>up_scheme = scheme, up_netloc = netloc, up_path = path, up_query = query, up_fragment = fragment\<rparr>
         else None)"

definition host_info :: "string \<Rightarrow> string \<times> string" where
  \<comment> \<open>\<open>_hostinfo\<close>: the host and the text of the port\<close>
  "host_info netloc =
     (let info = (case rpartition_on (CHR ''@'') netloc of None \<Rightarrow> netloc | Some (_, h) \<Rightarrow> h)
      in if CHR ''['' \<in> set info
         then (let b = after_char (CHR ''['') info
               in (before_char (CHR '']'') b, after_char (CHR '':'') (after_char (CHR '']'') b)))
         else (before_char (CHR '':'') info, after_char (CHR '':'') info))"

definition url_hostname :: "string \<Rightarrow> string" where
  \<comment> \<open>\<open>parts.hostname or ""\<close>: the zone keeps its case\<close>
  "url_hostname netloc =
     (let h = fst (host_info netloc); z = dropWhile (\<lambda>c. c \<noteq> CHR ''%'') h in lower (before_char (CHR ''%'') h) @ z)"

definition port_ok :: "string \<Rightarrow> bool" where
  \<comment> \<open>reading \<open>parts.port\<close> does not raise\<close>
  "port_ok netloc \<longleftrightarrow>
     (let p = snd (host_info netloc)
      in p = [] \<or> (isdigit p \<and> length p \<le> int_max_str_digits \<and> digits_val p \<le> 65535))"

definition strip_brackets :: "string \<Rightarrow> string" where
  "strip_brackets s =
     rev (dropWhile (\<lambda>c. c \<in> set ''[]'') (rev (dropWhile (\<lambda>c. c \<in> set ''[]'') s)))"

definition split_url :: "net_env \<Rightarrow> string \<Rightarrow> (string \<times> url_parts \<times> string) option" where
  \<comment> \<open>\<open>_url_parts\<close>\<close>
  "split_url e raw =
     (let text = strip raw in
      if \<not> utf8_ok text then None
      else
        (case urlsplit e text of
           None \<Rightarrow> None
         | Some parts \<Rightarrow>
             (let host = lower (strip_brackets (url_hostname (up_netloc parts)))
              in if \<not> port_ok (up_netloc parts) then None
                 else if CHR 0x00 \<in> set text \<or> CHR 0x00 \<in> set host then None
                 else Some (text, parts, host))))"

section \<open>The guards\<close>

definition private_suffixes :: "string list" where
  "private_suffixes = [''.local'', ''.lan'', ''.internal'', ''.home'', ''.arpa'']"

definition blocked_hosts :: "string list" where
  "blocked_hosts = [''metadata'', ''metadata.google.internal'']"

definition loopback_names :: "string list" where
  "loopback_names = [''localhost'', ''127.0.0.1'', ''::1'']"

definition endswith :: "string \<Rightarrow> string \<Rightarrow> bool" where
  "endswith s suffix \<longleftrightarrow> drop (length s - length suffix) s = suffix"

definition lan_name :: "net_env \<Rightarrow> string \<Rightarrow> bool" where
  "lan_name e host \<longleftrightarrow>
     list_ex (endswith host) private_suffixes
     \<or> (CHR ''.'' \<notin> set host \<and> CHR '':'' \<notin> set host \<and> (list_ex is_letter host \<or> ne_letter e host))"

definition local_http_origin :: "net_env \<Rightarrow> string \<Rightarrow> string option" where
  "local_http_origin e raw =
     (case split_url e raw of
        None \<Rightarrow> None
      | Some (text, parts, host) \<Rightarrow>
          if up_scheme parts \<notin> {''http'', ''https''} \<or> host = [] then None
          else if host \<in> set blocked_hosts then None
          else if host \<in> set loopback_names then Some (rstrip_char (CHR ''/'') text)
          else
            (case ip_from_host (ne_aton e) host of
               Some i \<Rightarrow> if ip_is_local i then Some (rstrip_char (CHR ''/'') text) else None
             | None \<Rightarrow> if lan_name e host then Some (rstrip_char (CHR ''/'') text) else None))"

definition utf8_host :: "string \<Rightarrow> string option" where
  "utf8_host raw =
     (let host = lower (strip_brackets raw)
      in if host = [] \<or> CHR 0x00 \<in> set host \<or> \<not> utf8_ok host then None else Some host)"

definition is_allowed_notify_host :: "net_env \<Rightarrow> bool \<Rightarrow> string \<Rightarrow> bool" where
  "is_allowed_notify_host e resolve_required raw =
     (case utf8_host raw of
        None \<Rightarrow> False
      | Some host \<Rightarrow>
          if host \<in> set blocked_hosts then False
          else
            (case ip_from_host (ne_aton e) host of
               Some i \<Rightarrow> \<not> webhook_ip_blocked (Some i)
             | None \<Rightarrow>
                 (case ne_lookup e host of
                    BadName \<Rightarrow> False
                  | Answers (a # as) \<Rightarrow> list_all (\<lambda>x. \<not> webhook_ip_blocked (ip_from_host (ne_aton e) x)) (a # as)
                  | _ \<Rightarrow> \<not> (resolve_required \<and> \<not> lan_name e host))))"

definition is_allowed_webhook_url :: "net_env \<Rightarrow> bool \<Rightarrow> string \<Rightarrow> bool" where
  "is_allowed_webhook_url e resolve raw =
     (case split_url e raw of
        None \<Rightarrow> False
      | Some (text, parts, host) \<Rightarrow>
          if up_scheme parts \<notin> {''http'', ''https''} \<or> host = [] then False
          else if host \<in> set blocked_hosts then False
          else if \<not> resolve \<and> ip_from_host (ne_aton e) host = None then True
          else is_allowed_notify_host e False host)"

text \<open>
  Whom to connect to: the first of the addresses, as text, or the name itself. Two zones of one
  address are two texts, so the addresses stand for their texts.
\<close>

datatype peer = Address ip | HostName string

fun local_peers :: "net_env \<Rightarrow> string list \<Rightarrow> ip list \<Rightarrow> ip list option" where
  "local_peers e [] peers = Some peers"
| "local_peers e (a # as) peers =
     (case ip_from_host (ne_aton e) a of
        None \<Rightarrow> None
      | Some i \<Rightarrow> if ip_is_local i then local_peers e as (if i \<in> set peers then peers else peers @ [i]) else None)"

fun notify_peers :: "net_env \<Rightarrow> string list \<Rightarrow> ip list \<Rightarrow> ip list option" where
  "notify_peers e [] peers = Some peers"
| "notify_peers e (a # as) peers =
     (case ip_from_host (ne_aton e) a of
        None \<Rightarrow> notify_peers e as peers
      | Some i \<Rightarrow>
          if webhook_ip_blocked (Some i) then None
          else notify_peers e as (if i \<in> set peers then peers else peers @ [i]))"

definition first_peer :: "ip list option \<Rightarrow> peer option" where
  "first_peer peers = (case peers of Some (i # _) \<Rightarrow> Some (Address i) | _ \<Rightarrow> None)"

definition answers :: "lookup \<Rightarrow> string list" where
  "answers l = (case l of Answers as \<Rightarrow> as | _ \<Rightarrow> [])"

definition local_connect_peer :: "net_env \<Rightarrow> string \<Rightarrow> peer option" where
  "local_connect_peer e raw =
     (case utf8_host raw of
        None \<Rightarrow> None
      | Some host \<Rightarrow>
          if host \<in> set blocked_hosts then None
          else
            (case ip_from_host (ne_aton e) host of
               Some i \<Rightarrow> if ip_is_local i then Some (Address i) else None
             | None \<Rightarrow>
                 (if answers (ne_lookup e host) = [] then (if lan_name e host then Some (HostName host) else None)
                  else first_peer (local_peers e (answers (ne_lookup e host)) []))))"

definition notify_connect_peer :: "net_env \<Rightarrow> string \<Rightarrow> peer option" where
  "notify_connect_peer e raw =
     (case utf8_host raw of
        None \<Rightarrow> None
      | Some host \<Rightarrow>
          if host \<in> set blocked_hosts then None
          else
            (case ip_from_host (ne_aton e) host of
               Some i \<Rightarrow> if webhook_ip_blocked (Some i) then None else Some (Address i)
             | None \<Rightarrow>
                 (if answers (ne_lookup e host) = [] then (if lan_name e host then Some (HostName host) else None)
                  else first_peer (notify_peers e (answers (ne_lookup e host)) []))))"

end
