(* ===== verification/Http_Guard_Safety.thy ===== *)
theory Http_Guard_Safety
  imports Http_Guard Auth_Accounts
begin

text \<open>
  What the guards of outgoing requests let through: an address is judged by its value, however
  it is spelled, and the peer of a connection is an address that was judged, or a name that did not resolve.
\<close>

section \<open>Spellings of a version 4 address\<close>

lemma hd_show_nat: "hd (show_nat n) = CHR ''0'' \<Longrightarrow> n = 0"
proof (induction n rule: show_nat.induct)
  case (1 n)
  show ?case
  proof (cases "n < 10")
    case True
    then have "ordc (hd (show_nat n)) = 48 + n" by (subst show_nat.simps) (simp add: ordc_digit_char)
    then show ?thesis using 1(2) by (simp add: ordc_def)
  next
    case False
    then have "hd (show_nat n) = hd (show_nat (n div 10))" by (subst show_nat.simps) simp
    then show ?thesis using 1 False by simp
  qed
qed

lemma parse_octet_show: "n \<le> 255 \<Longrightarrow> parse_octet (show_nat n) = Some n"
proof -
  assume n: "n \<le> 255"
  then have "length (show_nat n) \<le> 3" by (intro length_show_nat) simp_all
  moreover have "show_nat n = ''0'' \<or> hd (show_nat n) \<noteq> CHR ''0''"
    using hd_show_nat[of n] by (auto simp: show_nat.simps[of 0] digit_char_def)
  ultimately show ?thesis using n by (simp add: parse_octet_def)
qed

definition octets :: "nat \<Rightarrow> nat list" where
  "octets n = [n div 16777216, n div 65536 mod 256, n div 256 mod 256, n mod 256]"

definition show_v4 :: "32 word \<Rightarrow> string" where
  \<comment> \<open>the dotted form\<close>
  "show_v4 w = join_on ''.'' (map show_nat (octets (unat w)))"

lemma unat_bound: "unat w \<le> 4294967295" for w :: "32 word"
  using unsigned_less[of w, where ?'a = nat] by simp

lemma octets_value: "((n div 16777216 * 256 + n div 65536 mod 256) * 256 + n div 256 mod 256) * 256 + n mod 256 = n" for n :: nat
proof -
  have "n div 65536 = n div 16777216 * 256 + n div 65536 mod 256" using div_mult2_eq[of n 65536 256] by simp
  moreover have "n div 256 = n div 65536 * 256 + n div 256 mod 256" using div_mult2_eq[of n 256 256] by simp
  ultimately show ?thesis by simp
qed

lemma dot_free: "CHR ''.'' \<notin> set (show_nat n)" "CHR '':'' \<notin> set (show_nat n)" "CHR ''/'' \<notin> set (show_nat n)"
  "CHR ''%'' \<notin> set (show_nat n)"
  by (rule show_nat_no_char; simp add: is_digit_def ordc_def)+

lemma ipv4_of_show: "ipv4_of_text (show_v4 w) = Some w"
proof -
  have "split_on (CHR ''.'') (show_v4 w) = map show_nat (octets (unat w))"
    unfolding show_v4_def by (rule split_join_on) (auto simp: octets_def dot_free)
  moreover have "unat w div 16777216 \<le> 255" using unat_bound[of w] by simp
  moreover have "v4_of_octets (unat w div 16777216) (unat w div 65536 mod 256) (unat w div 256 mod 256) (unat w mod 256) = w"
    unfolding v4_of_octets_def octets_value by simp
  ultimately show ?thesis by (simp add: ipv4_of_text_def octets_def parse_octet_show)
qed

lemma ip_address_show: "ip_address (show_v4 w) = Some (V4 w)"
  by (simp add: ip_address_def ipv4_of_show)

lemma single_no_address:
  assumes "CHR ''.'' \<notin> set s" "CHR '':'' \<notin> set s"
  shows "ip_address s = None"
proof -
  have "ipv4_of_text s = None" using assms(1) by (simp add: ipv4_of_text_def split_on_no_sep split: option.split)
  moreover have "ipv6_of_text (fst (partition_on (CHR ''%'') s)) = None"
  proof -
    have "set (fst (partition_on (CHR ''%'') s)) \<subseteq> set s" by (auto simp: partition_on_def dest: set_takeWhileD)
    then have "CHR '':'' \<notin> set (fst (partition_on (CHR ''%'') s))" using assms(2) by blast
    then show ?thesis by (simp add: ipv6_of_text_def split_on_no_sep)
  qed
  ultimately show ?thesis by (auto simp: ip_address_def split: prod.split)
qed

lemma ip_from_decimal: "ip_from_host aton (show_nat (unat w)) = Some (V4 w)"
proof -
  have "length (show_nat (unat w)) \<le> 10" using unat_bound[of w] by (intro length_show_nat) simp_all
  then have "number_host (show_nat (unat w)) = Some (unat w)" by (simp add: number_host_def int_max_str_digits_def)
  then show ?thesis using unat_bound[of w] by (simp add: ip_from_host_def single_no_address dot_free)
qed

lemma ip_from_dotted: "ip_from_host aton (show_v4 w) = Some (V4 w)"
  by (simp add: ip_from_host_def ip_address_show)

text \<open>Hexadecimal.\<close>

lemma hex_value_digit: "d < 16 \<Longrightarrow> hex_value (hex_digit d) = d"
  by (auto simp: hex_value_def hex_digit_def is_digit_def ordc_char_of)

lemma hex_val_snoc: "hex_val (s @ [c]) = hex_val s * 16 + hex_value c"
  by (simp add: hex_val_def)

lemma hex_val_show: "hex_val (show_hex n) = n"
proof (induction n rule: show_hex.induct)
  case (1 n)
  show ?case
  proof (cases "n < 16")
    case True
    then show ?thesis by (subst show_hex.simps) (simp add: hex_val_def hex_value_digit)
  next
    case False
    then show ?thesis using 1 by (subst show_hex.simps) (simp add: hex_val_snoc hex_value_digit)
  qed
qed

definition hex_char :: "char \<Rightarrow> bool" where
  "hex_char c \<longleftrightarrow> is_digit c \<or> (97 \<le> ordc c \<and> ordc c \<le> 102)"

lemma show_hex_chars: "list_all hex_char (show_hex n)"
proof (induction n rule: show_hex.induct)
  case (1 n)
  show ?case
  proof (cases "n < 16")
    case True
    then show ?thesis using hex_digit_range[of n] by (subst show_hex.simps) (simp add: hex_char_def)
  next
    case False
    then show ?thesis using 1 hex_digit_range[of "n mod 16"] by (subst show_hex.simps) (simp add: hex_char_def[abs_def])
  qed
qed

lemma show_hex_nonempty [simp]: "show_hex n \<noteq> []"
  by (subst show_hex.simps) simp

lemma length_show_hex: "0 < d \<Longrightarrow> n < 16 ^ d \<Longrightarrow> length (show_hex n) \<le> d"
proof (induction d arbitrary: n)
  case (Suc d)
  show ?case
  proof (cases "n < 16")
    case False
    then have "0 < d" using Suc.prems by (cases d) auto
    moreover have "n div 16 < 16 ^ d" using Suc.prems by (simp add: div_less_iff_less_mult mult.commute)
    ultimately show ?thesis using Suc.IH[of "n div 16"] False by (subst show_hex.simps) simp
  qed (subst show_hex.simps, simp)
qed simp

lemma ip_from_hex: "ip_from_host aton (''0x'' @ show_hex (unat w)) = Some (V4 w)"
proof -
  let ?s = "''0x'' @ show_hex (unat w)"
  have h: "hex_char c" if "c \<in> set (show_hex (unat w))" for c using that show_hex_chars[of "unat w"] by (simp add: list_all_iff)
  have "last ?s \<noteq> CHR 0x0A"
    using h[OF last_in_set[OF show_hex_nonempty]] by (auto simp: hex_char_def is_digit_def ordc_def)
  moreover have "\<not> isdigit ?s" by (simp add: isdigit_def is_digit_def ordc_def)
  ultimately have "number_host ?s = Some (unat w)"
    using show_hex_chars[of "unat w", unfolded hex_char_def] by (simp add: number_host_def hex_host_def hex_val_show)
  moreover have "CHR ''.'' \<notin> set ?s" "CHR '':'' \<notin> set ?s"
    using h[of "CHR ''.''"] h[of "CHR '':''"] by (auto simp: hex_char_def is_digit_def ordc_def)
  ultimately show ?thesis using unat_bound[of w] by (simp add: ip_from_host_def single_no_address)
qed

text \<open>Mapped into version 6.\<close>

lemma show_v4_parts:
  obtains r where "show_v4 w = show_nat (unat w div 16777216) @ CHR ''.'' # r"
  by (auto simp: show_v4_def octets_def)

definition v4_char :: "char \<Rightarrow> bool" where
  "v4_char c \<longleftrightarrow> is_digit c \<or> c = CHR ''.''"

lemma show_v4_chars: "list_all v4_char (show_v4 w)"
  using show_nat_digits by (auto simp: show_v4_def octets_def v4_char_def list_all_iff)

lemma not_v4_char: "CHR '':'' \<notin> set (show_v4 w)" "CHR ''/'' \<notin> set (show_v4 w)" "CHR ''%'' \<notin> set (show_v4 w)"
  using show_v4_chars[of w] by (auto simp: list_all_iff v4_char_def is_digit_def ordc_def)

lemma parse_hextet_show: "n < 65536 \<Longrightarrow> parse_hextet (show_hex n) = Some n"
proof -
  assume "n < 65536"
  then have "length (show_hex n) \<le> 4" by (intro length_show_hex) simp_all
  moreover have "list_all is_hex_digit (show_hex n)"
    using show_hex_chars[of n] by (auto simp: list_all_iff hex_char_def is_hex_digit_def)
  ultimately show ?thesis by (simp add: parse_hextet_def hex_val_show)
qed

lemma ipv6_of_mapped_parts:
  assumes "h < 65536" "l < 65536"
  shows "ipv6_of_parts [[], [], ''ffff'', show_hex h, show_hex l] = Some (65535 * 4294967296 + h * 65536 + l)"
proof -
  have r: "[1..<4] = [1, 2, 3]" "replicate 5 ''0'' = [''0'', ''0'', ''0'', ''0'', ''0'']" by (simp_all add: upt_rec numeral_eq_Suc)
  have z: "parse_hextet ''0'' = Some 0" "parse_hextet ''ffff'' = Some 65535"
    by (simp_all add: parse_hextet_def is_hex_digit_def is_digit_def ordc_def hex_val_def hex_value_def)
  show ?thesis by (simp add: ipv6_of_parts_def r z parse_hextet_show[OF assms(1)] parse_hextet_show[OF assms(2)])
qed

lemma ip_address_mapped: "ip_address (''::ffff:'' @ show_v4 w) = Some (V6 (of_nat (65535 * 4294967296 + unat w)) None)"
proof -
  let ?s = "''::ffff:'' @ show_v4 w"
  obtain r where "show_v4 w = show_nat (unat w div 16777216) @ CHR ''.'' # r" by (rule show_v4_parts)
  then have "?s = (''::ffff:'' @ show_nat (unat w div 16777216)) @ CHR ''.'' # r" by simp
  then have "split_on (CHR ''.'') ?s = (''::ffff:'' @ show_nat (unat w div 16777216)) # split_on (CHR ''.'') r"
    by (simp only: split_on_append dot_free set_append Un_iff) (simp add: dot_free split_on_append)
  then have no: "ipv4_of_text ?s = None"
    by (simp add: ipv4_of_text_def parse_octet_def isdigit_def is_digit_def ordc_def)
  have sp: "split_on (CHR '':'') ?s = [[], [], ''ffff'', show_v4 w]" by (simp add: split_on_no_sep not_v4_char)
  have "CHR ''.'' \<in> set (show_v4 w)" by (rule show_v4_parts[of w]) simp
  moreover have "unat w div 65536 * 65536 + unat w mod 65536 = unat w" by simp
  moreover have "unat w div 65536 < 65536" using unat_bound[of w] by simp
  ultimately have "ipv6_of_text ?s = Some (65535 * 4294967296 + unat w)"
    using ipv6_of_mapped_parts[of "unat w div 65536" "unat w mod 65536"]
    unfolding ipv6_of_text_def sp Let_def by (simp add: ipv4_of_show add.assoc)
  moreover have "partition_on (CHR ''%'') ?s = (?s, False, [])" by (simp add: partition_on_def not_v4_char)
  ultimately show ?thesis using no not_v4_char by (simp add: ip_address_def)
qed

lemma unat_of_small: "m < 2 ^ 128 \<Longrightarrow> unat (of_nat m :: 128 word) = m"
  by (simp add: unsigned_of_nat take_bit_nat_eq_self)

lemma ip_from_mapped: "ip_from_host aton (''::ffff:'' @ show_v4 w) = Some (V4 w)"
proof -
  let ?u = "of_nat (65535 * 4294967296 + unat w) :: 128 word"
  have b: "unat ?u = 65535 * 4294967296 + unat w" using unat_bound[of w] by (intro unat_of_small) simp
  have "unat (drop_bit 32 ?u) = drop_bit 32 (unat ?u)" by (rule unat_drop_bit_eq)
  also have "\<dots> = unat (65535 :: 128 word)" unfolding b using unat_bound[of w] by (simp add: drop_bit_eq_div)
  finally have "drop_bit 32 ?u = 65535" by (rule word_unat_eq_iff[THEN iffD2])
  moreover have "ucast ?u = w"
  proof -
    have "ucast ?u = (of_nat (unat ?u) :: 32 word)" by simp
    also have "\<dots> = w" unfolding b by simp
    finally show ?thesis .
  qed
  ultimately show ?thesis unfolding ip_from_host_def ip_address_mapped by (simp del: of_nat_add of_nat_mult)
qed


section \<open>The URL around it\<close>

definition path_char :: "char \<Rightarrow> bool" where
  "path_char c \<longleftrightarrow> 33 \<le> ordc c \<and> ordc c \<le> 126"

definition plain_path :: "string \<Rightarrow> bool" where
  \<comment> \<open>nothing, or a path of visible characters\<close>
  "plain_path r \<longleftrightarrow> list_all path_char r \<and> (r = [] \<or> hd r = CHR ''/'')"

text \<open>The characters of an authority that is a bare host.\<close>

definition host_char :: "char \<Rightarrow> bool" where
  "host_char c \<longleftrightarrow> hex_char c \<or> c = CHR ''.'' \<or> c = CHR ''x''"

lemma host_char_facts:
  assumes "list_all host_char s"
  shows "list_all path_char s" "lower s = s" "CHR ''/'' \<notin> set s" "CHR ''?'' \<notin> set s" "CHR ''#'' \<notin> set s"
    "CHR ''@'' \<notin> set s" "CHR ''['' \<notin> set s" "CHR '']'' \<notin> set s" "CHR '':'' \<notin> set s" "CHR ''%'' \<notin> set s" "CHR 0x00 \<notin> set s"
proof -
  have h: "path_char c \<and> lower_char c = c \<and> c \<notin> set ''/?#@[]:%'' \<and> c \<noteq> CHR 0x00" if "host_char c" for c
    using that by (auto simp: host_char_def hex_char_def path_char_def lower_char_def is_digit_def, auto simp: ordc_def)
  show "list_all path_char s" "lower s = s" using assms h by (auto simp: list_all_iff lower_def intro: map_idI)
  show "CHR ''/'' \<notin> set s" "CHR ''?'' \<notin> set s" "CHR ''#'' \<notin> set s"
    "CHR ''@'' \<notin> set s" "CHR ''['' \<notin> set s" "CHR '']'' \<notin> set s" "CHR '':'' \<notin> set s" "CHR ''%'' \<notin> set s" "CHR 0x00 \<notin> set s"
    using assms h by (auto simp: list_all_iff)
qed

lemma path_char_facts: "path_char c \<Longrightarrow> \<not> is_space c \<and> is_ascii c \<and> 32 < ordc c \<and> ordc c \<notin> {9, 10, 13} \<and> c \<noteq> CHR 0x00"
  by (auto simp: path_char_def is_space_def is_ascii_def) (auto simp: ordc_def)

lemma visible_text:
  assumes "list_all path_char t"
  shows "strip t = t" "list_all is_ascii t" "url_clean t = t" "CHR 0x00 \<notin> set t"
proof -
  have c: "\<not> is_space c \<and> is_ascii c \<and> 32 < ordc c \<and> ordc c \<notin> {9, 10, 13} \<and> c \<noteq> CHR 0x00" if "c \<in> set t" for c
    using that assms path_char_facts by (simp add: list_all_iff)
  show "strip t = t" by (rule strip_no_space) (use c in \<open>simp add: list_all_iff\<close>)
  show "list_all is_ascii t" "CHR 0x00 \<notin> set t" using c by (auto simp: list_all_iff)
  have "dropWhile (\<lambda>c. ordc c \<le> 32) t = t" using c by (cases t) fastforce+
  then show "url_clean t = t" using c by (simp add: url_clean_def filter_id_conv)
qed

lemma takeWhile_upto: "list_all P s \<Longrightarrow> r = [] \<or> \<not> P (hd r) \<Longrightarrow> takeWhile P (s @ r) = s \<and> dropWhile P (s @ r) = r"
  by (induction s) (cases r; simp)+

text \<open>The pieces of a URL with a scheme, an authority and a path.\<close>

lemma urlsplit_plain:
  assumes "list_all path_char a" "CHR ''/'' \<notin> set a" "CHR ''?'' \<notin> set a" "CHR ''#'' \<notin> set a" "plain_path r" "netloc_ok e a"
  obtains p where "urlsplit e (''http://'' @ a @ r) = Some p" "up_scheme p = ''http''" "up_netloc p = a"
proof -
  let ?t = "''http://'' @ a @ r"
  have "list_all path_char ?t" using assms(1,5) by (simp add: plain_path_def path_char_def ordc_def)
  then have c: "url_clean ?t = ?t" by (rule visible_text)
  have s: "split_scheme ?t = (''http'', ''//'' @ a @ r)"
    by (simp add: split_scheme_def before_char_def after_char_def is_letter_def is_scheme_char_def ordc_def lower_def lower_char_def)
  have "list_all (\<lambda>c. c \<notin> set ''/?#'') a" using assms(2-4) by (auto simp: list_all_iff)
  moreover have "r = [] \<or> \<not> hd r \<notin> set ''/?#''" using assms(5) by (auto simp: plain_path_def)
  ultimately have "takeWhile (\<lambda>c. c \<notin> set ''/?#'') (a @ r) = a" using takeWhile_upto by blast
  then have "\<exists>p. urlsplit e ?t = Some p \<and> up_scheme p = ''http'' \<and> up_netloc p = a"
    using assms(6) unfolding urlsplit_def c s by (simp add: Let_def startswith_def)
  then show thesis using that by blast
qed

lemma strip_brackets_id: "CHR ''['' \<notin> set s \<Longrightarrow> CHR '']'' \<notin> set s \<Longrightarrow> strip_brackets s = s"
proof -
  have d: "dropWhile (\<lambda>c. c \<in> set ''[]'') u = u" if "CHR ''['' \<notin> set u" "CHR '']'' \<notin> set u" for u
    using that by (cases u) auto
  assume "CHR ''['' \<notin> set s" "CHR '']'' \<notin> set s"
  then show ?thesis using d[of s] d[of "rev s"] by (simp add: strip_brackets_def)
qed

lemma before_char_id:
  assumes "c \<notin> set s"
  shows "before_char c s = s" "after_char c s = []"
proof -
  note c = assms
  show "before_char c s = s" unfolding before_char_def by (rule takeWhile_eq_all_conv[THEN iffD2]) (use c in auto)
  have "dropWhile (\<lambda>x. x \<noteq> c) s = []" using c by auto
  then show "after_char c s = []" unfolding after_char_def by (simp only: drop_Nil)
qed

lemma before_char_append: "c \<notin> set s \<Longrightarrow> before_char c (s @ c # r) = s" "c \<notin> set s \<Longrightarrow> after_char c (s @ c # r) = r"
  by (auto simp: before_char_def after_char_def takeWhile_append dropWhile_append)

text \<open>The two shapes of authority: a bare host, and an address in brackets.\<close>

lemma bare_authority:
  assumes "list_all host_char s"
  shows "netloc_ok e s" "url_hostname s = s" "port_ok s"
proof -
  note f = host_char_facts[OF assms]
  have r: "rpartition_on (CHR ''@'') s = None" using f(6) by simp
  have i: "host_info s = (s, [])" unfolding host_info_def r Let_def using f by (simp add: before_char_id)
  have z: "dropWhile (\<lambda>c. c \<noteq> CHR ''%'') s = []" using f(10) by auto
  show "netloc_ok e s" using f visible_text(2)[OF f(1)] by (simp add: netloc_ok_def)
  show "url_hostname s = s" "port_ok s" using f z by (simp_all add: url_hostname_def port_ok_def i before_char_id)
qed

lemma bracketed_authority:
  assumes "CHR '']'' \<notin> set h" "CHR ''['' \<notin> set h" "CHR ''@'' \<notin> set h" "CHR ''%'' \<notin> set h" "lower h = h" "list_all is_ascii h" "bracketed_host h"
  shows "netloc_ok e (''['' @ h @ '']'')" "url_hostname (''['' @ h @ '']'') = h" "port_ok (''['' @ h @ '']'')"
proof -
  have b: "after_char (CHR ''['') (''['' @ h @ '']'') = h @ '']''" by (simp add: after_char_def)
  have c: "before_char (CHR '']'') (h @ '']'') = h" "after_char (CHR '']'') (h @ '']'') = []"
    using before_char_append[OF assms(1), of "[]"] by simp_all
  have r: "rpartition_on (CHR ''@'') (''['' @ h @ '']'') = None" using assms(3) by simp
  have "host_info (''['' @ h @ '']'') = (before_char (CHR '']'') (h @ '']''), after_char (CHR '':'') (after_char (CHR '']'') (h @ '']'')))"
    unfolding host_info_def r option.case Let_def b by simp
  then have i: "host_info (''['' @ h @ '']'') = (h, [])" unfolding c by (simp add: after_char_def)
  have z: "dropWhile (\<lambda>c. c \<noteq> CHR ''%'') h = []" using assms(4) by auto
  show "netloc_ok e (''['' @ h @ '']'')" unfolding netloc_ok_def b c using assms(6,7) by (simp add: is_ascii_def ordc_def)
  show "url_hostname (''['' @ h @ '']'') = h" "port_ok (''['' @ h @ '']'')"
    unfolding url_hostname_def port_ok_def i using assms(4,5) z by (simp_all add: before_char_id)
qed

lemma split_url_host:
  assumes "list_all path_char a" "CHR ''/'' \<notin> set a" "CHR ''?'' \<notin> set a" "CHR ''#'' \<notin> set a" "plain_path r"
    and "netloc_ok e a" "url_hostname a = h" "port_ok a" "strip_brackets h = h" "lower h = h" "CHR 0x00 \<notin> set h"
  shows "\<exists>p. split_url e (''http://'' @ a @ r) = Some (''http://'' @ a @ r, p, h) \<and> up_scheme p = ''http''"
proof -
  let ?t = "''http://'' @ a @ r"
  obtain p where p: "urlsplit e ?t = Some p" "up_scheme p = ''http''" "up_netloc p = a"
    using urlsplit_plain[OF assms(1-6)] by blast
  have v: "list_all path_char ?t" using assms(1,5) by (simp add: plain_path_def path_char_def ordc_def)
  note t = visible_text[OF v]
  have "split_url e ?t = Some (?t, p, h)"
    unfolding split_url_def Let_def t(1) p(1) using utf8_ok_ascii[OF t(2)] t(4) p(3) assms(7-11) by simp
  then show ?thesis using p(2) by blast
qed

text \<open>Dotted, decimal, hexadecimal, and mapped into version 6 in brackets.\<close>

definition spellings :: "32 word \<Rightarrow> string list" where
  "spellings w = [show_v4 w, show_nat (unat w), ''0x'' @ show_hex (unat w), ''[::ffff:'' @ show_v4 w @ '']'']"

definition denotes :: "string \<Rightarrow> 32 word \<Rightarrow> bool" where
  \<comment> \<open>a host text that reads as the address and is none of the special names\<close>
  "denotes h w \<longleftrightarrow> (\<forall>aton. ip_from_host aton h = Some (V4 w)) \<and> h \<noteq> [] \<and> h \<notin> set blocked_hosts
     \<and> (h \<in> set loopback_names \<longrightarrow> h = ''127.0.0.1'') \<and> strip_brackets h = h \<and> lower h = h \<and> list_all path_char h"

lemma host_char_no_name:
  assumes "list_all host_char h" "h \<noteq> []" "is_digit (hd h)" "\<And>aton. ip_from_host aton h = Some (V4 w)"
  shows "denotes h w"
proof -
  have "h \<notin> set blocked_hosts" "h \<in> set loopback_names \<Longrightarrow> h = ''127.0.0.1''"
    using assms(3) by (auto simp: blocked_hosts_def loopback_names_def is_digit_def ordc_def)
  then show ?thesis using assms host_char_facts[OF assms(1)] strip_brackets_id by (simp add: denotes_def)
qed

lemma show_nat_hd_digit: "is_digit (hd (show_nat n))"
  using show_nat_digits[of n] by (cases "show_nat n") auto

lemma bare_denotes: "denotes (show_v4 w) w" "denotes (show_nat (unat w)) w" "denotes (''0x'' @ show_hex (unat w)) w"
  "list_all host_char (show_v4 w)" "list_all host_char (show_nat (unat w))" "list_all host_char (''0x'' @ show_hex (unat w))"
proof -
  show c: "list_all host_char (show_v4 w)" "list_all host_char (show_nat (unat w))" "list_all host_char (''0x'' @ show_hex (unat w))"
    using show_v4_chars[of w] show_nat_digits[of "unat w"] show_hex_chars[of "unat w"]
    by (auto simp: list_all_iff host_char_def hex_char_def v4_char_def, auto simp: is_digit_def ordc_def)
  obtain r where "show_v4 w = show_nat (unat w div 16777216) @ CHR ''.'' # r" by (rule show_v4_parts)
  then have "show_v4 w \<noteq> []" "is_digit (hd (show_v4 w))" using show_nat_hd_digit by simp_all
  then show "denotes (show_v4 w) w" by (rule host_char_no_name[OF c(1)]) (rule ip_from_dotted)
  show "denotes (show_nat (unat w)) w" by (rule host_char_no_name[OF c(2)]) (simp_all add: show_nat_hd_digit ip_from_decimal)
  show "denotes (''0x'' @ show_hex (unat w)) w"
    by (rule host_char_no_name[OF c(3)]) (use ip_from_hex in \<open>simp_all add: is_digit_def ordc_def\<close>)
qed

lemma mapped_denotes: "denotes (''::ffff:'' @ show_v4 w) w"
proof -
  have v: "list_all host_char (show_v4 w)" by (rule bare_denotes)
  note f = host_char_facts[OF v]
  have "strip_brackets (''::ffff:'' @ show_v4 w) = ''::ffff:'' @ show_v4 w" using f by (intro strip_brackets_id) simp_all
  moreover have "lower (''::ffff:'' @ show_v4 w) = ''::ffff:'' @ show_v4 w"
    using f(2) by (simp add: lower_def lower_char_def ordc_def)
  moreover have "list_all path_char (''::ffff:'' @ show_v4 w)" using f(1) by (simp add: path_char_def ordc_def)
  ultimately show ?thesis using ip_from_mapped by (simp add: denotes_def blocked_hosts_def loopback_names_def)
qed

lemma split_url_spelling:
  assumes "a \<in> set (spellings w)" "plain_path r"
  obtains p h where "split_url e (''http://'' @ a @ r) = Some (''http://'' @ a @ r, p, h)" "up_scheme p = ''http''" "denotes h w"
proof -
  consider "list_all host_char a" "denotes a w" | "a = ''['' @ (''::ffff:'' @ show_v4 w) @ '']''"
    using assms(1) bare_denotes[of w] by (auto simp: spellings_def)
  then show thesis
  proof cases
    case 1
    note f = host_char_facts[OF 1(1)]
    show ?thesis using split_url_host[OF f(1,3-5) assms(2) bare_authority[OF 1(1)], of e] 1(2) f that by (auto simp: denotes_def)
  next
    case 2
    let ?h = "''::ffff:'' @ show_v4 w"
    note f = host_char_facts[OF bare_denotes(4)[of w]]
    have d: "denotes ?h w" "list_all path_char ?h" "lower ?h = ?h" "strip_brackets ?h = ?h"
      using mapped_denotes by (simp_all add: denotes_def)
    have no: "CHR '']'' \<notin> set ?h" "CHR ''['' \<notin> set ?h" "CHR ''@'' \<notin> set ?h" "CHR ''%'' \<notin> set ?h" "CHR 0x00 \<notin> set ?h"
      using f by simp_all
    have "bracketed_host ?h" unfolding bracketed_host_def ip_address_mapped by (simp add: startswith_def)
    note b = bracketed_authority[OF no(1-4) d(3) visible_text(2)[OF d(2)] this]
    have "list_all path_char a" "CHR ''/'' \<notin> set a" "CHR ''?'' \<notin> set a" "CHR ''#'' \<notin> set a"
      unfolding 2 using f d(2) by (simp_all add: path_char_def ordc_def)
    from split_url_host[OF this assms(2), of e ?h] show ?thesis using b no(5) d that unfolding 2 by blast
  qed
qed

lemma loopback_address: "denotes ''127.0.0.1'' w \<Longrightarrow> ip_is_local (V4 w)"
proof -
  assume "denotes ''127.0.0.1'' w"
  then have "ip_from_host (\<lambda>_. None) ''127.0.0.1'' = Some (V4 w)" by (simp add: denotes_def)
  moreover have "ip_from_host (\<lambda>_. None) ''127.0.0.1'' = Some (V4 2130706433)"
  proof -
    have "show_v4 2130706433 = ''127.0.0.1''"
      by (simp add: show_v4_def octets_def show_nat.simps digit_char_def char_of_def bit_Suc_0_iff)
    then show ?thesis using ip_from_dotted[of _ 2130706433] by simp
  qed
  moreover have "ip_is_local (V4 2130706433)" by (simp add: ip_is_local_def in_network_def v4_of_octets_def)
  ultimately show ?thesis by simp
qed

text \<open>
  C27: a spelling never decides. An origin whose host is an address of version 4, written with dots,
  as one decimal or one hexadecimal number, or mapped into version 6, is local exactly when the address
  is, and may be a webhook's exactly when the address is not blocked.
\<close>

theorem origin_judged_by_address:
  assumes "a \<in> set (spellings w)" "plain_path r"
  shows "local_http_origin e (''http://'' @ a @ r)
      = (if ip_is_local (V4 w) then Some (rstrip_char (CHR ''/'') (''http://'' @ a @ r)) else None)
    \<and> (is_allowed_webhook_url e resolve (''http://'' @ a @ r) \<longleftrightarrow> \<not> webhook_ip_blocked (Some (V4 w)))"
proof -
  obtain p h where p: "split_url e (''http://'' @ a @ r) = Some (''http://'' @ a @ r, p, h)" "up_scheme p = ''http''" "denotes h w"
    using split_url_spelling[OF assms] by blast
  have d: "ip_from_host (ne_aton e) h = Some (V4 w)" "h \<noteq> []" "h \<notin> set blocked_hosts"
    "h \<in> set loopback_names \<Longrightarrow> ip_is_local (V4 w)"
    using p(3) loopback_address by (auto simp: denotes_def)
  have u: "utf8_host h = Some h"
    using p(3) visible_text(2,4)[of h] utf8_ok_ascii[of h] by (simp add: denotes_def utf8_host_def)
  show ?thesis
    unfolding local_http_origin_def is_allowed_webhook_url_def is_allowed_notify_host_def p(1) option.case prod.case
    using d u p(2) by auto
qed

section \<open>Which addresses are local\<close>

lemma in_network_unat:
  "in_network base len w \<longleftrightarrow> unat w div 2 ^ (32 - len) = unat base div 2 ^ (32 - len)" for w :: "32 word"
proof -
  have "drop_bit k w = drop_bit k base \<longleftrightarrow> unat (drop_bit k w) = unat (drop_bit k base)" for k by (rule word_unat_eq_iff)
  then show ?thesis unfolding in_network_def by (simp add: unat_drop_bit_eq drop_bit_nat_def)
qed

lemma unat_v4: "a < 256 \<Longrightarrow> b < 256 \<Longrightarrow> c < 256 \<Longrightarrow> d < 256 \<Longrightarrow>
    unat (v4_of_octets a b c d) = ((a * 256 + b) * 256 + c) * 256 + d"
  unfolding v4_of_octets_def by (simp add: unsigned_of_nat take_bit_nat_eq_self del: of_nat_add of_nat_mult)

definition local_v4_ranges :: "(nat \<times> nat) list" where
  \<comment> \<open>0/8 less 0.0.0.0, 10/8, 127/8, 172.16/12, 192.0.0/24 less .9, .10 and .192, 192.0.2/24, 192.168/16,
     198.18/15, 198.51.100/24 and 203.0.113/24\<close>
  "local_v4_ranges =
     [(1, 16777215), (167772160, 184549375), (2130706432, 2147483647), (2886729728, 2887778303),
      (3221225472, 3221225480), (3221225483, 3221225663), (3221225665, 3221225727), (3221225984, 3221226239),
      (3232235520, 3232301055), (3323068416, 3323199487), (3325256704, 3325256959), (3405803776, 3405804031)]"

lemma div_range: "0 < k \<Longrightarrow> n div k = q \<longleftrightarrow> q * k \<le> n \<and> n < (q + 1) * k" for n k q :: nat
  by (metis Suc_eq_plus1 div_less_iff_less_mult le_antisym less_eq_div_iff_mult_less_eq lessI not_less_eq_eq order_less_le)

text \<open>
  C29: exactly these addresses of version 4 are local. Loopback and the private networks of RFC 1918, but
  also the rest of 0/8, the documentation and benchmarking networks and 192.0.0/24 less three
  addresses; no metadata service, no link-local, multicast or reserved address is among them.
\<close>

theorem local_v4_exact:
  "ip_is_local (V4 w) \<longleftrightarrow> list_ex (\<lambda>(lo, hi). lo \<le> unat w \<and> unat w \<le> hi) local_v4_ranges"
proof -
  have eq: "w = v4_of_octets a b c d \<longleftrightarrow> unat w = unat (v4_of_octets a b c d)" for a b c d by (rule word_unat_eq_iff)
  have z: "w = 0 \<longleftrightarrow> unat w = 0" by (simp add: unat_eq_0)
  show ?thesis
    unfolding ip_is_local_def
    by (simp add: blocked_ips_def in_any_def v4_private_def v4_public_def in_network_unat eq z unat_v4 local_v4_ranges_def div_range)
      presburger
qed

section \<open>The peer of a connection\<close>

lemma local_peers_all:
  "local_peers e as acc = Some peers \<Longrightarrow> list_all ip_is_local acc \<Longrightarrow>
    list_all ip_is_local peers \<and> set peers = set acc \<union> {i. \<exists>a \<in> set as. ip_from_host (ne_aton e) a = Some i}
    \<and> (\<forall>a \<in> set as. \<exists>i. ip_from_host (ne_aton e) a = Some i \<and> ip_is_local i)"
proof (induction as arbitrary: acc)
  case (Cons a as)
  then obtain i where i: "ip_from_host (ne_aton e) a = Some i" "ip_is_local i"
    "local_peers e as (if i \<in> set acc then acc else acc @ [i]) = Some peers"
    by (auto split: option.splits if_splits)
  then show ?case using Cons.IH[OF i(3)] Cons.prems(2) by (auto split: if_splits)
qed simp

lemma notify_peers_all:
  "notify_peers e as acc = Some peers \<Longrightarrow> list_all (\<lambda>i. \<not> webhook_ip_blocked (Some i)) acc \<Longrightarrow>
    list_all (\<lambda>i. \<not> webhook_ip_blocked (Some i)) peers
    \<and> set peers = set acc \<union> {i. \<exists>a \<in> set as. ip_from_host (ne_aton e) a = Some i}
    \<and> (\<forall>a \<in> set as. \<not> webhook_ip_blocked (ip_from_host (ne_aton e) a))"
proof (induction as arbitrary: acc)
  case (Cons a as)
  show ?case
  proof (cases "ip_from_host (ne_aton e) a")
    case None
    then have "notify_peers e as acc = Some peers" using Cons.prems(1) by simp
    from Cons.IH[OF this Cons.prems(2)] show ?thesis using None by (auto simp: webhook_ip_blocked_def)
  next
    case (Some i)
    then have i: "\<not> webhook_ip_blocked (Some i)" "notify_peers e as (if i \<in> set acc then acc else acc @ [i]) = Some peers"
      using Cons.prems(1) by (auto split: if_splits)
    then show ?thesis using Cons.IH[OF i(2)] Cons.prems(2) Some by (auto split: if_splits)
  qed
qed simp

text \<open>Where a peer comes from: the text itself, an answer of the one lookup, or a name of the local network.\<close>

definition peer_source :: "net_env \<Rightarrow> string \<Rightarrow> peer \<Rightarrow> bool" where
  "peer_source e host p \<longleftrightarrow>
     (case p of
        Address i \<Rightarrow> ip_from_host (ne_aton e) host = Some i
                     \<or> (\<exists>a \<in> set (answers (ne_lookup e host)). ip_from_host (ne_aton e) a = Some i)
      | HostName n \<Rightarrow> n = host \<and> lan_name e host \<and> answers (ne_lookup e host) = [])"

lemma first_peer_in: "first_peer ps = Some p \<Longrightarrow> \<exists>i js. ps = Some (i # js) \<and> p = Address i"
  by (auto simp: first_peer_def split: option.splits list.splits)

definition judged :: "net_env \<Rightarrow> (ip option \<Rightarrow> bool) \<Rightarrow> string \<Rightarrow> peer \<Rightarrow> bool" where
  \<comment> \<open>the address passed, and when the name was looked up so did every answer; a name that stays a name
    was never judged: it is one of the local network whose lookup answered nothing\<close>
  "judged e ok host p \<longleftrightarrow>
     (case p of
        Address i \<Rightarrow> ok (Some i)
          \<and> (ip_from_host (ne_aton e) host = None \<longrightarrow> list_all (\<lambda>a. ok (ip_from_host (ne_aton e) a)) (answers (ne_lookup e host)))
      | HostName n \<Rightarrow> n = host \<and> lan_name e host \<and> ip_from_host (ne_aton e) host = None \<and> answers (ne_lookup e host) = [])"

definition local_address :: "ip option \<Rightarrow> bool" where
  "local_address i \<longleftrightarrow> (case i of None \<Rightarrow> False | Some a \<Rightarrow> ip_is_local a)"

text \<open>
  The exception is not harmless. A name whose lookup fails is handed out as it is, whatever it would resolve to, and
  the connection looks it up again: that answer is judged by nobody.
\<close>

lemma unresolved_name_unjudged:
  assumes "utf8_host raw = Some host" "host \<notin> set blocked_hosts" "ip_from_host (ne_aton e) host = None" "lan_name e host"
    and "answers (ne_lookup e host) = []"
  shows "local_connect_peer e raw = Some (HostName host) \<and> notify_connect_peer e raw = Some (HostName host)"
  using assms by (simp add: local_connect_peer_def notify_connect_peer_def)

text \<open>
  C28: whom the panel connects to was judged, but for one kind of name. When the peer is an address, that
  of a local daemon is local, and so is every address the lookup gave; that of a notification is not
  blocked, and neither is any answer of the lookup; and it is the host text itself or an answer of the one
  lookup, so it is not looked up again. When the peer is a name, it is the host text, a name of the local network
  whose lookup answered nothing: no address of it was judged, and connecting looks it up again.
\<close>

theorem peers_were_judged:
  "(local_connect_peer e raw = Some p \<longrightarrow>
      (\<exists>host. utf8_host raw = Some host \<and> host \<notin> set blocked_hosts \<and> peer_source e host p \<and> judged e local_address host p))
   \<and> (notify_connect_peer e raw = Some p \<longrightarrow>
      (\<exists>host. utf8_host raw = Some host \<and> host \<notin> set blocked_hosts \<and> peer_source e host p
        \<and> judged e (\<lambda>i. \<not> webhook_ip_blocked i) host p))"
proof (intro conjI impI)
  assume l: "local_connect_peer e raw = Some p"
  then obtain host where h: "utf8_host raw = Some host" "host \<notin> set blocked_hosts"
    by (auto simp: local_connect_peer_def split: option.splits if_splits)
  have "peer_source e host p \<and> judged e local_address host p"
  proof (cases "ip_from_host (ne_aton e) host")
    case None
    show ?thesis
    proof (cases "answers (ne_lookup e host) = []")
      case False
      then have "first_peer (local_peers e (answers (ne_lookup e host)) []) = Some p"
        using l h None by (simp add: local_connect_peer_def)
      from first_peer_in[OF this] obtain i js where i: "local_peers e (answers (ne_lookup e host)) [] = Some (i # js)" "p = Address i" by blast
      show ?thesis using local_peers_all[OF i(1)] i(2) None
        by (auto simp: peer_source_def judged_def local_address_def list_all_iff split: option.split)
    qed (use l h None in \<open>auto simp: local_connect_peer_def peer_source_def judged_def split: if_splits\<close>)
  qed (use l h in \<open>auto simp: local_connect_peer_def peer_source_def judged_def local_address_def split: if_splits\<close>)
  then show "\<exists>host. utf8_host raw = Some host \<and> host \<notin> set blocked_hosts \<and> peer_source e host p \<and> judged e local_address host p"
    using h by blast
next
  assume l: "notify_connect_peer e raw = Some p"
  then obtain host where h: "utf8_host raw = Some host" "host \<notin> set blocked_hosts"
    by (auto simp: notify_connect_peer_def split: option.splits if_splits)
  have "peer_source e host p \<and> judged e (\<lambda>i. \<not> webhook_ip_blocked i) host p"
  proof (cases "ip_from_host (ne_aton e) host")
    case None
    show ?thesis
    proof (cases "answers (ne_lookup e host) = []")
      case False
      then have "first_peer (notify_peers e (answers (ne_lookup e host)) []) = Some p"
        using l h None by (simp add: notify_connect_peer_def)
      from first_peer_in[OF this] obtain i js where i: "notify_peers e (answers (ne_lookup e host)) [] = Some (i # js)" "p = Address i" by blast
      show ?thesis using notify_peers_all[OF i(1)] i(2) None by (auto simp: peer_source_def judged_def list_all_iff)
    qed (use l h None in \<open>auto simp: notify_connect_peer_def peer_source_def judged_def split: if_splits\<close>)
  qed (use l h in \<open>auto simp: notify_connect_peer_def peer_source_def judged_def split: if_splits\<close>)
  then show "\<exists>host. utf8_host raw = Some host \<and> host \<notin> set blocked_hosts \<and> peer_source e host p
      \<and> judged e (\<lambda>i. \<not> webhook_ip_blocked i) host p"
    using h by blast
qed

section \<open>A zone hides an address from the list\<close>

text \<open>
  The list of metadata addresses is compared with the address as \<open>ipaddress\<close> compares it, zone included:
  the version 6 metadata address with any zone is not on the list, and its network is private. The
  origin is accepted and the connection goes to the metadata service.
\<close>

lemma zoned_address: "ip_from_host aton ''fd00:ec2::254%1'' = Some (V6 (v6_net 64768 3778 0 0 + 596) (Some ''1''))"
proof -
  have p: "split_on (CHR '':'') ''fd00:ec2::254'' = [''fd00'', ''ec2'', [], ''254'']" by simp
  have h: "parse_hextet ''fd00'' = Some 64768" "parse_hextet ''ec2'' = Some 3778" "parse_hextet ''254'' = Some 596" "parse_hextet ''0'' = Some 0"
    by (simp_all add: parse_hextet_def is_hex_digit_def is_digit_def ordc_def hex_val_def hex_value_def)
  have r: "[1..<3] = [1, 2]" "replicate 5 ''0'' = [''0'', ''0'', ''0'', ''0'', ''0'']" by (simp_all add: upt_rec numeral_eq_Suc)
  have t: "ipv6_of_text ''fd00:ec2::254'' = Some (((64768 * 65536 + 3778) * 65536 ^ 6) + 596)"
    unfolding ipv6_of_text_def p Let_def by (simp add: ipv6_of_parts_def r h)
  have "ip_address ''fd00:ec2::254%1'' = Some (V6 (v6_net 64768 3778 0 0 + 596) (Some ''1''))"
    by (simp add: ip_address_def ipv4_of_text_def parse_octet_def isdigit_def is_digit_def ordc_def partition_on_def t v6_net_def)
  moreover have "drop_bit 32 (v6_net 64768 3778 0 0 + 596) \<noteq> 65535" by (simp add: v6_net_def)
  ultimately show ?thesis by (simp add: ip_from_host_def)
qed

lemma zoned_metadata_accepted:
  fixes e :: net_env
  defines "meta \<equiv> v6_net 64768 3778 0 0 + 596"
  shows "V6 meta None \<in> set blocked_ips"
    "ip_is_local (V6 meta (Some ''1''))" "\<not> webhook_ip_blocked (Some (V6 meta (Some ''1'')))"
    "local_connect_peer e ''fd00:ec2::254%1'' = Some (Address (V6 meta (Some ''1'')))"
proof -
  show "V6 meta None \<in> set blocked_ips" by (simp add: meta_def blocked_ips_def)
  show l: "ip_is_local (V6 meta (Some ''1''))"
    by (simp add: meta_def ip_is_local_def blocked_ips_def in_any_def v6_reserved_def v6_private_def v6_public_def in_network_def v6_net_def)
  show "\<not> webhook_ip_blocked (Some (V6 meta (Some ''1'')))"
    by (simp add: meta_def webhook_ip_blocked_def blocked_ips_def in_network_def v6_net_def)
  have "utf8_host ''fd00:ec2::254%1'' = Some ''fd00:ec2::254%1''" by code_simp
  then show "local_connect_peer e ''fd00:ec2::254%1'' = Some (Address (V6 meta (Some ''1'')))"
    using l unfolding meta_def by (simp add: local_connect_peer_def zoned_address blocked_hosts_def)
qed

section \<open>Examples\<close>

definition demo_env :: net_env where
  "demo_env = \<lparr>ne_aton = (\<lambda>_. None), ne_nfkc = (\<lambda>_. True), ne_letter = (\<lambda>_. False),
     ne_lookup = (\<lambda>n. if n = ''nas.lan'' then Answers [''10.0.0.5'', ''10.0.0.5''] else LookupFailed)\<rparr>"

lemma digits_metadata: "show_nat 2852039166 = ''2852039166''"
  by (simp add: show_nat.simps digit_char_def char_of_def bit_Suc_0_iff)

theorem origin_judged_by_address_witness:
  "local_http_origin demo_env (''http://'' @ ''2852039166'' @ ''/latest'') = None
    \<and> \<not> is_allowed_webhook_url demo_env True (''http://'' @ ''2852039166'' @ ''/latest'')"
proof -
  have s: "''2852039166'' \<in> set (spellings 2852039166)" by (simp add: spellings_def digits_metadata)
  have r: "plain_path ''/latest''" by (simp add: plain_path_def path_char_def ordc_def)
  have b: "V4 2852039166 \<in> set blocked_ips" by (simp add: blocked_ips_def v4_of_octets_def)
  then have "\<not> ip_is_local (V4 2852039166)" by (simp add: ip_is_local_def in_network_def v4_of_octets_def)
  then show ?thesis
    using origin_judged_by_address[OF s r, of demo_env True] b unfolding webhook_ip_blocked_def by (simp del: append.simps)
qed

lemma demo_address: "ip_from_host aton ''10.0.0.5'' = Some (V4 167772165)"
proof -
  have "show_v4 167772165 = ''10.0.0.5''"
    by (simp add: show_v4_def octets_def show_nat.simps digit_char_def char_of_def bit_Suc_0_iff)
  then show ?thesis using ip_from_dotted[of aton 167772165] by simp
qed

theorem peers_were_judged_witness:
  "local_connect_peer demo_env ''nas.lan'' = Some (Address (V4 167772165))
    \<and> peer_source demo_env ''nas.lan'' (Address (V4 167772165)) \<and> judged demo_env local_address ''nas.lan'' (Address (V4 167772165))"
proof -
  have h: "utf8_host ''nas.lan'' = Some ''nas.lan''" by code_simp
  have n: "ip_from_host (ne_aton demo_env) ''nas.lan'' = None"
    by (simp add: ip_from_host_def ip_address_def ipv4_of_text_def ipv6_of_text_def partition_on_def parse_octet_def isdigit_def
        is_digit_def ordc_def number_host_def hex_host_def demo_env_def)
  have "ip_is_local (V4 167772165)" by (simp add: ip_is_local_def in_network_def v4_of_octets_def blocked_ips_def
      in_any_def v4_private_def v4_public_def)
  then have "local_connect_peer demo_env ''nas.lan'' = Some (Address (V4 167772165))"
    using h n by (simp add: local_connect_peer_def blocked_hosts_def demo_env_def answers_def demo_address first_peer_def)
  then show ?thesis using peers_were_judged[of demo_env "''nas.lan''"] h by auto
qed

end
