(* ===== verification/Ws_Gate.thy ===== *)
theory Ws_Gate
  imports Http_Guard_Safety Sessions
begin

text \<open>
  The door of the privileged WebSockets (\<open>hub/websocket_security.py\<close>): a live administrator session
  and an origin whose authority is the request's host.
\<close>

definition origin_allowed :: "net_env \<Rightarrow> string option \<Rightarrow> string option \<Rightarrow> bool" where
  "origin_allowed e origin host =
     (case (origin, host) of
        (Some o', Some h) \<Rightarrow>
          o' \<noteq> [] \<and> h \<noteq> []
          \<and> (case urlsplit e o' of
               None \<Rightarrow> False
             | Some p \<Rightarrow>
                 up_scheme p \<in> {''http'', ''https''} \<and> up_netloc p \<noteq> [] \<and> CHR ''@'' \<notin> set (up_netloc p)
                 \<and> up_path p \<in> {[], ''/''} \<and> up_query p = [] \<and> up_fragment p = []
                 \<and> lower (up_netloc p) = lower (strip h))
      | _ \<Rightarrow> False)"

datatype socket_answer = Closed nat string | Opened string string

text \<open>The token is verified at one reading of the clock and its account read at the next.\<close>

definition authenticate_websocket ::
  "net_env \<Rightarrow> bytes \<Rightarrow> pydict \<Rightarrow> string option \<Rightarrow> string option \<Rightarrow> string option \<Rightarrow> (nat \<Rightarrow> rat) \<Rightarrow> socket_answer" where
  "authenticate_websocket e key a cookie origin host clock =
     (let token = (case cookie of None \<Rightarrow> [] | Some t \<Rightarrow> t) in
      if setup_required a \<or> \<not> verify_session key a token (clock 0) then Closed 4401 ''auth.login_required''
      else if \<not> origin_allowed e origin host then Closed 4403 ''auth.cross_site_denied''
      else
        (let user = session_username key a token (clock 1) in
         if user = [] then Closed 4401 ''auth.login_required''
         else if \<not> is_admin a user then Closed 4403 ''auth.admin_required''
         else Opened token user))"

section \<open>Origins\<close>

text \<open>An authority as a browser writes it into an origin.\<close>

definition plain_authority :: "string \<Rightarrow> bool" where
  "plain_authority au \<longleftrightarrow> au \<noteq> [] \<and> list_all path_char au \<and> list_all (\<lambda>c. c \<notin> set ''/?#@[]'') au"

lemma urlsplit_origin:
  assumes "plain_authority au" "s \<in> {''http'', ''https''}"
  shows "urlsplit e (s @ ''://'' @ au) = Some \<lparr>up_scheme = s, up_netloc = au, up_path = [], up_query = [], up_fragment = []\<rparr>"
proof -
  let ?t = "s @ ''://'' @ au"
  have a: "list_all path_char au" "list_all (\<lambda>c. c \<notin> set ''/?#'') au" "CHR ''['' \<notin> set au" "CHR '']'' \<notin> set au"
    using assms(1) by (auto simp: plain_authority_def list_all_iff)
  have "list_all path_char ?t" using a(1) assms(2) by (auto simp: path_char_def ordc_def)
  then have c: "url_clean ?t = ?t" by (rule visible_text)
  have sp: "split_scheme ?t = (s, ''//'' @ au)"
    using assms(2) by (auto simp: split_scheme_def before_char_def after_char_def is_letter_def is_scheme_char_def ordc_def
        lower_def lower_char_def)
  have n: "takeWhile (\<lambda>c. c \<noteq> CHR ''/'' \<and> c \<noteq> CHR ''?'' \<and> c \<noteq> CHR ''#'') au = au"
    "dropWhile (\<lambda>c. c \<noteq> CHR ''/'' \<and> c \<noteq> CHR ''?'' \<and> c \<noteq> CHR ''#'') au = []"
    using a(2) by (auto simp: takeWhile_eq_all_conv dropWhile_eq_Nil_conv list_all_iff)
  have "netloc_ok e au" using a visible_text(2)[OF a(1)] by (simp add: netloc_ok_def)
  then show ?thesis unfolding urlsplit_def c sp by (simp add: Let_def startswith_def n before_char_def)
qed

lemma origin_exact:
  assumes "plain_authority au" "s \<in> {''http'', ''https''}"
  shows "origin_allowed e (Some (s @ ''://'' @ au)) (Some h) \<longleftrightarrow> lower au = lower (strip h)"
proof -
  have n: "au \<noteq> []" "CHR ''@'' \<notin> set au" using assms(1) by (auto simp: plain_authority_def list_all_iff)
  have "h \<noteq> []" if "lower au = lower (strip h)"
  proof
    assume "h = []"
    then have "lower au = []" using that by (simp add: lower_def strip_def lstrip_def rstrip_def)
    then show False using n(1) by (simp add: lower_def)
  qed
  then show ?thesis
    unfolding origin_allowed_def prod.case option.case urlsplit_origin[OF assms] using n assms(2) by auto
qed

section \<open>Who gets in\<close>

text \<open>
  C30: a privileged socket is opened to a live administrator session only, on the host's own
  origin. The token is the cookie the browser sent, it verifies, the name it carries at the
  second reading of the clock is an administrator's, the server is set up, and the origin's authority is
  the request's host; the answer hands on that very token and name.
\<close>

theorem socket_needs_admin:
  assumes "authenticate_websocket e key a cookie origin host clock = Opened token user"
  shows "cookie = Some token \<and> \<not> setup_required a \<and> verify_session key a token (clock 0)
    \<and> user = session_username key a token (clock 1) \<and> user \<noteq> [] \<and> is_admin a user
    \<and> (\<exists>or h p. origin = Some or \<and> host = Some h \<and> urlsplit e or = Some p \<and> up_scheme p \<in> {''http'', ''https''}
         \<and> CHR ''@'' \<notin> set (up_netloc p) \<and> lower (up_netloc p) = lower (strip h))"
proof -
  have o: "origin_allowed e origin host" and v: "verify_session key a token (clock 0)"
    using assms by (auto simp: authenticate_websocket_def Let_def split: if_splits)
  have "cookie = Some token"
  proof (cases cookie)
    case None
    then have "verify_session key a [] (clock 0)"
      using assms by (auto simp: authenticate_websocket_def Let_def split: if_splits)
    then show ?thesis by (simp add: verify_session_def session_username_def)
  next
    case (Some c)
    then show ?thesis using assms by (auto simp: authenticate_websocket_def Let_def split: if_splits)
  qed
  then show ?thesis
    using assms o v by (auto simp: authenticate_websocket_def origin_allowed_def Let_def split: if_splits option.splits)
qed

text \<open>
  What the door answers the cookie created for an account, on an origin a browser writes.
  The session is dead from its expiry on, at whichever of the two readings of the clock; the origin
  is let in exactly when its authority is the host, letter case aside; and of the accounts let that far
  exactly the administrators get the socket. Nobody gets it before the server is set up.
\<close>

lemma admin_socket_exact:
  assumes "dict_get (accounts a) u \<noteq> None" "text_ok u" "reading t" "plain_authority au" "s \<in> {''http'', ''https''}"
  shows "authenticate_websocket e key a (Some (create_session key a u t)) (Some (s @ ''://'' @ au)) (Some h) clock
    = (let expiry = of_int (\<lfloor>t\<rfloor> + session_ttl) in
       if setup_required a \<or> expiry \<le> clock 0 then Closed 4401 ''auth.login_required''
       else if lower au \<noteq> lower (strip h) then Closed 4403 ''auth.cross_site_denied''
       else if expiry \<le> clock 1 then Closed 4401 ''auth.login_required''
       else if \<not> is_admin a u then Closed 4403 ''auth.admin_required''
       else Opened (create_session key a u t) u)"
proof -
  have "u \<noteq> []" using assms(1) account_epoch_key by blast
  then show ?thesis
    unfolding authenticate_websocket_def option.case Let_def origin_exact[OF assms(4,5)]
    using session_lifetime[OF assms(1-3), of key] by (auto simp: not_less)
qed

text \<open>The owner of the configuration with a member, on the panel's own origin, a second after signing in.\<close>

lemma owner_known: "dict_get (accounts (stored_auth family)) ''owner'' \<noteq> None" "text_ok ''owner''"
  "\<not> setup_required (stored_auth family)" "is_admin (stored_auth family) ''owner''"
  by code_simp+

lemma panel_authority: "plain_authority ''hub.lan:8000''"
  by (simp add: plain_authority_def path_char_def ordc_def)

lemma admin_socket_exact_witness:
  "let a = stored_auth family; token = create_session [] a ''owner'' 1700000000;
       answer = authenticate_websocket demo_env [] a (Some token) (Some (''http'' @ ''://'' @ ''hub.lan:8000'')) in
     answer (Some ''hub.lan:8000'') (\<lambda>_. 1700000001) = Opened token ''owner''
     \<and> answer (Some ''evil.example'') (\<lambda>_. 1700000001) = Closed 4403 ''auth.cross_site_denied''
     \<and> answer (Some ''hub.lan:8000'') (\<lambda>_. 1700604800) = Closed 4401 ''auth.login_required''"
proof -
  have h: "strip ''hub.lan:8000'' = ''hub.lan:8000''" "lower ''hub.lan:8000'' \<noteq> lower (strip ''evil.example'')" by code_simp+
  note x = admin_socket_exact[OF owner_known(1,2) reading_2023 panel_authority, of "''http''" demo_env "[]"]
  show ?thesis
    unfolding Let_def x[OF insertI1] by (simp add: h owner_known session_ttl_def)
qed

theorem socket_needs_admin_witness:
  "\<exists>token. verify_session [] (stored_auth family) token 1700000001 \<and> is_admin (stored_auth family) ''owner''"
proof -
  let ?a = "stored_auth family" and ?o = "''http'' @ ''://'' @ ''hub.lan:8000''" and ?h = "''hub.lan:8000''"
  let ?k = "create_session [] ?a ''owner'' 1700000000"
  have o: "origin_allowed demo_env (Some ?o) (Some ?h)"
    by (subst origin_exact[OF panel_authority insertI1]) code_simp
  have v: "verify_session [] ?a ?k 1700000001" "session_username [] ?a ?k 1700000001 = ''owner''"
    using session_lifetime[OF owner_known(1,2) reading_2023, of "[]" 1700000001] by (simp_all add: session_ttl_def)
  have "authenticate_websocket demo_env [] ?a (Some ?k) (Some ?o) (Some ?h) (\<lambda>_. 1700000001) = Opened ?k ''owner''"
    unfolding authenticate_websocket_def option.case Let_def using o v owner_known by simp
  from socket_needs_admin[OF this] show ?thesis by blast
qed

end
