(* ===== verification/Py_Double.thy ===== *)
theory Py_Double
  imports Ups_Power
begin

text \<open>
  Python's \<open>float\<close> where its rounding shows: the value \<open>float(v)\<close> of what a document holds, the
  difference of two floats, and the fixed-point text without decimals. A double stands as the rational it
  denotes.
\<close>

section \<open>Rounding\<close>

text \<open>
  The double nearest to a non-negative number, ties to even: 53 significant bits of a multiple of the
  smallest double.
\<close>

definition round_double :: "rat \<Rightarrow> rat" where
  "round_double x =
     (let y = x * 2 ^ 1074; k = bit_width (nat \<lfloor>y\<rfloor>) - 53
      in of_int (round_half_even (y / 2 ^ k)) * 2 ^ k / 2 ^ 1074)"

datatype dbl = DFin rat | DInf | DNegInf | DNan

definition to_double :: "rat \<Rightarrow> dbl" where
  "to_double x =
     (let r = round_double \<bar>x\<bar> in
      if 2 ^ 1024 \<le> r then (if x < 0 then DNegInf else DInf) else DFin (if x < 0 then - r else r))"

fun dbl_of_float :: "pyfloat \<Rightarrow> dbl" where
  "dbl_of_float (FDec m e) = to_double (float_rat m e)"
| "dbl_of_float FInf = DInf"
| "dbl_of_float FNegInf = DNegInf"
| "dbl_of_float FNan = DNan"

fun dbl_le :: "dbl \<Rightarrow> dbl \<Rightarrow> bool" where
  "dbl_le DNan _ \<longleftrightarrow> False"
| "dbl_le _ DNan \<longleftrightarrow> False"
| "dbl_le DNegInf _ \<longleftrightarrow> True"
| "dbl_le _ DInf \<longleftrightarrow> True"
| "dbl_le (DFin a) (DFin b) \<longleftrightarrow> a \<le> b"
| "dbl_le _ _ \<longleftrightarrow> False"

fun finite_dbl :: "dbl \<Rightarrow> rat option" where
  "finite_dbl (DFin r) = Some r"
| "finite_dbl _ = None"

text \<open>Small whole numbers are doubles.\<close>

lemma round_half_even_int: "round_half_even (of_int i) = i"
  by (simp add: round_half_even_def)

lemma round_double_dyadic:
  assumes "n < 2 ^ 53" "j \<le> 1074"
  shows "round_double (of_nat n / 2 ^ j) = of_nat n / 2 ^ j"
proof -
  define i where "i = 1074 - j"
  define k where "k = bit_width (n * 2 ^ i) - 53"
  have "n * 2 ^ i < 2 ^ 53 * 2 ^ i" using assms(1) by (intro mult_strict_right_mono) simp_all
  then have "n * 2 ^ i < 2 ^ (53 + i)" unfolding power_add .
  from bit_width_le[OF this] have k: "k \<le> i" by (simp add: k_def)
  have e: "(2::rat) ^ 1074 = 2 ^ i * 2 ^ j" using assms(2) by (simp add: i_def flip: power_add)
  have y: "(of_nat n / 2 ^ j :: rat) * 2 ^ 1074 = of_nat (n * 2 ^ i)"
    unfolding e by simp
  have p: "(2::rat) ^ i = 2 ^ (i - k) * 2 ^ k" using k by (simp flip: power_add)
  have "(of_nat (n * 2 ^ i) :: rat) / 2 ^ k = of_int (int n * 2 ^ (i - k))"
    unfolding of_nat_mult of_nat_power of_nat_numeral p by simp
  then have r: "round_half_even ((of_nat (n * 2 ^ i) :: rat) / 2 ^ k) = int n * 2 ^ (i - k)"
    using round_half_even_int by metis
  have f: "nat \<lfloor>(of_nat (n * 2 ^ i) :: rat)\<rfloor> = n * 2 ^ i" by (simp only: floor_of_nat nat_int)
  have "round_double (of_nat n / 2 ^ j) = of_int (int n * 2 ^ (i - k)) * 2 ^ k / 2 ^ 1074"
    unfolding round_double_def y Let_def f k_def[symmetric] r ..
  also have "\<dots> = of_nat n * 2 ^ i / 2 ^ 1074" unfolding p by simp
  also have "\<dots> = of_nat n / 2 ^ j" unfolding e by simp
  finally show ?thesis .
qed

lemma to_double_dyadic:
  assumes "n < 2 ^ 53" "j \<le> 1074"
  shows "to_double (of_nat n / 2 ^ j) = DFin (of_nat n / 2 ^ j)"
proof -
  have "n < 2 ^ 1024" using assms(1) by (rule less_le_trans) (intro power_increasing; simp)
  then have "(of_nat n :: rat) < 2 ^ 1024" by (metis of_nat_less_iff of_nat_numeral of_nat_power)
  moreover have "(of_nat n :: rat) / 2 ^ j \<le> of_nat n" by (simp add: divide_le_eq mult_le_cancel_left1)
  ultimately have "\<not> 2 ^ 1024 \<le> (of_nat n / 2 ^ j :: rat)" by linarith
  moreover have nn: "\<not> (of_nat n / 2 ^ j :: rat) < 0" by (simp add: not_less)
  moreover have "\<bar>of_nat n / 2 ^ j :: rat\<bar> = of_nat n / 2 ^ j" by simp
  ultimately show ?thesis unfolding to_double_def Let_def by (simp only: round_double_dyadic[OF assms] if_False)
qed

lemma to_double_nat: "n < 2 ^ 53 \<Longrightarrow> to_double (of_nat n) = DFin (of_nat n)"
  using to_double_dyadic[of n 0] by simp

lemma to_double_numeral: "(numeral w :: nat) < 2 ^ 53 \<Longrightarrow> to_double (numeral w) = DFin (numeral w)"
  using to_double_nat[of "numeral w"] by simp

lemma to_double_one: "to_double 0 = DFin 0" "to_double 1 = DFin 1"
  using to_double_nat[of 0] to_double_nat[of 1] by simp_all

lemma to_double_half: "to_double (1 / 2) = DFin (1 / 2)"
  using to_double_dyadic[of 1 1] by simp

section \<open>Reading\<close>

text \<open>
  The text of a float: \<open>inf\<close>, \<open>infinity\<close> or \<open>nan\<close> in any case, or digits with at most one point and
  an exponent, after an optional sign; an underscore may stand between two digits.
\<close>

fun drop_underscores :: "bool \<Rightarrow> string \<Rightarrow> string option" where
  \<comment> \<open>the flag: the character before was a digit\<close>
  "drop_underscores _ [] = Some []"
| "drop_underscores d (c # cs) =
     (if c = CHR ''_''
      then (if d \<and> cs \<noteq> [] \<and> is_digit (hd cs) then drop_underscores False cs else None)
      else map_option (Cons c) (drop_underscores (is_digit c) cs))"

definition exponent_of :: "string \<Rightarrow> int option" where
  "exponent_of s =
     (case s of
        [] \<Rightarrow> Some 0
      | c # cs \<Rightarrow>
          if lower_char c = CHR ''e'' then
            (let neg = startswith cs ''-''; ds = (if neg \<or> startswith cs ''+'' then drop 1 cs else cs)
             in if isdigit ds then Some (if neg then - int (digits_val ds) else int (digits_val ds)) else None)
          else None)"

definition unsigned_float :: "string \<Rightarrow> dbl option" where
  "unsigned_float s =
     (if lower s = ''inf'' \<or> lower s = ''infinity'' then Some DInf
      else if lower s = ''nan'' then Some DNan
      else
        (case drop_underscores False s of
           None \<Rightarrow> None
         | Some s \<Rightarrow>
             (let whole = takeWhile is_digit s; r = dropWhile is_digit s;
                  frac = (if startswith r ''.'' then takeWhile is_digit (drop 1 r) else []);
                  r = (if startswith r ''.'' then dropWhile is_digit (drop 1 r) else r)
              in if whole = [] \<and> frac = [] then None
                 else map_option
                   (\<lambda>x. to_double (float_rat (int (digits_val (whole @ frac))) (x - int (length frac)))) (exponent_of r))))"

fun dbl_minus :: "dbl \<Rightarrow> dbl" where
  "dbl_minus (DFin r) = DFin (- r)"
| "dbl_minus DInf = DNegInf"
| "dbl_minus DNegInf = DInf"
| "dbl_minus DNan = DNan"

definition float_of_text :: "string \<Rightarrow> dbl option" where
  "float_of_text s =
     (case strip s of
        [] \<Rightarrow> None
      | c # cs \<Rightarrow>
          if c = CHR ''-'' then map_option dbl_minus (unsigned_float cs)
          else if c = CHR ''+'' then unsigned_float cs
          else unsigned_float (c # cs))"

text \<open>\<open>float(v)\<close>.\<close>

fun py_float :: "pyval \<Rightarrow> dbl result" where
  "py_float (PBool b) = Inr (DFin (if b then 1 else 0))"
| "py_float (PInt i) = (case to_double (of_int i) of DFin r \<Rightarrow> Inr (DFin r) | _ \<Rightarrow> Inl OverflowError)"
| "py_float (PFloat f) = Inr (dbl_of_float f)"
| "py_float (PStr s) = (case float_of_text s of None \<Rightarrow> Inl ValueError | Some d \<Rightarrow> Inr d)"
| "py_float (PBytes s) = (case float_of_text s of None \<Rightarrow> Inl ValueError | Some d \<Rightarrow> Inr d)"
| "py_float PHostile = Inl RuntimeError"
| "py_float _ = Inl TypeError"

definition finite_float :: "pyval \<Rightarrow> rat option" where
  \<comment> \<open>the conversion succeeds, and neither infinite nor not a number\<close>
  "finite_float v = (case py_float v of Inl _ \<Rightarrow> None | Inr d \<Rightarrow> finite_dbl d)"

definition dbl_sub :: "rat \<Rightarrow> rat \<Rightarrow> rat" where
  \<comment> \<open>the rounded difference of two finite doubles that are not huge\<close>
  "dbl_sub a b = (case to_double (a - b) of DFin r \<Rightarrow> r | _ \<Rightarrow> a - b)"

section \<open>Writing\<close>

text \<open>\<open>f"{x:.0f}"\<close> of a finite double.\<close>

definition show_fixed0 :: "rat \<Rightarrow> string" where
  "show_fixed0 x = (if x < 0 then ''-'' else []) @ show_nat (nat (round_half_even \<bar>x\<bar>))"

fun show_dbl0 :: "dbl \<Rightarrow> string" where
  "show_dbl0 (DFin x) = show_fixed0 x"
| "show_dbl0 DInf = ''inf''"
| "show_dbl0 DNegInf = ''-inf''"
| "show_dbl0 DNan = ''nan''"

end
