(* ===== verification/Alert_Engine.thy ===== *)
theory Alert_Engine
  imports Py_Double Auth_Config
begin

text \<open>
  The alert engine (\<open>hub/alerts.py\<close>): the state it keeps from sweep to sweep, and the passes over
  the services, the resource readings and the power source. A pass reads the state loaded before the
  sweep (\<open>prev\<close>) and writes the new one; it hands rows to the journal and notices to the channels. The
  notice settings and the thresholds are read once for a sweep, and dispatching a notice returns.
\<close>

section \<open>Reading leftovers\<close>

definition alert_text :: "pyval \<Rightarrow> string" where
  \<comment> \<open>\<open>_utf8_text\<close>\<close>
  "alert_text v =
     (case v of
        PBytes s \<Rightarrow> launder s
      | _ \<Rightarrow> (case py_str v of Inl _ \<Rightarrow> [] | Inr s \<Rightarrow> if addr_repr (launder s) then [] else launder s))"

fun jsonable_alert :: "nat \<Rightarrow> pyval \<Rightarrow> pyval" where
  \<comment> \<open>\<open>_jsonable_alert\<close>\<close>
  "jsonable_alert depth v =
     (if 32 < depth then PNone
      else (case v of
              PInt i \<Rightarrow> if fits_digit_cap i then PInt i else PNone
            | PFloat f \<Rightarrow> if is_finite_float f then PFloat f else PNone
            | PStr s \<Rightarrow> PStr (alert_text v)
            | PBytes s \<Rightarrow> PStr (launder s)
            | PDict kvs \<Rightarrow>
                PDict (foldl (\<lambda>out p. dict_set (alert_text (PStr (fst p))) (snd p) out) []
                  (map (\<lambda>p. (fst p, jsonable_alert (Suc depth) (snd p))) kvs))
            | PList xs \<Rightarrow> PList (map (jsonable_alert (Suc depth)) xs)
            | PTuple xs \<Rightarrow> PList (map (jsonable_alert (Suc depth)) xs)
            | PHostile \<Rightarrow> PStr []
            | _ \<Rightarrow> v))"

declare jsonable_alert.simps [simp del]

definition alert_epoch :: "int \<Rightarrow> pyval \<Rightarrow> int" where
  \<comment> \<open>\<open>_as_epoch(raw, default)\<close>\<close>
  "alert_epoch dflt raw =
     (case raw of
        PInt i \<Rightarrow> i
      | PFloat f \<Rightarrow> (case dbl_of_float f of DFin r \<Rightarrow> rat_int r | _ \<Rightarrow> dflt)
      | PStr s \<Rightarrow>
          if strip s = [] then dflt
          else (case py_int_of_str s of
                  Inr i \<Rightarrow> i
                | Inl _ \<Rightarrow> (case float_of_text s of Some (DFin r) \<Rightarrow> rat_int r | _ \<Rightarrow> dflt))
      | _ \<Rightarrow> dflt)"

definition alert_ts :: "pyval \<Rightarrow> pyval" where
  \<comment> \<open>\<open>_alert_ts\<close>\<close>
  "alert_ts raw =
     (case raw of
        PInt i \<Rightarrow> PInt i
      | PFloat f \<Rightarrow> (case dbl_of_float f of DFin r \<Rightarrow> PInt (rat_int r) | _ \<Rightarrow> PNone)
      | PStr s \<Rightarrow>
          (let t = strip s in
           if isdigit t \<or> (startswith t ''-'' \<and> isdigit (drop 1 t))
           then (case py_int_of_str t of Inr i \<Rightarrow> PInt i | Inl _ \<Rightarrow> PNone) else PNone)
      | _ \<Rightarrow> PNone)"

definition get_or :: "pydict \<Rightarrow> string \<Rightarrow> pyval \<Rightarrow> pyval" where
  \<comment> \<open>\<open>d.get(k, default)\<close>\<close>
  "get_or d k dflt = (case dict_get d k of None \<Rightarrow> dflt | Some v \<Rightarrow> v)"

definition dict_or :: "pyval \<Rightarrow> pydict" where
  \<comment> \<open>a value that is not a dict reads as the empty one\<close>
  "dict_or v = (case v of PDict d \<Rightarrow> d | _ \<Rightarrow> [])"

definition service_id :: "pyval \<Rightarrow> string" where
  \<comment> \<open>\<open>_service_id\<close>\<close>
  "service_id raw =
     (case raw of PStr s \<Rightarrow> s | PInt i \<Rightarrow> (case py_str_of_int i of Inl _ \<Rightarrow> [] | Inr s \<Rightarrow> s) | _ \<Rightarrow> [])"

section \<open>What a sweep puts out\<close>

text \<open>A call of \<open>send_ha_notify\<close>: title, message, level and event.\<close>

record notice =
  nt_title :: string
  nt_message :: string
  nt_level :: string
  nt_event :: "string option"

text \<open>The new state under construction, the rows handed to the journal and the notices, in order.\<close>

record sweep_out =
  so_state :: pydict
  so_rows :: "pydict list"
  so_sent :: "notice list"

definition put_state :: "string \<Rightarrow> pyval \<Rightarrow> sweep_out \<Rightarrow> sweep_out" where
  "put_state k v so = so\<lparr>so_state := dict_set k v (so_state so)\<rparr>"

definition put_row :: "pydict \<Rightarrow> sweep_out \<Rightarrow> sweep_out" where
  "put_row r so = so\<lparr>so_rows := so_rows so @ [r]\<rparr>"

definition put_sent :: "bool \<Rightarrow> notice \<Rightarrow> sweep_out \<Rightarrow> sweep_out" where
  "put_sent wanted x so = (if wanted then so\<lparr>so_sent := so_sent so @ [x]\<rparr> else so)"

definition alert_row ::
  "int \<Rightarrow> string \<Rightarrow> pyval \<Rightarrow> pyval \<Rightarrow> pyval \<Rightarrow> string \<Rightarrow> string \<Rightarrow> pyval \<Rightarrow> string \<Rightarrow> pydict" where
  "alert_row now aid nm kind grp level event detail message =
     [(''t'', PInt now), (''id'', PStr aid), (''name'', nm), (''kind'', kind), (''group'', grp),
      (''level'', PStr level), (''event'', PStr event), (''detail'', detail), (''message'', PStr message)]"

definition mid_dot :: string where "mid_dot = [CHR '' '', CHR 0xC2, CHR 0xB7, CHR '' '']"
definition geq_sign :: string where "geq_sign = [CHR 0xE2, CHR 0x89, CHR 0xA5]"
definition leq_sign :: string where "leq_sign = [CHR 0xE2, CHR 0x89, CHR 0xA4]"
definition long_dash :: string where "long_dash = [CHR '' '', CHR 0xE2, CHR 0x80, CHR 0x94, CHR '' '']"
definition degree_sign :: string where "degree_sign = [CHR 0xC2, CHR 0xB0]"

section \<open>Services\<close>

definition bad_state :: "pyval \<Rightarrow> bool" where
  "bad_state v \<longleftrightarrow> v = PStr ''down'' \<or> v = PStr ''warn''"

definition state_text :: "pyval \<Rightarrow> string" where
  "state_text v = (case v of PStr s \<Rightarrow> s | _ \<Rightarrow> [])"

definition service_label :: "string \<Rightarrow> pydict \<Rightarrow> string" where
  "service_label sid s = or_text (alert_text (pick (pyget s ''name'') (PStr sid))) sid"

definition service_fire ::
  "pydict \<Rightarrow> int \<Rightarrow> string \<Rightarrow> pydict \<Rightarrow> string \<Rightarrow> string \<Rightarrow> string \<Rightarrow> bool \<Rightarrow> string \<Rightarrow> sweep_out \<Rightarrow> sweep_out" where
  \<comment> \<open>\<open>_fire\<close> with the alert of a service row\<close>
  "service_fire n now sid s level event message ok title so =
     put_sent (truthy (pyget n ''enabled'') \<and> ok)
       \<lparr>nt_title = title, nt_message = message, nt_level = level,
        nt_event = (if event = ''resolved'' then Some event else None)\<rparr>
       (put_row (alert_row now sid (get_or s ''name'' (PStr sid)) (pyget s ''kind'') (pyget s ''group'')
          level event (get_or s ''detail'' (PStr [])) message) so)"

text \<open>
  One row of the loop: the pending set, the output, and whether an exception ended the loop. The
  unguarded truth tests and comparisons raise on a hostile value.
\<close>

definition service_row ::
  "pydict \<Rightarrow> pydict \<Rightarrow> int \<Rightarrow> string \<times> pydict \<Rightarrow> pydict \<times> sweep_out \<Rightarrow> bool \<times> pydict \<times> sweep_out" where
  "service_row n prev now row acc =
     (case (row, acc) of ((sid, s), (pending, so)) \<Rightarrow>
        (let st = get_or s ''state'' (PStr ''unknown''); so = put_state sid st so; old = pyget prev sid in
         if old = PNone then (False, dict_del sid pending, so)
         else if pyget s ''name'' = PHostile \<or> pyget s ''detail'' = PHostile \<or> st = PHostile then (True, pending, so)
         else
           if bad_state st then
                 (if \<not> bad_state old \<and> dict_get pending sid = None then (False, dict_set sid (PInt 1) pending, so)
                  else if dict_get pending sid = None \<and> st = old then (False, pending, so)
                  else
                    (False, dict_del sid pending,
                     service_fire n now sid s (state_text st) ''problem'' (service_label sid s @ '' changed to '' @ state_text st @ '': '' @ alert_text (pick (pyget s ''detail'') (PStr [])))
                       (st = PStr ''down'' \<or> truthy (pyget n ''include_warn'')) ''ServerHub alert'' so))
               else if bad_state old \<and> st = PStr ''ok'' then
                 (if truthy (pyget pending sid) then (False, dict_del sid pending, so)
                  else
                    (False, dict_del sid pending,
                     service_fire n now sid s ''ok'' ''resolved'' (service_label sid s @ '' has recovered'') (truthy (get_or n ''notify_resolve'' (PBool True)))
                       ''ServerHub recovered'' so))
               else (False, dict_del sid pending, so)))"

fun service_rows ::
  "pydict \<Rightarrow> pydict \<Rightarrow> int \<Rightarrow> (string \<times> pydict) list \<Rightarrow> pydict \<times> sweep_out \<Rightarrow> bool \<times> pydict \<times> sweep_out" where
  "service_rows n prev now [] acc = (False, acc)"
| "service_rows n prev now (r # rs) acc =
     (case service_row n prev now r acc of
        (True, acc) \<Rightarrow> (True, acc)
      | (False, acc) \<Rightarrow> service_rows n prev now rs acc)"

definition other_prefixes :: "string list" where
  "other_prefixes = [''resource:'', ''smart:'', ''freshness:'', ''ups:'', ''stale_runtime:'']"

definition gone_row ::
  "pydict \<Rightarrow> (string \<times> pydict) list \<Rightarrow> int \<Rightarrow> string \<times> pyval \<Rightarrow> pydict \<times> sweep_out \<Rightarrow> bool \<times> pydict \<times> sweep_out" where
  "gone_row n services now p acc =
     (case (p, acc) of ((sid, old), (pending, so)) \<Rightarrow>
        if startswith sid ''_'' \<or> list_ex (startswith sid) other_prefixes \<or> dict_get services sid \<noteq> None
           \<or> \<not> bad_state old
        then (False, pending, so)
        else if get_or n ''notify_resolve'' (PBool True) = PHostile then (True, dict_del sid pending, so)
        else
          (let message = sid @ '' is no longer monitored'' in
           (False, dict_del sid pending,
            put_sent (truthy (pyget n ''enabled'') \<and> truthy (get_or n ''notify_resolve'' (PBool True)))
              \<lparr>nt_title = ''ServerHub recovered'', nt_message = message, nt_level = ''ok'', nt_event = Some ''resolved''\<rparr>
              (put_row (alert_row now sid (PStr sid) (PStr ''launchd'') (PStr []) ''ok'' ''resolved''
                 (PStr ''removed from the services list'') message) so))))"

fun gone_rows ::
  "pydict \<Rightarrow> (string \<times> pydict) list \<Rightarrow> int \<Rightarrow> pydict \<Rightarrow> pydict \<times> sweep_out \<Rightarrow> bool \<times> pydict \<times> sweep_out" where
  "gone_rows n services now [] acc = (False, acc)"
| "gone_rows n services now (p # ps) acc =
     (case gone_row n services now p acc of
        (True, acc) \<Rightarrow> (True, acc)
      | (False, acc) \<Rightarrow> gone_rows n services now ps acc)"

text \<open>
  \<open>_service_transition_alerts\<close>: the new state holds the pending set itself, so it shows the set as it
  is when the pass ends or raises, unless a service of that very name has overwritten the entry.
\<close>

definition service_pass ::
  "pydict \<Rightarrow> pydict \<Rightarrow> int \<Rightarrow> (string \<times> pydict) list \<Rightarrow> sweep_out \<Rightarrow> bool \<times> sweep_out" where
  "service_pass n prev now services so =
     (let pending = dict_or (pyget (so_state so) ''_service_pending'');
          so = put_state ''_service_pending'' (PDict pending) so;
          (raised, pending, so) = service_rows n prev now services (pending, so);
          (raised, pending, so) =
            (if raised then (True, pending, so) else gone_rows n services now prev (pending, so))
      in (raised, if dict_get services ''_service_pending'' = None
                  then put_state ''_service_pending'' (PDict pending) so else so))"

section \<open>Resources\<close>

definition hysteresis :: rat where "hysteresis = 5"

text \<open>The cooldown of the thresholds, and the stamps of an earlier state.\<close>

definition cooldown_of :: "pydict \<Rightarrow> int" where
  "cooldown_of th = alert_epoch 1800 (pick (pyget th ''cooldown_sec'') (PInt 1800))"

definition resource_key :: "string \<Rightarrow> string" where
  "resource_key rid = ''resource:'' @ rid"

definition resource_fire :: "pydict \<Rightarrow> int \<Rightarrow> string \<Rightarrow> string \<Rightarrow> string \<Rightarrow> string \<Rightarrow> string \<Rightarrow> string \<Rightarrow> bool \<Rightarrow> string \<Rightarrow> sweep_out \<Rightarrow> sweep_out" where
  "resource_fire n now key label level event detail message wanted title so =
     put_sent (truthy (pyget n ''enabled'') \<and> wanted)
       \<lparr>nt_title = title, nt_message = message, nt_level = level,
        nt_event = (if event = ''resolved'' then Some event else None)\<rparr>
       (put_row (alert_row now key (PStr (''Resource'' @ mid_dot @ label)) (PStr ''resource'') (PStr ''system'')
          level event (PStr detail) message) so)"

definition resource_row ::
  "pydict \<Rightarrow> pydict \<Rightarrow> pydict \<Rightarrow> int \<Rightarrow> int \<Rightarrow> string \<times> pyval \<times> pyval \<times> string \<Rightarrow> pydict \<times> sweep_out \<Rightarrow> pydict \<times> sweep_out" where
  "resource_row n prev last_fire now cooldown check acc =
     (case (check, acc) of ((rid, val, limit, label), (new_last, so)) \<Rightarrow>
        (case (if val = PNone \<or> limit = PNone then None else finite_float val,
               if val = PNone \<or> limit = PNone then None else finite_float limit) of
           (Some v, Some l) \<Rightarrow>
             (let key = resource_key rid;
                  over = l \<le> v;
                  recovered = v \<le> dbl_sub l hysteresis;
                  old = pyget prev key;
                  last_t = alert_epoch 0 (pyget last_fire rid)
              in if over \<and> old \<noteq> PStr ''warn'' \<and> now - last_t < cooldown
                 then (new_last, put_state key (pick old (PStr ''ok'')) so)
                 else
                   (let so = put_state key (PStr (if over \<or> (old = PStr ''warn'' \<and> \<not> recovered) then ''warn'' else ''ok'')) so in
                    if over \<and> (old \<noteq> PStr ''warn'' \<or> cooldown \<le> now - last_t) then
                      (dict_set rid (PInt now) new_last,
                       resource_fire n now key label ''warn'' ''problem''
                         (show_fixed0 v @ ''% '' @ geq_sign @ '' '' @ show_fixed0 l @ ''%'')
                         (label @ '' usage '' @ show_fixed0 v @ ''% (threshold '' @ show_fixed0 l @ ''%)'')
                         (truthy (get_or n ''include_warn'' (PBool True))) ''ServerHub resource alert'' so)
                    else if old = PStr ''warn'' \<and> recovered then
                      (new_last,
                       resource_fire n now key label ''ok'' ''resolved'' (show_fixed0 v @ ''%'')
                         (label @ '' usage back down to '' @ show_fixed0 v @ ''%'')
                         (truthy (get_or n ''notify_resolve'' (PBool True))) ''ServerHub resource recovered'' so)
                    else (new_last, so)))
         | _ \<Rightarrow> (new_last, so)))"

definition resource_checks :: "pydict \<Rightarrow> pydict \<Rightarrow> (string \<times> pyval \<times> pyval \<times> string) list" where
  "resource_checks th latest =
     [(''cpu'', if pyget latest ''cpu_used_pct'' = PNone then pyget latest ''load_pct'' else pyget latest ''cpu_used_pct'',
       get_or th ''cpu_pct'' (PInt 90), ''CPU''),
      (''mem'', pyget latest ''mem_used_pct'', get_or th ''mem_pct'' (PInt 90), ''Memory''),
      (''disk'', pyget latest ''disk_pct'', get_or th ''disk_pct'' (PInt 90), ''Disk'')]"

definition resource_pass :: "pydict \<Rightarrow> pydict \<Rightarrow> pydict \<Rightarrow> int \<Rightarrow> pyval \<Rightarrow> sweep_out \<Rightarrow> sweep_out" where
  \<comment> \<open>\<open>_check_resource_thresholds\<close>\<close>
  "resource_pass n th prev now sample so =
     (if \<not> truthy (get_or th ''enabled'' (PBool True)) then so
      else
        (case sample of
           PDict latest \<Rightarrow>
             (let last_fire = dict_or (pyget prev ''_resource_last'');
                  (new_last, so) =
                    fold (resource_row n prev last_fire now (cooldown_of th)) (resource_checks th latest) (last_fire, so)
              in put_state ''_resource_last'' (PDict new_last) so)
         | _ \<Rightarrow> so))"

section \<open>Power\<close>

definition ups_row :: "int \<Rightarrow> string \<Rightarrow> string \<Rightarrow> string \<Rightarrow> string \<Rightarrow> string \<Rightarrow> string \<Rightarrow> pydict" where
  "ups_row now key nm level event detail message =
     alert_row now key (PStr (''UPS'' @ mid_dot @ nm)) (PStr ''ups'') (PStr ''power'') level event (PStr detail) message"

text \<open>
  The charge as text: a charge that converts to a float has a text of its own, so the number is never
  formatted for it.
\<close>

definition charge_text :: "pyval \<Rightarrow> dbl option \<Rightarrow> string" where
  "charge_text pct f = (case f of None \<Rightarrow> ''unknown charge'' | Some _ \<Rightarrow> strip (alert_text pct) @ ''%'')"

definition power_alert :: "pydict \<Rightarrow> pydict \<Rightarrow> int \<Rightarrow> string \<Rightarrow> string \<Rightarrow> bool \<Rightarrow> sweep_out \<Rightarrow> sweep_out" where
  \<comment> \<open>the key \<open>ups:power\<close>\<close>
  "power_alert n prev now nm charge on_battery so =
     (let so = put_state ''ups:power'' (PStr (if on_battery then ''down'' else ''ok'')) so; old = pyget prev ''ups:power'' in
      if on_battery \<and> old \<noteq> PStr ''down'' then
        (let message = ''Power lost: '' @ nm @ '' is running on battery ('' @ charge @ '')'' in
         put_sent (truthy (pyget n ''enabled''))
           \<lparr>nt_title = ''ServerHub UPS alert'', nt_message = message, nt_level = ''down'', nt_event = None\<rparr>
           (put_row (ups_row now ''ups:power'' nm ''down'' ''problem'' (''on battery'' @ mid_dot @ charge) message) so))
      else if \<not> on_battery \<and> old = PStr ''down'' then
        (let message = ''Power restored: '' @ nm @ '' is back on AC ('' @ charge @ '')'' in
         put_sent (truthy (pyget n ''enabled'') \<and> truthy (get_or n ''notify_resolve'' (PBool True)))
           \<lparr>nt_title = ''ServerHub UPS recovered'', nt_message = message, nt_level = ''ok'', nt_event = Some ''resolved''\<rparr>
           (put_row (ups_row now ''ups:power'' nm ''ok'' ''resolved'' (''on AC'' @ mid_dot @ charge) message) so))
      else so)"

definition battery_alert :: "pydict \<Rightarrow> pydict \<Rightarrow> int \<Rightarrow> string \<Rightarrow> string \<Rightarrow> dbl \<Rightarrow> bool \<Rightarrow> sweep_out \<Rightarrow> sweep_out" where
  \<comment> \<open>the key \<open>ups:battery\<close>, which clears silently\<close>
  "battery_alert n prev now nm charge lowest low so =
     (let so = put_state ''ups:battery'' (PStr (if low then ''down'' else ''ok'')) so in
      if low \<and> pyget prev ''ups:battery'' \<noteq> PStr ''down'' then
        (let message = ''UPS battery low: '' @ nm @ '' at '' @ charge @ '' (threshold '' @ show_dbl0 lowest @ ''%)''
               @ long_dash @ ''shut down or restore power soon''
         in put_sent (truthy (pyget n ''enabled''))
              \<lparr>nt_title = ''ServerHub UPS alert'', nt_message = message, nt_level = ''down'', nt_event = None\<rparr>
              (put_row (ups_row now ''ups:battery'' nm ''down'' ''problem''
                 (''battery '' @ charge @ '' '' @ leq_sign @ '' '' @ show_dbl0 lowest @ ''%'') message) so))
      else so)"

definition charge_value :: "pyval \<Rightarrow> dbl option" where
  "charge_value pct =
     (case pct of PNone \<Rightarrow> None | PBool _ \<Rightarrow> None | _ \<Rightarrow> (case py_float pct of Inl _ \<Rightarrow> None | Inr d \<Rightarrow> Some d))"

definition battery_floor :: "pydict \<Rightarrow> dbl" where
  "battery_floor settings = (case py_float (pick (pyget settings ''low_battery_pct'') (PInt 20)) of Inl _ \<Rightarrow> DFin 20 | Inr d \<Rightarrow> d)"

definition ups_pass :: "pydict \<Rightarrow> pydict \<Rightarrow> int \<Rightarrow> pyval \<Rightarrow> sweep_out \<Rightarrow> sweep_out" where
  \<comment> \<open>\<open>_check_ups\<close>\<close>
  "ups_pass n prev now snap so =
     (case snap of
        PDict st \<Rightarrow>
          (let settings = dict_or (pick (pyget st ''settings'') (PDict [])) in
           if \<not> truthy (pyget st ''present'') \<or> \<not> truthy (get_or settings ''alerts_enabled'' (PBool True)) then so
           else
             (let nm = or_text (alert_text (pick (pyget st ''name'') (PStr ''UPS''))) ''UPS'';
                  f = charge_value (pyget st ''battery_percent'');
                  charge = charge_text (pyget st ''battery_percent'') f;
                  on_battery = truthy (pyget st ''on_battery'');
                  lowest = battery_floor settings;
                  low = (on_battery \<and> (case f of None \<Rightarrow> False | Some d \<Rightarrow> dbl_le d lowest))
              in battery_alert n prev now nm charge lowest low (power_alert n prev now nm charge on_battery so)))
      | _ \<Rightarrow> so)"

end
