(* ===== verification/Alert_Freshness.thy ===== *)
theory Alert_Freshness
  imports Alert_Engine
begin

text \<open>
  The freshness watchdog (\<open>hub/freshness_svc.py\<close>): the targets a configuration names and one pass over
  them. The file system enters as the fields of \<open>file_view\<close>: \<open>expanduser\<close>, the matches of a pattern,
  the modification time of a file and the test for a directory.
\<close>

record file_view =
  fw_expand :: "string \<Rightarrow> string option"
  fw_glob :: "string \<Rightarrow> string list"
  fw_mtime :: "string \<Rightarrow> rat option"
  fw_isdir :: "string \<Rightarrow> bool"

record watched =
  tg_id :: string
  tg_label :: string
  tg_pattern :: string
  tg_hours :: rat
  tg_dir :: "string option"

section \<open>Targets\<close>

definition fresh_text :: "pyval \<Rightarrow> string" where
  \<comment> \<open>\<open>_utf8_text\<close> of this module\<close>
  "fresh_text v =
     (case v of PNone \<Rightarrow> [] | PStr s \<Rightarrow> launder s | PBytes s \<Rightarrow> launder s | _ \<Rightarrow> alert_text v)"

definition target_id_ok :: "string \<Rightarrow> bool" where
  "target_id_ok s \<longleftrightarrow>
     (let alnum = (\<lambda>c. is_digit c \<or> (97 \<le> ordc c \<and> ordc c \<le> 122))
      in s \<noteq> [] \<and> length s \<le> 64 \<and> alnum (hd s) \<and> list_all (\<lambda>c. alnum c \<or> c = CHR ''-'') (tl s))"

definition or_fresh :: "pyval \<Rightarrow> string result" where
  \<comment> \<open>\<open>_utf8_text(v or "").strip()\<close>\<close>
  "or_fresh v = bind_ok (py_bool v) (\<lambda>b. Inr (strip (if b then fresh_text v else [])))"

definition max_age :: "pyval \<Rightarrow> rat result" where
  \<comment> \<open>\<open>float(v or 0)\<close>, zero where it is no finite number\<close>
  "max_age v =
     bind_ok (py_bool v) (\<lambda>b.
       if \<not> b then Inr 0 else Inr (case finite_float v of None \<Rightarrow> 0 | Some r \<Rightarrow> r))"

definition require_dir :: "file_view \<Rightarrow> pydict \<Rightarrow> string option result" where
  "require_dir fw entry =
     bind_ok (py_bool (pyget entry ''require_dir'')) (\<lambda>b.
       bind_ok (if b then Inr (pyget entry ''require_dir'')
                else bind_ok (py_bool (pyget entry ''require_mount''))
                  (\<lambda>b. Inr (if b then pyget entry ''require_mount'' else PStr [])))
         (\<lambda>raw. Inr (case fw_expand fw (strip (fresh_text raw)) of
                       None \<Rightarrow> None
                     | Some d \<Rightarrow> if startswith d ''/'' then Some (launder d) else None)))"

text \<open>One entry: None when it is skipped.\<close>

definition target_of :: "file_view \<Rightarrow> string set \<Rightarrow> pyval \<Rightarrow> watched option result" where
  "target_of fw seen v =
     (case v of
        PDict entry \<Rightarrow>
          (case (or_fresh (pyget entry ''id''), or_fresh (pyget entry ''pattern'')) of
             (Inr tid, Inr raw) \<Rightarrow>
               (case fw_expand fw raw of
                  None \<Rightarrow> Inr None
                | Some pattern \<Rightarrow>
                    bind_ok (max_age (pyget entry ''max_age_hours'')) (\<lambda>hours.
                      if \<not> target_id_ok tid \<or> tid \<in> seen \<or> \<not> startswith pattern ''/'' \<or> hours \<le> 0 then Inr None
                      else
                        bind_ok (require_dir fw entry) (\<lambda>dir.
                          bind_ok (or_fresh (pyget entry ''label'')) (\<lambda>label.
                            Inr (Some \<lparr>tg_id = tid, tg_label = or_text label tid, tg_pattern = launder pattern,
                                       tg_hours = hours, tg_dir = dir\<rparr>)))))
           | _ \<Rightarrow> Inr None)
      | _ \<Rightarrow> Inr None)"

fun targets_of :: "file_view \<Rightarrow> string set \<Rightarrow> pyval list \<Rightarrow> watched list result" where
  "targets_of fw seen [] = Inr []"
| "targets_of fw seen (v # vs) =
     (case target_of fw seen v of
        Inl e \<Rightarrow> Inl e
      | Inr None \<Rightarrow> targets_of fw seen vs
      | Inr (Some t) \<Rightarrow> bind_ok (targets_of fw (insert (tg_id t) seen) vs) (\<lambda>ts. Inr (t # ts)))"

definition configured_targets :: "file_view \<Rightarrow> pyval \<Rightarrow> watched list result" where
  "configured_targets fw raw = (case raw of PList vs \<Rightarrow> targets_of fw {} vs | _ \<Rightarrow> Inr [])"

section \<open>The pass\<close>

definition reannounce_sec :: int where "reannounce_sec = 24 * 3600"

definition newest_mtime :: "file_view \<Rightarrow> string \<Rightarrow> rat option" where
  "newest_mtime fw pattern =
     fold (\<lambda>path best. case fw_mtime fw path of
             None \<Rightarrow> best
           | Some mt \<Rightarrow> (case best of None \<Rightarrow> Some mt | Some b \<Rightarrow> if b < mt then Some mt else best))
       (fw_glob fw pattern) None"

text \<open>\<open>f"{x:.1f}"\<close>, and \<open>f"{x:g}"\<close> of a positive number: six significant digits, no trailing zeros.\<close>

definition show_fixed1 :: "rat \<Rightarrow> string" where
  "show_fixed1 x =
     (let n = nat (round_half_even (\<bar>x\<bar> * 10))
      in (if x < 0 then ''-'' else []) @ show_nat (n div 10) @ ''.'' @ show_nat (n mod 10))"

fun decimal_exponent :: "nat \<Rightarrow> rat \<Rightarrow> int" where
  \<comment> \<open>of the leading digit; the fuel covers the smallest double\<close>
  "decimal_exponent 0 x = 0"
| "decimal_exponent (Suc k) x = (if 1 \<le> x then int (length (show_nat (nat \<lfloor>x\<rfloor>))) - 1 else decimal_exponent k (x * 10) - 1)"

definition show_general :: "rat \<Rightarrow> string" where
  "show_general x =
     (let e = decimal_exponent 400 x;
          d = nat (round_half_even (if 5 \<le> e then x / 10 ^ nat (e - 5) else x * 10 ^ nat (5 - e)));
          (d, e) = (if d = 1000000 then (100000, e + 1) else (d, e));
          ds = show_nat d
      in if - 4 \<le> e \<and> e < 6 then
           (let whole = (if 0 \<le> e then take (nat e + 1) ds else ''0'');
                frac = rstrip_char (CHR ''0'') (if 0 \<le> e then drop (nat e + 1) ds else replicate (nat (- e - 1)) (CHR ''0'') @ ds)
            in if frac = [] then whole else whole @ ''.'' @ frac)
         else
           (let frac = rstrip_char (CHR ''0'') (drop 1 ds)
            in take 1 ds @ (if frac = [] then [] else ''.'' @ frac) @ ''e'' @ show_exponent e))"

definition freshness_row :: "int \<Rightarrow> watched \<Rightarrow> string \<Rightarrow> string \<Rightarrow> string \<Rightarrow> string \<Rightarrow> pydict" where
  "freshness_row now t level event detail message =
     alert_row now (''freshness:'' @ tg_id t) (PStr (''Freshness'' @ mid_dot @ tg_label t)) (PStr ''freshness'')
       (PStr ''scheduled'') level event (PStr detail) message"

definition announce :: "pydict \<Rightarrow> bool \<Rightarrow> pydict \<Rightarrow> notice \<Rightarrow> sweep_out \<Rightarrow> bool \<times> sweep_out" where
  \<comment> \<open>journal, then the unguarded gates of the notice, which raise on a hostile flag\<close>
  "announce n resolved row x so =
     (let so = put_row row so; enabled = pyget n ''enabled''; resolve = get_or n ''notify_resolve'' (PBool True) in
      if enabled = PHostile \<or> (resolved \<and> truthy enabled \<and> resolve = PHostile) then (True, so)
      else (False, put_sent (truthy enabled \<and> (\<not> resolved \<or> truthy resolve)) x so))"

definition recovered_notice :: "string \<Rightarrow> notice" where
  "recovered_notice message =
     \<lparr>nt_title = ''ServerHub freshness recovered'', nt_message = message, nt_level = ''ok'', nt_event = Some ''resolved''\<rparr>"

definition fresh_target ::
  "file_view \<Rightarrow> pydict \<Rightarrow> pydict \<Rightarrow> pydict \<Rightarrow> int \<Rightarrow> watched \<Rightarrow> pydict \<times> sweep_out \<Rightarrow> bool \<times> pydict \<times> sweep_out" where
  "fresh_target fw n prev last_fire now t acc =
     (case acc of (new_last, so) \<Rightarrow>
        (let key = ''freshness:'' @ tg_id t; old = pyget prev key; label = tg_label t; pattern = tg_pattern t in
         case to_double (tg_hours t * 3600) of
           DFin limit \<Rightarrow>
             if limit \<le> 0 then (False, new_last, so)
             else if (case tg_dir t of None \<Rightarrow> False | Some [] \<Rightarrow> False | Some d \<Rightarrow> \<not> fw_isdir fw d) then
               (let d = (case tg_dir t of None \<Rightarrow> [] | Some d \<Rightarrow> d); so = put_state key (PStr ''ok'') so in
                if old = PStr ''down'' then
                  (let message = label @ '' freshness skipped: required mount '' @ d
                         @ '' is not present (job skips cleanly until the disk returns)'';
                       (raised, so) = announce n True
                         (freshness_row now t ''ok'' ''resolved'' (''require_dir missing: '' @ d) message) (recovered_notice message) so
                   in (raised, dict_del (tg_id t) new_last, so))
                else (False, new_last, so))
             else
               (let mt = newest_mtime fw pattern;
                    age = (case mt of None \<Rightarrow> 0 | Some m \<Rightarrow> dbl_sub (of_int now) m);
                    hours_old = (case to_double (age / 3600) of DFin r \<Rightarrow> r | _ \<Rightarrow> age / 3600);
                    stale = (mt = None \<or> limit < age);
                    so = put_state key (PStr (if stale then ''down'' else ''ok'')) so;
                    limits = '' (limit '' @ show_general (tg_hours t) @ ''h)''
                in if stale then
                     (if old \<noteq> PStr ''down'' \<or> reannounce_sec \<le> now - alert_epoch 0 (pyget last_fire (tg_id t)) then
                        (let (detail, message) =
                               (if mt = None then
                                  (''no artifact matches '' @ pattern,
                                   label @ '' has produced nothing: no file matches '' @ pattern @ long_dash
                                     @ ''the job may be loaded but never firing'')
                                else
                                  (''newest artifact '' @ show_fixed1 hours_old @ ''h old'' @ limits,
                                   label @ '' artifact is stale: newest match of '' @ pattern @ '' is '' @ show_fixed1 hours_old
                                     @ ''h old'' @ limits @ long_dash @ ''the job may be loaded but never firing''));
                             (raised, so) = announce n False (freshness_row now t ''down'' ''problem'' detail message)
                               \<lparr>nt_title = ''ServerHub freshness alert'', nt_message = message, nt_level = ''down'', nt_event = None\<rparr> so
                         in (raised, dict_set (tg_id t) (PInt now) new_last, so))
                      else (False, new_last, so))
                   else if old = PStr ''down'' then
                     (let message = label @ '' artifact is fresh again ('' @ show_fixed1 hours_old @ ''h old, limit ''
                            @ show_general (tg_hours t) @ ''h)'';
                          (raised, so) = announce n True
                            (freshness_row now t ''ok'' ''resolved'' (''newest artifact '' @ show_fixed1 hours_old @ ''h old'') message)
                            (recovered_notice message) so
                      in (raised, dict_del (tg_id t) new_last, so))
                   else (False, new_last, so))
         | _ \<Rightarrow> (False, new_last, so)))"

fun fresh_targets ::
  "file_view \<Rightarrow> pydict \<Rightarrow> pydict \<Rightarrow> pydict \<Rightarrow> int \<Rightarrow> watched list \<Rightarrow> pydict \<times> sweep_out \<Rightarrow> bool \<times> pydict \<times> sweep_out" where
  "fresh_targets fw n prev last_fire now [] acc = (False, acc)"
| "fresh_targets fw n prev last_fire now (t # ts) acc =
     (case fresh_target fw n prev last_fire now t acc of
        (True, acc) \<Rightarrow> (True, acc)
      | (False, acc) \<Rightarrow> fresh_targets fw n prev last_fire now ts acc)"

definition freshness_pass :: "file_view \<Rightarrow> pydict \<Rightarrow> pydict \<Rightarrow> int \<Rightarrow> pyval \<Rightarrow> sweep_out \<Rightarrow> bool \<times> sweep_out" where
  \<comment> \<open>\<open>check_freshness\<close>, with the targets of the configuration\<close>
  "freshness_pass fw n prev now raw so =
     (case configured_targets fw raw of
        Inl _ \<Rightarrow> (True, so)
      | Inr ts \<Rightarrow>
          (let last_fire = dict_or (pyget prev ''_freshness_last'');
               (raised, new_last, so) = fresh_targets fw n prev last_fire now ts (last_fire, so)
           in (raised, if raised then so else put_state ''_freshness_last'' (PDict new_last) so)))"

end
