(* ===== verification/Alert_Smart.thy ===== *)
theory Alert_Smart
  imports Alert_Engine
begin

text \<open>
  The disk health pass of the alert engine (\<open>hub/alerts.py\<close>): the numbers inside the fields
  \<open>smartctl\<close> prints, the checks they trip, the identity of a disk, and one pass over the disks.
\<close>

section \<open>Fields\<close>

definition match_number :: "string \<Rightarrow> string option" where
  \<comment> \<open>\<open>-?\d+(?:\.\d+)?\<close>\<close>
  "match_number s =
     (let sign = take 1 s; neg = (sign = ''-''); r = (if neg then drop 1 s else s);
          whole = takeWhile is_digit r; r = dropWhile is_digit r;
          frac = (if startswith r ''.'' then takeWhile is_digit (drop 1 r) else [])
      in if whole = [] then None
         else Some ((if neg then sign else []) @ whole @ (if frac = [] then [] else ''.'' @ frac)))"

definition hex_text :: "string \<Rightarrow> nat option" where
  \<comment> \<open>\<open>int(low, 16)\<close> of a text that starts with \<open>0x\<close>\<close>
  "hex_text s =
     (let r = drop 2 s; r = (if startswith r ''_'' then drop 1 r else r); groups = split_on (CHR ''_'') r
      in if list_all (\<lambda>g. g \<noteq> [] \<and> list_all is_hex_digit g) groups
         then Some (foldl (\<lambda>n c. n * 16 + (if is_digit c then ordc c - 48 else ordc (lower_char c) - 87)) 0 (concat groups))
         else None)"

definition smart_num :: "pyval \<Rightarrow> rat option" where
  \<comment> \<open>\<open>_smart_num\<close>\<close>
  "smart_num raw =
     (case raw of
        PNone \<Rightarrow> None
      | PBool _ \<Rightarrow> None
      | PInt _ \<Rightarrow> finite_float raw
      | PFloat _ \<Rightarrow> finite_float raw
      | _ \<Rightarrow>
          (let s = strip (alert_text raw); low = lower s in
           if s = [] then None
           else if startswith low ''0x'' then
             (case hex_text low of None \<Rightarrow> None | Some k \<Rightarrow> finite_float (PInt (int k)))
           else
             (case search_text match_number (remove_char (CHR '','') s) of
                None \<Rightarrow> None
              | Some m \<Rightarrow> finite_float (PStr m))))"

section \<open>Checks\<close>

text \<open>A tripped check, rendered tersely and in prose.\<close>

type_synonym reason = "string \<times> string"

definition reason_text :: "string \<Rightarrow> string \<Rightarrow> reason" where
  "reason_text detail sentence = (alert_text (PStr detail), alert_text (PStr sentence))"

definition health_reason :: "string \<Rightarrow> reason" where
  "health_reason v = reason_text (''health='' @ v) (''overall health verdict is '' @ v @ '' (a healthy disk reports PASSED)'')"

definition media_reason :: "rat \<Rightarrow> reason" where
  "media_reason v = reason_text (''media errors='' @ show_fixed0 v) (show_fixed0 v @ '' media and data integrity errors (threshold 0)'')"

definition pending_reason :: "rat \<Rightarrow> reason" where
  "pending_reason v = reason_text (''pending sectors='' @ show_fixed0 v) (show_fixed0 v @ '' sectors pending reallocation (threshold 0)'')"

definition prefail_reason :: "string \<Rightarrow> rat \<Rightarrow> rat \<Rightarrow> reason" where
  "prefail_reason nm v lm = reason_text
     (nm @ '' below vendor threshold ('' @ show_fixed0 v @ leq_sign @ show_fixed0 lm @ '')'')
     (''attribute '' @ nm @ '' has fallen below the vendor threshold (now '' @ show_fixed0 v @ '', threshold '' @ show_fixed0 lm @ '')'')"

definition reallocated_reason :: "rat \<Rightarrow> reason" where
  "reallocated_reason v = reason_text (''reallocated sectors='' @ show_fixed0 v) (show_fixed0 v @ '' sectors reallocated; watch for growth'')"

definition critical_reason :: "string \<Rightarrow> reason" where
  "critical_reason v = reason_text (''critical warning='' @ v) (''NVMe critical warning bits '' @ v @ '' (a healthy disk reports 0x00)'')"

definition soft_reason :: "string \<Rightarrow> rat \<Rightarrow> rat \<Rightarrow> reason" where
  "soft_reason field v lm =
     (if field = ''temp'' then
        reason_text (''temp='' @ show_fixed0 v @ ''C'' @ geq_sign @ show_fixed0 lm @ ''C'')
          (''temperature '' @ show_fixed0 v @ degree_sign @ ''C (threshold '' @ show_fixed0 lm @ degree_sign @ ''C)'')
      else if field = ''wear'' then
        reason_text (''wear='' @ show_fixed0 v @ ''%'' @ geq_sign @ show_fixed0 lm @ ''%'')
          (''wear '' @ show_fixed0 v @ ''% (threshold '' @ show_fixed0 lm @ ''%)'')
      else
        reason_text (''spare='' @ show_fixed0 v @ ''%'' @ leq_sign @ show_fixed0 lm @ ''%'')
          (''only '' @ show_fixed0 v @ ''% of spare blocks remain (threshold '' @ show_fixed0 lm @ ''%; lower is worse)''))"

definition healthy_verdict :: "string \<Rightarrow> bool" where
  "healthy_verdict v \<longleftrightarrow> v = [] \<or> rstrip_char (CHR ''!'') (upper v) \<in> {''PASSED'', ''OK''}"

definition positive :: "rat option \<Rightarrow> bool" where
  "positive x = (case x of None \<Rightarrow> False | Some v \<Rightarrow> 0 < v)"

definition prefail_rows :: "pyval \<Rightarrow> reason list" where
  "prefail_rows attrs =
     (case attrs of
        PList rows \<Rightarrow>
          concat (map (\<lambda>r. case r of
             PDict a \<Rightarrow>
               if alert_text (pick (pyget a ''type'') (PStr [])) \<noteq> ''Pre-fail'' then []
               else (case (smart_num (pyget a ''value''), smart_num (pyget a ''thresh'')) of
                       (Some v, Some t) \<Rightarrow>
                         if 0 < t \<and> v \<le> t
                         then [prefail_reason (or_text (alert_text (pick (pyget a ''name'') (pick (pyget a ''id'') (PStr ''?'')))) ''?'') v t]
                         else []
                     | _ \<Rightarrow> [])
           | _ \<Rightarrow> []) rows)
      | _ \<Rightarrow> [])"

definition soft_check :: "pydict \<Rightarrow> pydict \<Rightarrow> string \<Rightarrow> string \<Rightarrow> string \<Rightarrow> bool \<Rightarrow> reason list" where
  "soft_check smart th field source limit_key hotter_is_worse =
     (case (smart_num (pyget smart source), smart_num (pyget th limit_key)) of
        (Some v, Some lm) \<Rightarrow> if (if hotter_is_worse then lm \<le> v else v \<le> lm) then [soft_reason field v lm] else []
      | _ \<Rightarrow> [])"

definition smart_reasons :: "pydict \<Rightarrow> pydict \<Rightarrow> reason list \<times> reason list" where
  \<comment> \<open>\<open>_smart_reasons\<close>: fatal, and worth watching\<close>
  "smart_reasons smart th =
     (let health = strip (alert_text (pick (pyget smart ''health'') (PStr [])));
          media = smart_num (pyget smart ''media_errors'');
          pending = smart_num (pyget smart ''pending'');
          realloc = smart_num (pyget smart ''reallocated'');
          crit_raw = strip (alert_text (pick (pyget smart ''critical_warning'') (PStr [])));
          counted = (\<lambda>x f. case x of None \<Rightarrow> [] | Some v \<Rightarrow> if 0 < v then [f v] else [])
      in ((if healthy_verdict health then [] else [health_reason health])
            @ counted media media_reason @ counted pending pending_reason
            @ prefail_rows (pyget smart ''attrs'')
            @ (if positive (smart_num (PStr crit_raw)) then [critical_reason crit_raw] else []),
          counted realloc reallocated_reason
            @ soft_check smart th ''temp'' ''temp'' ''smart_temp_c'' True
            @ soft_check smart th ''wear'' ''wear'' ''smart_wear_pct'' True
            @ soft_check smart th ''spare'' ''available_spare'' ''smart_spare_pct'' False))"

section \<open>Identity\<close>

definition key_safe :: "char \<Rightarrow> bool" where
  "key_safe c \<longleftrightarrow> is_digit c \<or> (65 \<le> ordc c \<and> ordc c \<le> 90) \<or> (97 \<le> ordc c \<and> ordc c \<le> 122) \<or> c \<in> set ''._-''"

fun dash_unsafe :: "string \<Rightarrow> string" where
  \<comment> \<open>each run of unsafe characters becomes one dash\<close>
  "dash_unsafe [] = []"
| "dash_unsafe (c # cs) =
     (if key_safe c then c # dash_unsafe cs
      else if cs \<noteq> [] \<and> \<not> key_safe (hd cs) then dash_unsafe cs else CHR ''-'' # dash_unsafe cs)"

definition strip_dashes :: "string \<Rightarrow> string" where
  "strip_dashes s = rstrip_char (CHR ''-'') (dropWhile (\<lambda>c. c = CHR ''-'') s)"

definition smart_key :: "pydict \<Rightarrow> string" where
  "smart_key dev =
     (let smart = dict_or (pick (pyget dev ''smart'') (PDict []));
          field = (\<lambda>v. strip (alert_text v));
          serial = field (pick (pyget smart ''serial'') (PStr []));
          model = field (pick (pyget smart ''model'') (pick (pyget dev ''name'') (PStr [])));
          size = field (pick (pyget dev ''size_bytes'') (PStr []));
          disk_id = or_text (field (pick (pyget dev ''id'') (PStr ''disk''))) ''disk'';
          raw = (if serial \<noteq> [] then serial else if model \<noteq> [] \<and> size \<noteq> [] then model @ ''-'' @ size else disk_id)
      in or_text (take 64 (strip_dashes (dash_unsafe raw))) disk_id)"

section \<open>The pass\<close>

definition stable_token :: "string \<Rightarrow> string" where
  \<comment> \<open>\<open>^temp=\d+C\<close> becomes \<open>temp\<close>\<close>
  "stable_token s =
     (let r = drop 5 s; ds = takeWhile is_digit r; r' = dropWhile is_digit r
      in if startswith s ''temp='' \<and> ds \<noteq> [] \<and> startswith r' ''C'' then ''temp'' @ drop 1 r' else s)"

fun split_text :: "string \<Rightarrow> string \<Rightarrow> string \<Rightarrow> string list" where
  \<comment> \<open>\<open>s.split(sep)\<close>, with what stands before so far\<close>
  "split_text sep [] before = [before]"
| "split_text sep (c # cs) before =
     (if sep \<noteq> [] \<and> startswith (c # cs) sep then before # split_text sep (drop (length sep - 1) cs) []
      else split_text sep cs (before @ [c]))"

text \<open>One level per disk, the worst it earned, with every reason.\<close>

definition smart_verdict :: "pydict \<Rightarrow> pydict \<Rightarrow> string \<times> reason list" where
  "smart_verdict smart th =
     (let (down, warn) = smart_reasons smart th
      in (if down \<noteq> [] then ''down'' else if warn \<noteq> [] then ''warn'' else ''ok'', down @ warn))"

definition smart_model :: "pydict \<Rightarrow> pydict \<Rightarrow> string \<Rightarrow> string" where
  "smart_model dev smart key =
     or_text (strip (alert_text (pick (pyget smart ''model'') (pick (pyget dev ''name'') (pick (pyget dev ''id'') (PStr key)))))) key"

definition smart_label :: "pydict \<Rightarrow> pydict \<Rightarrow> string \<Rightarrow> string" where
  "smart_label dev smart key =
     strip (smart_model dev smart key @ '' '' @ strip (alert_text (pick (pyget dev ''device'') (PStr []))))"

definition smart_alert :: "pydict \<Rightarrow> int \<Rightarrow> string \<Rightarrow> string \<Rightarrow> string \<Rightarrow> string \<Rightarrow> string \<Rightarrow> string \<Rightarrow> bool \<Rightarrow> string \<Rightarrow> sweep_out \<Rightarrow> sweep_out" where
  "smart_alert n now sid model level event detail message wanted title so =
     put_sent (truthy (pyget n ''enabled'') \<and> wanted)
       \<lparr>nt_title = title, nt_message = message, nt_level = level,
        nt_event = (if event = ''resolved'' then Some event else None)\<rparr>
       (put_row (alert_row now sid (PStr (alert_text (PStr (''Disk'' @ mid_dot @ model)))) (PStr ''smart'') (PStr ''storage'')
          level event (PStr detail) message) so)"

text \<open>The tokens stored with the last bad sweep of the disk, and whether one has appeared or changed since.\<close>

definition smart_known :: "pydict \<Rightarrow> string \<Rightarrow> string list" where
  "smart_known last_details key =
     split_text mid_dot (case py_str (pick (pyget last_details key) (PStr [])) of Inl _ \<Rightarrow> [] | Inr s \<Rightarrow> s) []"

definition smart_grew :: "pydict \<Rightarrow> string \<Rightarrow> string list \<Rightarrow> bool" where
  "smart_grew last_details key tokens \<longleftrightarrow>
     dict_get last_details key \<noteq> None \<and> list_ex (\<lambda>t. t \<notin> set (smart_known last_details key)) tokens"

text \<open>A disk that reads: the stamps, the stored tokens and the output.\<close>

definition smart_disk ::
  "pydict \<Rightarrow> pydict \<Rightarrow> pydict \<Rightarrow> int \<Rightarrow> pydict \<Rightarrow> pydict \<Rightarrow> pydict \<times> pydict \<times> sweep_out \<Rightarrow> pydict \<times> pydict \<times> sweep_out" where
  "smart_disk n th prev now dev smart acc =
     (case acc of (new_last, new_details, so) \<Rightarrow>
        (let (level, reasons) = smart_verdict smart th;
             last_details = dict_or (pyget prev ''_smart_detail'');
             key = smart_key dev;
             sid = ''smart:'' @ key;
             so = put_state sid (PStr level) so;
             old = pyget prev sid;
             last_t = alert_epoch 0 (pyget (dict_or (pyget prev ''_smart_last'')) key);
             model = smart_model dev smart key;
             label = smart_label dev smart key;
             tokens = map (\<lambda>r. stable_token (fst r)) reasons
         in if level \<noteq> ''ok'' then
              (let new_details = dict_set key (PStr (join_on mid_dot tokens)) new_details in
               if old \<noteq> PStr level \<or> smart_grew last_details key tokens \<or> (level = ''down'' \<and> cooldown_of th \<le> now - last_t) then
                 (let body = join_on ''; '' (map snd reasons);
                      message = alert_text (PStr
                        (if level = ''down''
                         then ''Disk '' @ label @ '' reports SMART failures and may be about to fail: '' @ body
                         else ''Disk '' @ label @ '' has SMART metrics out of bounds: '' @ body))
                  in (dict_set key (PInt now) new_last, new_details,
                      smart_alert n now sid model level ''problem'' (join_on mid_dot (map fst reasons)) message
                        (level = ''down'' \<or> truthy (pyget n ''include_warn'')) ''ServerHub disk alert'' so))
               else (new_last, new_details, so))
            else if bad_state old then
              (dict_del key new_last, dict_del key new_details,
               smart_alert n now sid model ''ok'' ''resolved'' ''SMART metrics normal''
                 (alert_text (PStr (''Disk '' @ label @ '' SMART metrics are back to normal'')))
                 (truthy (get_or n ''notify_resolve'' (PBool True))) ''ServerHub disk recovered'' so)
            else (new_last, new_details, so)))"

definition smart_row ::
  "pydict \<Rightarrow> pydict \<Rightarrow> pydict \<Rightarrow> int \<Rightarrow> pyval \<Rightarrow> pydict \<times> pydict \<times> sweep_out \<Rightarrow> pydict \<times> pydict \<times> sweep_out" where
  \<comment> \<open>an unreadable disk is skipped and leaves no state\<close>
  "smart_row n th prev now v acc =
     (case v of
        PDict dev \<Rightarrow>
          (case pyget dev ''smart'' of
             PDict smart \<Rightarrow>
               if smart = [] \<or> truthy (pyget dev ''error'') then acc else smart_disk n th prev now dev smart acc
           | _ \<Rightarrow> acc)
      | _ \<Rightarrow> acc)"

definition smart_pass :: "pydict \<Rightarrow> pydict \<Rightarrow> pydict \<Rightarrow> int \<Rightarrow> pyval option \<Rightarrow> sweep_out \<Rightarrow> sweep_out" where
  \<comment> \<open>\<open>_check_smart_health\<close>; None where \<open>smart_devices\<close> raises\<close>
  "smart_pass n th prev now devices so =
     (if \<not> truthy (get_or th ''smart_enabled'' (PBool True)) then so
      else
        (case devices of
           None \<Rightarrow> so
         | Some v \<Rightarrow>
             (let rows = (case v of PList vs \<Rightarrow> vs | _ \<Rightarrow> []);
                  (new_last, new_details, so) =
                    fold (smart_row n th prev now) rows
                      (dict_or (pyget prev ''_smart_last''), dict_or (pyget prev ''_smart_detail''), so)
              in put_state ''_smart_detail'' (PDict new_details) (put_state ''_smart_last'' (PDict new_last) so))))"

end
