(* ===== verification/Alert_Sweep.thy ===== *)
theory Alert_Sweep
  imports Alert_Freshness Alert_Smart
begin

text \<open>
  One sweep of the alert engine (\<open>check_once\<close> of \<open>hub/alerts.py\<close>): the stored state, the
  bookkeeping it carries over, the passes with their containment, and the write of a changed state. What the
  sweep reads enters as the fields of \<open>feeds\<close>; the rows of the shutdown policy and of the stale-runtime
  check, which keep their state elsewhere, are among them. A state file that does not read, does not parse
  or is over the cap is a failed read.
\<close>

section \<open>The stored state\<close>

definition load_alerts :: "disk \<Rightarrow> doc \<Rightarrow> pydict" where
  \<comment> \<open>\<open>_load_state\<close>\<close>
  "load_alerts dk file =
     (if d_read dk then (case file of Some (PDict st) \<Rightarrow> dict_or (jsonable_alert 0 (PDict st)) | _ \<Rightarrow> []) else [])"

definition save_alerts :: "disk \<Rightarrow> pydict \<Rightarrow> doc \<Rightarrow> doc" where
  \<comment> \<open>\<open>_save_state\<close>\<close>
  "save_alerts dk st file = (if d_write dk then Some (jsonable_alert 0 (PDict st)) else file)"

text \<open>Equality of values as Python compares them: numbers by value, dicts without regard to order.\<close>

fun py_eq :: "pyval \<Rightarrow> pyval \<Rightarrow> bool" where
  "py_eq (PDict a) w =
     (case w of
        PDict b \<Rightarrow>
          length a = length b
          \<and> list_all (\<lambda>p. case dict_get b (fst p) of None \<Rightarrow> False | Some v \<Rightarrow> py_eq (snd p) v) a
      | _ \<Rightarrow> False)"
| "py_eq (PList a) w = (case w of PList b \<Rightarrow> length a = length b \<and> list_all2 py_eq a b | _ \<Rightarrow> False)"
| "py_eq (PTuple a) w = (case w of PTuple b \<Rightarrow> length a = length b \<and> list_all2 py_eq a b | _ \<Rightarrow> False)"
| "py_eq (PStr s) w = (w = PStr s)"
| "py_eq (PBytes s) w = (w = PBytes s)"
| "py_eq PNone w = (w = PNone)"
| "py_eq PHostile w = False"
| "py_eq v w =
     (let num = (\<lambda>v. case v of
                   PBool b \<Rightarrow> Some (if b then 1 else 0)
                 | PInt i \<Rightarrow> Some (of_int i)
                 | PFloat f \<Rightarrow> finite_dbl (dbl_of_float f)
                 | _ \<Rightarrow> None)
      in if num v = None then v = w \<and> v \<noteq> PFloat FNan else num v = num w)"

section \<open>One sweep\<close>

record feeds =
  fd_status :: pyval
  fd_now :: "rat option"
  fd_notify :: pydict
  fd_thresholds :: pydict
  fd_sample :: pyval
  fd_disks :: "pyval option"
  fd_power :: pyval
  fd_files :: file_view
  fd_targets :: pyval
  fd_policy :: "pydict list"
  fd_stale :: "pydict list"

definition add_service :: "pyval \<Rightarrow> (string \<times> pydict) list \<Rightarrow> (string \<times> pydict) list" where
  "add_service v out =
     (case v of
        PDict s \<Rightarrow> if service_id (pyget s ''id'') = [] then out else dict_set (service_id (pyget s ''id'')) s out
      | _ \<Rightarrow> out)"

definition add_group :: "pyval \<Rightarrow> (string \<times> pydict) list \<Rightarrow> (string \<times> pydict) list" where
  "add_group g out =
     (case g of
        PDict d \<Rightarrow> (case pyget d ''services'' of PList rows \<Rightarrow> fold add_service rows out | _ \<Rightarrow> out)
      | _ \<Rightarrow> out)"

definition status_services :: "pyval \<Rightarrow> (string \<times> pydict) list" where
  "status_services st = (case mapping_get st ''groups'' of PList gs \<Rightarrow> fold add_group gs [] | _ \<Rightarrow> [])"

definition carried_names :: "string list" where
  "carried_names = [''_resource_last'', ''_smart_last'', ''_smart_detail'', ''_freshness_last'', ''_service_pending'']"

definition carried :: "pydict \<Rightarrow> pydict" where
  "carried prev =
     fold (\<lambda>k out. case pyget prev k of PDict d \<Rightarrow> dict_set k (PDict d) out | _ \<Rightarrow> out) carried_names []"

text \<open>A pass inside its \<open>try\<close>: a raising pass loses its alerts, not what it has journalled or written.\<close>

definition contained :: "(sweep_out \<Rightarrow> bool \<times> sweep_out) \<Rightarrow> pydict list \<times> sweep_out \<Rightarrow> pydict list \<times> sweep_out" where
  "contained pass acc =
     (case acc of (emitted, so) \<Rightarrow>
        (case pass so of
           (raised, so') \<Rightarrow>
             (if raised then emitted else emitted @ drop (length (so_rows so)) (so_rows so'), so')))"

definition check_once :: "feeds \<Rightarrow> pydict \<Rightarrow> pydict list \<times> sweep_out" where
  "check_once fd prev =
     (let services = status_services (fd_status fd);
          now = (case fd_now fd of None \<Rightarrow> 0 | Some t \<Rightarrow> rat_int t);
          n = fd_notify fd;
          acc = ([], \<lparr>so_state = carried prev, so_rows = [], so_sent = []\<rparr>);
          acc = contained (service_pass n prev now services) acc;
          acc = contained (\<lambda>so. (False, resource_pass n (fd_thresholds fd) prev now (fd_sample fd) so)) acc;
          acc = contained (\<lambda>so. (False, smart_pass n (fd_thresholds fd) prev now (fd_disks fd) so)) acc;
          acc = contained (\<lambda>so. (False, ups_pass n prev now (fd_power fd) so)) acc;
          acc = (fst acc @ fd_policy fd, snd acc);
          acc = contained (freshness_pass (fd_files fd) n prev now (fd_targets fd)) acc
      in (fst acc @ fd_stale fd, snd acc))"

text \<open>The alerts of the sweep, what it put out, and the state file after it.\<close>

definition alert_tick :: "disk \<Rightarrow> feeds \<Rightarrow> doc \<Rightarrow> pyval list \<times> sweep_out \<times> doc" where
  "alert_tick dk fd file =
     (let prev = load_alerts dk file; (emitted, so) = check_once fd prev in
      (map (\<lambda>a. jsonable_alert 0 (PDict a)) emitted, so,
       if py_eq (PDict (so_state so)) (PDict prev) then file else save_alerts dk (so_state so) file))"

text \<open>The seeding of a fresh install, when the loop starts.\<close>

definition baseline_state :: "pyval \<Rightarrow> pydict" where
  "baseline_state st = fold (\<lambda>p out. dict_set (fst p) (pyget (snd p) ''state'') out) (status_services st) []"

definition seed_baseline :: "disk \<Rightarrow> pyval \<Rightarrow> doc \<Rightarrow> doc" where
  "seed_baseline dk st file =
     (if load_alerts dk file = [] then save_alerts dk (baseline_state st) file else file)"

section \<open>Alerts of other modules\<close>

definition emit_alert ::
  "pydict \<Rightarrow> int \<Rightarrow> string \<Rightarrow> string \<Rightarrow> string \<Rightarrow> string \<Rightarrow> string \<Rightarrow> string \<Rightarrow> pydict \<times> notice option" where
  \<comment> \<open>\<open>emit_alert\<close>: the row it journals and the notice it dispatches\<close>
  "emit_alert n now kind level aid message title event =
     (let enabled = truthy (pyget n ''enabled'');
          wanted = (if level = ''down'' then enabled
                    else if event = ''resolved'' then enabled \<and> truthy (get_or n ''notify_resolve'' (PBool True))
                    else enabled \<and> truthy (get_or n ''include_warn'' (PBool True)))
      in ([(''t'', PInt now), (''level'', PStr level), (''kind'', PStr kind), (''id'', PStr aid),
           (''name'', PStr (or_text title aid)), (''event'', PStr event), (''message'', PStr message)],
          if wanted
          then Some \<lparr>nt_title = title, nt_message = message, nt_level = level,
                     nt_event = (if event = ''problem'' then None else Some event)\<rparr>
          else None))"

end
