(* ===== verification/Alert_State.thy ===== *)
theory Alert_State
  imports Alert_Sweep Ups_Json
begin

text \<open>
  What the write and the next load of the alert state keep of it: a key reads back as the scrubbed value
  it was written with, whatever the other keys are, as long as none of them is laundered into it.
\<close>

section \<open>Keys\<close>

definition alert_key :: "string \<Rightarrow> string" where
  "alert_key k = alert_text (PStr k)"

lemma alert_key_eq: "alert_key k = (if addr_repr (launder k) then [] else launder k)"
  by (simp add: alert_key_def alert_text_def)

lemma addr_repr_Nil [simp]: "\<not> addr_repr []"
  by simp

lemma alert_key_idem [simp]: "alert_key (alert_key k) = alert_key k"
  by (auto simp: alert_key_eq)

lemma launder_Cons: "is_ascii c \<Longrightarrow> launder (c # s) = c # launder s"
proof -
  assume "is_ascii c"
  then have c237: "ordc c \<noteq> 237" by (simp add: is_ascii_def)
  then have c: "\<not> surrogate (c # x)" for x by (cases x) simp_all
  show ?thesis
  proof (cases s)
    case (Cons d s')
    show ?thesis
    proof (cases "continuation d")
      case True
      then have "\<not> surrogate (d # x)" for x by (cases x) (auto simp: continuation_def)
      then show ?thesis using c237 True Cons by (cases s') (simp_all add: launder_def)
    qed (use c237 Cons in \<open>simp add: launder_def\<close>)
  qed (use c in \<open>simp add: launder_def\<close>)
qed

lemma launder_prefix: "list_all is_ascii p \<Longrightarrow> launder (p @ s) = p @ launder s"
  by (induction p) (simp_all add: launder_Cons)

lemma alert_key_prefix: "list_all is_ascii p \<Longrightarrow> alert_key (p @ s) = [] \<or> (\<exists>r. alert_key (p @ s) = p @ r)"
  by (auto simp: alert_key_eq launder_prefix)

definition akeys :: "pydict \<Rightarrow> pydict" where
  "akeys kvs = foldl (\<lambda>out p. dict_set (alert_key (fst p)) (snd p) out) [] kvs"

lemma akeys_snoc: "akeys (kvs @ [p]) = dict_set (alert_key (fst p)) (snd p) (akeys kvs)"
  by (simp add: akeys_def)

lemma akeys_all:
  "(\<And>p. p \<in> set kvs \<Longrightarrow> P (snd p)) \<Longrightarrow> dict_ok (akeys kvs) \<and> list_all (\<lambda>p. alert_key (fst p) = fst p \<and> P (snd p)) (akeys kvs)"
proof (induction kvs rule: rev_induct)
  case (snoc q kvs)
  have "dict_ok (akeys kvs) \<and> list_all (\<lambda>p. alert_key (fst p) = fst p \<and> P (snd p)) (akeys kvs)" using snoc by simp
  then show ?case unfolding akeys_snoc using snoc.prems[of q]
    by (auto simp: list_all_iff dict_ok_set dest!: in_dict_set)
qed (simp add: akeys_def dict_ok_def)

lemma akeys_id: "dict_ok kvs \<Longrightarrow> list_all (\<lambda>p. alert_key (fst p) = fst p) kvs \<Longrightarrow> akeys kvs = kvs"
proof (induction kvs rule: rev_induct)
  case (snoc q kvs)
  then show ?case by (simp add: akeys_snoc dict_ok_def dict_set_new)
qed (simp add: akeys_def)

lemma akeys_get:
  assumes "dict_ok kvs" "alert_key k = k" "\<And>k'. k' \<in> fst ` set kvs \<Longrightarrow> alert_key k' = k \<Longrightarrow> k' = k"
  shows "dict_get (akeys kvs) k = dict_get kvs k"
  using assms(1,3)
proof (induction kvs rule: rev_induct)
  case (snoc q kvs)
  have d: "dict_ok kvs" "fst q \<notin> fst ` set kvs" using snoc.prems(1) by (auto simp: dict_ok_def)
  have i: "dict_get (akeys kvs) k = dict_get kvs k" using snoc.prems(2) by (intro snoc.IH[OF d(1)]) auto
  show ?case
  proof (cases "alert_key (fst q) = k")
    case True
    then have "fst q = k" using snoc.prems(2)[of "fst q"] by simp
    moreover from this have "dict_get kvs k = None" using d(2) by (auto simp: dict_get_def map_of_eq_None_iff)
    ultimately show ?thesis using assms(2) by (simp add: akeys_snoc dict_simps dict_get_snoc)
  next
    case False
    then have "fst q \<noteq> k" using assms(2) by auto
    then show ?thesis using False i by (auto simp: akeys_snoc dict_simps dict_get_snoc split: option.split)
  qed
qed (simp add: akeys_def)

section \<open>Scrubbed values\<close>

lemma jsonable_alert_PDict:
  "n \<le> 32 \<Longrightarrow> jsonable_alert n (PDict d) = PDict (akeys (map (\<lambda>p. (fst p, jsonable_alert (Suc n) (snd p))) d))"
  by (simp add: jsonable_alert.simps[of n] akeys_def alert_key_def)

lemma jsonable_alert_simps [simp]:
  "jsonable_alert n PNone = PNone"
  "n \<le> 32 \<Longrightarrow> jsonable_alert n (PBool b) = PBool b"
  "n \<le> 32 \<Longrightarrow> jsonable_alert n (PStr s) = PStr (alert_key s)"
  "n \<le> 32 \<Longrightarrow> jsonable_alert n (PInt i) = (if fits_digit_cap i then PInt i else PNone)"
  by (simp_all add: jsonable_alert.simps[of n] alert_key_def)

fun aok :: "nat \<Rightarrow> pyval \<Rightarrow> bool" where
  "aok depth v \<longleftrightarrow>
     (if 32 < depth then v = PNone
      else (case v of
              PNone \<Rightarrow> True
            | PBool _ \<Rightarrow> True
            | PInt i \<Rightarrow> fits_digit_cap i
            | PFloat f \<Rightarrow> is_finite_float f
            | PStr s \<Rightarrow> alert_key s = s
            | PDict kvs \<Rightarrow> dict_ok kvs \<and> list_all (\<lambda>p. alert_key (fst p) = fst p \<and> aok (Suc depth) (snd p)) kvs
            | PList xs \<Rightarrow> list_all (aok (Suc depth)) xs
            | _ \<Rightarrow> False))"

declare aok.simps [simp del]

lemma jsonable_alert_id: "aok n v \<Longrightarrow> jsonable_alert n v = v"
proof (induction n v rule: aok.induct)
  case (1 n v)
  show ?case
  proof (cases "32 < n")
    case True
    then show ?thesis using 1(3) by (simp add: aok.simps[of n] jsonable_alert.simps[of n])
  next
    case False
    then have n: "n \<le> 32" by simp
    show ?thesis
    proof (cases v)
      case (PDict kvs)
      have k: "dict_ok kvs" "list_all (\<lambda>p. alert_key (fst p) = fst p) kvs" "\<And>p. p \<in> set kvs \<Longrightarrow> aok (Suc n) (snd p)"
        using 1(3) False PDict by (auto simp: aok.simps[of n] list_all_iff)
      have "map (\<lambda>p. (fst p, jsonable_alert (Suc n) (snd p))) kvs = kvs"
        using 1(2)[OF False PDict _ k(3)] by (intro map_idI) auto
      then show ?thesis using n PDict akeys_id[OF k(1,2)] by (simp add: jsonable_alert_PDict)
    next
      case (PList xs)
      have "aok (Suc n) x" if "x \<in> set xs" for x using 1(3) False PList that by (simp add: aok.simps[of n] list_all_iff)
      then have "map (jsonable_alert (Suc n)) xs = xs" using 1(1)[OF False PList] by (intro map_idI) auto
      then show ?thesis using n PList by (simp add: jsonable_alert.simps[of n])
    qed (use n 1(3) in \<open>auto simp: aok.simps[of n] jsonable_alert.simps[of n] alert_key_def\<close>)
  qed
qed

lemma alert_key_ascii: "list_all is_ascii s \<Longrightarrow> \<not> addr_repr s \<Longrightarrow> alert_key s = s"
  by (simp add: alert_key_eq launder_ascii)

lemma alert_key_launder: "alert_key (launder s) = alert_key s"
  by (simp add: alert_key_eq)

end
