(* ===== verification/Alert_Safety.thy ===== *)
theory Alert_Safety
  imports Alert_State
begin

text \<open>
  The debouncing of the service alerts: what the sweeps journal for a service is what a small machine
  over the service's own observations pages, whatever else the sweeps look at.
\<close>

section \<open>Outputs of a pass\<close>

lemma out_simps [simp]:
  "so_state (put_state k v so) = dict_set k v (so_state so)" "so_rows (put_state k v so) = so_rows so"
  "so_state (put_row r so) = so_state so" "so_rows (put_row r so) = so_rows so @ [r]"
  "so_state (put_sent b x so) = so_state so" "so_rows (put_sent b x so) = so_rows so"
  by (simp_all add: put_state_def put_row_def put_sent_def)

lemma alert_row_id [simp]: "pyget (alert_row now sid nm kind grp level event detail message) ''id'' = PStr sid"
  by (simp add: alert_row_def pyget_def dict_get_def)

text \<open>A pass that writes and reports nothing outside a set of keys.\<close>

definition touches_only   :: "string set \<Rightarrow> sweep_out \<Rightarrow> sweep_out \<Rightarrow> bool" where
  "touches_only K so so' \<longleftrightarrow>
     (dict_ok (so_state so) \<longrightarrow> dict_ok (so_state so'))
     \<and> (\<forall>k. k \<notin> K \<longrightarrow> dict_get (so_state so') k = dict_get (so_state so) k)
     \<and> (\<exists>rs. so_rows so' = so_rows so @ rs \<and> (\<forall>r \<in> set rs. \<exists>k \<in> K. pyget r ''id'' = PStr k))"

lemma touches_refl [intro!, simp]: "touches_only K so so"
  by (simp add: touches_only_def)

lemma touches_trans: "touches_only K a b \<Longrightarrow> touches_only K b c \<Longrightarrow> touches_only K a c"
  unfolding touches_only_def by (elim conjE exE) (auto 0 3 simp: Ball_def)

lemma touches_mono: "touches_only K a b \<Longrightarrow> K \<subseteq> L \<Longrightarrow> touches_only L a b"
  unfolding touches_only_def by blast

lemma touches_state: "k \<in> K \<Longrightarrow> touches_only K so (put_state k v so)"
  by (auto simp: touches_only_def dict_simps step_intros)

lemma touches_sent: "touches_only K so so' \<Longrightarrow> touches_only K so (put_sent b x so')"
  by (simp add: touches_only_def)

lemma touches_row: "touches_only K so so' \<Longrightarrow> pyget r ''id'' = PStr k \<Longrightarrow> k \<in> K \<Longrightarrow> touches_only K so (put_row r so')"
  unfolding touches_only_def by (elim conjE exE) (intro conjI, simp, simp, rule exI, auto)

lemma touches_put: "touches_only K so so' \<Longrightarrow> k \<in> K \<Longrightarrow> touches_only K so (put_state k v so')"
  using touches_trans touches_state by blast

lemmas touches = touches_refl touches_put touches_row touches_sent

section \<open>The debouncer\<close>

text \<open>What a service is known as, and whether a first bad sight is held back.\<close>

type_synonym svc_view = "pyval \<times> bool"

datatype page = Problem pyval | Resolved

fun svc_next :: "svc_view \<Rightarrow> pyval option \<Rightarrow> svc_view" where
  "svc_next (old, held) None = (PNone, False)"
| "svc_next (old, held) (Some st) = (st, old \<noteq> PNone \<and> bad_state st \<and> \<not> bad_state old \<and> \<not> held)"

fun svc_page :: "svc_view \<Rightarrow> pyval option \<Rightarrow> page list" where
  "svc_page (old, held) None = (if bad_state old then [Resolved] else [])"
| "svc_page (old, held) (Some st) =
     (if old = PNone then []
      else if bad_state st then (if \<not> held \<and> (\<not> bad_state old \<or> st = old) then [] else [Problem st])
      else if bad_state old \<and> st = PStr ''ok'' \<and> \<not> held then [Resolved] else [])"

definition page_of :: "pydict \<Rightarrow> page" where
  "page_of r = (if pyget r ''event'' = PStr ''problem'' then Problem (pyget r ''level'') else Resolved)"

definition pages_for :: "string \<Rightarrow> pydict list \<Rightarrow> page list" where
  "pages_for k rs = map page_of (filter (\<lambda>r. pyget r ''id'' = PStr k) rs)"

lemma pages_for_simps [simp]:
  "pages_for k [] = []" "pages_for k (xs @ ys) = pages_for k xs @ pages_for k ys"
  "pages_for k [alert_row now sid nm kind grp level event detail message]
    = (if sid = k then [if event = ''problem'' then Problem (PStr level) else Resolved] else [])"
  by (simp_all add: pages_for_def page_of_def) (simp add: alert_row_def pyget_def dict_get_def)

section \<open>Rows of the service pass\<close>

definition observed :: "pydict \<Rightarrow> pyval" where
  "observed s = get_or s ''state'' (PStr ''unknown'')"

text \<open>A service row whose state is clean text and whose other fields do not raise.\<close>

definition calm_row :: "pydict \<Rightarrow> bool" where
  "calm_row s \<longleftrightarrow> (\<exists>t. observed s = PStr t \<and> alert_key t = t) \<and> pyget s ''name'' \<noteq> PHostile \<and> pyget s ''detail'' \<noteq> PHostile"

definition marks :: "pydict \<Rightarrow> bool" where
  "marks pending \<longleftrightarrow> dict_ok pending \<and> (\<forall>k v. dict_get pending k = Some v \<longrightarrow> v = PInt 1)"

lemma marks_set: "marks p \<Longrightarrow> marks (dict_set k (PInt 1) p)"
  by (auto simp: marks_def dict_simps step_intros split: if_splits)

lemma marks_del: "marks p \<Longrightarrow> marks (dict_del k p)"
  by (auto simp: marks_def dict_simps step_intros split: if_splits)

definition view_in :: "pydict \<Rightarrow> pydict \<Rightarrow> string \<Rightarrow> svc_view" where
  "view_in prev pending k = (pyget prev k, dict_get pending k \<noteq> None)"

lemma service_fire_simps [simp]:
  "so_state (service_fire n now sid s level event message ok title so) = so_state so"
  "so_rows (service_fire n now sid s level event message ok title so) = so_rows so
     @ [alert_row now sid (get_or s ''name'' (PStr sid)) (pyget s ''kind'') (pyget s ''group'')
          level event (get_or s ''detail'' (PStr [])) message]"
  by (simp_all add: service_fire_def)

text \<open>What one row does, key by key.\<close>

lemma service_row_calm:
  assumes "calm_row s" "marks pending"
  obtains pending' so' new where "service_row n prev now (sid, s) (pending, so) = (False, pending', so')"
    "so_state so' = dict_set sid (observed s) (so_state so)" "so_rows so' = so_rows so @ new" "marks pending'"
    "\<And>k. dict_get pending' k = (if k = sid then (if snd (svc_next (view_in prev pending sid) (Some (observed s))) then Some (PInt 1) else None)
            else dict_get pending k)"
    "\<And>k. pages_for k new = (if k = sid then svc_page (view_in prev pending sid) (Some (observed s)) else [])"
    "\<forall>r \<in> set new. pyget r ''id'' = PStr sid"
proof -
  obtain t where t: "observed s = PStr t" using assms(1) by (auto simp: calm_row_def)
  then have st: "get_or s ''state'' (PStr ''unknown'') = PStr t" by (simp add: observed_def)
  have p: "pyget pending sid = (if dict_get pending sid = None then PNone else PInt 1)"
    using assms(2) by (auto simp: marks_def pyget_def split: option.split)
  have h: "pyget s ''name'' \<noteq> PHostile" "pyget s ''detail'' \<noteq> PHostile" using assms(1) by (auto simp: calm_row_def)
  let ?so = "put_state sid (PStr t) so" and ?old = "pyget prev sid"
  have ok: "\<not> bad_state (PStr ''ok'')" by (simp add: bad_state_def)
  have p: "v = PInt 1" if "dict_get pending sid = Some v" for v using assms(2) that by (auto simp: marks_def)
  note f = service_row_def Let_def st t h ok state_text_def pyget_def[of pending]
  have cases: "P" if "?old = PNone \<Longrightarrow> P" "\<lbrakk>?old \<noteq> PNone; bad_state (PStr t); \<not> bad_state ?old; dict_get pending sid = None\<rbrakk> \<Longrightarrow> P"
    "\<lbrakk>?old \<noteq> PNone; bad_state (PStr t); ?old = PStr t; dict_get pending sid = None\<rbrakk> \<Longrightarrow> P"
    "\<lbrakk>?old \<noteq> PNone; bad_state (PStr t); dict_get pending sid \<noteq> None \<or> (bad_state ?old \<and> ?old \<noteq> PStr t)\<rbrakk> \<Longrightarrow> P"
    "\<lbrakk>?old \<noteq> PNone; \<not> bad_state (PStr t); bad_state ?old; t = ''ok''; dict_get pending sid = None\<rbrakk> \<Longrightarrow> P"
    "\<lbrakk>?old \<noteq> PNone; \<not> bad_state (PStr t); \<not> (bad_state ?old \<and> t = ''ok'' \<and> dict_get pending sid = None)\<rbrakk> \<Longrightarrow> P" for P
    using that by metis
  show thesis
  proof (rule cases)
    assume "?old = PNone"
    then have "service_row n prev now (sid, s) (pending, so) = (False, dict_del sid pending, ?so)" by (simp add: f)
    from that[OF this, of "[]"] \<open>?old = PNone\<close> show thesis by (simp add: t view_in_def dict_simps marks_del assms(2))
  next
    assume a: "?old \<noteq> PNone" "bad_state (PStr t)" "\<not> bad_state ?old" "dict_get pending sid = None"
    then have "service_row n prev now (sid, s) (pending, so) = (False, dict_set sid (PInt 1) pending, ?so)" by (simp add: f)
    from that[OF this, of "[]"] a show thesis by (simp add: t view_in_def dict_simps marks_set assms(2))
  next
    assume a: "?old \<noteq> PNone" "bad_state (PStr t)" "?old = PStr t" "dict_get pending sid = None"
    then have "service_row n prev now (sid, s) (pending, so) = (False, pending, ?so)" by (simp add: f)
    from that[OF this, of "[]"] a show thesis by (simp add: t view_in_def dict_simps assms(2))
  next
    assume a: "?old \<noteq> PNone" "bad_state (PStr t)" "dict_get pending sid \<noteq> None \<or> (bad_state ?old \<and> ?old \<noteq> PStr t)"
    then have "service_row n prev now (sid, s) (pending, so)
      = (False, dict_del sid pending,
         service_fire n now sid s t ''problem'' (service_label sid s @ '' changed to '' @ t @ '': '' @ alert_text (pick (pyget s ''detail'') (PStr [])))
           (PStr t = PStr ''down'' \<or> truthy (pyget n ''include_warn'')) ''ServerHub alert'' ?so)" by (auto simp: f)
    from that[OF this] a show thesis by (auto simp: t view_in_def dict_simps marks_del assms(2))
  next
    assume a: "?old \<noteq> PNone" "\<not> bad_state (PStr t)" "bad_state ?old" "t = ''ok''" "dict_get pending sid = None"
    then have "service_row n prev now (sid, s) (pending, so)
      = (False, dict_del sid pending,
         service_fire n now sid s ''ok'' ''resolved'' (service_label sid s @ '' has recovered'')
           (truthy (get_or n ''notify_resolve'' (PBool True))) ''ServerHub recovered'' ?so)" by (simp add: f)
    from that[OF this] a show thesis by (simp add: t view_in_def dict_simps marks_del assms(2))
  next
    assume a: "?old \<noteq> PNone" "\<not> bad_state (PStr t)" "\<not> (bad_state ?old \<and> t = ''ok'' \<and> dict_get pending sid = None)"
    then have "service_row n prev now (sid, s) (pending, so) = (False, dict_del sid pending, ?so)"
      by (cases "dict_get pending sid") (auto simp: f dest: p)
    from that[OF this, of "[]"] a show thesis by (auto simp: t view_in_def dict_simps marks_del assms(2))
  qed
qed

section \<open>The loop over the services\<close>

definition obs_of :: "(string \<times> pydict) list \<Rightarrow> string \<Rightarrow> pyval option" where
  "obs_of rs k = map_option observed (dict_get rs k)"

definition next_in :: "pydict \<Rightarrow> pydict \<Rightarrow> string \<Rightarrow> pyval option \<Rightarrow> bool" where
  "next_in prev pending k ob = snd (svc_next (view_in prev pending k) ob)"

lemma dict_get_first [simp]: "dict_get (p # d) k = (if k = fst p then Some (snd p) else dict_get d k)"
  by (cases p) (simp add: dict_get_def)

lemma service_rows_calm:
  assumes "distinct (map fst rs)" "list_all (\<lambda>p. calm_row (snd p)) rs" "marks pending"
  shows "\<exists>pending' so' new. service_rows n prev now rs (pending, so) = (False, pending', so') \<and> marks pending'
    \<and> (\<forall>k. dict_get (so_state so') k = (case obs_of rs k of None \<Rightarrow> dict_get (so_state so) k | Some v \<Rightarrow> Some v))
    \<and> (\<forall>k. dict_get pending' k = (if dict_get rs k = None then dict_get pending k
             else if next_in prev pending k (obs_of rs k) then Some (PInt 1) else None))
    \<and> so_rows so' = so_rows so @ new \<and> (\<forall>r \<in> set new. \<exists>k \<in> fst ` set rs. pyget r ''id'' = PStr k)
    \<and> (\<forall>k. pages_for k new = (if dict_get rs k = None then [] else svc_page (view_in prev pending k) (obs_of rs k)))
    \<and> (dict_ok (so_state so) \<longrightarrow> dict_ok (so_state so'))"
  using assms
proof (induction rs arbitrary: pending so)
  case Nil
  then show ?case by (simp add: obs_of_def dict_simps)
next
  case (Cons r rs)
  obtain sid s where r: "r = (sid, s)" by fastforce
  have sid: "dict_get rs sid = None" using Cons.prems(1) r by (auto simp: dict_get_def map_of_eq_None_iff)
  have calm: "calm_row s" using Cons.prems(2) r by simp
  obtain p1 so1 new1 where 1: "service_row n prev now (sid, s) (pending, so) = (False, p1, so1)"
    "so_state so1 = dict_set sid (observed s) (so_state so)" "so_rows so1 = so_rows so @ new1" "marks p1"
    and p1: "\<And>k. dict_get p1 k = (if k = sid then (if snd (svc_next (view_in prev pending sid) (Some (observed s))) then Some (PInt 1) else None)
            else dict_get pending k)"
    and n1: "\<And>k. pages_for k new1 = (if k = sid then svc_page (view_in prev pending sid) (Some (observed s)) else [])"
    "\<forall>r \<in> set new1. pyget r ''id'' = PStr sid"
    by (rule service_row_calm[OF calm Cons.prems(3)]) blast
  obtain p2 so2 new2 where 2: "service_rows n prev now rs (p1, so1) = (False, p2, so2)" "marks p2"
    "\<forall>k. dict_get (so_state so2) k = (case obs_of rs k of None \<Rightarrow> dict_get (so_state so1) k | Some v \<Rightarrow> Some v)"
    "\<forall>k. dict_get p2 k = (if dict_get rs k = None then dict_get p1 k
             else if next_in prev p1 k (obs_of rs k) then Some (PInt 1) else None)"
    "so_rows so2 = so_rows so1 @ new2" "\<forall>r \<in> set new2. \<exists>k \<in> fst ` set rs. pyget r ''id'' = PStr k"
    "\<forall>k. pages_for k new2 = (if dict_get rs k = None then [] else svc_page (view_in prev p1 k) (obs_of rs k))"
    "dict_ok (so_state so1) \<longrightarrow> dict_ok (so_state so2)"
    using Cons.IH[OF _ _ 1(4), of so1] Cons.prems by auto
  have v: "view_in prev p1 k = view_in prev pending k" if "k \<noteq> sid" for k using that p1[of k] by (simp add: view_in_def)
  have e: "service_rows n prev now (r # rs) (pending, so) = (False, p2, so2)" using 1(1) 2(1) r by simp
  have st: "dict_get (so_state so2) k = (case obs_of (r # rs) k of None \<Rightarrow> dict_get (so_state so) k | Some v \<Rightarrow> Some v)" for k
    using 2(3) sid by (cases "dict_get rs k") (auto simp: 1(2) obs_of_def r dict_simps)
  have pd: "dict_get p2 k = (if dict_get (r # rs) k = None then dict_get pending k
             else if next_in prev pending k (obs_of (r # rs) k) then Some (PInt 1) else None)" for k
    using 2(4) sid p1[of k] v[of k] by (cases "k = sid") (simp_all add: r obs_of_def next_in_def)
  have pg: "pages_for k (new1 @ new2) = (if dict_get (r # rs) k = None then [] else svc_page (view_in prev pending k) (obs_of (r # rs) k))" for k
    using 2(7) sid n1(1)[of k] v[of k] by (cases "k = sid") (simp_all add: r obs_of_def)
  have ok: "dict_ok (so_state so) \<longrightarrow> dict_ok (so_state so2)" using 2(8) 1(2) by (simp add: step_intros)
  have ids: "\<forall>x \<in> set (new1 @ new2). \<exists>k \<in> fst ` set (r # rs). pyget x ''id'' = PStr k" using 2(6) n1(2) r by auto
  show ?case using e 2(2) st pd pg ok ids 1(3) 2(5)
    by (intro exI[of _ p2] exI[of _ so2] exI[of _ "new1 @ new2"]) simp
qed

section \<open>Vanished services\<close>

text \<open>The names of services; everything else in the state is the engine's own.\<close>

definition plain_service :: "string \<Rightarrow> bool" where
  "plain_service k \<longleftrightarrow> k \<noteq> [] \<and> alert_key k = k \<and> \<not> startswith k ''_'' \<and> \<not> list_ex (startswith k) other_prefixes"

definition gone :: "pydict \<Rightarrow> (string \<times> pydict) list \<Rightarrow> string \<Rightarrow> bool" where
  "gone prev services k \<longleftrightarrow>
     \<not> startswith k ''_'' \<and> \<not> list_ex (startswith k) other_prefixes \<and> dict_get services k = None \<and> bad_state (pyget prev k)"

lemma gone_rows_calm:
  assumes "get_or n ''notify_resolve'' (PBool True) \<noteq> PHostile" "distinct (map fst ps)" "marks pending"
  shows "\<exists>pending' so' new. gone_rows n services now ps (pending, so) = (False, pending', so') \<and> marks pending'
    \<and> so_state so' = so_state so
    \<and> (\<forall>k. dict_get pending' k = (if gone ps services k then None else dict_get pending k))
    \<and> so_rows so' = so_rows so @ new \<and> (\<forall>r \<in> set new. \<exists>k. gone ps services k \<and> pyget r ''id'' = PStr k)
    \<and> (\<forall>k. pages_for k new = (if gone ps services k then [Resolved] else []))"
  using assms(2,3)
proof (induction ps arbitrary: pending so)
  case Nil
  then show ?case by (simp add: gone_def bad_state_def pyget_def dict_simps)
next
  case (Cons p ps)
  obtain sid old where p: "p = (sid, old)" by fastforce
  let ?skip = "startswith sid ''_'' \<or> list_ex (startswith sid) other_prefixes \<or> dict_get services sid \<noteq> None \<or> \<not> bad_state old"
  have sid: "dict_get ps sid = None" using Cons.prems(1) p by (auto simp: dict_get_def map_of_eq_None_iff)
  then have ngone: "\<not> gone ps services sid" by (simp add: gone_def pyget_def bad_state_def)
  have g: "gone (p # ps) services k \<longleftrightarrow> (if k = sid then \<not> ?skip else gone ps services k)" for k
    by (auto simp: gone_def pyget_def p)
  show ?case
  proof (cases ?skip)
    case True
    then have e: "gone_rows n services now (p # ps) (pending, so) = gone_rows n services now ps (pending, so)"
      by (simp add: gone_row_def p)
    have "gone (p # ps) services = gone ps services" using True ngone by (intro ext) (auto simp: g)
    then show ?thesis using Cons.IH[OF _ Cons.prems(2), of so] Cons.prems(1) unfolding e by simp
  next
    case False
    let ?m = "sid @ '' is no longer monitored''"
    let ?row = "alert_row now sid (PStr sid) (PStr ''launchd'') (PStr []) ''ok'' ''resolved'' (PStr ''removed from the services list'') ?m"
    define so1 where "so1 = put_sent (truthy (pyget n ''enabled'') \<and> truthy (get_or n ''notify_resolve'' (PBool True)))
              \<lparr>nt_title = ''ServerHub recovered'', nt_message = ?m, nt_level = ''ok'', nt_event = Some ''resolved''\<rparr> (put_row ?row so)"
    have e: "gone_rows n services now (p # ps) (pending, so) = gone_rows n services now ps (dict_del sid pending, so1)"
      using False assms(1) by (simp add: gone_row_def p so1_def Let_def)
    obtain p2 so2 new2 where 2: "gone_rows n services now ps (dict_del sid pending, so1) = (False, p2, so2)" "marks p2"
      "so_state so2 = so_state so1" "\<forall>k. dict_get p2 k = (if gone ps services k then None else dict_get (dict_del sid pending) k)"
      "so_rows so2 = so_rows so1 @ new2" "\<forall>r \<in> set new2. \<exists>k. gone ps services k \<and> pyget r ''id'' = PStr k"
      "\<forall>k. pages_for k new2 = (if gone ps services k then [Resolved] else [])"
      using Cons.IH[OF _ marks_del[OF Cons.prems(2)], of sid so1] Cons.prems(1) by auto
    have pages: "pages_for k (?row # new2) = (if gone (p # ps) services k then [Resolved] else [])" for k
      using 2(7) ngone False pages_for_simps(2)[of k "[?row]" new2] unfolding g by (cases "k = sid") auto
    have del: "dict_get p2 k = (if gone (p # ps) services k then None else dict_get pending k)" for k
      using 2(4) False ngone unfolding g by (auto simp: dict_simps)
    have ids: "\<forall>r \<in> set (?row # new2). \<exists>k. gone (p # ps) services k \<and> pyget r ''id'' = PStr k"
      using 2(6) False ngone g by (metis alert_row_id set_ConsD)
    show ?thesis unfolding e using 2(1,2,3,5) pages del ids
      by (intro exI[of _ p2] exI[of _ so2] exI[of _ "?row # new2"]) (simp add: so1_def)
  qed
qed

section \<open>The whole pass\<close>

lemma carried_get:
  "dict_get (carried prev) k =
     (if k \<in> set carried_names then (case pyget prev k of PDict d \<Rightarrow> Some (PDict d) | _ \<Rightarrow> None) else None)"
proof -
  let ?f = "\<lambda>k out. case pyget prev k of PDict d \<Rightarrow> dict_set k (PDict d) out | _ \<Rightarrow> out"
  have "dict_get (fold ?f ks out) k =
      (if k \<in> set ks then (case pyget prev k of PDict d \<Rightarrow> Some (PDict d) | _ \<Rightarrow> dict_get out k) else dict_get out k)" for ks out
    by (induction ks arbitrary: out) (auto simp: dict_simps split: pyval.split)
  from this[of carried_names "[]"] show ?thesis by (simp add: carried_def dict_simps split: pyval.split)
qed

lemma carried_ok: "dict_ok (carried prev)"
proof -
  let ?f = "\<lambda>k out. case pyget prev k of PDict d \<Rightarrow> dict_set k (PDict d) out | _ \<Rightarrow> out"
  have "dict_ok out \<Longrightarrow> dict_ok (fold ?f ks out)" for ks out
    by (induction ks arbitrary: out) (auto simp: step_intros split: pyval.split)
  from this[of "[]" carried_names] show ?thesis by (simp add: carried_def dict_ok_def)
qed

text \<open>The pending set of a state, and what a service is known as there.\<close>

definition held_in :: "pydict \<Rightarrow> pydict" where
  "held_in prev = dict_or (pyget prev ''_service_pending'')"

definition service_view :: "pydict \<Rightarrow> string \<Rightarrow> svc_view" where
  "service_view prev k = view_in prev (held_in prev) k"

text \<open>What the services of a status must satisfy for the pass to go through.\<close>

definition calm_services :: "(string \<times> pydict) list \<Rightarrow> bool" where
  "calm_services services \<longleftrightarrow>
     dict_ok services \<and> list_all (\<lambda>p. plain_service (fst p) \<and> calm_row (snd p)) services"

definition calm_flags :: "pydict \<Rightarrow> bool" where
  "calm_flags n \<longleftrightarrow> get_or n ''notify_resolve'' (PBool True) \<noteq> PHostile \<and> pyget n ''enabled'' \<noteq> PHostile"

text \<open>Held services are known as bad: the invariant of the stored state.\<close>

definition held_bad :: "pydict \<Rightarrow> bool" where
  "held_bad prev \<longleftrightarrow> marks (held_in prev) \<and> (\<forall>k. dict_get (held_in prev) k \<noteq> None \<longrightarrow> plain_service k \<and> bad_state (pyget prev k))"

lemma service_pass_calm:
  assumes "calm_services services" "calm_flags n" "dict_ok prev" "held_bad prev"
    and so: "so_state so = carried prev"
  shows "\<exists>so' pending new. service_pass n prev now services so = (False, so')
    \<and> dict_ok (so_state so') \<and> marks pending
    \<and> (\<forall>k. dict_get (so_state so') k =
         (if k = ''_service_pending'' then Some (PDict pending)
          else case obs_of services k of None \<Rightarrow> dict_get (carried prev) k | Some v \<Rightarrow> Some v))
    \<and> (\<forall>k. dict_get pending k = (if snd (svc_next (service_view prev k) (obs_of services k)) then Some (PInt 1) else None))
    \<and> so_rows so' = so_rows so @ new
    \<and> (\<forall>r \<in> set new. \<exists>k. \<not> startswith k ''_'' \<and> \<not> list_ex (startswith k) other_prefixes \<and> pyget r ''id'' = PStr k)
    \<and> (\<forall>k. plain_service k \<longrightarrow> pages_for k new = svc_page (service_view prev k) (obs_of services k))"
proof -
  let ?p = "''_service_pending''" and ?h = "held_in prev"
  have rows: "distinct (map fst services)" "list_all (\<lambda>p. calm_row (snd p)) services"
    using assms(1) by (auto simp: calm_services_def dict_ok_def list_all_iff)
  have plain: "plain_service k" if "dict_get services k \<noteq> None" for k
    using assms(1) that dict_get_in[of services k] by (fastforce simp: calm_services_def list_all_iff)
  have np: "dict_get services ?p = None" using plain[of ?p] by (cases "dict_get services ?p") (auto simp: plain_service_def startswith_def)
  have h: "dict_or (pyget (so_state so) ?p) = ?h"
    by (auto simp: so pyget_def[of "carried prev"] carried_get carried_names_def held_in_def dict_or_def split: pyval.split)
  have m: "marks ?h" using assms(4) by (simp add: held_bad_def)
  have flags: "get_or n ''notify_resolve'' (PBool True) \<noteq> PHostile" "distinct (map fst prev)"
    using assms(2,3) by (simp_all add: calm_flags_def dict_ok_def)
  let ?so = "put_state ?p (PDict ?h) so"
  obtain p1 so1 new1 where 1: "service_rows n prev now services (?h, ?so) = (False, p1, so1)" "marks p1"
    "\<forall>k. dict_get (so_state so1) k = (case obs_of services k of None \<Rightarrow> dict_get (so_state ?so) k | Some v \<Rightarrow> Some v)"
    "\<forall>k. dict_get p1 k = (if dict_get services k = None then dict_get ?h k
             else if next_in prev ?h k (obs_of services k) then Some (PInt 1) else None)"
    "so_rows so1 = so_rows ?so @ new1" "\<forall>r \<in> set new1. \<exists>k \<in> fst ` set services. pyget r ''id'' = PStr k"
    "\<forall>k. pages_for k new1 = (if dict_get services k = None then [] else svc_page (view_in prev ?h k) (obs_of services k))"
    "dict_ok (so_state ?so) \<longrightarrow> dict_ok (so_state so1)"
    using service_rows_calm[OF rows m, of n prev now ?so] by (elim exE conjE) (rule that; assumption)
  obtain p2 so2 new2 where 2: "gone_rows n services now prev (p1, so1) = (False, p2, so2)" "marks p2"
    "so_state so2 = so_state so1"
    "\<forall>k. dict_get p2 k = (if gone prev services k then None else dict_get p1 k)"
    "so_rows so2 = so_rows so1 @ new2" "\<forall>r \<in> set new2. \<exists>k. gone prev services k \<and> pyget r ''id'' = PStr k"
    "\<forall>k. pages_for k new2 = (if gone prev services k then [Resolved] else [])"
    using gone_rows_calm[OF flags 1(2), of services now so1] by (elim exE conjE) (rule that; assumption)
  have e: "service_pass n prev now services so = (False, put_state ?p (PDict p2) so2)"
    using 1(1) 2(1) np by (simp add: service_pass_def h)
  have st: "dict_get (so_state (put_state ?p (PDict p2) so2)) k = (if k = ?p then Some (PDict p2)
      else case obs_of services k of None \<Rightarrow> dict_get (carried prev) k | Some v \<Rightarrow> Some v)" for k
    using 1(3) by (auto simp: 2(3) dict_simps so split: option.split)
  have pend: "dict_get p2 k = (if snd (svc_next (service_view prev k) (obs_of services k)) then Some (PInt 1) else None)" for k
  proof (cases "dict_get services k")
    case None
    have "dict_get ?h k = None" if "\<not> gone prev services k"
      using assms(4) that None by (auto simp: held_bad_def gone_def plain_service_def)
    then show ?thesis using 1(4) 2(4) None by (auto simp: obs_of_def service_view_def view_in_def)
  next
    case (Some s)
    then have "\<not> gone prev services k" by (simp add: gone_def)
    then show ?thesis using 1(4) 2(4) Some by (simp add: next_in_def service_view_def)
  qed
  have pages: "pages_for k (new1 @ new2) = svc_page (service_view prev k) (obs_of services k)" if "plain_service k" for k
    using 1(7) 2(7) that by (cases "dict_get services k")
      (auto simp: gone_def plain_service_def obs_of_def service_view_def view_in_def)
  have "\<not> startswith k ''_'' \<and> \<not> list_ex (startswith k) other_prefixes" if "k \<in> fst ` set services" for k
    using assms(1) that by (auto simp: calm_services_def list_all_iff plain_service_def)
  then have ids: "\<forall>r \<in> set (new1 @ new2). \<exists>k. \<not> startswith k ''_'' \<and> \<not> list_ex (startswith k) other_prefixes \<and> pyget r ''id'' = PStr k"
    using 1(6) 2(6) by (fastforce simp: gone_def)
  have ok: "dict_ok (so_state (put_state ?p (PDict p2) so2))"
    using 1(8) carried_ok[of prev] by (simp add: so 2(3) step_intros)
  show ?thesis using e ok 2(2) st pend pages ids 1(5) 2(5)
    by (intro exI[of _ "put_state ?p (PDict p2) so2"] exI[of _ p2] exI[of _ "new1 @ new2"]) simp
qed

end
