(* ===== verification/Alert_Frames.thy ===== *)
theory Alert_Frames
  imports Alert_Safety
begin

text \<open>
  The passes of a sweep keep out of each other's keys: which part of the state each writes, and whose
  alerts it reports.
\<close>

definition resource_keys :: "string set" where
  "resource_keys = {''resource:cpu'', ''resource:mem'', ''resource:disk'', ''_resource_last''}"

definition ups_keys :: "string set" where
  "ups_keys = {''ups:power'', ''ups:battery''}"

definition smart_keys :: "string set" where
  "smart_keys = {k. startswith k ''smart:''} \<union> {''_smart_last'', ''_smart_detail''}"

definition fresh_keys :: "string set" where
  "fresh_keys = {k. startswith k ''freshness:''} \<union> {''_freshness_last''}"

lemma touches_fold:
  "(\<And>x acc. x \<in> set xs \<Longrightarrow> touches_only K (g acc) (g (f x acc))) \<Longrightarrow> touches_only K (g acc) (g (fold f xs acc))"
proof (induction xs arbitrary: acc)
  case (Cons x xs)
  have "touches_only K (g acc) (g (f x acc))" using Cons.prems by simp
  moreover have "touches_only K (g (f x acc)) (g (fold f xs (f x acc)))" using Cons by simp
  ultimately show ?case using touches_trans by simp
qed simp

lemma resource_row_touches:
  assumes "resource_key (fst check) \<in> K"
  shows "touches_only K (snd acc) (snd (resource_row n prev last_fire now cooldown check acc))"
  using assms
  by (auto simp: resource_row_def resource_fire_def Let_def split: prod.splits option.splits intro!: touches)

lemma resource_pass_touches: "touches_only resource_keys so (resource_pass n th prev now sample so)"
proof (cases "truthy (get_or th ''enabled'' (PBool True))")
  case True
  show ?thesis
  proof (cases sample)
    case (PDict latest)
    have "touches_only resource_keys (snd acc) (snd (fold (resource_row n prev lf now c) (resource_checks th latest) acc))" for lf c acc
      by (rule touches_fold[where g = snd]) (auto intro!: resource_row_touches simp: resource_checks_def resource_keys_def resource_key_def)
    from this[of "(lf, so)" for lf] show ?thesis
      using True PDict by (simp add: resource_pass_def Let_def case_prod_beta touches_put resource_keys_def)
  qed (simp_all add: resource_pass_def)
qed (simp add: resource_pass_def)

lemma ups_row_id [simp]: "pyget (ups_row now k nm level event detail message) ''id'' = PStr k"
  by (simp add: ups_row_def)

lemma ups_pass_touches: "touches_only ups_keys so (ups_pass n prev now snap so)"
proof (cases snap)
  case (PDict st)
  have p: "touches_only ups_keys so (power_alert n prev now nm charge b so)" for nm charge b
    by (auto simp: power_alert_def Let_def ups_keys_def intro!: touches)
  have "touches_only ups_keys so (battery_alert n prev now nm' charge' lowest low (power_alert n prev now nm charge b so))"
    for nm charge b nm' charge' lowest low
    using p[of nm charge b] by (auto simp: battery_alert_def Let_def ups_keys_def intro!: touches)
  then show ?thesis by (simp add: ups_pass_def PDict Let_def)
qed (simp_all add: ups_pass_def)

lemma smart_alert_touches:
  "touches_only K so so' \<Longrightarrow> sid \<in> K \<Longrightarrow> touches_only K so (smart_alert n now sid model level event detail message wanted title so')"
  by (simp add: smart_alert_def touches)

lemma smart_disk_touches: "touches_only smart_keys (snd (snd acc)) (snd (snd (smart_disk n th prev now dev smart acc)))"
proof -
  have k: "''smart:'' @ x \<in> smart_keys" for x by (simp add: smart_keys_def startswith_def)
  obtain nl nd so where acc: "acc = (nl, nd, so)" by (cases acc) auto
  obtain level reasons where v: "smart_verdict smart th = (level, reasons)" by fastforce
  note s = smart_disk_def acc v Let_def smart_alert_touches touches_put k
  show ?thesis
  proof (cases "level = ''ok''")
    case True
    then show ?thesis by (simp add: s del: append.simps)
  next
    case False
    then show ?thesis by (simp add: s if_distrib[of snd] del: append.simps)
  qed
qed

lemma smart_row_touches: "touches_only smart_keys (snd (snd acc)) (snd (snd (smart_row n th prev now v acc)))"
  by (auto simp: smart_row_def smart_disk_touches split: pyval.split)

lemma smart_pass_touches: "touches_only smart_keys so (smart_pass n th prev now devices so)"
proof -
  have "touches_only smart_keys (snd (snd acc)) (snd (snd (fold (smart_row n th prev now) rows acc)))" for rows acc
    by (rule touches_fold[where g = "\<lambda>acc. snd (snd acc)"]) (rule smart_row_touches)
  from this[of "(a, b, so)" for a b] show ?thesis
    by (simp add: smart_pass_def Let_def case_prod_beta touches_put smart_keys_def split: option.split)
qed

lemma announce_touches:
  assumes "touches_only K so so'" "pyget row ''id'' = PStr k" "k \<in> K"
  shows "touches_only K so (snd (announce n resolved row x so'))"
  using touches_row[OF assms] by (simp add: announce_def Let_def touches)

lemma fresh_row_id [simp]: "pyget (freshness_row now t level event detail message) ''id'' = PStr (''freshness:'' @ tg_id t)"
  unfolding freshness_row_def by (rule alert_row_id)

lemma fresh_target_touches: "touches_only fresh_keys (snd acc) (snd (snd (fresh_target fw n prev last_fire now t acc)))"
proof -
  have k: "''freshness:'' @ x \<in> fresh_keys" for x by (simp add: fresh_keys_def startswith_def)
  obtain nl so where acc: "acc = (nl, so)" by fastforce
  have a: "touches_only fresh_keys so (snd (announce n b (freshness_row now t l e d m) x (put_state (''freshness:'' @ tg_id t) v so)))"
    for b l e d m x v
    by (intro announce_touches[OF _ fresh_row_id] touches_put touches_refl k)
  show ?thesis
    by (simp add: fresh_target_def acc Let_def case_prod_beta if_distrib[of snd] a touches_put k split: dbl.split del: append.simps)
qed

lemma fresh_targets_touches: "touches_only fresh_keys (snd acc) (snd (snd (fresh_targets fw n prev last_fire now ts acc)))"
proof (induction ts arbitrary: acc)
  case (Cons t ts)
  obtain r acc' where t: "fresh_target fw n prev last_fire now t acc = (r, acc')" by (rule prod.exhaust)
  then have "touches_only fresh_keys (snd acc) (snd acc')" using fresh_target_touches[of acc fw n prev last_fire now t] by simp
  then show ?case using t Cons[of acc'] by (cases r) (auto intro: touches_trans)
qed simp

lemma freshness_pass_touches: "touches_only fresh_keys so (snd (freshness_pass fw n prev now raw so))"
  using fresh_targets_touches[of "(x, so)" for x]
  by (simp add: freshness_pass_def Let_def case_prod_beta touches_put fresh_keys_def split: sum.split)

end
