(* ===== verification/Alert_Runs.thy ===== *)
theory Alert_Runs
  imports Alert_Frames
begin

text \<open>
  Sweeps in a row: what a sweep stores is what the next one loads, key by key, so the service alerts of a
  run are those of the debouncer over the observations.
\<close>

section \<open>The passes of a sweep\<close>

text \<open>The outputs after each pass, from the state carried over.\<close>

definition sweep_start :: "pydict \<Rightarrow> sweep_out" where
  "sweep_start prev = \<lparr>so_state = carried prev, so_rows = [], so_sent = []\<rparr>"

definition sweep_now :: "feeds \<Rightarrow> int" where
  "sweep_now fd = (case fd_now fd of None \<Rightarrow> 0 | Some t \<Rightarrow> rat_int t)"

definition after_services :: "feeds \<Rightarrow> pydict \<Rightarrow> sweep_out" where
  "after_services fd prev =
     snd (service_pass (fd_notify fd) prev (sweep_now fd) (status_services (fd_status fd)) (sweep_start prev))"

definition after_resources :: "feeds \<Rightarrow> pydict \<Rightarrow> sweep_out" where
  "after_resources fd prev =
     resource_pass (fd_notify fd) (fd_thresholds fd) prev (sweep_now fd) (fd_sample fd) (after_services fd prev)"

definition after_smart :: "feeds \<Rightarrow> pydict \<Rightarrow> sweep_out" where
  "after_smart fd prev =
     smart_pass (fd_notify fd) (fd_thresholds fd) prev (sweep_now fd) (fd_disks fd) (after_resources fd prev)"

definition after_ups :: "feeds \<Rightarrow> pydict \<Rightarrow> sweep_out" where
  "after_ups fd prev = ups_pass (fd_notify fd) prev (sweep_now fd) (fd_power fd) (after_smart fd prev)"

definition after_fresh :: "feeds \<Rightarrow> pydict \<Rightarrow> sweep_out" where
  "after_fresh fd prev =
     snd (freshness_pass (fd_files fd) (fd_notify fd) prev (sweep_now fd) (fd_targets fd) (after_ups fd prev))"

lemma contained_snd: "snd (contained pass acc) = snd (pass (snd acc))"
  by (auto simp: contained_def split: prod.split)

lemma check_once_out: "snd (check_once fd prev) = after_fresh fd prev"
  by (simp add: check_once_def Let_def contained_snd sweep_start_def[symmetric] sweep_now_def[symmetric]
      after_fresh_def after_ups_def after_smart_def after_resources_def after_services_def)

definition late_keys :: "string set" where
  "late_keys = resource_keys \<union> smart_keys \<union> ups_keys \<union> fresh_keys"

lemma after_services_touches: "touches_only late_keys (after_services fd prev) (after_fresh fd prev)"
proof -
  have "touches_only late_keys (after_services fd prev) (after_resources fd prev)"
    unfolding after_resources_def by (rule touches_mono[OF resource_pass_touches]) (auto simp: late_keys_def)
  moreover have "touches_only late_keys (after_resources fd prev) (after_smart fd prev)"
    unfolding after_smart_def by (rule touches_mono[OF smart_pass_touches]) (auto simp: late_keys_def)
  moreover have "touches_only late_keys (after_smart fd prev) (after_ups fd prev)"
    unfolding after_ups_def by (rule touches_mono[OF ups_pass_touches]) (auto simp: late_keys_def)
  moreover have "touches_only late_keys (after_ups fd prev) (after_fresh fd prev)"
    unfolding after_fresh_def by (rule touches_mono[OF freshness_pass_touches]) (auto simp: late_keys_def)
  ultimately show ?thesis using touches_trans by metis
qed

section \<open>Keys the engine writes\<close>

definition engine_names :: "string list" where
  "engine_names = carried_names
     @ [''resource:cpu'', ''resource:mem'', ''resource:disk'', ''ups:power'', ''ups:battery'']"

definition engine_key :: "string \<Rightarrow> bool" where
  "engine_key k \<longleftrightarrow> k \<in> set engine_names \<or> startswith k ''smart:'' \<or> startswith k ''freshness:''"

lemma late_engine: "k \<in> late_keys \<Longrightarrow> engine_key k"
  by (auto simp: late_keys_def resource_keys_def smart_keys_def ups_keys_def fresh_keys_def engine_key_def
      engine_names_def carried_names_def)

lemma names_not_plain: "k \<in> set engine_names \<Longrightarrow> \<not> plain_service k"
  by (auto simp: engine_names_def carried_names_def plain_service_def startswith_def other_prefixes_def)

lemma engine_not_plain: "engine_key k \<Longrightarrow> \<not> plain_service k"
  using names_not_plain by (auto simp: engine_key_def plain_service_def other_prefixes_def)

lemma late_not_plain: "plain_service k \<Longrightarrow> k \<notin> late_keys"
  using late_engine engine_not_plain by blast

lemma names_keyed: "k \<in> set engine_names \<Longrightarrow> alert_key k = k"
proof -
  have "list_all (\<lambda>k. alert_key k = k) engine_names"
    unfolding alert_key_def engine_names_def carried_names_def by code_simp
  then show "k \<in> set engine_names \<Longrightarrow> alert_key k = k" by (simp add: list_all_iff)
qed

lemma startswith_append: "startswith k p \<longleftrightarrow> (\<exists>r. k = p @ r)"
proof
  assume "startswith k p"
  then have "take (length p) k = p" by (simp add: startswith_def)
  then have "k = p @ drop (length p) k" by (metis append_take_drop_id)
  then show "\<exists>r. k = p @ r" by blast
qed (auto simp: startswith_def)

text \<open>No key the engine writes is laundered into another one that is looked up.\<close>

lemma key_apart:
  assumes "plain_service k' \<or> engine_key k'" "plain_service k \<or> k \<in> set engine_names" "alert_key k' = k"
  shows "k' = k"
proof -
  have pre: False if s: "startswith k' p" and m: "p \<in> {''smart:'', ''freshness:''}" for p
  proof -
    obtain r where r: "k' = p @ r" using s by (auto simp: startswith_append)
    have "list_all is_ascii p" using m by (auto simp: is_ascii_def ordc_def)
    from alert_key_prefix[OF this, of r] have "k = [] \<or> startswith k p" using assms(3) r by (auto simp: startswith_append)
    moreover have "k \<noteq> []" using assms(2) by (auto simp: plain_service_def engine_names_def carried_names_def)
    moreover have "\<not> startswith k p"
      using assms(2) m by (auto simp: plain_service_def engine_names_def carried_names_def other_prefixes_def startswith_def)
    ultimately show False by blast
  qed
  show ?thesis using assms pre names_keyed by (auto simp: engine_key_def plain_service_def)
qed

section \<open>What the next sweep loads\<close>

lemma jsonable_keys: "fst ` set (map (\<lambda>p. (fst p, f (snd p))) d) = fst ` set d"
  by (simp add: image_image)

lemma dict_ok_map: "dict_ok (map (\<lambda>p. (fst p, f (snd p))) d) = dict_ok d"
  by (simp add: dict_ok_def comp_def)

definition scrubbed :: "nat \<Rightarrow> pydict \<Rightarrow> pydict" where
  "scrubbed n d = akeys (map (\<lambda>p. (fst p, jsonable_alert (Suc n) (snd p))) d)"

lemma jsonable_scrubbed: "n \<le> 32 \<Longrightarrow> jsonable_alert n (PDict d) = PDict (scrubbed n d)"
  by (simp add: jsonable_alert_PDict scrubbed_def)

lemma scrubbed_ok: "dict_ok (scrubbed n d)" "list_all (\<lambda>p. alert_key (fst p) = fst p) (scrubbed n d)"
  using akeys_all[of "map (\<lambda>p. (fst p, jsonable_alert (Suc n) (snd p))) d" "\<lambda>_. True"]
  by (auto simp: scrubbed_def list_all_iff)

lemma scrubbed_get:
  assumes "dict_ok d" "alert_key k = k" "\<And>k'. dict_get d k' \<noteq> None \<Longrightarrow> alert_key k' = k \<Longrightarrow> k' = k"
  shows "dict_get (scrubbed n d) k = map_option (jsonable_alert (Suc n)) (dict_get d k)"
proof -
  have "k' = k" if "k' \<in> fst ` set d" "alert_key k' = k" for k'
    using assms(3)[of k'] that by (auto simp: dict_get_def map_of_eq_None_iff)
  then have "dict_get (scrubbed n d) k = dict_get (map (\<lambda>p. (fst p, jsonable_alert (Suc n) (snd p))) d) k"
    unfolding scrubbed_def using assms(1,2) by (intro akeys_get) (simp_all add: dict_ok_map image_image)
  then show ?thesis by (simp add: jsonable_Some)
qed

lemma scrubbed_again: "dict_get (scrubbed m (scrubbed n d)) k = map_option (jsonable_alert (Suc m)) (dict_get (scrubbed n d) k)"
proof -
  have "scrubbed m (scrubbed n d) = map (\<lambda>p. (fst p, jsonable_alert (Suc m) (snd p))) (scrubbed n d)"
    unfolding scrubbed_def[of m] using scrubbed_ok[of n d] by (intro akeys_id) (simp_all add: dict_ok_map list_all_iff)
  then show ?thesis by (simp add: jsonable_Some)
qed

abbreviation known :: "doc \<Rightarrow> pydict" where
  "known file \<equiv> load_alerts good_disk file"

lemma known_scrubbed: "known file = [] \<or> (\<exists>d. known file = scrubbed 0 d)"
  by (auto simp: load_alerts_def jsonable_scrubbed dict_or_def split: option.split pyval.split)

lemma known_ok: "dict_ok (known file)"
  using known_scrubbed[of "file"] scrubbed_ok by (auto simp: dict_ok_def)

lemma known_saved: "known (save_alerts good_disk st file) = scrubbed 0 (scrubbed 0 st)"
  by (simp add: load_alerts_def save_alerts_def jsonable_scrubbed dict_or_def)

text \<open>Dictionaries Python takes for equal.\<close>

lemma py_eq_dict:
  assumes "py_eq (PDict a) (PDict b)" "dict_ok a" "dict_ok b"
  shows "dict_get a k = None \<longleftrightarrow> dict_get b k = None"
    "dict_get a k = Some v \<Longrightarrow> \<exists>w. dict_get b k = Some w \<and> py_eq v w"
proof -
  have g: "\<exists>w. dict_get b k = Some w \<and> py_eq v w" if "dict_get a k = Some v" for k v
    using assms(1) dict_get_in[OF that] by (fastforce simp: list_all_iff split: option.splits)
  then show "dict_get a k = Some v \<Longrightarrow> \<exists>w. dict_get b k = Some w \<and> py_eq v w" .
  have s: "card (fst ` set a) = card (fst ` set b)"
    using assms by (simp add: dict_ok_def distinct_card[of "map fst a", simplified] distinct_card[of "map fst b", simplified])
  have "fst ` set a \<subseteq> fst ` set b"
  proof
    fix x assume "x \<in> fst ` set a"
    then obtain v where "dict_get a x = Some v" by (auto simp: dict_get_def map_of_eq_None_iff dest: weak_map_of_SomeI)
    from g[OF this] obtain w where "dict_get b x = Some w" by blast
    from dict_get_in[OF this] show "x \<in> fst ` set b" by force
  qed
  then have "fst ` set a = fst ` set b" using s by (intro card_subset_eq) simp_all
  then show "dict_get a k = None \<longleftrightarrow> dict_get b k = None" by (auto simp: dict_get_def map_of_eq_None_iff)
qed

text \<open>A key the engine writes as text or number reads back as it was written.\<close>

definition plain_value :: "pyval \<Rightarrow> bool" where
  "plain_value v \<longleftrightarrow> (\<exists>t. v = PStr t \<and> alert_key t = t)"

lemma plain_value_facts: "plain_value v \<Longrightarrow> jsonable_alert 1 v = v" "plain_value v \<Longrightarrow> py_eq v w \<longleftrightarrow> w = v"
  by (auto simp: plain_value_def)

lemma next_known:
  assumes "alert_tick good_disk fd file = (em, so, file')"
    and "dict_ok (so_state so)" "\<And>k. dict_get (so_state so) k \<noteq> None \<Longrightarrow> plain_service k \<or> engine_key k"
    and "plain_service k \<or> k \<in> set engine_names"
  shows "dict_get (so_state so) k = None \<Longrightarrow> dict_get (known file') k = None"
    "dict_get (so_state so) k = Some v \<Longrightarrow> plain_value v \<Longrightarrow> dict_get (known file') k = Some v"
    "dict_get (so_state so) k = Some v \<Longrightarrow>
       known file' = known file \<and> (\<exists>w. dict_get (known file) k = Some w \<and> py_eq v w)
       \<or> dict_get (known file') k = Some (jsonable_alert 1 (jsonable_alert 1 v))"
proof -
  let ?st = "so_state so"
  have kk: "alert_key k = k" using assms(4) names_keyed by (auto simp: plain_service_def)
  have apart: "\<And>k'. dict_get ?st k' \<noteq> None \<Longrightarrow> alert_key k' = k \<Longrightarrow> k' = k" using key_apart[OF assms(3,4)] by blast
  have f: "file' = (if py_eq (PDict ?st) (PDict (known file)) then file else save_alerts good_disk ?st file)"
    using assms(1) by (auto simp: alert_tick_def Let_def split: prod.splits)
  have saved: "dict_get (known (save_alerts good_disk ?st file)) k
      = map_option (\<lambda>v. jsonable_alert 1 (jsonable_alert 1 v)) (dict_get ?st k)"
    using scrubbed_get[OF assms(2) kk apart, of 0] by (cases "dict_get ?st k") (simp_all add: known_saved scrubbed_again)
  note eq = py_eq_dict[OF _ assms(2) known_ok]
  show n: "dict_get ?st k = None \<Longrightarrow> dict_get (known file') k = None" using saved eq(1) f by auto
  show s: "dict_get ?st k = Some v \<Longrightarrow>
       known file' = known file \<and> (\<exists>w. dict_get (known file) k = Some w \<and> py_eq v w)
       \<or> dict_get (known file') k = Some (jsonable_alert 1 (jsonable_alert 1 v))"
    using saved eq(2) f by auto
  show "dict_get ?st k = Some v \<Longrightarrow> plain_value v \<Longrightarrow> dict_get (known file') k = Some v"
    using s plain_value_facts by (auto simp del: py_eq.simps)
qed

lemma one_fits [simp]: "fits_digit_cap 1"
  by code_simp

section \<open>One sweep\<close>

definition services_of :: "feeds \<Rightarrow> (string \<times> pydict) list" where
  "services_of fd = status_services (fd_status fd)"

definition calm_feeds :: "feeds \<Rightarrow> bool" where
  "calm_feeds fd \<longleftrightarrow> calm_services (services_of fd) \<and> calm_flags (fd_notify fd)"

lemma calm_obs: "calm_services s \<Longrightarrow> obs_of s k = Some v \<Longrightarrow> plain_service k \<and> plain_value v"
  using dict_get_in[of s k] by (fastforce simp: obs_of_def calm_services_def list_all_iff calm_row_def plain_value_def)

lemma sweep_services:
  assumes "calm_feeds fd" "dict_ok prev" "held_bad prev"
  obtains pending where "dict_ok (so_state (after_fresh fd prev))" "marks pending"
    "\<And>k. dict_get pending k = (if snd (svc_next (service_view prev k) (obs_of (services_of fd) k)) then Some (PInt 1) else None)"
    "dict_get (so_state (after_fresh fd prev)) ''_service_pending'' = Some (PDict pending)"
    "\<And>k. plain_service k \<Longrightarrow> dict_get (so_state (after_fresh fd prev)) k = obs_of (services_of fd) k"
    "\<And>k. plain_service k \<Longrightarrow> pages_for k (so_rows (after_fresh fd prev)) = svc_page (service_view prev k) (obs_of (services_of fd) k)"
    "\<And>k. dict_get (so_state (after_fresh fd prev)) k \<noteq> None \<Longrightarrow> plain_service k \<or> engine_key k"
proof -
  let ?s = "services_of fd" and ?a = "after_services fd prev" and ?z = "after_fresh fd prev"
  have start: "so_state (sweep_start prev) = carried prev" "so_rows (sweep_start prev) = []" by (simp_all add: sweep_start_def)
  have calm: "calm_services ?s" "calm_flags (fd_notify fd)" using assms(1) by (auto simp: calm_feeds_def)
  from service_pass_calm[OF calm assms(2,3) start(1), of "sweep_now fd"]
  obtain a pending new where a: "service_pass (fd_notify fd) prev (sweep_now fd) ?s (sweep_start prev) = (False, a)"
    "dict_ok (so_state a)" "marks pending"
    "\<forall>k. dict_get (so_state a) k = (if k = ''_service_pending'' then Some (PDict pending)
          else case obs_of ?s k of None \<Rightarrow> dict_get (carried prev) k | Some v \<Rightarrow> Some v)"
    "\<forall>k. dict_get pending k = (if snd (svc_next (service_view prev k) (obs_of ?s k)) then Some (PInt 1) else None)"
    "so_rows a = so_rows (sweep_start prev) @ new"
    "\<forall>r \<in> set new. \<exists>k. \<not> startswith k ''_'' \<and> \<not> list_ex (startswith k) other_prefixes \<and> pyget r ''id'' = PStr k"
    "\<forall>k. plain_service k \<longrightarrow> pages_for k new = svc_page (service_view prev k) (obs_of ?s k)"
    by (elim exE conjE) (rule that; assumption)
  have e: "?a = a" using a(1) by (simp add: after_services_def services_of_def)
  have t: "touches_only late_keys a ?z" using after_services_touches[of fd prev] by (simp add: e)
  then obtain rs where r: "so_rows ?z = so_rows a @ rs" and z4: "\<forall>r \<in> set rs. \<exists>k \<in> late_keys. pyget r ''id'' = PStr k"
    unfolding touches_only_def by blast
  have z1: "dict_ok (so_state ?z)" using t a(2) unfolding touches_only_def by blast
  have z2: "dict_get (so_state ?z) k = dict_get (so_state a) k" if "k \<notin> late_keys" for k
    using t that unfolding touches_only_def by blast
  have z3: "so_rows ?z = new @ rs" using r a(6) start(2) by simp
  note z = z1 z2 z3 z4
  have pend: "''_service_pending'' \<notin> late_keys"
    by (auto simp: late_keys_def resource_keys_def smart_keys_def ups_keys_def fresh_keys_def startswith_def)
  show thesis
  proof (rule that[OF z(1) a(3)])
    show "dict_get pending k = (if snd (svc_next (service_view prev k) (obs_of ?s k)) then Some (PInt 1) else None)" for k
      using a(5) by blast
    show "dict_get (so_state ?z) ''_service_pending'' = Some (PDict pending)" using z(2)[OF pend] a(4) by simp
    show "dict_get (so_state ?z) k = obs_of ?s k" if "plain_service k" for k
    proof -
      have "k \<notin> set engine_names" using names_not_plain that by blast
      then have "dict_get (carried prev) k = None" "k \<noteq> ''_service_pending''"
        by (simp_all add: carried_get engine_names_def carried_names_def)
      then show ?thesis using z(2)[OF late_not_plain[OF that]] a(4) by (simp split: option.split)
    qed
    show "pages_for k (so_rows ?z) = svc_page (service_view prev k) (obs_of ?s k)" if "plain_service k" for k
    proof -
      have "pages_for k rs = []" using z(4) late_not_plain[OF that] by (fastforce simp: pages_for_def filter_empty_conv)
      then show ?thesis using z(3) a(8) that by simp
    qed
    show "plain_service k \<or> engine_key k" if "dict_get (so_state ?z) k \<noteq> None" for k
    proof (cases "k \<in> late_keys")
      case False
      then have d: "dict_get (so_state a) k \<noteq> None" using z(2) that by simp
      show ?thesis
      proof (cases "obs_of ?s k")
        case None
        then have "k \<in> set carried_names" using d a(4) by (auto simp: carried_get carried_names_def split: if_splits)
        then show ?thesis by (simp add: engine_key_def engine_names_def)
      qed (use calm_obs[OF calm(1)] in blast)
    qed (use late_engine in blast)
  qed
qed

lemma tick_services:
  assumes "calm_feeds fd" "held_bad (known file)" "alert_tick good_disk fd file = (em, so, file')"
  shows "held_bad (known file')"
    "plain_service k \<Longrightarrow> service_view (known file') k = svc_next (service_view (known file) k) (obs_of (services_of fd) k)"
    "plain_service k \<Longrightarrow> pages_for k (so_rows so) = svc_page (service_view (known file) k) (obs_of (services_of fd) k)"
proof -
  let ?prev = "known file" and ?s = "services_of fd" and ?p = "''_service_pending''"
  obtain pending where z: "dict_ok (so_state (after_fresh fd ?prev))" "marks pending"
    "\<And>k. dict_get pending k = (if snd (svc_next (service_view ?prev k) (obs_of ?s k)) then Some (PInt 1) else None)"
    "dict_get (so_state (after_fresh fd ?prev)) ?p = Some (PDict pending)"
    "\<And>k. plain_service k \<Longrightarrow> dict_get (so_state (after_fresh fd ?prev)) k = obs_of ?s k"
    "\<And>k. plain_service k \<Longrightarrow> pages_for k (so_rows (after_fresh fd ?prev)) = svc_page (service_view ?prev k) (obs_of ?s k)"
    "\<And>k. dict_get (so_state (after_fresh fd ?prev)) k \<noteq> None \<Longrightarrow> plain_service k \<or> engine_key k"
    using sweep_services[OF assms(1) known_ok assms(2)] by blast
  have so: "so = after_fresh fd ?prev"
    using assms(3) check_once_out[of fd ?prev] by (auto simp: alert_tick_def Let_def split: prod.splits)
  note nk = next_known[OF assms(3)]
  have known': "dict_get (known file') k = obs_of ?s k" if "plain_service k" for k
    using nk(1,2)[of k] z(1,5,7) that calm_obs[of ?s k] assms(1) unfolding so
    by (cases "obs_of ?s k") (auto simp: calm_feeds_def)
  have calm: "calm_services ?s" using assms(1) by (simp add: calm_feeds_def)
  have held_plain: "plain_service k" "\<exists>v. obs_of ?s k = Some v \<and> bad_state v" if "dict_get pending k \<noteq> None" for k
    using z(3)[of k] that calm_obs[OF calm, of k] by (cases "obs_of ?s k"; cases "service_view ?prev k"; auto split: if_splits)+
  have pn: "?p \<in> set engine_names" by (simp add: engine_names_def carried_names_def)
  have held: "marks (held_in (known file')) \<and> (\<forall>k. dict_get (held_in (known file')) k = dict_get pending k)"
  proof -
    consider (same) w where "known file' = ?prev" "dict_get ?prev ?p = Some w" "py_eq (PDict pending) w"
      | (saved) "dict_get (known file') ?p = Some (jsonable_alert 1 (jsonable_alert 1 (PDict pending)))"
      using nk(3)[of ?p "PDict pending"] z(1,4,7) pn unfolding so by blast
    then show ?thesis
    proof cases
      case same
      then obtain b where w: "w = PDict b" "py_eq (PDict pending) (PDict b)" by (cases w) auto
      then have h: "held_in (known file') = b" using same by (simp add: held_in_def pyget_def dict_or_def)
      then have mb: "marks b" using assms(2) same by (simp add: held_bad_def)
      have "dict_get b k = dict_get pending k" for k
      proof -
        have "dict_get pending k = None \<longleftrightarrow> dict_get b k = None"
          using py_eq_dict(1)[OF w(2)] z(2) mb unfolding marks_def by blast
        then show ?thesis using z(2) mb unfolding marks_def by (metis option.exhaust)
      qed
      then show ?thesis using h mb by simp
    next
      case saved
      let ?q = "scrubbed 1 (scrubbed 1 pending)"
      have h: "held_in (known file') = ?q" using saved by (simp add: held_in_def pyget_def dict_or_def jsonable_scrubbed)
      have "dict_get ?q k = dict_get pending k" for k
      proof (cases "alert_key k = k")
        case True
        have "k' = k" if "dict_get pending k' \<noteq> None" "alert_key k' = k" for k'
          using held_plain(1)[OF that(1)] that(2) by (simp add: plain_service_def)
        then have "dict_get (scrubbed 1 pending) k = map_option (jsonable_alert 2) (dict_get pending k)"
          using scrubbed_get[of pending k 1] z(2) True by (simp add: marks_def numeral_2_eq_2)
        then show ?thesis using z(3)[of k] by (simp add: scrubbed_again numeral_2_eq_2 one_fits)
      next
        case False
        then have "dict_get pending k = None" using held_plain(1)[of k] unfolding plain_service_def by blast
        moreover have "dict_get ?q k = None"
          using scrubbed_ok(2)[of 1 "scrubbed 1 pending"] False dict_get_in[of ?q k] by (cases "dict_get ?q k") (auto simp: list_all_iff)
        ultimately show ?thesis by simp
      qed
      then show ?thesis using h z(2) scrubbed_ok(1)[of 1 "scrubbed 1 pending"] by (auto simp: marks_def)
    qed
  qed
  show "service_view (known file') k = svc_next (service_view ?prev k) (obs_of ?s k)" if "plain_service k"
    using known'[OF that] held z(3)[of k]
    by (cases "obs_of ?s k"; cases "service_view ?prev k") (auto simp: service_view_def view_in_def pyget_def)
  show "pages_for k (so_rows so) = svc_page (service_view ?prev k) (obs_of ?s k)" if "plain_service k"
    using z(6)[OF that] so by simp
  show "held_bad (known file')"
    unfolding held_bad_def
  proof (intro conjI allI impI)
    fix k assume "dict_get (held_in (known file')) k \<noteq> None"
    then have d: "dict_get pending k \<noteq> None" using held by simp
    show pk: "plain_service k" using held_plain(1)[OF d] .
    obtain v where "obs_of ?s k = Some v" "bad_state v" using held_plain(2)[OF d] by blast
    then show "bad_state (pyget (known file') k)" using known'[OF pk] by (simp add: pyget_def)
  qed (use held in blast)
qed

section \<open>Runs\<close>

text \<open>Sweeps of the loop, each over what the one before has left in the file.\<close>

fun alert_run :: "doc \<Rightarrow> feeds list \<Rightarrow> sweep_out list \<times> doc" where
  "alert_run file [] = ([], file)"
| "alert_run file (fd # fds) =
     (let (_, so, file) = alert_tick good_disk fd file; (sos, file) = alert_run file fds in (so # sos, file))"

fun svc_run :: "svc_view \<Rightarrow> pyval option list \<Rightarrow> page list list" where
  "svc_run v [] = []"
| "svc_run v (ob # obs) = svc_page v ob # svc_run (svc_next v ob) obs"

definition service_pages :: "doc \<Rightarrow> feeds list \<Rightarrow> string \<Rightarrow> page list list" where
  "service_pages file fds k = map (\<lambda>so. pages_for k (so_rows so)) (fst (alert_run file fds))"

definition sights :: "feeds list \<Rightarrow> string \<Rightarrow> pyval option list" where
  "sights fds k = map (\<lambda>fd. obs_of (services_of fd) k) fds"

lemma run_debounced:
  assumes "list_all calm_feeds fds" "held_bad (known file)" "plain_service k"
  shows "service_pages file fds k = svc_run (service_view (known file) k) (sights fds k) \<and> held_bad (known (snd (alert_run file fds)))"
  using assms(1,2)
proof (induction fds arbitrary: "file")
  case (Cons fd fds)
  obtain em so file' where e: "alert_tick good_disk fd file = (em, so, file')" by (rule prod_cases3)
  have c: "calm_feeds fd" using Cons.prems(1) by simp
  note t = tick_services[OF c Cons.prems(2) e]
  show ?case using Cons.IH[OF _ t(1)] t(2,3)[OF assms(3)] Cons.prems(1)
    by (simp add: service_pages_def sights_def e case_prod_beta)
qed (simp add: service_pages_def sights_def)

section \<open>What the debouncer pages\<close>

definition badly :: "pyval option \<Rightarrow> bool" where
  "badly ob = (case ob of None \<Rightarrow> False | Some v \<Rightarrow> bad_state v)"

fun view_bad :: "svc_view \<Rightarrow> bool" where
  "view_bad (old, held) = bad_state old"

lemma next_bad: "view_bad (svc_next v ob) = badly ob"
  by (cases v; cases ob) (auto simp: badly_def bad_state_def)

definition held_well :: "svc_view \<Rightarrow> bool" where
  "held_well v \<longleftrightarrow> (snd v \<longrightarrow> bad_state (fst v))"

lemma next_held_well: "held_well (svc_next v ob)"
  by (cases v; cases ob) (auto simp: held_well_def)

lemma page_problem: "held_well v \<Longrightarrow> Problem st \<in> set (svc_page v ob) \<Longrightarrow> view_bad v \<and> ob = Some st \<and> bad_state st"
  by (cases v; cases ob) (auto simp: held_well_def split: if_splits)

lemma page_resolved: "Resolved \<in> set (svc_page v ob) \<Longrightarrow> view_bad v \<and> \<not> badly ob"
  by (cases v; cases ob) (auto simp: badly_def bad_state_def split: if_splits)

fun view_after :: "svc_view \<Rightarrow> pyval option list \<Rightarrow> svc_view" where
  "view_after v [] = v"
| "view_after v (ob # obs) = view_after (svc_next v ob) obs"

lemma svc_run_nth: "i < length obs \<Longrightarrow> svc_run v obs ! i = svc_page (view_after v (take i obs)) (obs ! i)"
proof (induction obs arbitrary: v i)
  case (Cons ob obs)
  then show ?case by (cases i) simp_all
qed simp

lemma length_svc_run [simp]: "length (svc_run v obs) = length obs"
  by (induction obs arbitrary: v) simp_all

lemma view_after_snoc: "view_after v (obs @ [ob]) = svc_next (view_after v obs) ob"
  by (induction obs arbitrary: v) simp_all

lemma view_after_Suc: "i < length obs \<Longrightarrow> view_after v (take (Suc i) obs) = svc_next (view_after v (take i obs)) (obs ! i)"
  by (simp add: take_Suc_conv_app_nth view_after_snoc)

lemma view_after_held: "held_well v \<Longrightarrow> held_well (view_after v obs)"
  by (cases obs rule: rev_cases) (simp_all add: view_after_snoc next_held_well)

text \<open>Whatever came before, a sight that is not bad leaves nothing held back.\<close>

lemma quiet_next: "\<not> badly (Some v) \<Longrightarrow> svc_next w (Some v) = (v, False)"
  by (cases w) (simp add: badly_def)

lemma view_known: "held_bad prev \<Longrightarrow> held_well (service_view prev k)"
  by (auto simp: held_bad_def held_well_def service_view_def view_in_def)

end
