(* ===== verification/Alert_Resources.thy ===== *)
theory Alert_Resources
  imports Alert_Runs
begin

text \<open>
  The resource alerts: what the sweeps journal for a reading is what a small machine with a
  cooldown and a hysteresis pages over the readings of the run.
\<close>

section \<open>The machine\<close>

text \<open>Whether the resource is in the warned state, and the stamp of its last problem.\<close>

type_synonym res_view = "bool \<times> int"

text \<open>What a sweep sees of a resource: nothing, or whether it is over its limit and whether well below it.\<close>

type_synonym res_sight = "(bool \<times> bool) option"

definition res_fires :: "int \<Rightarrow> int \<Rightarrow> res_view \<Rightarrow> res_sight \<Rightarrow> bool" where
  "res_fires now cooldown v ob = (case ob of None \<Rightarrow> False | Some (over, rec) \<Rightarrow> over \<and> cooldown \<le> now - snd v)"

fun res_next :: "int \<Rightarrow> int \<Rightarrow> res_view \<Rightarrow> res_sight \<Rightarrow> res_view" where
  "res_next now cooldown (warned, stamp) None = (False, stamp)"
| "res_next now cooldown (warned, stamp) (Some (over, rec)) =
     (if over then (warned \<or> cooldown \<le> now - stamp, if cooldown \<le> now - stamp then now else stamp)
      else (warned \<and> \<not> rec, stamp))"

fun res_page :: "int \<Rightarrow> int \<Rightarrow> res_view \<Rightarrow> res_sight \<Rightarrow> page list" where
  "res_page now cooldown (warned, stamp) None = []"
| "res_page now cooldown (warned, stamp) (Some (over, rec)) =
     (if over \<and> cooldown \<le> now - stamp then [Problem (PStr ''warn'')]
      else if warned \<and> rec then [Resolved] else [])"

definition res_sight :: "pyval \<Rightarrow> pyval \<Rightarrow> res_sight" where
  "res_sight val limit =
     (if val = PNone \<or> limit = PNone then None
      else (case (finite_float val, finite_float limit) of
              (Some v, Some l) \<Rightarrow> Some (l \<le> v, v \<le> dbl_sub l hysteresis)
            | _ \<Rightarrow> None))"

definition res_view :: "pydict \<Rightarrow> string \<Rightarrow> res_view" where
  "res_view prev rid =
     (pyget prev (resource_key rid) = PStr ''warn'', alert_epoch 0 (pyget (dict_or (pyget prev ''_resource_last'')) rid))"

section \<open>One reading\<close>

lemma resource_fire_simps [simp]:
  "so_state (resource_fire n now key label level event detail message wanted title so) = so_state so"
  "so_rows (resource_fire n now key label level event detail message wanted title so) = so_rows so
     @ [alert_row now key (PStr (''Resource'' @ mid_dot @ label)) (PStr ''resource'') (PStr ''system'')
          level event (PStr detail) message]"
  by (simp_all add: resource_fire_def)

text \<open>The three states the engine stores for a resource.\<close>

definition res_value :: "pyval \<Rightarrow> bool" where
  "res_value v \<longleftrightarrow> v = PNone \<or> v = PStr ''ok'' \<or> v = PStr ''warn''"

definition res_state :: "res_view \<Rightarrow> res_sight \<Rightarrow> int \<Rightarrow> int \<Rightarrow> pyval option" where
  "res_state v ob now cooldown =
     (if ob = None then None else Some (PStr (if fst (res_next now cooldown v ob) then ''warn'' else ''ok'')))"

lemma resource_row_effect:
  assumes "last_fire = dict_or (pyget prev ''_resource_last'')" "res_value (pyget prev (resource_key rid))"
  obtains nl' so' new where "resource_row n prev last_fire now cooldown (rid, val, limit, label) (nl, so) = (nl', so')"
    "\<And>r. dict_get nl' r = (if r = rid \<and> res_fires now cooldown (res_view prev rid) (res_sight val limit) then Some (PInt now) else dict_get nl r)"
    "\<And>k. dict_get (so_state so') k =
       (case res_state (res_view prev rid) (res_sight val limit) now cooldown of
          Some v \<Rightarrow> if k = resource_key rid then Some v else dict_get (so_state so) k
        | None \<Rightarrow> dict_get (so_state so) k)"
    "so_rows so' = so_rows so @ new"
    "\<And>k. pages_for k new = (if k = resource_key rid then res_page now cooldown (res_view prev rid) (res_sight val limit) else [])"
    "dict_ok nl \<Longrightarrow> dict_ok nl'"
proof (cases "res_sight val limit")
  case None
  then have e: "resource_row n prev last_fire now cooldown (rid, val, limit, label) (nl, so) = (nl, so)"
    by (auto simp: resource_row_def res_sight_def split: option.splits if_splits)
  show ?thesis
    by (rule that[OF e, of "[]"]) (use None in \<open>auto simp: res_fires_def res_state_def split: prod.split, (cases "res_view prev rid"; simp)+\<close>)
next
  case (Some s)
  then obtain v l where vl: "finite_float val = Some v" "finite_float limit = Some l" "val \<noteq> PNone" "limit \<noteq> PNone"
    and s: "s = (l \<le> v, v \<le> dbl_sub l hysteresis)"
    by (auto simp: res_sight_def split: if_splits option.splits)
  let ?key = "resource_key rid"
  obtain w t where w: "res_view prev rid = (w, t)" by fastforce
  then have w': "pyget prev ?key = PStr ''warn'' \<longleftrightarrow> w" "alert_epoch 0 (pyget last_fire rid) = t"
    using assms(1) by (simp_all add: res_view_def)
  define old where "old = pyget prev ?key"
  have o: "old = PStr ''warn'' \<longleftrightarrow> w" "\<not> w \<Longrightarrow> pick old (PStr ''ok'') = PStr ''ok''"
    using w'(1) assms(2) by (auto simp: old_def[symmetric] res_value_def pick_def)
  note r = resource_row_def vl w'(2) old_def[symmetric] o Let_def prod.case
  note f = w Some s res_fires_def res_state_def
  consider (wait) "l \<le> v" "\<not> w" "now - t < cooldown" | (fire) "l \<le> v" "cooldown \<le> now - t"
    | (stay) "l \<le> v" "w" "now - t < cooldown" "\<not> v \<le> dbl_sub l hysteresis"
    | (mend) "w" "v \<le> dbl_sub l hysteresis" "\<not> (l \<le> v \<and> cooldown \<le> now - t)"
    | (under) "\<not> l \<le> v" "\<not> (w \<and> v \<le> dbl_sub l hysteresis)" by linarith
  then show ?thesis
  proof cases
    case wait
    then have e: "resource_row n prev last_fire now cooldown (rid, val, limit, label) (nl, so) = (nl, put_state ?key (PStr ''ok'') so)"
      by (simp add: r)
    show ?thesis by (rule that[OF e, of "[]"]) (use wait in \<open>simp_all add: f dict_simps\<close>)
  next
    case fire
    then have e: "resource_row n prev last_fire now cooldown (rid, val, limit, label) (nl, so) = (dict_set rid (PInt now) nl,
        resource_fire n now ?key label ''warn'' ''problem'' (show_fixed0 v @ ''% '' @ geq_sign @ '' '' @ show_fixed0 l @ ''%'')
          (label @ '' usage '' @ show_fixed0 v @ ''% (threshold '' @ show_fixed0 l @ ''%)'')
          (truthy (get_or n ''include_warn'' (PBool True))) ''ServerHub resource alert'' (put_state ?key (PStr ''warn'') so))"
      by (auto simp: r)
    show ?thesis by (rule that[OF e]) (use fire in \<open>auto simp: f dict_simps step_intros\<close>)
  next
    case stay
    then have e: "resource_row n prev last_fire now cooldown (rid, val, limit, label) (nl, so) = (nl, put_state ?key (PStr ''warn'') so)"
      by (simp add: r)
    show ?thesis by (rule that[OF e, of "[]"]) (use stay in \<open>simp_all add: f dict_simps\<close>)
  next
    case mend
    then have e: "resource_row n prev last_fire now cooldown (rid, val, limit, label) (nl, so) = (nl,
        resource_fire n now ?key label ''ok'' ''resolved'' (show_fixed0 v @ ''%'') (label @ '' usage back down to '' @ show_fixed0 v @ ''%'')
          (truthy (get_or n ''notify_resolve'' (PBool True))) ''ServerHub resource recovered''
          (put_state ?key (PStr (if l \<le> v then ''warn'' else ''ok'')) so))"
      by (auto simp: r)
    show ?thesis by (rule that[OF e]) (use mend in \<open>auto simp: f dict_simps\<close>)
  next
    case under
    then have e: "resource_row n prev last_fire now cooldown (rid, val, limit, label) (nl, so)
        = (nl, put_state ?key (PStr (if w then ''warn'' else ''ok'')) so)"
      by (auto simp: r)
    show ?thesis by (rule that[OF e, of "[]"]) (use under in \<open>auto simp: f dict_simps\<close>)
  qed
qed

section \<open>The pass\<close>

lemma resource_key_inj [simp]: "resource_key a = resource_key b \<longleftrightarrow> a = b"
  by (simp add: resource_key_def)

definition sight_in :: "(string \<times> pyval \<times> pyval \<times> string) list \<Rightarrow> string \<Rightarrow> res_sight" where
  "sight_in cs r = (case dict_get cs r of None \<Rightarrow> None | Some (val, limit, label) \<Rightarrow> res_sight val limit)"

definition res_names :: "string list" where
  "res_names = [''cpu'', ''mem'', ''disk'']"

definition res_tidy :: "pydict \<Rightarrow> bool" where
  "res_tidy prev \<longleftrightarrow> (\<forall>r \<in> set res_names. res_value (pyget prev (resource_key r)))"

lemma res_page_none [simp]: "res_page now cd v None = []" "res_fires now cd v None = False" "res_state v None now cd = None"
  by (cases v; simp) (simp_all add: res_fires_def res_state_def)

lemma resource_fold_effect:
  assumes "last_fire = dict_or (pyget prev ''_resource_last'')" "res_tidy prev" "distinct (map fst cs)" "fst ` set cs \<subseteq> set res_names"
  shows "\<exists>nl' so' new. fold (resource_row n prev last_fire now cd) cs (nl, so) = (nl', so')
    \<and> (\<forall>r. dict_get nl' r = (if res_fires now cd (res_view prev r) (sight_in cs r) then Some (PInt now) else dict_get nl r))
    \<and> (\<forall>r. dict_get (so_state so') (resource_key r) =
         (case res_state (res_view prev r) (sight_in cs r) now cd of Some v \<Rightarrow> Some v | None \<Rightarrow> dict_get (so_state so) (resource_key r)))
    \<and> so_rows so' = so_rows so @ new
    \<and> (\<forall>r. pages_for (resource_key r) new = res_page now cd (res_view prev r) (sight_in cs r))
    \<and> (dict_ok nl \<longrightarrow> dict_ok nl')"
  using assms(3,4)
proof (induction cs arbitrary: nl so)
  case Nil
  show ?case by (simp add: sight_in_def dict_simps)
next
  case (Cons c cs)
  obtain rid val limit label where c: "c = (rid, val, limit, label)" by (rule prod_cases4)
  have "dict_get cs rid = None" using Cons.prems(1) c by (auto simp: dict_get_def map_of_eq_None_iff)
  then have none: "sight_in cs rid = None" by (simp add: sight_in_def)
  have v: "res_value (pyget prev (resource_key rid))" using assms(2) Cons.prems(2) c by (simp add: res_tidy_def)
  obtain nl1 so1 new1 where 1: "resource_row n prev last_fire now cd (rid, val, limit, label) (nl, so) = (nl1, so1)"
    "\<And>r. dict_get nl1 r = (if r = rid \<and> res_fires now cd (res_view prev rid) (res_sight val limit) then Some (PInt now) else dict_get nl r)"
    "\<And>k. dict_get (so_state so1) k =
       (case res_state (res_view prev rid) (res_sight val limit) now cd of
          Some v \<Rightarrow> if k = resource_key rid then Some v else dict_get (so_state so) k
        | None \<Rightarrow> dict_get (so_state so) k)"
    "so_rows so1 = so_rows so @ new1"
    "\<And>k. pages_for k new1 = (if k = resource_key rid then res_page now cd (res_view prev rid) (res_sight val limit) else [])"
    "dict_ok nl \<Longrightarrow> dict_ok nl1"
    by (rule resource_row_effect[OF assms(1) v, of n now cd val limit label nl so]) blast
  have "distinct (map fst cs)" "fst ` set cs \<subseteq> set res_names" using Cons.prems by simp_all
  from Cons.IH[OF this, of nl1 so1] obtain nl2 so2 new2 where 2:
    "fold (resource_row n prev last_fire now cd) cs (nl1, so1) = (nl2, so2)"
    "\<forall>r. dict_get nl2 r = (if res_fires now cd (res_view prev r) (sight_in cs r) then Some (PInt now) else dict_get nl1 r)"
    "\<forall>r. dict_get (so_state so2) (resource_key r) =
         (case res_state (res_view prev r) (sight_in cs r) now cd of Some v \<Rightarrow> Some v | None \<Rightarrow> dict_get (so_state so1) (resource_key r))"
    "so_rows so2 = so_rows so1 @ new2"
    "\<forall>r. pages_for (resource_key r) new2 = res_page now cd (res_view prev r) (sight_in cs r)"
    "dict_ok nl1 \<longrightarrow> dict_ok nl2"
    by (elim exE conjE) (rule that; assumption)
  have s: "sight_in (c # cs) r = (if r = rid then res_sight val limit else sight_in cs r)" for r
    by (simp add: sight_in_def c)
  show ?case
  proof (intro exI conjI allI)
    show "fold (resource_row n prev last_fire now cd) (c # cs) (nl, so) = (nl2, so2)" using 1(1) 2(1) c by simp
    show "dict_get nl2 r = (if res_fires now cd (res_view prev r) (sight_in (c # cs) r) then Some (PInt now) else dict_get nl r)" for r
      using 2(2) none by (simp add: s 1(2))
    show "dict_get (so_state so2) (resource_key r) =
         (case res_state (res_view prev r) (sight_in (c # cs) r) now cd of Some v \<Rightarrow> Some v | None \<Rightarrow> dict_get (so_state so) (resource_key r))" for r
      using 2(3) none by (cases "r = rid") (simp_all add: s 1(3) split: option.split)
    show "so_rows so2 = so_rows so @ (new1 @ new2)" using 1(4) 2(4) by simp
    show "pages_for (resource_key r) (new1 @ new2) = res_page now cd (res_view prev r) (sight_in (c # cs) r)" for r
      using 2(5) none by (simp add: s 1(5))
    show "dict_ok nl \<longrightarrow> dict_ok nl2" using 1(6) 2(6) by blast
  qed
qed

text \<open>What a sweep sees of a resource, from its thresholds and its sample.\<close>

definition reading_of :: "feeds \<Rightarrow> string \<Rightarrow> res_sight" where
  "reading_of fd r =
     (if \<not> truthy (get_or (fd_thresholds fd) ''enabled'' (PBool True)) then None
      else (case fd_sample fd of PDict latest \<Rightarrow> sight_in (resource_checks (fd_thresholds fd) latest) r | _ \<Rightarrow> None))"

definition stamps_in :: "pydict \<Rightarrow> pydict" where
  "stamps_in prev = dict_or (pyget prev ''_resource_last'')"

lemma checks_distinct: "distinct (map fst (resource_checks th latest))" "fst ` set (resource_checks th latest) \<subseteq> set res_names"
  by (simp_all add: resource_checks_def res_names_def)

lemma resource_pass_effect:
  assumes "res_tidy prev" "dict_get (so_state so) ''_resource_last'' = dict_get (carried prev) ''_resource_last''"
    "\<forall>r. dict_get (so_state so) (resource_key r) = None" "dict_ok (stamps_in prev)"
  shows "\<exists>nl new. (let so' = resource_pass (fd_notify fd) (fd_thresholds fd) prev now (fd_sample fd) so; cd = cooldown_of (fd_thresholds fd) in
       (dict_get (so_state so') ''_resource_last'' = Some (PDict nl)
         \<or> nl = [] \<and> stamps_in prev = [] \<and> dict_get (so_state so') ''_resource_last'' = None)
    \<and> dict_ok nl
    \<and> (\<forall>r. dict_get nl r = (if res_fires now cd (res_view prev r) (reading_of fd r) then Some (PInt now) else dict_get (stamps_in prev) r))
    \<and> (\<forall>r. dict_get (so_state so') (resource_key r) = res_state (res_view prev r) (reading_of fd r) now cd)
    \<and> so_rows so' = so_rows so @ new
    \<and> (\<forall>r. pages_for (resource_key r) new = res_page now cd (res_view prev r) (reading_of fd r)))"
proof -
  let ?th = "fd_thresholds fd" and ?last = "''_resource_last''"
  have skip: ?thesis if e: "resource_pass (fd_notify fd) ?th prev now (fd_sample fd) so = so" and r: "\<And>r. reading_of fd r = None"
  proof -
    have "dict_get (so_state so) ?last = Some (PDict (stamps_in prev)) \<or> stamps_in prev = [] \<and> dict_get (so_state so) ?last = None"
      unfolding assms(2) by (auto simp: carried_get carried_names_def stamps_in_def dict_or_def split: pyval.splits)
    then show ?thesis
      by (intro exI[of _ "stamps_in prev"] exI[of _ "[]"]) (use e r assms(3,4) in \<open>auto simp: Let_def\<close>)
  qed
  show ?thesis
  proof (cases "truthy (get_or ?th ''enabled'' (PBool True))")
    case False
    then show ?thesis by (intro skip) (simp_all add: resource_pass_def reading_of_def)
  next
    case True
    show ?thesis
    proof (cases "fd_sample fd")
      case (PDict latest)
      let ?cs = "resource_checks ?th latest" and ?cd = "cooldown_of ?th"
      have ob: "reading_of fd r = sight_in ?cs r" for r using True PDict by (simp add: reading_of_def)
      from resource_fold_effect[OF refl assms(1) checks_distinct, of "fd_notify fd" now ?cd ?th latest "stamps_in prev" so]
      obtain nl so1 new where f: "fold (resource_row (fd_notify fd) prev (stamps_in prev) now ?cd) ?cs (stamps_in prev, so) = (nl, so1)"
        "\<forall>r. dict_get nl r = (if res_fires now ?cd (res_view prev r) (sight_in ?cs r) then Some (PInt now) else dict_get (stamps_in prev) r)"
        "\<forall>r. dict_get (so_state so1) (resource_key r) =
         (case res_state (res_view prev r) (sight_in ?cs r) now ?cd of Some v \<Rightarrow> Some v | None \<Rightarrow> dict_get (so_state so) (resource_key r))"
        "so_rows so1 = so_rows so @ new"
        "\<forall>r. pages_for (resource_key r) new = res_page now ?cd (res_view prev r) (sight_in ?cs r)"
        "dict_ok (stamps_in prev) \<longrightarrow> dict_ok nl"
        unfolding stamps_in_def[symmetric] by (elim exE conjE) (rule that; assumption)
      have e: "resource_pass (fd_notify fd) ?th prev now (fd_sample fd) so = put_state ?last (PDict nl) so1"
        using True PDict f(1) by (simp add: resource_pass_def stamps_in_def)
      have nk: "resource_key r \<noteq> ?last" for r by (simp add: resource_key_def)
      show ?thesis unfolding e Let_def
        using f(2-6) assms(3,4) nk by (intro exI[of _ nl] exI[of _ new]) (simp add: ob dict_simps split: option.split)
    qed (intro skip; use True in \<open>simp add: resource_pass_def reading_of_def\<close>)+
  qed
qed

section \<open>Sweeps\<close>

text \<open>The stamps a sweep of this engine has left.\<close>

definition res_good :: "pydict \<Rightarrow> bool" where
  "res_good prev \<longleftrightarrow> res_tidy prev \<and> dict_ok (stamps_in prev)
     \<and> (\<forall>r v. dict_get (stamps_in prev) r = Some v \<longrightarrow> alert_key r = r \<and> (\<exists>i. v = PInt i \<and> fits_digit_cap i))"

definition calm_clock :: "feeds \<Rightarrow> bool" where
  "calm_clock fd \<longleftrightarrow> (case fd_now fd of None \<Rightarrow> True | Some t \<Rightarrow> reading t)"

lemma clock_fits: "calm_clock fd \<Longrightarrow> fits_digit_cap (sweep_now fd)"
proof -
  assume c: "calm_clock fd"
  show ?thesis
  proof (cases "fd_now fd")
    case None
    have "fits_digit_cap 0" by code_simp
    then show ?thesis using None by (simp add: sweep_now_def)
  next
    case (Some t)
    then have "reading t" using c by (simp add: calm_clock_def)
    from reading_digits[OF this, of 0] show ?thesis using Some by (simp add: sweep_now_def fits_digit_cap_def int_max_str_digits_def)
  qed
qed

lemma resource_key_apart: "resource_key r \<notin> smart_keys \<union> ups_keys \<union> fresh_keys" "''_resource_last'' \<notin> smart_keys \<union> ups_keys \<union> fresh_keys"
  "\<not> plain_service (resource_key r)" "resource_key r \<notin> set carried_names"
  by (auto simp: resource_key_def smart_keys_def ups_keys_def fresh_keys_def startswith_def carried_names_def plain_service_def other_prefixes_def)

lemma after_resources_touches: "touches_only (smart_keys \<union> ups_keys \<union> fresh_keys) (after_resources fd prev) (after_fresh fd prev)"
proof -
  let ?K = "smart_keys \<union> ups_keys \<union> fresh_keys"
  have "touches_only ?K (after_resources fd prev) (after_smart fd prev)"
    unfolding after_smart_def by (rule touches_mono[OF smart_pass_touches]) auto
  moreover have "touches_only ?K (after_smart fd prev) (after_ups fd prev)"
    unfolding after_ups_def by (rule touches_mono[OF ups_pass_touches]) auto
  moreover have "touches_only ?K (after_ups fd prev) (after_fresh fd prev)"
    unfolding after_fresh_def by (rule touches_mono[OF freshness_pass_touches]) auto
  ultimately show ?thesis using touches_trans by metis
qed

lemma sweep_resources:
  assumes "calm_feeds fd" "dict_ok prev" "held_bad prev" "res_good prev"
  defines "now \<equiv> sweep_now fd" and "cd \<equiv> cooldown_of (fd_thresholds fd)"
  obtains nl where
    "dict_get (so_state (after_fresh fd prev)) ''_resource_last'' = Some (PDict nl)
      \<or> nl = [] \<and> stamps_in prev = [] \<and> dict_get (so_state (after_fresh fd prev)) ''_resource_last'' = None" "dict_ok nl"
    "\<And>r. dict_get nl r = (if res_fires now cd (res_view prev r) (reading_of fd r) then Some (PInt now) else dict_get (stamps_in prev) r)"
    "\<And>r. dict_get (so_state (after_fresh fd prev)) (resource_key r) = res_state (res_view prev r) (reading_of fd r) now cd"
    "\<And>r. pages_for (resource_key r) (so_rows (after_fresh fd prev)) = res_page now cd (res_view prev r) (reading_of fd r)"
proof -
  let ?s = "services_of fd" and ?a = "after_services fd prev" and ?b = "after_resources fd prev" and ?z = "after_fresh fd prev"
  have start: "so_state (sweep_start prev) = carried prev" "so_rows (sweep_start prev) = []" by (simp_all add: sweep_start_def)
  have calm: "calm_services ?s" "calm_flags (fd_notify fd)" using assms(1) by (auto simp: calm_feeds_def)
  from service_pass_calm[OF calm assms(2,3) start(1), of "sweep_now fd"]
  obtain a pending new where a: "service_pass (fd_notify fd) prev (sweep_now fd) ?s (sweep_start prev) = (False, a)"
    "\<forall>k. dict_get (so_state a) k = (if k = ''_service_pending'' then Some (PDict pending)
          else case obs_of ?s k of None \<Rightarrow> dict_get (carried prev) k | Some v \<Rightarrow> Some v)"
    "so_rows a = so_rows (sweep_start prev) @ new"
    "\<forall>r \<in> set new. \<exists>k. \<not> startswith k ''_'' \<and> \<not> list_ex (startswith k) other_prefixes \<and> pyget r ''id'' = PStr k"
    by (elim exE conjE) (rule that; assumption)
  have e: "?a = a" using a(1) by (simp add: after_services_def services_of_def)
  have np: "obs_of ?s k = None" if "\<not> plain_service k" for k using calm_obs[OF calm(1), of k] that by (cases "obs_of ?s k") auto
  have last: "dict_get (so_state ?a) ''_resource_last'' = dict_get (carried prev) ''_resource_last''"
    using a(2) np[of "''_resource_last''"] by (simp add: e plain_service_def startswith_def)
  have keys: "dict_get (so_state ?a) (resource_key r) = None" for r
    using a(2) np[OF resource_key_apart(3)] resource_key_apart(4)[of r] by (auto simp: e carried_get resource_key_def)
  have no_rows: "pages_for (resource_key r) new = []" for r
    using a(4) by (fastforce simp: pages_for_def filter_empty_conv other_prefixes_def startswith_append resource_key_def)
  have good: "res_tidy prev" "dict_ok (stamps_in prev)" using assms(4) by (simp_all add: res_good_def)
  from resource_pass_effect[OF good(1) last _ good(2), of fd now]
  obtain nl rows where b: "dict_get (so_state ?b) ''_resource_last'' = Some (PDict nl)
         \<or> nl = [] \<and> stamps_in prev = [] \<and> dict_get (so_state ?b) ''_resource_last'' = None" "dict_ok nl"
    "\<forall>r. dict_get nl r = (if res_fires now cd (res_view prev r) (reading_of fd r) then Some (PInt now) else dict_get (stamps_in prev) r)"
    "\<forall>r. dict_get (so_state ?b) (resource_key r) = res_state (res_view prev r) (reading_of fd r) now cd"
    "so_rows ?b = so_rows ?a @ rows"
    "\<forall>r. pages_for (resource_key r) rows = res_page now cd (res_view prev r) (reading_of fd r)"
    using keys unfolding after_resources_def now_def cd_def Let_def by blast
  have t: "touches_only (smart_keys \<union> ups_keys \<union> fresh_keys) ?b ?z" by (rule after_resources_touches)
  then have same: "dict_get (so_state ?z) k = dict_get (so_state ?b) k" if "k \<notin> smart_keys \<union> ups_keys \<union> fresh_keys" for k
    using that unfolding touches_only_def by blast
  obtain rs where rs: "so_rows ?z = so_rows ?b @ rs" "\<forall>r \<in> set rs. \<exists>k \<in> smart_keys \<union> ups_keys \<union> fresh_keys. pyget r ''id'' = PStr k"
    using t unfolding touches_only_def by blast
  have none: "pages_for (resource_key r) rs = []" for r
    using rs(2) resource_key_apart(1)[of r] by (fastforce simp: pages_for_def filter_empty_conv)
  show thesis
  proof (rule that[OF _ b(2)])
    show "dict_get (so_state ?z) ''_resource_last'' = Some (PDict nl)
        \<or> nl = [] \<and> stamps_in prev = [] \<and> dict_get (so_state ?z) ''_resource_last'' = None"
      using b(1) same[OF resource_key_apart(2)] by simp
    show "dict_get nl r = (if res_fires now cd (res_view prev r) (reading_of fd r) then Some (PInt now) else dict_get (stamps_in prev) r)" for r
      using b(3) by blast
    show "dict_get (so_state ?z) (resource_key r) = res_state (res_view prev r) (reading_of fd r) now cd" for r
      using b(4) same[OF resource_key_apart(1)] by simp
    show "pages_for (resource_key r) (so_rows ?z) = res_page now cd (res_view prev r) (reading_of fd r)" for r
      using b(5,6) a(3) start(2) no_rows none rs(1) by (simp add: e)
  qed
qed


lemma sweep_tidy:
  assumes "res_good prev" "dict_ok nl"
    "\<And>r. dict_get nl r = (if res_fires now cd (res_view prev r) (reading_of fd r) then Some (PInt now) else dict_get (stamps_in prev) r)"
    "fits_digit_cap now" "dict_get nl r = Some v"
  shows "alert_key r = r \<and> (\<exists>i. v = PInt i \<and> fits_digit_cap i)"
proof (cases "res_fires now cd (res_view prev r) (reading_of fd r)")
  case True
  then obtain latest where "sight_in (resource_checks (fd_thresholds fd) latest) r \<noteq> None"
    by (auto simp: res_fires_def reading_of_def split: option.splits if_splits pyval.splits)
  then have "r \<in> set res_names"
    using checks_distinct(2)[of "fd_thresholds fd" latest] dict_get_in
    by (force simp: sight_in_def split: option.splits)
  moreover have "list_all (\<lambda>r. alert_key r = r) res_names" unfolding alert_key_def res_names_def by code_simp
  ultimately show ?thesis using True assms(3,4,5) by (auto simp: list_all_iff)
next
  case False
  then show ?thesis using assms(1,3,5) by (simp add: res_good_def)
qed

text \<open>The stamps a sweep stores are those the next one loads.\<close>

lemma stamps_reload:
  assumes "alert_tick good_disk fd file = (em, so, file')" "dict_ok (so_state so)"
    "\<And>k. dict_get (so_state so) k \<noteq> None \<Longrightarrow> plain_service k \<or> engine_key k"
    and nl: "dict_get (so_state so) ''_resource_last'' = Some (PDict nl)
      \<or> nl = [] \<and> stamps_in (known file) = [] \<and> dict_get (so_state so) ''_resource_last'' = None" "dict_ok nl"
    and tidy: "\<And>r v. dict_get nl r = Some v \<Longrightarrow> alert_key r = r \<and> (\<exists>i. v = PInt i \<and> fits_digit_cap i)"
    and good: "res_good (known file)"
  shows "dict_ok (stamps_in (known file')) \<and> (\<forall>r. dict_get (stamps_in (known file')) r = dict_get nl r)"
proof -
  let ?last = "''_resource_last''"
  have ln: "?last \<in> set engine_names" by (simp add: engine_names_def carried_names_def)
  note nk = next_known[OF assms(1-3), of ?last]
  consider (none) "nl = []" "dict_get (so_state so) ?last = None" | (some) "dict_get (so_state so) ?last = Some (PDict nl)"
    using nl(1) by (elim disjE conjE) simp_all
  then show ?thesis
  proof cases
    case none
    then have "dict_get (known file') ?last = None" using nk(1) ln by blast
    then have "stamps_in (known file') = []" by (simp add: stamps_in_def pyget_def dict_or_def)
    then show ?thesis using none by (simp add: dict_ok_def)
  next
    case some
    consider (same) w where "known file' = known file" "dict_get (known file) ?last = Some w" "py_eq (PDict nl) w"
      | (saved) "dict_get (known file') ?last = Some (jsonable_alert 1 (jsonable_alert 1 (PDict nl)))"
      using nk(3)[OF _ _ some] ln by blast
    then show ?thesis
    proof cases
      case same
      then obtain b where w: "w = PDict b" "py_eq (PDict nl) (PDict b)" by (cases w) auto
      then have h: "stamps_in (known file') = b" "stamps_in (known file) = b"
        using same by (simp_all add: stamps_in_def pyget_def dict_or_def)
      have b: "dict_ok b" "\<And>r v. dict_get b r = Some v \<Longrightarrow> \<exists>i. v = PInt i"
        using good h(2) unfolding res_good_def by auto
      have "dict_get b r = dict_get nl r" for r
      proof (cases "dict_get nl r")
        case None
        then show ?thesis using py_eq_dict(1)[OF w(2) nl(2) b(1), of r] by simp
      next
        case (Some v)
        from py_eq_dict(2)[OF w(2) nl(2) b(1) Some] obtain u where u: "dict_get b r = Some u" "py_eq v u" by blast
        from b(2)[OF u(1)] tidy[OF Some] obtain i j where "u = PInt i" "v = PInt j" by blast
        then show ?thesis using u Some by simp
      qed
      then show ?thesis using h b(1) by simp
    next
      case saved
      let ?q = "scrubbed 1 (scrubbed 1 nl)"
      have h: "stamps_in (known file') = ?q" using saved by (simp add: stamps_in_def pyget_def dict_or_def jsonable_scrubbed)
      have "dict_get ?q r = dict_get nl r" for r
      proof (cases "alert_key r = r")
        case True
        have "r' = r" if "dict_get nl r' \<noteq> None" "alert_key r' = r" for r'
          using tidy[of r'] that by fastforce
        then have "dict_get (scrubbed 1 nl) r = map_option (jsonable_alert 2) (dict_get nl r)"
          using scrubbed_get[of nl r 1] nl(2) True by (simp add: numeral_2_eq_2)
        then show ?thesis using tidy[of r] by (cases "dict_get nl r") (auto simp: scrubbed_again numeral_2_eq_2)
      next
        case False
        then have "dict_get nl r = None" using tidy[of r] by (cases "dict_get nl r") auto
        moreover have "dict_get ?q r = None"
          using scrubbed_ok(2)[of 1 "scrubbed 1 nl"] False dict_get_in[of ?q r] by (cases "dict_get ?q r") (auto simp: list_all_iff)
        ultimately show ?thesis by simp
      qed
      then show ?thesis using h scrubbed_ok(1)[of 1 "scrubbed 1 nl"] by simp
    qed
  qed
qed

lemma words_plain: "plain_value (PStr ''warn'')" "plain_value (PStr ''ok'')"
proof -
  have "list_all (\<lambda>t. alert_key t = t) [''warn'', ''ok'']" unfolding alert_key_def by code_simp
  then show "plain_value (PStr ''warn'')" "plain_value (PStr ''ok'')" by (simp_all add: plain_value_def)
qed

lemma names_engine: "r \<in> set res_names \<Longrightarrow> resource_key r \<in> set engine_names"
  by (auto simp: res_names_def engine_names_def resource_key_def)

lemma tick_resources:
  assumes "calm_feeds fd" "calm_clock fd" "held_bad (known file)" "res_good (known file)"
    "alert_tick good_disk fd file = (em, so, file')"
  defines "now \<equiv> sweep_now fd" and "cd \<equiv> cooldown_of (fd_thresholds fd)"
  shows "res_good (known file')"
    "r \<in> set res_names \<Longrightarrow> res_view (known file') r = res_next now cd (res_view (known file) r) (reading_of fd r)"
    "pages_for (resource_key r) (so_rows so) = res_page now cd (res_view (known file) r) (reading_of fd r)"
proof -
  let ?prev = "known file"
  have so: "so = after_fresh fd ?prev"
    using assms(5) check_once_out[of fd ?prev] by (auto simp: alert_tick_def Let_def split: prod.splits)
  obtain ok: "dict_ok (so_state so)" and keys: "\<And>k. dict_get (so_state so) k \<noteq> None \<Longrightarrow> plain_service k \<or> engine_key k"
    using sweep_services[OF assms(1) known_ok assms(3)] unfolding so by blast
  obtain nl where z: "dict_get (so_state so) ''_resource_last'' = Some (PDict nl)
      \<or> nl = [] \<and> stamps_in ?prev = [] \<and> dict_get (so_state so) ''_resource_last'' = None" "dict_ok nl"
    "\<And>r. dict_get nl r = (if res_fires now cd (res_view ?prev r) (reading_of fd r) then Some (PInt now) else dict_get (stamps_in ?prev) r)"
    "\<And>r. dict_get (so_state so) (resource_key r) = res_state (res_view ?prev r) (reading_of fd r) now cd"
    "\<And>r. pages_for (resource_key r) (so_rows so) = res_page now cd (res_view ?prev r) (reading_of fd r)"
    using sweep_resources[OF assms(1) known_ok assms(3,4)] unfolding so now_def cd_def by blast
  note nk = next_known[OF assms(5) ok keys]
  have tidy: "alert_key r = r \<and> (\<exists>i. v = PInt i \<and> fits_digit_cap i)" if "dict_get nl r = Some v" for r v
    using sweep_tidy[OF assms(4) z(2,3) _ that] clock_fits[OF assms(2)] unfolding now_def by blast
  have st: "dict_ok (stamps_in (known file'))" "\<And>r. dict_get (stamps_in (known file')) r = dict_get nl r"
    using stamps_reload[OF assms(5) ok keys z(1,2) tidy assms(4)] by blast+
  have state: "pyget (known file') (resource_key r)
      = (case res_state (res_view ?prev r) (reading_of fd r) now cd of None \<Rightarrow> PNone | Some v \<Rightarrow> v)" if "r \<in> set res_names" for r
    using nk(1,2)[of "resource_key r"] names_engine[OF that] z(4)[of r] words_plain
    by (auto simp: pyget_def res_state_def split: if_splits)
  show "pages_for (resource_key r) (so_rows so) = res_page now cd (res_view ?prev r) (reading_of fd r)" for r
    by (rule z(5))
  show "res_view (known file') r = res_next now cd (res_view ?prev r) (reading_of fd r)" if "r \<in> set res_names" for r
  proof -
    obtain w t where w: "res_view ?prev r = (w, t)" by fastforce
    have "t = alert_epoch 0 (pyget (stamps_in ?prev) r)" using w by (simp add: res_view_def stamps_in_def)
    then have stamp: "alert_epoch 0 (pyget (stamps_in (known file')) r) = (if res_fires now cd (w, t) (reading_of fd r) then now else t)"
      using st(2)[of r] z(3)[of r] w by (simp add: pyget_def alert_epoch_def)
    have v: "res_view (known file') r
        = (pyget (known file') (resource_key r) = PStr ''warn'', if res_fires now cd (w, t) (reading_of fd r) then now else t)"
      using stamp by (simp add: res_view_def stamps_in_def)
    show ?thesis unfolding v w using state[OF that]
      by (cases "reading_of fd r") (auto simp: w res_state_def res_fires_def split: if_splits)
  qed
  show "res_good (known file')"
    unfolding res_good_def res_tidy_def
    using st tidy state by (auto simp: res_value_def res_state_def)
qed

section \<open>Runs\<close>

definition resource_pages :: "doc \<Rightarrow> feeds list \<Rightarrow> string \<Rightarrow> page list list" where
  "resource_pages file fds r = map (\<lambda>so. pages_for (resource_key r) (so_rows so)) (fst (alert_run file fds))"

text \<open>What the machine is fed: the clock, the cooldown in force and the reading of each sweep.\<close>

definition readings :: "feeds list \<Rightarrow> string \<Rightarrow> (int \<times> int \<times> res_sight) list" where
  "readings fds r = map (\<lambda>fd. (sweep_now fd, cooldown_of (fd_thresholds fd), reading_of fd r)) fds"

fun res_run :: "res_view \<Rightarrow> (int \<times> int \<times> res_sight) list \<Rightarrow> page list list" where
  "res_run v [] = []"
| "res_run v ((now, cd, ob) # obs) = res_page now cd v ob # res_run (res_next now cd v ob) obs"

definition calm_sweep :: "feeds \<Rightarrow> bool" where
  "calm_sweep fd \<longleftrightarrow> calm_feeds fd \<and> calm_clock fd"

lemma run_resources:
  assumes "list_all calm_sweep fds" "held_bad (known file)" "res_good (known file)" "r \<in> set res_names"
  shows "resource_pages file fds r = res_run (res_view (known file) r) (readings fds r)"
  using assms(1-3)
proof (induction fds arbitrary: "file")
  case (Cons fd fds)
  obtain em so file' where e: "alert_tick good_disk fd file = (em, so, file')" by (rule prod_cases3)
  have c: "calm_feeds fd" "calm_clock fd" "list_all calm_sweep fds" using Cons.prems(1) by (auto simp: calm_sweep_def list_all_iff)
  note t = tick_resources[OF c(1,2) Cons.prems(2,3) e]
  show ?case using Cons.IH[OF c(3) tick_services(1)[OF c(1) Cons.prems(2) e] t(1)] t(2)[OF assms(4)] t(3)
    by (simp add: resource_pages_def readings_def e case_prod_beta)
qed (simp add: resource_pages_def readings_def)

end
