(* ===== verification/Alert_Claims.thy ===== *)
theory Alert_Claims
  imports Alert_Resources
begin

text \<open>
  What the alert engine promises, stated over runs of its sweeps: problems of a service are paged at the
  second bad sight and flickers are silent, and problems of a resource keep the cooldown apart and resolve
  below the hysteresis.  The hypotheses on a run are that the services of a status are read without an
  error and that the stored state is one the engine wrote; nothing is asked of what the other passes read.
\<close>

section \<open>A demonstration\<close>

text \<open>A panel with one service, whose state is given, and one processor reading.\<close>

definition demo_feed :: "rat \<Rightarrow> string option \<Rightarrow> int \<Rightarrow> feeds" where
  "demo_feed t st cpu =
     \<lparr>fd_status = PDict [(''groups'', PList [PDict [(''services'',
        PList (case st of None \<Rightarrow> [] | Some v \<Rightarrow> [PDict [(''id'', PStr ''web''), (''state'', PStr v)]]))]])],
      fd_now = Some t, fd_notify = [(''enabled'', PBool True)], fd_thresholds = [(''cooldown_sec'', PInt 600)],
      fd_sample = PDict [(''cpu_used_pct'', PInt cpu)], fd_disks = None, fd_power = PNone,
      fd_files = \<lparr>fw_expand = (\<lambda>_. None), fw_glob = (\<lambda>_. []), fw_mtime = (\<lambda>_. None), fw_isdir = (\<lambda>_. False)\<rparr>, fd_targets = PNone,
      fd_policy = [], fd_stale = []\<rparr>"

definition demo_file :: doc where
  "demo_file = Some (PDict [(''web'', PStr ''ok'')])"


lemma demo_services:
  "services_of (demo_feed t st cpu) = (case st of None \<Rightarrow> [] | Some v \<Rightarrow> [(''web'', [(''id'', PStr ''web''), (''state'', PStr v)])])"
proof -
  have "service_id (PStr ''web'') = ''web''" by code_simp
  then show ?thesis
    by (simp add: demo_feed_def services_of_def status_services_def add_group_def add_service_def pyget_def
        dict_get_def dict_set_def split: option.split)
qed

lemma demo_sight: "obs_of (services_of (demo_feed t st cpu)) ''web'' = map_option PStr st"
  by (simp add: demo_services obs_of_def observed_def get_or_def dict_get_def split: option.split)

lemma web_plain: "plain_service ''web''"
proof -
  have "alert_key ''web'' = ''web''" unfolding alert_key_def by code_simp
  then show ?thesis by (simp add: plain_service_def startswith_def other_prefixes_def)
qed

definition demo_states :: "string list" where
  "demo_states = [''ok'', ''down'', ''warn'', ''stopped'']"

lemma demo_calm: "pred_option (\<lambda>v. v \<in> set demo_states) st \<Longrightarrow> calm_feeds (demo_feed t st cpu)"
proof -
  assume st: "pred_option (\<lambda>v. v \<in> set demo_states) st"
  have "list_all (\<lambda>v. alert_key v = v) demo_states" unfolding alert_key_def demo_states_def by code_simp
  then have "calm_services (services_of (demo_feed t st cpu))" using st web_plain
    by (cases st) (auto simp: demo_services calm_services_def dict_ok_def calm_row_def observed_def get_or_def pyget_def
        dict_get_def list_all_iff)
  then show ?thesis by (simp add: calm_feeds_def calm_flags_def demo_feed_def get_or_def pyget_def dict_get_def)
qed

lemma demo_known: "known demo_file = [(''web'', PStr ''ok'')]"
  unfolding demo_file_def by code_simp

lemma demo_held: "held_bad (known demo_file)"
  by (simp add: demo_known held_bad_def held_in_def pyget_def dict_get_def dict_or_def marks_def dict_ok_def)

lemma demo_view: "service_view (known demo_file) ''web'' = (PStr ''ok'', False)"
  by (simp add: demo_known service_view_def view_in_def held_in_def pyget_def dict_get_def dict_or_def)

section \<open>Service alerts\<close>

text \<open>
  C31: the alerts journalled for a service over a run of sweeps, through the state file each leaves for the
  next, are exactly those of the two-value debouncer over what the sweeps saw of that service, whatever the
  other services and passes did.
\<close>

theorem service_alerts_debounced:
  assumes "list_all calm_feeds fds" "held_bad (known file)" "plain_service k"
  shows "service_pages file fds k = svc_run (service_view (known file) k) (sights fds k)"
  using run_debounced[OF assms] by blast

definition demo_outage :: "feeds list" where
  "demo_outage = [demo_feed 1700000000 (Some ''ok'') 50, demo_feed 1700000090 (Some ''down'') 50,
     demo_feed 1700000180 (Some ''down'') 50, demo_feed 1700000270 (Some ''ok'') 50]"

lemma outage_calm: "list_all calm_feeds demo_outage"
  by (simp add: demo_outage_def demo_calm demo_states_def)

lemma outage_sights: "sights demo_outage ''web'' = [Some (PStr ''ok''), Some (PStr ''down''), Some (PStr ''down''), Some (PStr ''ok'')]"
  by (simp add: sights_def demo_outage_def demo_sight)

theorem service_alerts_debounced_witness:
  "service_pages demo_file demo_outage ''web'' = [[], [], [Problem (PStr ''down'')], [Resolved]]"
  using service_alerts_debounced[OF outage_calm demo_held web_plain]
  by (simp add: demo_view outage_sights bad_state_def)

text \<open>
  C32: a sweep that journals a problem of a service sees it in that state, which is down or warn, and the
  sweep before saw it down or warn too: one bad sight alone is never paged.
\<close>

theorem problem_needs_two_sights:
  assumes "list_all calm_feeds fds" "held_bad (known file)" "plain_service k" "Suc i < length fds"
    and "Problem st \<in> set (service_pages file fds k ! Suc i)"
  shows "bad_state st \<and> sights fds k ! Suc i = Some st \<and> (\<exists>st'. sights fds k ! i = Some st' \<and> bad_state st')"
proof -
  let ?o = "sights fds k" and ?v = "service_view (known file) k"
  have n: "i < length ?o" "Suc i < length ?o" using assms(4) by (simp_all add: sights_def)
  have "Problem st \<in> set (svc_page (view_after ?v (take (Suc i) ?o)) (?o ! Suc i))"
    using assms(5) run_debounced[OF assms(1-3)] svc_run_nth[OF n(2)] by simp
  from page_problem[OF view_after_held[OF view_known[OF assms(2)]] this]
  have "view_bad (view_after ?v (take (Suc i) ?o))" "?o ! Suc i = Some st" "bad_state st" by blast+
  then show ?thesis using next_bad by (auto simp: view_after_Suc[OF n(1)] badly_def split: option.splits)
qed

theorem problem_needs_two_sights_witness:
  "\<exists>st'. sights demo_outage ''web'' ! 1 = Some st' \<and> bad_state st'"
proof -
  have r: "service_pages demo_file demo_outage ''web'' ! Suc 1 = [Problem (PStr ''down'')]"
    using run_debounced[OF outage_calm demo_held web_plain] by (simp add: demo_view outage_sights bad_state_def)
  have "Suc 1 < length demo_outage" by (simp add: demo_outage_def)
  from problem_needs_two_sights[OF outage_calm demo_held web_plain this, of "PStr ''down''"] r show ?thesis by simp
qed

text \<open>
  C33: a service that was seen well and then down or warn is not paged at once; at the next sweep that sees
  it, it is paged in its current state when that is still bad, and nothing at all is journalled when it is
  well again.
\<close>

theorem fault_paged_at_second_sight:
  assumes "list_all calm_feeds fds" "held_bad (known file)" "plain_service k" "Suc (Suc i) < length fds"
    and "sights fds k ! i = Some v" "\<not> bad_state v" "sights fds k ! Suc i = Some w" "bad_state w"
    and "sights fds k ! Suc (Suc i) = Some x"
  shows "service_pages file fds k ! Suc i = []
    \<and> service_pages file fds k ! Suc (Suc i) = (if bad_state x then [Problem x] else [])"
proof -
  let ?o = "sights fds k" and ?v = "service_view (known file) k"
  have n: "i < length ?o" "Suc i < length ?o" "Suc (Suc i) < length ?o" using assms(4) by (simp_all add: sights_def)
  have "calm_feeds (fds ! i)" using assms(1,4) by (simp add: list_all_length)
  then have some: "v \<noteq> PNone" "w \<noteq> PNone"
    using assms(5,8) calm_obs[of "services_of (fds ! i)" k v] n by (auto simp: sights_def calm_feeds_def plain_value_def bad_state_def)
  have 1: "view_after ?v (take (Suc i) ?o) = (v, False)"
    using assms(5,6) by (simp add: view_after_Suc[OF n(1)] quiet_next badly_def)
  have 2: "view_after ?v (take (Suc (Suc i)) ?o) = (w, True)"
    using assms(6-8) some by (simp add: view_after_Suc[OF n(2)] 1)
  show ?thesis using run_debounced[OF assms(1-3)] svc_run_nth[OF n(2)] svc_run_nth[OF n(3)] assms(6-9) some
    by (simp add: 1 2)
qed

theorem fault_paged_at_second_sight_witness:
  "service_pages demo_file demo_outage ''web'' ! 1 = [] \<and> service_pages demo_file demo_outage ''web'' ! 2 = [Problem (PStr ''down'')]"
proof -
  have "Suc (Suc 0) < length demo_outage" by (simp add: demo_outage_def)
  from fault_paged_at_second_sight[OF outage_calm demo_held web_plain this, of "PStr ''ok''" "PStr ''down''" "PStr ''down''"]
  show ?thesis by (simp add: outage_sights bad_state_def numeral_2_eq_2)
qed

text \<open>A held fault that was never announced is announced as recovered when its service vanishes.\<close>

lemma unannounced_fault_resolved:
  "service_pages demo_file [demo_feed 1700000000 (Some ''down'') 50, demo_feed 1700000090 None 50] ''web'' = [[], [Resolved]]"
proof -
  let ?f = "[demo_feed 1700000000 (Some ''down'') 50, demo_feed 1700000090 None 50]"
  have "list_all calm_feeds ?f" by (simp add: demo_calm demo_states_def)
  from run_debounced[OF this demo_held web_plain] show ?thesis
    by (simp add: sights_def demo_sight demo_view bad_state_def)
qed

text \<open>An announced fault that passes through another state on its way to well is never resolved.\<close>

lemma announced_fault_left_open:
  "service_pages demo_file [demo_feed 1700000000 (Some ''down'') 50, demo_feed 1700000090 (Some ''down'') 50,
     demo_feed 1700000180 (Some ''stopped'') 50, demo_feed 1700000270 (Some ''ok'') 50] ''web''
   = [[], [Problem (PStr ''down'')], [], []]"
proof -
  let ?f = "[demo_feed 1700000000 (Some ''down'') 50, demo_feed 1700000090 (Some ''down'') 50,
     demo_feed 1700000180 (Some ''stopped'') 50, demo_feed 1700000270 (Some ''ok'') 50]"
  have "list_all calm_feeds ?f" by (simp add: demo_calm demo_states_def)
  from run_debounced[OF this demo_held web_plain] show ?thesis
    by (simp add: sights_def demo_sight demo_view bad_state_def)
qed

section \<open>Resource alerts\<close>

fun res_after :: "res_view \<Rightarrow> (int \<times> int \<times> res_sight) list \<Rightarrow> res_view" where
  "res_after v [] = v"
| "res_after v ((now, cd, ob) # obs) = res_after (res_next now cd v ob) obs"

lemma res_after_append: "res_after v (xs @ ys) = res_after (res_after v xs) ys"
proof (induction xs arbitrary: v)
  case (Cons x xs)
  then show ?case by (cases x) simp
qed simp

lemma length_res_run [simp]: "length (res_run v obs) = length obs"
  by (induction v obs rule: res_run.induct) simp_all

lemma res_run_nth:
  "i < length obs \<Longrightarrow> obs ! i = (now, cd, ob) \<Longrightarrow> res_run v obs ! i = res_page now cd (res_after v (take i obs)) ob"
proof (induction v obs arbitrary: i rule: res_run.induct)
  case (2 v now' cd' ob' obs)
  then show ?case by (cases i) simp_all
qed simp

lemma res_after_Suc:
  "i < length obs \<Longrightarrow> obs ! i = (now, cd, ob) \<Longrightarrow>
    res_after v (take (Suc i) obs) = res_next now cd (res_after v (take i obs)) ob"
  by (simp add: take_Suc_conv_app_nth res_after_append)

lemma problem_stamps: "Problem p \<in> set (res_page now cd v ob) \<Longrightarrow> cd \<le> now - snd v \<and> snd (res_next now cd v ob) = now"
  by (cases v; cases ob) (auto split: if_splits)

lemma stamp_grows: "0 \<le> cd \<Longrightarrow> snd v \<le> snd (res_next now cd v ob)"
  by (cases v; cases ob) auto

lemma stamps_grow:
  assumes "list_all (\<lambda>(now, cd, ob). 0 \<le> cd) obs" "i \<le> j" "j \<le> length obs"
  shows "snd (res_after v (take i obs)) \<le> snd (res_after v (take j obs))"
  using assms(2,3)
proof (induction j rule: dec_induct)
  case (step j)
  obtain now cd ob where e: "obs ! j = (now, cd, ob)" by (rule prod_cases3)
  have "0 \<le> cd" using assms(1) step.prems e by (auto simp: list_all_length dest: spec[of _ j])
  then have "snd (res_after v (take j obs)) \<le> snd (res_after v (take (Suc j) obs))"
    using res_after_Suc[OF _ e, of v] step.prems stamp_grows by simp
  moreover have "snd (res_after v (take i obs)) \<le> snd (res_after v (take j obs))" using step by simp
  ultimately show ?case by linarith
qed simp

lemma run_problems_apart:
  assumes "list_all (\<lambda>(now, cd, ob). 0 \<le> cd) obs" "i < j" "j < length obs"
    and i: "obs ! i = (now, cd, ob)" "Problem p \<in> set (res_run v obs ! i)"
    and j: "obs ! j = (now', cd', ob')" "Problem q \<in> set (res_run v obs ! j)"
  shows "cd' \<le> now' - now"
proof -
  have n: "i < length obs" using assms(2,3) by simp
  have "Problem p \<in> set (res_page now cd (res_after v (take i obs)) ob)" using i(2) res_run_nth[OF n i(1), of v] by simp
  from problem_stamps[OF this] have "snd (res_after v (take (Suc i) obs)) = now" using res_after_Suc[OF n i(1), of v] by simp
  moreover have "snd (res_after v (take (Suc i) obs)) \<le> snd (res_after v (take j obs))"
    using assms(1-3) by (intro stamps_grow) simp_all
  moreover have "cd' \<le> now' - snd (res_after v (take j obs))"
    using problem_stamps[of q now' cd' "res_after v (take j obs)" ob'] j(2) res_run_nth[OF assms(3) j(1), of v] by simp
  ultimately show ?thesis by linarith
qed

lemma res_resolved: "Resolved \<in> set (res_page now cd v ob) \<Longrightarrow> fst v \<and> (\<exists>over. ob = Some (over, True))"
proof -
  assume r: "Resolved \<in> set (res_page now cd v ob)"
  obtain w t where v: "v = (w, t)" by fastforce
  show ?thesis
  proof (cases ob)
    case (Some s)
    obtain over rec where s: "s = (over, rec)" by fastforce
    have "w \<and> rec" using r unfolding v Some s by (simp split: if_splits)
    then show ?thesis by (simp add: v Some s)
  qed (use r v in simp)
qed

lemma warned_by_problem:
  "j \<le> length obs \<Longrightarrow> fst (res_after v (take j obs)) \<Longrightarrow> fst v \<or> (\<exists>i < j. Problem (PStr ''warn'') \<in> set (res_run v obs ! i))"
proof (induction j)
  case (Suc j)
  obtain now cd ob where e: "obs ! j = (now, cd, ob)" by (rule prod_cases3)
  obtain w t where w: "res_after v (take j obs) = (w, t)" by fastforce
  have j: "j < length obs" using Suc.prems by simp
  show ?case
  proof (cases w)
    case True
    then show ?thesis using Suc w by (auto intro: less_SucI)
  next
    case False
    then have "Problem (PStr ''warn'') \<in> set (res_page now cd (w, t) ob)"
      using Suc.prems(2) by (cases ob) (auto simp: res_after_Suc[OF j e] w split: if_splits)
    then show ?thesis using res_run_nth[OF j e, of v] w by auto
  qed
qed simp

text \<open>A processor that is hot, cools down, is hot again inside the cooldown and still hot when it is over.\<close>

definition demo_heat :: "feeds list" where
  "demo_heat = [demo_feed 1700000000 None 95, demo_feed 1700000090 None 50, demo_feed 1700000180 None 95,
     demo_feed 1700000600 None 95]"

lemma demo_reading: "reading_of (demo_feed t st cpu) ''cpu'' = res_sight (PInt cpu) (PInt 90)"
  by (simp add: reading_of_def demo_feed_def get_or_def pyget_def dict_get_def sight_in_def resource_checks_def)

lemma heat_sights: "res_sight (PInt 95) (PInt 90) = Some (True, False)" "res_sight (PInt 50) (PInt 90) = Some (False, True)"
  by (simp_all add: res_sight_def finite_float_def to_double_numeral dbl_sub_def hysteresis_def)

lemma demo_cooldown: "cooldown_of (fd_thresholds (demo_feed t st cpu)) = 600"
  by (simp add: demo_feed_def cooldown_of_def pick_def pyget_def dict_get_def alert_epoch_def)

lemma demo_now: "sweep_now (demo_feed t st cpu) = rat_int t"
  by (simp add: sweep_now_def demo_feed_def)

lemma heat_readings:
  "readings demo_heat ''cpu'' = [(1700000000, 600, Some (True, False)), (1700000090, 600, Some (False, True)),
     (1700000180, 600, Some (True, False)), (1700000600, 600, Some (True, False))]"
proof -
  have "rat_int 1700000000 = 1700000000" "rat_int 1700000090 = 1700000090" "rat_int 1700000180 = 1700000180" "rat_int 1700000600 = 1700000600"
    by (simp_all add: rat_int_def)
  then show ?thesis by (simp add: readings_def demo_heat_def demo_now demo_cooldown demo_reading heat_sights)
qed

lemma heat_calm: "list_all calm_sweep demo_heat"
proof -
  have "reading 1700000000" "reading 1700000090" "reading 1700000180" "reading 1700000600" by (simp_all add: reading_def)
  moreover have "calm_clock (demo_feed t st cpu) = reading t" for t st cpu by (simp add: calm_clock_def demo_feed_def)
  ultimately show ?thesis by (simp add: demo_heat_def calm_sweep_def demo_calm)
qed

lemma demo_good: "res_good (known demo_file)"
  by (simp add: demo_known res_good_def res_tidy_def res_value_def stamps_in_def pyget_def dict_get_def dict_or_def
      dict_ok_def resource_key_def res_names_def)

lemma demo_res_view: "res_view (known demo_file) ''cpu'' = (False, 0)"
  by (simp add: demo_known res_view_def stamps_in_def pyget_def dict_get_def dict_or_def resource_key_def alert_epoch_def)

lemma cpu_name: "''cpu'' \<in> set res_names"
  by (simp add: res_names_def)

lemma heat_pages: "resource_pages demo_file demo_heat ''cpu'' = [[Problem (PStr ''warn'')], [Resolved], [], [Problem (PStr ''warn'')]]"
  using run_resources[OF heat_calm demo_held demo_good cpu_name] by (simp add: heat_readings demo_res_view)

text \<open>
  C34: the alerts journalled for a resource over a run of sweeps are exactly those of the machine with a
  warned bit and the stamp of the last problem, over the clock, the cooldown and the reading of each sweep.
\<close>

theorem resource_alerts_follow:
  assumes "list_all calm_sweep fds" "held_bad (known file)" "res_good (known file)" "r \<in> set res_names"
  shows "resource_pages file fds r = res_run (res_view (known file) r) (readings fds r)"
  using run_resources[OF assms] .

theorem resource_alerts_follow_witness:
  "resource_pages demo_file demo_heat ''cpu'' = [[Problem (PStr ''warn'')], [Resolved], [], [Problem (PStr ''warn'')]]"
  using resource_alerts_follow[OF heat_calm demo_held demo_good cpu_name] by (simp add: heat_readings demo_res_view)

text \<open>
  C35: two problems of one resource journalled in one run are at least the cooldown in force at the second
  apart, whatever the readings did in between and however the clock went.
\<close>

theorem resource_problems_apart:
  assumes "list_all calm_sweep fds" "held_bad (known file)" "res_good (known file)" "r \<in> set res_names"
    and "list_all (\<lambda>fd. 0 \<le> cooldown_of (fd_thresholds fd)) fds" "i < j" "j < length fds"
    and "Problem p \<in> set (resource_pages file fds r ! i)" "Problem q \<in> set (resource_pages file fds r ! j)"
  shows "cooldown_of (fd_thresholds (fds ! j)) \<le> sweep_now (fds ! j) - sweep_now (fds ! i)"
proof (rule run_problems_apart)
  show "list_all (\<lambda>(now, cd, ob). 0 \<le> cd) (readings fds r)" using assms(5) by (simp add: readings_def list.pred_map comp_def)
  show "i < j" "j < length (readings fds r)" using assms(6,7) by (simp_all add: readings_def)
  show "readings fds r ! i = (sweep_now (fds ! i), cooldown_of (fd_thresholds (fds ! i)), reading_of (fds ! i) r)"
    "readings fds r ! j = (sweep_now (fds ! j), cooldown_of (fd_thresholds (fds ! j)), reading_of (fds ! j) r)"
    using assms(6,7) by (simp_all add: readings_def)
  show "Problem p \<in> set (res_run (res_view (known file) r) (readings fds r) ! i)"
    "Problem q \<in> set (res_run (res_view (known file) r) (readings fds r) ! j)"
    using assms(8,9) run_resources[OF assms(1-4)] by simp_all
qed

theorem resource_problems_apart_witness:
  "600 \<le> sweep_now (demo_heat ! 3) - sweep_now (demo_heat ! 0)"
proof -
  have c: "list_all (\<lambda>fd. 0 \<le> cooldown_of (fd_thresholds fd)) demo_heat" "cooldown_of (fd_thresholds (demo_heat ! 3)) = 600"
    by (simp_all add: demo_heat_def demo_cooldown)
  have "0 < (3::nat)" "3 < length demo_heat" by (simp_all add: demo_heat_def)
  from resource_problems_apart[OF heat_calm demo_held demo_good cpu_name c(1) this, of "PStr ''warn''" "PStr ''warn''"]
  show ?thesis by (simp add: heat_pages c(2))
qed

text \<open>
  C36: a resource is journalled as resolved only at a sweep that reads it at least the hysteresis below its
  limit, and only after a problem of it, in this run or in the stored state.
\<close>

theorem resource_resolved_after_problem:
  assumes "list_all calm_sweep fds" "held_bad (known file)" "res_good (known file)" "r \<in> set res_names"
    and "j < length fds" "Resolved \<in> set (resource_pages file fds r ! j)"
  shows "(\<exists>over. reading_of (fds ! j) r = Some (over, True))
    \<and> (pyget (known file) (resource_key r) = PStr ''warn''
        \<or> (\<exists>i < j. Problem (PStr ''warn'') \<in> set (resource_pages file fds r ! i)))"
proof -
  let ?v = "res_view (known file) r" and ?o = "readings fds r"
  have j: "j < length ?o" "?o ! j = (sweep_now (fds ! j), cooldown_of (fd_thresholds (fds ! j)), reading_of (fds ! j) r)"
    using assms(5) by (simp_all add: readings_def)
  have p: "resource_pages file fds r = res_run ?v ?o" by (rule run_resources[OF assms(1-4)])
  from res_resolved[of "sweep_now (fds ! j)"] assms(6) res_run_nth[OF j, of ?v]
  have "fst (res_after ?v (take j ?o))" "\<exists>over. reading_of (fds ! j) r = Some (over, True)" unfolding p by auto
  then show ?thesis using warned_by_problem[of j ?o ?v] j(1) unfolding p by (auto simp: res_view_def)
qed


theorem resource_resolved_after_problem_witness:
  "reading_of (demo_heat ! 1) ''cpu'' = Some (False, True)
    \<and> (\<exists>i < 1. Problem (PStr ''warn'') \<in> set (resource_pages demo_file demo_heat ''cpu'' ! i))"
proof -
  have "1 < length demo_heat" by (simp add: demo_heat_def)
  from resource_resolved_after_problem[OF heat_calm demo_held demo_good cpu_name this] heat_pages
  have "(\<exists>over. reading_of (demo_heat ! 1) ''cpu'' = Some (over, True))
    \<and> (\<exists>i < 1. Problem (PStr ''warn'') \<in> set (resource_pages demo_file demo_heat ''cpu'' ! i))"
    by (simp add: demo_known pyget_def dict_get_def resource_key_def)
  moreover have "reading_of (demo_heat ! 1) ''cpu'' = Some (False, True)"
    by (simp add: demo_heat_def demo_reading heat_sights)
  ultimately show ?thesis by blast
qed

text \<open>A sweep without a sample forgets that a resource was announced, so its recovery is never journalled.\<close>

lemma resource_problem_left_open:
  "resource_pages demo_file [demo_feed 1700000000 None 95, (demo_feed 1700000090 None 50)\<lparr>fd_sample := PNone\<rparr>,
     demo_feed 1700000180 None 50] ''cpu'' = [[Problem (PStr ''warn'')], [], []]"
proof -
  let ?g = "(demo_feed 1700000090 None 50)\<lparr>fd_sample := PNone\<rparr>"
  let ?f = "[demo_feed 1700000000 None 95, ?g, demo_feed 1700000180 None 50]"
  have g: "reading_of ?g ''cpu'' = None" by (simp add: reading_of_def)
  have same: "services_of ?g = services_of (demo_feed 1700000090 None 50)" "fd_notify ?g = fd_notify (demo_feed 1700000090 None 50)"
    "fd_now ?g = fd_now (demo_feed 1700000090 None 50)" by (simp_all add: services_of_def)
  have c: "calm_sweep (demo_feed t None cpu) = reading t" for t cpu
    using demo_calm[of None t cpu] by (simp add: calm_sweep_def calm_clock_def demo_feed_def)
  have "calm_sweep ?g = calm_sweep (demo_feed 1700000090 None 50)"
    unfolding calm_sweep_def calm_feeds_def calm_clock_def same ..
  then have "list_all calm_sweep ?f" by (simp add: c reading_def)
  from run_resources[OF this demo_held demo_good cpu_name]
  have "resource_pages demo_file ?f ''cpu'' = res_run (False, 0) (readings ?f ''cpu'')" unfolding demo_res_view .
  moreover have "rat_int 1700000000 = 1700000000" "rat_int 1700000180 = 1700000180" by (simp_all add: rat_int_def)
  moreover obtain n cd where "(sweep_now ?g, cooldown_of (fd_thresholds ?g), reading_of ?g ''cpu'') = (n, cd, None)" using g by simp
  ultimately show ?thesis by (simp add: readings_def demo_now demo_cooldown demo_reading heat_sights)
qed

end
