(* ===== verification/Metrics_Rows.thy ===== *)
theory Metrics_Rows
  imports Py_Double
begin

text \<open>
  The rows of the metrics history (\<open>hub/metrics_rollup.py\<close>): journals of one JSON value per line, the parts of
  a journal that a bounded read sees, and the folding of rows into one aggregate row. A line is the number of
  its bytes without the line break and the value it parses to, None where it does not; a piece of a line does not
  parse, since it lacks one of the outer braces. Float arithmetic rounds as in \<open>Py_Double\<close>.
\<close>

section \<open>Numbers\<close>

definition ts_of_dbl :: "dbl \<Rightarrow> int option" where
  "ts_of_dbl d = map_option rat_int (finite_dbl d)"

definition ts_of_int :: "int \<Rightarrow> int option" where
  "ts_of_int i = (case to_double (of_int i) of DFin _ \<Rightarrow> Some i | _ \<Rightarrow> None)"

definition sample_ts :: "pyval \<Rightarrow> int option" where
  \<comment> \<open>\<open>_sample_ts\<close>\<close>
  "sample_ts raw =
     (case raw of
        PInt i \<Rightarrow> ts_of_int i
      | PFloat f \<Rightarrow> ts_of_dbl (dbl_of_float f)
      | PStr s \<Rightarrow>
          if strip s = [] then None
          else (case py_int_of_str (strip s) of
                  Inr i \<Rightarrow> ts_of_int i
                | Inl _ \<Rightarrow> (case float_of_text (strip s) of None \<Rightarrow> None | Some d \<Rightarrow> ts_of_dbl d))
      | _ \<Rightarrow> None)"

definition finite_num :: "pyval \<Rightarrow> rat option" where
  \<comment> \<open>\<open>_finite_num\<close>\<close>
  "finite_num raw =
     (case raw of
        PInt i \<Rightarrow> finite_dbl (to_double (of_int i))
      | PFloat f \<Rightarrow> finite_dbl (dbl_of_float f)
      | PStr s \<Rightarrow>
          if strip s = [] then None
          else (case float_of_text (strip s) of None \<Rightarrow> None | Some d \<Rightarrow> finite_dbl d)
      | _ \<Rightarrow> None)"

section \<open>Journals\<close>

type_synonym line = "nat \<times> pyval option"

definition file_size :: "line list \<Rightarrow> nat" where
  "file_size ls = sum_list (map (\<lambda>l. Suc (fst l)) ls)"

text \<open>The lines that lie within the first bytes of a journal, and, read backwards, within the last.\<close>

fun head_lines :: "nat \<Rightarrow> line list \<Rightarrow> line list" where
  "head_lines _ [] = []"
| "head_lines b (l # ls) = (if fst l \<le> b then l # head_lines (b - Suc (fst l)) ls else [])"

fun tail_part :: "nat \<Rightarrow> line list \<Rightarrow> line list" where
  "tail_part _ [] = []"
| "tail_part b (l # ls) = (if Suc (fst l) \<le> b then l # tail_part (b - Suc (fst l)) ls else [])"

definition last_lines :: "nat \<Rightarrow> line list \<Rightarrow> line list" where
  "last_lines b ls = rev (tail_part b (rev ls))"

text \<open>A read of the last bytes whose first line, whole or not, is dropped unless the read starts the file.\<close>

definition chunk_lines :: "nat \<Rightarrow> line list \<Rightarrow> line list" where
  "chunk_lines c ls = (if file_size ls \<le> c then ls else last_lines (c - 1) ls)"

definition row_ts :: "line \<Rightarrow> int option" where
  "row_ts l = (case snd l of Some (PDict d) \<Rightarrow> sample_ts (pyget d ''t'') | _ \<Rightarrow> None)"

fun first_some :: "'a option list \<Rightarrow> 'a option" where
  "first_some [] = None"
| "first_some (None # xs) = first_some xs"
| "first_some (Some x # xs) = Some x"

text \<open>A journal that is missing or does not read is None.\<close>

definition first_row_ts :: "line list option \<Rightarrow> int option" where
  "first_row_ts j = (case j of None \<Rightarrow> None | Some ls \<Rightarrow> first_some (map row_ts (head_lines 8192 ls)))"

definition last_row_ts :: "line list option \<Rightarrow> int option" where
  "last_row_ts j = (case j of None \<Rightarrow> None | Some ls \<Rightarrow> first_some (map row_ts (rev (last_lines 8192 ls))))"

definition stamped :: "int \<Rightarrow> pyval \<Rightarrow> pydict" where
  \<comment> \<open>the row made fit for JSON, with its time as read\<close>
  "stamped t v = dict_set ''t'' (PInt t) (case jsonable 0 v of PDict d \<Rightarrow> d | _ \<Rightarrow> [])"

fun kept_rows :: "int \<Rightarrow> line list \<Rightarrow> pydict list" where
  "kept_rows since [] = []"
| "kept_rows since (l # ls) =
     (case row_ts l of
        None \<Rightarrow> kept_rows since ls
      | Some t \<Rightarrow> if t < since then kept_rows since ls else stamped t (the (snd l)) # kept_rows since ls)"

definition rows_cap :: nat where "rows_cap = 16 * 1024 * 1024"

definition chunk_sizes :: "nat list" where
  "chunk_sizes = [65536, 262144, 1048576, 4194304, 16777216]"

text \<open>The growing reads: the last of the sizes is the cap, where the loop returns what it has.\<close>

fun scan_chunks :: "nat list \<Rightarrow> int \<Rightarrow> line list \<Rightarrow> pydict list" where
  "scan_chunks [] since ls = []"
| "scan_chunks (c # cs) since ls =
     (let part = chunk_lines c ls;
          covered = file_size ls \<le> c \<or> list_ex (\<lambda>l. case row_ts l of None \<Rightarrow> False | Some t \<Rightarrow> t < since) part
      in if covered \<or> rows_cap \<le> c then kept_rows since part else scan_chunks cs since ls)"

definition rows_since :: "line list option \<Rightarrow> int \<Rightarrow> pydict list" where
  "rows_since j since = (case j of None \<Rightarrow> [] | Some ls \<Rightarrow> scan_chunks chunk_sizes since ls)"

section \<open>Aggregation\<close>

fun dbl_add :: "dbl \<Rightarrow> dbl \<Rightarrow> dbl" where
  "dbl_add (DFin a) (DFin b) = to_double (a + b)"
| "dbl_add DNan _ = DNan"
| "dbl_add _ DNan = DNan"
| "dbl_add DInf DNegInf = DNan"
| "dbl_add DNegInf DInf = DNan"
| "dbl_add DInf _ = DInf"
| "dbl_add _ DInf = DInf"
| "dbl_add DNegInf _ = DNegInf"
| "dbl_add _ DNegInf = DNegInf"

text \<open>A quotient; a zero divisor raises.\<close>

fun dbl_div :: "dbl \<Rightarrow> dbl \<Rightarrow> dbl option" where
  "dbl_div a (DFin b) =
     (if b = 0 then None
      else Some (case a of
                   DFin x \<Rightarrow> to_double (x / b)
                 | DNan \<Rightarrow> DNan
                 | DInf \<Rightarrow> if b < 0 then DNegInf else DInf
                 | DNegInf \<Rightarrow> if b < 0 then DInf else DNegInf))"
| "dbl_div (DFin _) DNan = Some DNan"
| "dbl_div (DFin _) _ = Some (DFin 0)"
| "dbl_div _ _ = Some DNan"

text \<open>A decimal in its shortest form.\<close>

function trim_decimal :: "int \<Rightarrow> int \<Rightarrow> pyfloat" where
  "trim_decimal m e = (if m \<noteq> 0 \<and> 10 dvd m then trim_decimal (m div 10) (e + 1) else FDec m e)"
  by auto

termination
proof (relation "measure (\<lambda>(m, e). nat \<bar>m\<bar>)")
  fix m :: int
  assume "m \<noteq> 0 \<and> 10 dvd m"
  then obtain k where "m = 10 * k" "k \<noteq> 0" by fastforce
  then show "((m div 10, e + 1), m, e) \<in> measure (\<lambda>(m, e). nat \<bar>m\<bar>)" for e :: int by (simp add: abs_mult)
qed simp

declare trim_decimal.simps [simp del]

definition round_value :: "dbl \<Rightarrow> pyval" where
  \<comment> \<open>\<open>_round\<close>\<close>
  "round_value d =
     (case d of
        DFin v \<Rightarrow>
          if 1000 \<le> \<bar>v\<bar> then PInt (round_half_even v)
          else (let k = round_half_even (v * 100) in PFloat (if k = 0 then FDec 0 0 else trim_decimal k (- 2)))
      | _ \<Rightarrow> PInt 0)"

definition row_weight :: "pydict \<Rightarrow> int" where
  "row_weight row =
     (case finite_num (case dict_get row ''n'' of None \<Rightarrow> PInt 1 | Some v \<Rightarrow> v) of
        Some w \<Rightarrow> if 0 < w then rat_int w else 1
      | None \<Rightarrow> 1)"

record totals =
  sm_sums :: "(string \<times> dbl) list"
  sm_weights :: "(string \<times> dbl) list"
  sm_maxes :: "(string \<times> rat) list"
  sm_n :: int

definition max_key :: "string \<Rightarrow> string" where
  "max_key k = k @ ''_max''"

definition own_field :: "string \<Rightarrow> bool" where
  \<comment> \<open>the time, the count and the peaks are not averaged\<close>
  "own_field k \<longleftrightarrow> k = ''t'' \<or> k = ''n'' \<or> drop (length k - 4) k = ''_max''"

definition add_to :: "string \<Rightarrow> dbl \<Rightarrow> (string \<times> dbl) list \<Rightarrow> (string \<times> dbl) list" where
  "add_to k x d = dict_set k (dbl_add (case dict_get d k of None \<Rightarrow> DFin 0 | Some y \<Rightarrow> y) x) d"

definition field_peak :: "pydict \<Rightarrow> string \<Rightarrow> rat \<Rightarrow> rat" where
  "field_peak row k num =
     (case dict_get row (max_key k) of
        None \<Rightarrow> num
      | Some v \<Rightarrow> (case finite_num v of None \<Rightarrow> num | Some p \<Rightarrow> p))"

definition add_field :: "pydict \<Rightarrow> int \<Rightarrow> string \<times> pyval \<Rightarrow> totals \<Rightarrow> totals" where
  "add_field row w p s =
     (if own_field (fst p) then s
      else
        (case finite_num (snd p) of
           None \<Rightarrow> s
         | Some num \<Rightarrow>
             (let k = fst p; peak = field_peak row k num;
                  higher = (case dict_get (sm_maxes s) k of None \<Rightarrow> True | Some m \<Rightarrow> m < peak)
              in s\<lparr>sm_sums := add_to k (to_double (num * of_int w)) (sm_sums s),
                   sm_weights := add_to k (DFin (of_int w)) (sm_weights s),
                   sm_maxes := (if higher then dict_set k peak (sm_maxes s) else sm_maxes s)\<rparr>)))"

definition add_row :: "pydict \<Rightarrow> totals \<Rightarrow> totals" where
  "add_row row s = (let w = row_weight row in fold (add_field row w) row (s\<lparr>sm_n := sm_n s + w\<rparr>))"

text \<open>The average and the peak of a field, put into the row; None where the division by the weight raises.\<close>

definition put_field :: "totals \<Rightarrow> string \<times> dbl \<Rightarrow> pydict option \<Rightarrow> pydict option" where
  "put_field s p out =
     (case out of
        None \<Rightarrow> None
      | Some d \<Rightarrow>
          (case dbl_div (snd p) (case dict_get (sm_weights s) (fst p) of None \<Rightarrow> DFin 0 | Some w \<Rightarrow> w) of
             None \<Rightarrow> None
           | Some avg \<Rightarrow>
               Some (dict_set (max_key (fst p))
                 (round_value (DFin (case dict_get (sm_maxes s) (fst p) of None \<Rightarrow> 0 | Some m \<Rightarrow> m)))
                 (dict_set (fst p) (round_value avg) d))))"

definition aggregate_window :: "pydict list \<Rightarrow> int \<Rightarrow> pydict option" where
  \<comment> \<open>\<open>_aggregate_window\<close>; None where it raises ZeroDivisionError\<close>
  "aggregate_window rows window_start =
     (let s = fold add_row rows \<lparr>sm_sums = [], sm_weights = [], sm_maxes = [], sm_n = 0\<rparr>
      in fold (put_field s) (sm_sums s) (Some [(''t'', PInt window_start), (''n'', PInt (sm_n s))]))"

end
