(* ===== verification/Metrics_Rollup.thy ===== *)
theory Metrics_Rollup
  imports Metrics_Rows
begin

text \<open>
  The rollup passes and the queries over the metrics history (\<open>hub/metrics_rollup.py\<close>). The two aggregate
  journals and the file of the watermarks are the stored part of the state; the watermarks and the time gates of
  the trims live in memory and are lost when the panel restarts. What a pass meets is one record (\<open>weather\<close>): the raw
  journal after the sampler has flushed it, and which reads and writes succeed. The length of a written row in bytes
  is an argument (\<open>sz\<close>). Clock readings are below \<open>2 ^ 53\<close>, where the quotient by a window is exact.
\<close>

section \<open>State\<close>

record rollup_mem =
  rm_loaded :: bool
  rm_w5 :: int
  rm_w1h :: int
  rm_trim5 :: rat
  rm_trim1h :: rat

record rollup =
  ro_mem :: rollup_mem
  ro_5m :: "line list"
  ro_1h :: "line list"
  ro_file :: doc

record weather =
  wx_raw :: "line list option"
  wx_read :: bool
  wx_append5 :: bool
  wx_append1h :: bool
  wx_trim :: bool
  wx_state :: bool
  wx_save :: bool

definition fresh_mem :: rollup_mem where
  "fresh_mem = \<lparr>rm_loaded = False, rm_w5 = 0, rm_w1h = 0, rm_trim5 = 0, rm_trim1h = 0\<rparr>"

definition win_5m :: int where "win_5m = 300"
definition win_1h :: int where "win_1h = 3600"
definition retain_5m :: int where "retain_5m = 30 * 86400"
definition retain_1h :: int where "retain_1h = 400 * 86400"
definition slack_5m :: int where "slack_5m = 86400"
definition slack_1h :: int where "slack_1h = 7 * 86400"
definition trim_every_s :: rat where "trim_every_s = 3600"

section \<open>Watermarks\<close>

definition recovered :: "pydict \<Rightarrow> string \<Rightarrow> int \<Rightarrow> line list option \<Rightarrow> int \<Rightarrow> int" where
  \<comment> \<open>the highest of the mark in memory, the stored one and the end of the last aggregated window\<close>
  "recovered saved key win j mark =
     max (max mark (case sample_ts (pyget saved key) of None \<Rightarrow> 0 | Some t \<Rightarrow> t))
         (case last_row_ts j of None \<Rightarrow> 0 | Some t \<Rightarrow> t + win)"

definition load_marks :: "weather \<Rightarrow> rollup \<Rightarrow> rollup" where
  \<comment> \<open>\<open>_load_state_locked\<close>\<close>
  "load_marks wx s =
     (if rm_loaded (ro_mem s) then s
      else
        (let saved = (if wx_state wx then (case ro_file s of Some (PDict d) \<Rightarrow> d | _ \<Rightarrow> []) else []);
             m = ro_mem s
         in s\<lparr>ro_mem := m\<lparr>
                rm_w5 := recovered saved ''w5'' win_5m (if wx_read wx then Some (ro_5m s) else None) (rm_w5 m),
                rm_w1h := recovered saved ''w1h'' win_1h (if wx_read wx then Some (ro_1h s) else None) (rm_w1h m),
                rm_loaded := True\<rparr>\<rparr>))"

definition save_marks :: "weather \<Rightarrow> rollup \<Rightarrow> rollup" where
  \<comment> \<open>\<open>_save_state_locked\<close>\<close>
  "save_marks wx s =
     (if wx_save wx
      then s\<lparr>ro_file := Some (jsonable 0 (PDict [(''w5'', PInt (rm_w5 (ro_mem s))), (''w1h'', PInt (rm_w1h (ro_mem s)))]))\<rparr>
      else s)"

section \<open>One pass of a tier\<close>

definition row_time :: "pydict \<Rightarrow> int option" where
  "row_time r = sample_ts (pyget r ''t'')"

text \<open>The rows counted, and their windows in order with the rows of each.\<close>

definition in_pass :: "int \<Rightarrow> int \<Rightarrow> pydict \<Rightarrow> bool" where
  "in_pass start target r \<longleftrightarrow> (case row_time r of None \<Rightarrow> False | Some t \<Rightarrow> start \<le> t \<and> t < target)"

definition window_of :: "int \<Rightarrow> pydict \<Rightarrow> int" where
  "window_of win r = (case row_time r of None \<Rightarrow> 0 | Some t \<Rightarrow> t div win * win)"

definition buckets :: "(pydict \<Rightarrow> int) \<Rightarrow> pydict list \<Rightarrow> (int \<times> pydict list) list" where
  "buckets f rows = map (\<lambda>w. (w, filter (\<lambda>r. f r = w) rows)) (sort (remdups (map f rows)))"

definition written :: "(pydict \<Rightarrow> nat) \<Rightarrow> pydict \<Rightarrow> line" where
  "written sz d = (let d = (case jsonable 0 (PDict d) of PDict d \<Rightarrow> d | _ \<Rightarrow> []) in (sz d, Some (PDict d)))"

text \<open>Whether the pass raises, how many windows it wrote, the watermark and the journal after it.\<close>

definition rollup_tier ::
  "(pydict \<Rightarrow> nat) \<Rightarrow> bool \<Rightarrow> int \<Rightarrow> line list option \<Rightarrow> int \<Rightarrow> int \<Rightarrow> line list \<Rightarrow> bool \<times> nat \<times> int \<times> line list" where
  \<comment> \<open>\<open>_rollup_tier_locked\<close>\<close>
  "rollup_tier sz ok win src mark target dst =
     (case first_row_ts src of
        None \<Rightarrow> (False, 0, max mark target, dst)
      | Some oldest \<Rightarrow>
          (let start = max mark (oldest div win * win) in
           if target \<le> start then (False, 0, max mark target, dst)
           else
             (let bs = buckets (window_of win) (filter (in_pass start target) (rows_since src start)) in
              if bs = [] then (False, 0, target, dst)
              else
                (case those (map (\<lambda>b. aggregate_window (snd b) (fst b)) bs) of
                   None \<Rightarrow> (True, 0, mark, dst)
                 | Some aggs \<Rightarrow>
                     if ok then (False, length bs, target, dst @ map (written sz) aggs)
                     else (False, 0, mark, dst)))))"

section \<open>Trimming\<close>

definition trim_journal :: "int \<Rightarrow> int \<Rightarrow> rat \<Rightarrow> bool \<Rightarrow> rat \<Rightarrow> line list \<Rightarrow> rat \<times> line list" where
  \<comment> \<open>\<open>_maybe_trim_locked\<close>: the time of the last look, and the journal\<close>
  "trim_journal retain slack now ok last_trim j =
     (if dbl_sub now last_trim < trim_every_s then (last_trim, j)
      else
        (case first_row_ts (Some j) of
           None \<Rightarrow> (now, j)
         | Some oldest \<Rightarrow>
             if dbl_sub (dbl_sub now (of_int retain)) (of_int slack) \<le> of_int oldest then (now, j)
             else
               (let cutoff = dbl_sub now (of_int retain);
                    kept = filter (\<lambda>l. case row_ts l of None \<Rightarrow> False | Some t \<Rightarrow> cutoff \<le> of_int t) (chunk_lines rows_cap j)
                in (now, if ok then kept else j))))"

section \<open>The rollup\<close>

definition pass_5m :: "(pydict \<Rightarrow> nat) \<Rightarrow> weather \<Rightarrow> rat \<Rightarrow> int \<Rightarrow> rollup \<Rightarrow> bool \<times> nat \<times> rollup" where
  "pass_5m sz wx now target s =
     (let m = ro_mem s;
          (raised, k, w, j) = rollup_tier sz (wx_append5 wx) win_5m (wx_raw wx) (rm_w5 m) target (ro_5m s)
      in if raised then (True, 0, s)
         else (let (t, j) = (if wx_read wx then trim_journal retain_5m slack_5m now (wx_trim wx) (rm_trim5 m) j
                             else (if dbl_sub now (rm_trim5 m) < trim_every_s then rm_trim5 m else now, j))
               in (False, k, s\<lparr>ro_mem := m\<lparr>rm_w5 := w, rm_trim5 := t\<rparr>, ro_5m := j\<rparr>)))"

definition pass_1h :: "(pydict \<Rightarrow> nat) \<Rightarrow> weather \<Rightarrow> rat \<Rightarrow> int \<Rightarrow> rollup \<Rightarrow> bool \<times> nat \<times> rollup" where
  "pass_1h sz wx now target s =
     (let m = ro_mem s;
          (raised, k, w, j) =
            rollup_tier sz (wx_append1h wx) win_1h (if wx_read wx then Some (ro_5m s) else None) (rm_w1h m) target (ro_1h s)
      in if raised then (True, 0, s)
         else (let (t, j) = (if wx_read wx then trim_journal retain_1h slack_1h now (wx_trim wx) (rm_trim1h m) j
                             else (if dbl_sub now (rm_trim1h m) < trim_every_s then rm_trim1h m else now, j))
               in (False, k, s\<lparr>ro_mem := m\<lparr>rm_w1h := w, rm_trim1h := t\<rparr>, ro_1h := j\<rparr>)))"

text \<open>Whether the call raises, the windows written per tier, and the state.\<close>

definition maybe_rollup :: "(pydict \<Rightarrow> nat) \<Rightarrow> weather \<Rightarrow> rat \<Rightarrow> rollup \<Rightarrow> bool \<times> (nat \<times> nat) \<times> rollup" where
  "maybe_rollup sz wx now s =
     (let s = load_marks wx s;
          cur5 = \<lfloor>now / of_int win_5m\<rfloor> * win_5m;
          due5 = rm_w5 (ro_mem s) < cur5;
          (raised, k5, s) = (if due5 then pass_5m sz wx now cur5 s else (False, 0, s))
      in if raised then (True, (0, 0), s)
         else
           (let cur1h = min \<lfloor>now / of_int win_1h\<rfloor> (rm_w5 (ro_mem s) div win_1h) * win_1h;
                due1h = rm_w1h (ro_mem s) < cur1h;
                (raised, k1h, s) = (if due1h then pass_1h sz wx now cur1h s else (False, 0, s))
            in if raised then (True, (0, 0), s)
               else (False, (k5, k1h), if due5 \<or> due1h then save_marks wx s else s)))"

text \<open>A restart of the panel keeps the files only.\<close>

definition restart :: "rollup \<Rightarrow> rollup" where
  "restart s = s\<lparr>ro_mem := fresh_mem\<rparr>"

section \<open>Queries\<close>

definition max_query_points :: int where "max_query_points = 1500"
definition raw_query_span :: int where "raw_query_span = 48 * 3600"

definition parse_range :: "pyval \<Rightarrow> int result" where
  "parse_range v =
     bind_ok (py_str (if truthy v then v else PStr [])) (\<lambda>s.
       let s = lower (strip s); unit = drop (length s - 1) s; ds = take (length s - 1) s in
       if length s < 2 \<or> \<not> isdigit ds then Inl ValueError
       else bind_ok (py_int_of_str ds) (\<lambda>n.
         let mult = (if unit = ''h'' then Some 3600 else if unit = ''d'' then Some 86400
                     else if unit = ''w'' then Some (7 * 86400) else if unit = ''y'' then Some (365 * 86400) else None)
         in case mult of
              None \<Rightarrow> Inl ValueError
            | Some m \<Rightarrow> if n \<le> 0 then Inl ValueError else Inr (min (n * m) retain_1h)))"

definition covers :: "line list option \<Rightarrow> int \<Rightarrow> bool" where
  "covers j since = (case first_row_ts j of None \<Rightarrow> False | Some t \<Rightarrow> t \<le> since)"

definition reaches_further :: "line list option \<Rightarrow> line list option \<Rightarrow> bool" where
  "reaches_further a b =
     (case first_row_ts a of
        None \<Rightarrow> False
      | Some ta \<Rightarrow> (case first_row_ts b of None \<Rightarrow> True | Some tb \<Rightarrow> ta < tb))"

datatype tier = Raw | Tier5m | Tier1h

definition pick_tier :: "line list option \<Rightarrow> line list option \<Rightarrow> line list option \<Rightarrow> int \<Rightarrow> int \<Rightarrow> tier" where
  "pick_tier raw j5 j1h since until =
     (let span = until - since in
      if span \<le> raw_query_span then (if \<not> covers raw since \<and> reaches_further j5 raw then Tier5m else Raw)
      else if span \<le> retain_5m + 86400 then (if \<not> covers j5 since \<and> reaches_further j1h j5 then Tier1h else Tier5m)
      else Tier1h)"

definition slot_of :: "int \<Rightarrow> int \<Rightarrow> pydict \<Rightarrow> int" where
  "slot_of since len r = (case row_time r of None \<Rightarrow> 0 | Some t \<Rightarrow> (t - since) div len)"

definition slot_length :: "int \<Rightarrow> int \<Rightarrow> int \<Rightarrow> int" where
  "slot_length since until max_points = - ((- max 1 (until - since)) div max_points)"

text \<open>None where an aggregation raises.\<close>

definition decimate :: "pydict list \<Rightarrow> int \<Rightarrow> int \<Rightarrow> int \<Rightarrow> pydict list option" where
  "decimate rows since until max_points =
     (if int (length rows) \<le> max_points then Some rows
      else
        (let len = slot_length since until max_points;
             bs = buckets (slot_of since len) (filter (\<lambda>r. row_time r \<noteq> None) rows)
         in those (map (\<lambda>b. aggregate_window (snd b) (since + fst b * len)) bs)))"

definition sort_key_time :: "pydict \<Rightarrow> int" where
  "sort_key_time r = (case row_time r of None \<Rightarrow> 0 | Some t \<Rightarrow> t)"

definition rows_between :: "int \<Rightarrow> int \<Rightarrow> pydict list \<Rightarrow> pydict list" where
  "rows_between since until rows = filter (in_pass since (until + 1)) rows"

text \<open>The points and the tier; \<open>history\<close> stands for the rows of the raw journal with the unflushed ones.\<close>

definition query_range ::
  "line list option \<Rightarrow> line list option \<Rightarrow> line list option \<Rightarrow> pydict list \<Rightarrow> int \<Rightarrow> int \<Rightarrow> int \<Rightarrow> (pydict list \<times> tier) option" where
  "query_range raw j5 j1h history since until points =
     (let max_points = max 1 (min points max_query_points);
          tier = pick_tier raw j5 j1h since until;
          rows = rows_between since until
            (case tier of Raw \<Rightarrow> history | Tier5m \<Rightarrow> rows_since j5 since | Tier1h \<Rightarrow> rows_since j1h since)
      in map_option (\<lambda>ps. (ps, tier)) (decimate (sort_key sort_key_time rows) since until max_points))"

end
