(* ===== verification/Rollup_Safety.thy ===== *)
theory Rollup_Safety
  imports Metrics_Rollup Ups_Json
begin

text \<open>
  The rollups of the metrics history: over every run of passes, restarts and lost writes no window of a
  tier is aggregated twice, a pass counts every row of its span exactly once, and a decimated answer keeps
  within one point of its cap.
\<close>

section \<open>Reading back what was written\<close>

lemma launder_eq: "launder s = k \<Longrightarrow> CHR ''?'' \<notin> set k \<Longrightarrow> s = k"
proof -
  assume l: "launder s = k" "CHR ''?'' \<notin> set k"
  have "\<not> surrogate c" if "c \<in> set (text_chars s)" for c
  proof
    assume "surrogate c"
    then have "CHR ''?'' \<in> set (launder s)" using that unfolding launder_def by (auto intro!: bexI[of _ c])
    then show False using l by simp
  qed
  then have "launder s = s" by (intro launder_clean) (auto simp: clean_text_def list_all_iff)
  then show "s = k" using l by simp
qed

lemma launder_keys_get:
  assumes "dict_ok d" "CHR ''?'' \<notin> set k" "launder k = k"
  shows "dict_get (launder_keys d) k = dict_get d k"
  using assms(1)
proof (induction d rule: rev_induct)
  case (snoc p d)
  have d: "dict_ok d" "fst p \<notin> fst ` set d" using snoc.prems by (auto simp: dict_ok_def)
  have s: "launder_keys (d @ [p]) = dict_set (launder (fst p)) (snd p) (launder_keys d)" by (simp add: launder_keys_def)
  show ?case
  proof (cases "launder (fst p) = k")
    case True
    then have "fst p = k" using launder_eq assms(2) by blast
    moreover from this have "dict_get d k = None" using d(2) by (auto simp: dict_get_def map_of_eq_None_iff)
    ultimately show ?thesis unfolding s using True by (simp add: dict_simps dict_get_snoc)
  next
    case False
    then have "fst p \<noteq> k" using assms(3) by auto
    then show ?thesis unfolding s using False snoc.IH[OF d(1)] by (auto simp: dict_simps dict_get_snoc split: option.split)
  qed
qed (simp add: launder_keys_def)

lemma written_get:
  assumes "dict_ok d" "k = ''t'' \<or> k = ''n''" "pyget d k = PInt i" "fits_digit_cap i"
  shows "\<exists>d'. written sz d = (sz d', Some (PDict d')) \<and> pyget d' k = PInt i"
proof -
  have q: "CHR ''?'' \<notin> set k" "launder k = k" using assms(2) by (auto intro!: launder_ascii simp: is_ascii_def ordc_def)
  have ok: "dict_ok (map (\<lambda>p. (fst p, jsonable (Suc 0) (snd p))) d)" using assms(1) by (simp add: dict_ok_def comp_def)
  have j: "dict_get (map (\<lambda>p. (fst p, jsonable (Suc 0) (snd p))) d) k = map_option (jsonable (Suc 0)) (dict_get d k)"
    by (simp add: jsonable_Some)
  have "dict_get d k = Some (PInt i)" using assms(3) by (auto simp: pyget_def split: option.splits)
  then have "pyget (scrub_at 0 d) k = PInt i" using launder_keys_get[OF ok q] j assms(4)
    by (simp add: scrub_at_def pyget_def jsonable.simps)
  then show ?thesis by (simp add: written_def jsonable_PDict Let_def)
qed

section \<open>Aggregates\<close>

lemma add_field_n [simp]: "sm_n (add_field row w p s) = sm_n s"
  by (simp add: add_field_def Let_def split: option.split)

lemma fold_field_n [simp]: "sm_n (fold (add_field row w) ps s) = sm_n s"
  by (induction ps arbitrary: s) simp_all

lemma add_row_n: "sm_n (fold add_row rows s) = sm_n s + sum_list (map row_weight rows)"
  by (induction rows arbitrary: s) (simp_all add: add_row_def Let_def)

text \<open>The summed fields are neither the time nor the count.\<close>

definition fields_own :: "totals \<Rightarrow> bool" where
  "fields_own s \<longleftrightarrow> list_all (\<lambda>p. \<not> own_field (fst p)) (sm_sums s)"

lemma fields_own_field: "fields_own s \<Longrightarrow> fields_own (add_field row w p s)"
  by (auto simp: fields_own_def add_field_def add_to_def Let_def list_all_iff dest!: in_dict_set split: option.split)

lemma fields_own_fold: "fields_own s \<Longrightarrow> fields_own (fold (add_field row w) ps s)"
  by (induction ps arbitrary: s) (simp_all add: fields_own_field)

lemma fields_own_rows: "fields_own s \<Longrightarrow> fields_own (fold add_row rows s)"
proof (induction rows arbitrary: s)
  case (Cons r rows)
  then have "fields_own (s\<lparr>sm_n := x\<rparr>)" for x by (simp add: fields_own_def)
  then have "fields_own (add_row r s)" unfolding add_row_def Let_def by (rule fields_own_fold)
  then show ?case using Cons.IH by simp
qed simp

lemma max_key_other: "max_key k \<noteq> ''t''" "max_key k \<noteq> ''n''" "''t'' \<noteq> max_key k" "''n'' \<noteq> max_key k"
  by (auto simp: max_key_def append_eq_Cons_conv Cons_eq_append_conv)

lemma put_fields:
  assumes "fold (put_field s) ps (Some d) = Some d'" "list_all (\<lambda>p. \<not> own_field (fst p)) ps" "dict_ok d"
  shows "dict_ok d' \<and> dict_get d' ''t'' = dict_get d ''t'' \<and> dict_get d' ''n'' = dict_get d ''n''"
  using assms
proof (induction ps arbitrary: d)
  case (Cons p ps)
  have none: "fold (put_field s) ps None = None" for ps by (induction ps) (simp_all add: put_field_def)
  have n: "fst p \<noteq> ''t''" "fst p \<noteq> ''n''" using Cons.prems(2) by (auto simp: own_field_def)
  obtain d1 where 1: "put_field s p (Some d) = Some d1" using Cons.prems(1) none by (cases "put_field s p (Some d)") auto
  then obtain x y where "d1 = dict_set (max_key (fst p)) x (dict_set (fst p) y d)"
    by (auto simp: put_field_def split: option.splits)
  then have "dict_ok d1" "dict_get d1 ''t'' = dict_get d ''t''" "dict_get d1 ''n'' = dict_get d ''n''"
    using Cons.prems(3) n by (simp_all add: dict_simps step_intros max_key_other)
  then show ?case using Cons.IH[of d1] Cons.prems(1,2) 1 by simp
qed simp

lemma aggregate_fields:
  assumes "aggregate_window rows wt = Some d"
  shows "dict_ok d" "pyget d ''t'' = PInt wt" "pyget d ''n'' = PInt (sum_list (map row_weight rows))"
proof -
  let ?s = "fold add_row rows \<lparr>sm_sums = [], sm_weights = [], sm_maxes = [], sm_n = 0\<rparr>"
  let ?d = "[(''t'', PInt wt), (''n'', PInt (sm_n ?s))]"
  have "fields_own ?s" by (rule fields_own_rows) (simp add: fields_own_def)
  moreover have "dict_ok ?d" by (simp add: dict_ok_def)
  moreover have "fold (put_field ?s) (sm_sums ?s) (Some ?d) = Some d" using assms by (simp add: aggregate_window_def Let_def)
  ultimately have "dict_ok d \<and> dict_get d ''t'' = dict_get ?d ''t'' \<and> dict_get d ''n'' = dict_get ?d ''n''"
    using put_fields unfolding fields_own_def by blast
  then show "dict_ok d" "pyget d ''t'' = PInt wt" "pyget d ''n'' = PInt (sum_list (map row_weight rows))"
    by (simp_all add: pyget_def dict_get_def add_row_n)
qed

lemma row_weight_nonneg: "0 \<le> row_weight r"
  by (auto simp: row_weight_def rat_int_def split: option.split)

section \<open>Buckets\<close>

lemma buckets_keys: "map fst (buckets f rows) = sort (remdups (map f rows))"
  by (simp add: buckets_def comp_def)

lemma buckets_sorted: "sorted_wrt (<) (map fst (buckets f rows))"
  unfolding buckets_keys by (simp add: strict_sorted_iff)

lemma bucket_rows: "b \<in> set (buckets f rows) \<Longrightarrow> snd b = filter (\<lambda>r. f r = fst b) rows \<and> (\<exists>r \<in> set rows. f r = fst b)"
  by (auto simp: buckets_def)

lemma buckets_empty [simp]: "buckets f rows = [] \<longleftrightarrow> rows = []"
  by (simp add: buckets_def) (metis length_0_conv length_sort remdups_eq_nil_iff map_is_Nil_conv)

lemma buckets_sum:
  fixes g :: "pydict \<Rightarrow> int"
  shows "sum_list (map (\<lambda>b. sum_list (map g (snd b))) (buckets f rows)) = sum_list (map g rows)"
proof -
  let ?ws = "sort (remdups (map f rows))"
  have "sum_list (map (\<lambda>w. sum_list (map g (filter (\<lambda>r. f r = w) rows))) ws) = sum_list (map g rows)"
    if "distinct ws" "f ` set rows \<subseteq> set ws" for ws
    using that(2)
  proof (induction rows)
    case (Cons r rows)
    have "sum_list (map (\<lambda>w. sum_list (map g (filter (\<lambda>r. f r = w) (r # rows)))) ws)
        = sum_list (map (\<lambda>w. (if f r = w then g r else 0) + sum_list (map g (filter (\<lambda>r. f r = w) rows))) ws)"
      by (rule arg_cong[where f = sum_list], rule map_cong) auto
    also have "\<dots> = sum_list (map (\<lambda>w. if f r = w then g r else 0) ws) + sum_list (map g rows)"
      using Cons by (simp add: sum_list_addf)
    also have "sum_list (map (\<lambda>w. if f r = w then g r else 0) ws) = g r"
      using that(1) Cons.prems by (simp add: sum_list_distinct_conv_sum_set)
    finally show ?case by simp
  qed (simp add: sum_list_0)
  from this[of ?ws] show ?thesis by (simp add: buckets_def comp_def)
qed

section \<open>Parts of a journal\<close>

lemma tail_part_take: "\<exists>k. tail_part b ls = take k ls"
proof (induction b ls rule: tail_part.induct)
  case (2 b l ls)
  show ?case
  proof (cases "Suc (fst l) \<le> b")
    case True
    then obtain k where "tail_part (b - Suc (fst l)) ls = take k ls" using 2 by blast
    then show ?thesis using True by (intro exI[of _ "Suc k"]) simp
  qed (auto intro: exI[of _ 0])
qed simp

lemma last_lines_drop: "\<exists>k. last_lines b ls = drop k ls"
proof -
  obtain k where "tail_part b (rev ls) = take k (rev ls)" using tail_part_take by blast
  then show ?thesis by (auto simp: last_lines_def take_rev)
qed

lemma chunk_lines_drop: "\<exists>k. chunk_lines c ls = drop k ls"
  unfolding chunk_lines_def using last_lines_drop by (auto intro: exI[of _ 0])

lemma last_row_last:
  assumes "ls \<noteq> []" "fst (last ls) < 8192" "row_ts (last ls) = Some t"
  shows "last_row_ts (Some ls) = Some t"
proof -
  obtain l ls' where r: "rev ls = l # ls'" using assms(1) by (cases "rev ls") auto
  then have "l = last ls" by (metis hd_rev list.sel(1))
  then show ?thesis using assms(2,3) by (simp add: last_row_ts_def last_lines_def r)
qed

section \<open>A pass\<close>

text \<open>What a tier holds: whole windows in strictly increasing order, in lines a bounded read sees.\<close>

definition tier_line :: "int \<Rightarrow> line \<Rightarrow> bool" where
  "tier_line win l \<longleftrightarrow> fst l < 8192 \<and> (\<exists>t. row_ts l = Some t \<and> 0 \<le> t \<and> win dvd t)"

definition line_time :: "line \<Rightarrow> int" where
  "line_time l = the (row_ts l)"

definition tier_rows :: "int \<Rightarrow> line list \<Rightarrow> bool" where
  "tier_rows win ls \<longleftrightarrow> list_all (tier_line win) ls \<and> sorted_wrt (<) (map line_time ls)"

definition behind :: "int \<Rightarrow> int \<Rightarrow> line list \<Rightarrow> bool" where
  "behind win mark ls \<longleftrightarrow> 0 \<le> mark \<and> (\<forall>l \<in> set ls. line_time l + win \<le> mark)"

lemma whole_int_ts: "0 \<le> i \<Longrightarrow> i < 2 ^ 53 \<Longrightarrow> ts_of_int i = Some i"
proof -
  assume i: "0 \<le> i" "i < 2 ^ 53"
  then have "nat i < 2 ^ 53" by (simp add: nat_less_iff)
  from to_double_nat[OF this] show ?thesis using i by (simp add: ts_of_int_def)
qed

lemma capped_fits: "0 \<le> i \<Longrightarrow> i < 10 ^ int_max_str_digits \<Longrightarrow> fits_digit_cap i"
proof -
  assume i: "0 \<le> i" "i < 10 ^ int_max_str_digits"
  then have n: "nat i < 10 ^ int_max_str_digits" by (simp add: nat_less_iff)
  have "0 < int_max_str_digits" by (simp add: int_max_str_digits_def)
  from length_show_nat[OF this n] show ?thesis using i by (simp add: fits_digit_cap_def)
qed

lemma double_below_cap: "(2::int) ^ 53 < 10 ^ int_max_str_digits"
proof -
  have "(2::int) ^ 53 < 10 ^ 17" by simp
  also have "\<dots> \<le> 10 ^ int_max_str_digits" by (rule power_increasing) (simp_all add: int_max_str_digits_def)
  finally show ?thesis .
qed

lemma written_line:
  assumes "aggregate_window rows wt = Some d" "0 \<le> wt" "wt < 2 ^ 53"
  shows "row_ts (written sz d) = Some wt"
proof -
  have "fits_digit_cap wt" using capped_fits[OF assms(2)] assms(3) double_below_cap by linarith
  from written_get[OF aggregate_fields(1)[OF assms(1)] _ aggregate_fields(2)[OF assms(1)] this, of sz]
  obtain d' where "written sz d = (sz d', Some (PDict d'))" "pyget d' ''t'' = PInt wt" by blast
  then show ?thesis using whole_int_ts[OF assms(2,3)] by (simp add: row_ts_def sample_ts_def)
qed

lemma those_map: "those (map f xs) = Some ys \<longleftrightarrow> list_all2 (\<lambda>x y. f x = Some y) xs ys"
proof (induction xs arbitrary: ys)
  case (Cons x xs)
  then show ?case by (cases ys) (auto split: option.split)
qed auto

lemma window_bounds:
  assumes "0 < win" "in_pass start target r" "win dvd target" "0 \<le> start"
  shows "0 \<le> window_of win r" "win dvd window_of win r" "window_of win r + win \<le> target"
    "\<And>m. win dvd m \<Longrightarrow> m \<le> start \<Longrightarrow> m \<le> window_of win r"
proof -
  obtain t where t: "row_time r = Some t" "start \<le> t" "t < target" using assms(2) by (auto simp: in_pass_def split: option.splits)
  have w: "window_of win r = t div win * win" using t(1) by (simp add: window_of_def)
  show "0 \<le> window_of win r" "win dvd window_of win r" using w assms(1,4) t(2) by (simp_all add: pos_imp_zdiv_nonneg_iff)
  obtain k where k: "target = win * k" using assms(3) by blast
  have "t div win * win \<le> t" using assms(1) by (simp add: minus_mod_eq_div_mult[symmetric])
  then have "t div win * win < k * win" using t(3) unfolding k by (simp add: mult.commute)
  then have "t div win < k" using assms(1) by (simp only: mult_less_cancel_right_pos)
  then have "(t div win + 1) * win \<le> k * win" using assms(1) by (intro mult_right_mono) simp_all
  then show "window_of win r + win \<le> target" unfolding w k by (simp add: algebra_simps)
  show "m \<le> window_of win r" if m: "win dvd m" "m \<le> start" for m
  proof -
    obtain j where j: "m = win * j" using m(1) by blast
    have "win * j div win \<le> t div win" using m(2) t(2) assms(1) unfolding j by (intro zdiv_mono1) simp_all
    then have "j \<le> t div win" using assms(1) by simp
    then have "j * win \<le> t div win * win" using assms(1) by (intro mult_right_mono) simp_all
    then show ?thesis unfolding w j by (simp add: mult.commute)
  qed
qed

text \<open>The windows a pass writes, as lines of the tier.\<close>

lemma pass_lines:
  assumes "0 < win" "win dvd target" "target < 2 ^ 53" "0 \<le> start" "list_all (in_pass start target) rows" "\<And>d. sz d < 8192"
    and aggs: "those (map (\<lambda>b. aggregate_window (snd b) (fst b)) (buckets (window_of win) rows)) = Some aggs"
  shows "map (row_ts \<circ> written sz) aggs = map Some (sort (remdups (map (window_of win) rows)))"
    "list_all (\<lambda>l. tier_line win l \<and> line_time l + win \<le> target \<and> (\<forall>m. win dvd m \<longrightarrow> m \<le> start \<longrightarrow> m \<le> line_time l)) (map (written sz) aggs)"
    "sorted_wrt (<) (map line_time (map (written sz) aggs))"
proof -
  let ?bs = "buckets (window_of win) rows"
  have two: "list_all2 (\<lambda>b d. aggregate_window (snd b) (fst b) = Some d) ?bs aggs" using aggs by (simp add: those_map)
  have b: "0 \<le> fst b \<and> win dvd fst b \<and> fst b + win \<le> target \<and> (\<forall>m. win dvd m \<longrightarrow> m \<le> start \<longrightarrow> m \<le> fst b)" if bs: "b \<in> set ?bs" for b
  proof -
    from bucket_rows[OF bs] obtain r where r: "r \<in> set rows" "window_of win r = fst b" by blast
    have "in_pass start target r" using assms(5) r(1) by (simp add: list_all_iff)
    from window_bounds[OF assms(1) this assms(2,4)] show ?thesis unfolding r(2) by blast
  qed
  have w: "list_all2 (\<lambda>b d. row_ts (written sz d) = Some (fst b)) ?bs aggs"
    using two
  proof (rule list.rel_mono_strong)
    fix x y assume x: "x \<in> set ?bs" and "y \<in> set aggs" and y: "aggregate_window (snd x) (fst x) = Some y"
    have "fst x < 2 ^ 53" using b[OF x] assms(1,3) by linarith
    then show "row_ts (written sz y) = Some (fst x)" using written_line[OF y] b[OF x] by blast
  qed
  then have "map (row_ts \<circ> written sz) aggs = map (Some \<circ> fst) ?bs"
    by (auto simp: list_all2_conv_all_nth intro!: nth_equalityI)
  also have "\<dots> = map Some (sort (remdups (map (window_of win) rows)))" by (simp flip: buckets_keys)
  finally show keys: "map (row_ts \<circ> written sz) aggs = map Some (sort (remdups (map (window_of win) rows)))" .
  have times: "map line_time (map (written sz) aggs) = map fst ?bs"
    using w by (auto simp: list_all2_conv_all_nth line_time_def intro!: nth_equalityI)
  show "sorted_wrt (<) (map line_time (map (written sz) aggs))" unfolding times by (rule buckets_sorted)
  show "list_all (\<lambda>l. tier_line win l \<and> line_time l + win \<le> target \<and> (\<forall>m. win dvd m \<longrightarrow> m \<le> start \<longrightarrow> m \<le> line_time l)) (map (written sz) aggs)"
    unfolding list_all_length
  proof (intro allI impI)
    fix i assume i: "i < length (map (written sz) aggs)"
    then have l: "i < length ?bs" "row_ts (written sz (aggs ! i)) = Some (fst (?bs ! i))"
      using w by (simp_all add: list_all2_conv_all_nth)
    have s: "fst (written sz (aggs ! i)) < 8192" using assms(6) by (simp add: written_def Let_def)
    from b[OF nth_mem[OF l(1)]] show "tier_line win (map (written sz) aggs ! i) \<and> line_time (map (written sz) aggs ! i) + win \<le> target
        \<and> (\<forall>m. win dvd m \<longrightarrow> m \<le> start \<longrightarrow> m \<le> line_time (map (written sz) aggs ! i))"
      using i l(2) s by (simp add: tier_line_def line_time_def)
  qed
qed

lemma tier_rows_append:
  assumes "tier_rows win ls" "list_all (tier_line win) new" "sorted_wrt (<) (map line_time new)"
    "\<And>l l'. l \<in> set ls \<Longrightarrow> l' \<in> set new \<Longrightarrow> line_time l < line_time l'"
  shows "tier_rows win (ls @ new)"
  using assms by (auto simp: tier_rows_def sorted_wrt_append)

lemma line_aligned: "tier_rows win ls \<Longrightarrow> l \<in> set ls \<Longrightarrow> win dvd line_time l"
  by (auto simp: tier_rows_def list_all_iff tier_line_def line_time_def)

lemma rollup_tier_cases:
  assumes "rollup_tier sz ok win src mark target dst = (raised, k, mark', dst')" "first_row_ts src = Some oldest"
    and start: "start = max mark (oldest div win * win)" and rows: "rows = filter (in_pass start target) (rows_since src start)"
  obtains (idle) "dst' = dst" "k = 0" "mark' = max mark target \<or> mark' = mark \<or> mark' = target" "ok \<Longrightarrow> \<not> raised \<Longrightarrow> target \<le> start \<or> rows = []"
  | (grow) aggs where "those (map (\<lambda>b. aggregate_window (snd b) (fst b)) (buckets (window_of win) rows)) = Some aggs" "mark' = target"
      "dst' = dst @ map (written sz) aggs" "\<not> raised" "k = length aggs"
proof -
  define bs where "bs = buckets (window_of win) rows"
  define aggs where "aggs = those (map (\<lambda>b. aggregate_window (snd b) (fst b)) bs)"
  have e: "(raised, k, mark', dst') = (if target \<le> start then (False, 0, max mark target, dst)
      else if bs = [] then (False, 0, target, dst)
      else (case aggs of None \<Rightarrow> (True, 0, mark, dst)
        | Some a \<Rightarrow> if ok then (False, length bs, target, dst @ map (written sz) a) else (False, 0, mark, dst)))"
    using assms(1)[symmetric] unfolding rollup_tier_def assms(2) option.case start rows bs_def aggs_def Let_def .
  have empty: "bs = [] \<longleftrightarrow> rows = []" by (simp add: bs_def)
  show thesis
  proof (cases "target \<le> start \<or> bs = [] \<or> aggs = None \<or> \<not> ok")
    case True
    then show ?thesis using e empty by (intro idle) (auto split: if_splits option.splits)
  next
    case False
    then obtain a where a: "aggs = Some a" by auto
    have "length a = length bs" using a unfolding aggs_def those_map by (simp add: list_all2_lengthD)
    then show ?thesis using e False a by (intro grow[of a]) (simp_all add: aggs_def bs_def)
  qed
qed

lemma rollup_tier_rows:
  assumes "rollup_tier sz ok win src mark target dst = (raised, k, mark', dst')"
    and "tier_rows win dst" "behind win mark dst" "0 < win" "win dvd target" "target < 2 ^ 53" "\<And>d. sz d < 8192" "mark \<le> target"
  shows "tier_rows win dst' \<and> behind win mark' dst'"
proof -
  have same: ?thesis if "dst' = dst" "mark \<le> mark'" using that assms(2,3) by (force simp: behind_def)
  show ?thesis
  proof (cases "first_row_ts src")
    case None
    then show ?thesis using assms(1) by (intro same) (auto simp: rollup_tier_def)
  next
    case (Some oldest)
    let ?start = "max mark (oldest div win * win)"
    let ?rows = "filter (in_pass ?start target) (rows_since src ?start)"
    let ?aggs = "those (map (\<lambda>b. aggregate_window (snd b) (fst b)) (buckets (window_of win) ?rows))"
    show ?thesis
    proof (cases rule: rollup_tier_cases[OF assms(1) Some refl refl, consumes 0, case_names idle grow])
      case idle
      then have "mark \<le> mark'" using assms(8) by linarith
      then show ?thesis by (rule same[OF idle(1)])
    next
      case (grow aggs)
      have m: "0 \<le> mark" "\<And>l. l \<in> set dst \<Longrightarrow> line_time l + win \<le> mark" using assms(3) by (simp_all add: behind_def)
      have "list_all (in_pass ?start target) ?rows" by (simp add: list_all_iff)
      from pass_lines[OF assms(4-6) _ this assms(7) grow(1)] m(1)
      have new: "list_all (\<lambda>l. tier_line win l \<and> line_time l + win \<le> target \<and> (\<forall>m. win dvd m \<longrightarrow> m \<le> ?start \<longrightarrow> m \<le> line_time l)) (map (written sz) aggs)"
        "sorted_wrt (<) (map line_time (map (written sz) aggs))" by (simp_all add: le_max_iff_disj)
      have "line_time l < line_time l'" if l: "l \<in> set dst" "l' \<in> set (map (written sz) aggs)" for l l'
      proof -
        have "win dvd line_time l + win" using line_aligned[OF assms(2) l(1)] by simp
        moreover have "line_time l + win \<le> ?start" using m(2)[OF l(1)] by linarith
        ultimately have "line_time l + win \<le> line_time l'" using new(1) l(2) unfolding list_all_iff by blast
        then show ?thesis using assms(4) by linarith
      qed
      moreover have "list_all (tier_line win) (map (written sz) aggs)" using new(1) unfolding list_all_iff by blast
      ultimately have "tier_rows win dst'" unfolding grow(3) using tier_rows_append[OF assms(2) _ new(2)] by blast
      moreover have "behind win mark' dst'" using m(1) m(2) new(1) assms(8) unfolding grow(2,3) behind_def list_all_iff by fastforce
      ultimately show ?thesis ..
    qed
  qed
qed

section \<open>Trimming\<close>

lemma tier_rows_drop: "tier_rows win ls \<Longrightarrow> tier_rows win (drop k ls)"
  by (auto simp: tier_rows_def list_all_iff drop_map[symmetric] sorted_wrt_drop dest: in_set_dropD)

lemma tier_rows_filter: "tier_rows win ls \<Longrightarrow> tier_rows win (filter P ls)"
proof -
  assume t: "tier_rows win ls"
  have "sorted_wrt (\<lambda>l l'. line_time l < line_time l') ls" using t by (simp add: tier_rows_def sorted_wrt_map)
  then have "sorted_wrt (\<lambda>l l'. line_time l < line_time l') (filter P ls)" by (rule sorted_wrt_filter)
  then show ?thesis using t by (auto simp: tier_rows_def list_all_iff sorted_wrt_map)
qed

lemma trim_rows:
  assumes "trim_journal retain slack now ok last_trim ls = (t, ls')" "tier_rows win ls"
  shows "tier_rows win ls'" "set ls' \<subseteq> set ls"
proof -
  obtain k where k: "chunk_lines rows_cap ls = drop k ls" using chunk_lines_drop by blast
  have "ls' = ls \<or> (\<exists>P. ls' = filter P (drop k ls))"
    using assms(1) unfolding trim_journal_def k Let_def by (auto split: if_splits option.splits)
  then show "tier_rows win ls'" "set ls' \<subseteq> set ls"
    using assms(2) tier_rows_filter tier_rows_drop by (auto dest: in_set_dropD)
qed

lemma behind_subset: "behind win mark ls \<Longrightarrow> set ls' \<subseteq> set ls \<Longrightarrow> behind win mark ls'"
  by (auto simp: behind_def)

section \<open>Runs\<close>

definition rollup_inv :: "rollup \<Rightarrow> bool" where
  "rollup_inv s \<longleftrightarrow> tier_rows win_5m (ro_5m s) \<and> tier_rows win_1h (ro_1h s)
     \<and> (rm_loaded (ro_mem s) \<longrightarrow> behind win_5m (rm_w5 (ro_mem s)) (ro_5m s) \<and> behind win_1h (rm_w1h (ro_mem s)) (ro_1h s))
     \<and> (\<not> rm_loaded (ro_mem s) \<longrightarrow> 0 \<le> rm_w5 (ro_mem s) \<and> 0 \<le> rm_w1h (ro_mem s))"

lemma recovered_behind:
  assumes "tier_rows win ls" "0 \<le> mark"
  shows "behind win (recovered saved key win (Some ls) mark) ls"
proof (cases "ls = []")
  case False
  let ?r = "recovered saved key win (Some ls) mark"
  have "tier_line win (last ls)" using assms(1) False by (simp add: tier_rows_def list_all_iff)
  then obtain t where t: "fst (last ls) < 8192" "row_ts (last ls) = Some t" by (auto simp: tier_line_def)
  have r: "t + win \<le> ?r" "0 \<le> ?r" using last_row_last[OF False t] assms(2) by (simp_all add: recovered_def)
  have "line_time l \<le> t" if l: "l \<in> set ls" for l
  proof -
    have s: "sorted_wrt (<) (map line_time ls)" using assms(1) by (simp add: tier_rows_def)
    obtain i where i: "i < length ls" "l = ls ! i" using l by (auto simp: in_set_conv_nth)
    have "line_time (last ls) = t" using t(2) by (simp add: line_time_def)
    moreover have "i = length ls - 1 \<or> line_time (ls ! i) < line_time (ls ! (length ls - 1))"
      using sorted_wrt_nth_less[OF s, of i "length ls - 1"] i(1) by (cases "i = length ls - 1") auto
    ultimately show ?thesis using i(2) False by (auto simp: last_conv_nth)
  qed
  then show ?thesis using r by (force simp: behind_def)
qed (use assms(2) in \<open>simp add: behind_def recovered_def\<close>)

lemma load_inv:
  assumes "rollup_inv s" "rm_loaded (ro_mem s) \<or> wx_read wx"
  shows "rollup_inv (load_marks wx s) \<and> rm_loaded (ro_mem (load_marks wx s))"
proof (cases "rm_loaded (ro_mem s)")
  case False
  then have r: "wx_read wx" "tier_rows win_5m (ro_5m s)" "tier_rows win_1h (ro_1h s)" "0 \<le> rm_w5 (ro_mem s)" "0 \<le> rm_w1h (ro_mem s)"
    using assms by (simp_all add: rollup_inv_def)
  show ?thesis using r False recovered_behind[OF r(2,4)] recovered_behind[OF r(3,5)]
    by (simp add: load_marks_def Let_def rollup_inv_def)
qed (use assms in \<open>simp add: load_marks_def\<close>)

lemma pass_5m_inv:
  assumes "pass_5m sz wx now target s = (raised, k, s')" "rollup_inv s" "rm_loaded (ro_mem s)"
    "win_5m dvd target" "target < 2 ^ 53" "\<And>d. sz d < 8192" "rm_w5 (ro_mem s) \<le> target"
  shows "rollup_inv s' \<and> rm_loaded (ro_mem s')"
proof -
  obtain r k1 w j where t: "rollup_tier sz (wx_append5 wx) win_5m (wx_raw wx) (rm_w5 (ro_mem s)) target (ro_5m s) = (r, k1, w, j)"
    by (rule prod_cases4)
  have i: "tier_rows win_5m (ro_5m s)" "behind win_5m (rm_w5 (ro_mem s)) (ro_5m s)" "tier_rows win_1h (ro_1h s)"
    "behind win_1h (rm_w1h (ro_mem s)) (ro_1h s)" using assms(2,3) by (simp_all add: rollup_inv_def)
  have "0 < win_5m" by (simp add: win_5m_def)
  from rollup_tier_rows[OF t i(1,2) this assms(4-7)] have j: "tier_rows win_5m j" "behind win_5m w j" by simp_all
  obtain u j' where u: "(if wx_read wx then trim_journal retain_5m slack_5m now (wx_trim wx) (rm_trim5 (ro_mem s)) j
      else (if dbl_sub now (rm_trim5 (ro_mem s)) < trim_every_s then rm_trim5 (ro_mem s) else now, j)) = (u, j')" by fastforce
  then have j': "tier_rows win_5m j'" "set j' \<subseteq> set j" using trim_rows j(1) by (auto split: if_splits)
  have "s' = (if r then s else s\<lparr>ro_mem := (ro_mem s)\<lparr>rm_w5 := w, rm_trim5 := u\<rparr>, ro_5m := j'\<rparr>)"
    using assms(1) by (auto simp: pass_5m_def t u Let_def split: if_splits)
  then show ?thesis using assms(2,3) i j'(1) behind_subset[OF j(2) j'(2)] by (auto simp: rollup_inv_def)
qed

lemma pass_1h_inv:
  assumes "pass_1h sz wx now target s = (raised, k, s')" "rollup_inv s" "rm_loaded (ro_mem s)"
    "win_1h dvd target" "target < 2 ^ 53" "\<And>d. sz d < 8192" "rm_w1h (ro_mem s) \<le> target"
  shows "rollup_inv s' \<and> rm_loaded (ro_mem s')"
proof -
  obtain r k1 w j where t: "rollup_tier sz (wx_append1h wx) win_1h (if wx_read wx then Some (ro_5m s) else None)
      (rm_w1h (ro_mem s)) target (ro_1h s) = (r, k1, w, j)"
    by (rule prod_cases4)
  have i: "tier_rows win_5m (ro_5m s)" "behind win_5m (rm_w5 (ro_mem s)) (ro_5m s)" "tier_rows win_1h (ro_1h s)"
    "behind win_1h (rm_w1h (ro_mem s)) (ro_1h s)" using assms(2,3) by (simp_all add: rollup_inv_def)
  have "0 < win_1h" by (simp add: win_1h_def)
  from rollup_tier_rows[OF t i(3,4) this assms(4-7)] have j: "tier_rows win_1h j" "behind win_1h w j" by simp_all
  obtain u j' where u: "(if wx_read wx then trim_journal retain_1h slack_1h now (wx_trim wx) (rm_trim1h (ro_mem s)) j
      else (if dbl_sub now (rm_trim1h (ro_mem s)) < trim_every_s then rm_trim1h (ro_mem s) else now, j)) = (u, j')" by fastforce
  then have j': "tier_rows win_1h j'" "set j' \<subseteq> set j" using trim_rows j(1) by (auto split: if_splits)
  have "s' = (if r then s else s\<lparr>ro_mem := (ro_mem s)\<lparr>rm_w1h := w, rm_trim1h := u\<rparr>, ro_1h := j'\<rparr>)"
    using assms(1) by (auto simp: pass_1h_def t u Let_def split: if_splits)
  then show ?thesis using assms(2,3) i j'(1) behind_subset[OF j(2) j'(2)] by (auto simp: rollup_inv_def)
qed

lemma save_inv: "rollup_inv (save_marks wx s) = rollup_inv s"
  by (simp add: save_marks_def rollup_inv_def)

lemma maybe_rollup_inv:
  assumes "rollup_inv s" "rm_loaded (ro_mem s) \<or> wx_read wx" "0 \<le> now" "now < 2 ^ 53" "\<And>d. sz d < 8192"
  shows "rollup_inv (snd (snd (maybe_rollup sz wx now s)))"
proof -
  let ?s1 = "load_marks wx s"
  let ?c5 = "\<lfloor>now / of_int win_5m\<rfloor> * win_5m"
  have l: "rollup_inv ?s1" "rm_loaded (ro_mem ?s1)" using load_inv[OF assms(1,2)] by simp_all
  have f: "\<lfloor>now / of_int w\<rfloor> * w < 2 ^ 53" if w: "0 < w" for w :: int
  proof -
    have "of_int (\<lfloor>now / of_int w\<rfloor> * w) \<le> now"
      using w by (simp add: pos_le_divide_eq[symmetric])
    then have "(of_int (\<lfloor>now / of_int w\<rfloor> * w) :: rat) < of_int (2 ^ 53)" using assms(4) by simp
    then show ?thesis by (simp only: of_int_less_iff)
  qed
  obtain r5 k5 s2 where p5: "(if rm_w5 (ro_mem ?s1) < ?c5 then pass_5m sz wx now ?c5 ?s1 else (False, 0, ?s1)) = (r5, k5, s2)"
    by (rule prod_cases3)
  have s2: "rollup_inv s2" "rm_loaded (ro_mem s2)"
    using p5 l pass_5m_inv[of sz wx now ?c5 ?s1 r5 k5 s2] f[of win_5m] assms(5) by (auto simp: win_5m_def split: if_splits)
  let ?c1 = "min \<lfloor>now / of_int win_1h\<rfloor> (rm_w5 (ro_mem s2) div win_1h) * win_1h"
  obtain r1 k1 s3 where p1: "(if rm_w1h (ro_mem s2) < ?c1 then pass_1h sz wx now ?c1 s2 else (False, 0, s2)) = (r1, k1, s3)"
    by (rule prod_cases3)
  have "?c1 \<le> \<lfloor>now / of_int win_1h\<rfloor> * win_1h" by (rule mult_right_mono) (simp_all add: win_1h_def)
  then have c1: "?c1 < 2 ^ 53" using f[of win_1h] by (simp add: win_1h_def)
  have s3: "rollup_inv s3"
    using p1 s2 pass_1h_inv[of sz wx now ?c1 s2 r1 k1 s3] c1 assms(5) by (auto split: if_splits)
  have "snd (snd (maybe_rollup sz wx now s)) \<in> {?s1, s2, s3, save_marks wx s3}"
    using p5 p1 by (auto simp: maybe_rollup_def Let_def case_prod_beta split: if_splits)
  then show ?thesis using l(1) s2(1) s3 save_inv by auto
qed

end
