(* ===== verification/Rollup_Claims.thy ===== *)
theory Rollup_Claims
  imports Rollup_Safety
begin

text \<open>
  What the rollups of the metrics history promise, over runs of passes and restarts, for one pass and for one query.
\<close>

section \<open>Runs\<close>

text \<open>
  A pass at any time, in any weather: the clock may go back, the raw journal may hold anything, and appends, trims and
  the write of the watermarks may fail; the aggregates read when the watermarks are loaded. A restart may
  come between any two passes, so a lost write of the watermarks is a pass that does not save and a restart.
\<close>

inductive rollup_step :: "(pydict \<Rightarrow> nat) \<Rightarrow> rollup \<Rightarrow> rollup \<Rightarrow> bool" for sz where
  tick: "0 \<le> now \<Longrightarrow> now < 2 ^ 53 \<Longrightarrow> rm_loaded (ro_mem s) \<or> wx_read wx
         \<Longrightarrow> rollup_step sz s (snd (snd (maybe_rollup sz wx now s)))"
| stop: "rollup_step sz s (restart s)"

definition no_history :: "doc \<Rightarrow> rollup" where
  "no_history file = \<lparr>ro_mem = fresh_mem, ro_5m = [], ro_1h = [], ro_file = file\<rparr>"

lemma step_inv: "rollup_step sz s s' \<Longrightarrow> (\<And>d. sz d < 8192) \<Longrightarrow> rollup_inv s \<Longrightarrow> rollup_inv s'"
proof (induction rule: rollup_step.induct)
  case (tick now s wx)
  then show ?case using maybe_rollup_inv by blast
next
  case (stop s)
  then show ?case by (simp add: restart_def rollup_inv_def fresh_mem_def)
qed

lemma run_inv:
  assumes "(rollup_step sz)\<^sup>*\<^sup>* (no_history file) s" "\<And>d. sz d < 8192"
  shows "rollup_inv s"
  using assms(1)
proof (induction rule: rtranclp_induct)
  case base
  show ?case by (simp add: no_history_def rollup_inv_def tier_rows_def fresh_mem_def)
qed (use step_inv assms(2) in blast)

text \<open>A row of the raw journal, and a run that loses its watermarks between two passes.\<close>

definition demo_row :: "int \<Rightarrow> int \<Rightarrow> line" where
  "demo_row t cpu = (30, Some (PDict [(''t'', PInt t), (''cpu'', PInt cpu)]))"

definition demo_weather :: "line list \<Rightarrow> weather" where
  "demo_weather raw = \<lparr>wx_raw = Some raw, wx_read = True, wx_append5 = True, wx_append1h = True, wx_trim = True,
     wx_state = True, wx_save = False\<rparr>"

definition demo_first :: rollup where
  "demo_first = snd (snd (maybe_rollup (\<lambda>_. 60) (demo_weather [demo_row 0 50, demo_row 90 75, demo_row 300 10]) 600 (no_history None)))"

definition demo_second :: rollup where
  "demo_second = snd (snd (maybe_rollup (\<lambda>_. 60)
     (demo_weather [demo_row 0 50, demo_row 90 75, demo_row 300 10, demo_row 600 20]) 900 (restart demo_first)))"

lemmas rollup_eval = maybe_rollup_def demo_weather_def no_history_def load_marks_def fresh_mem_def recovered_def last_row_ts_def
  last_lines_def pyget_def sample_ts_def dict_get_def win_5m_def win_1h_def pass_5m_def rollup_tier_def first_row_ts_def
  demo_row_def row_ts_def ts_of_int_def to_double_numeral to_double_one rows_since_def chunk_sizes_def chunk_lines_def
  file_size_def stamped_def jsonable_PDict scrub_at_def launder_keys_def dict_set_def in_pass_def row_time_def buckets_def window_of_def

lemma whole_fits: "0 \<le> i \<Longrightarrow> i < 2 ^ 53 \<Longrightarrow> fits_digit_cap i"
  using capped_fits double_below_cap by (metis order.strict_trans)

lemma jsonable_PInt: "n \<le> 32 \<Longrightarrow> jsonable n (PInt i) = (if fits_digit_cap i then PInt i else PNone)"
  by (simp add: jsonable.simps[of n])

lemma jsonable_PFloat: "n \<le> 32 \<Longrightarrow> jsonable n (PFloat f) = (if is_finite_float f then PFloat f else PNone)"
  by (simp add: jsonable.simps[of n])

lemma demo_keys: "launder ''t'' = ''t''" "launder ''n'' = ''n''" "launder ''cpu'' = ''cpu''" "launder ''cpu_max'' = ''cpu_max''"
  by (rule launder_ascii; simp add: is_ascii_def ordc_def)+

lemmas row_eval = aggregate_window_def add_row_def row_weight_def finite_num_def add_field_def own_field_def field_peak_def
  max_key_def add_to_def rat_int_def put_field_def written_def Let_def whole_fits demo_keys jsonable_PInt jsonable_PFloat

lemmas pass_eval = trim_journal_def dbl_sub_def trim_every_s_def pass_1h_def save_marks_def restart_def

lemma demo_rounds: "to_double (125 / 2) = DFin (125 / 2)" "round_value (DFin (125 / 2)) = PFloat (FDec 625 (- 1))"
  "round_value (DFin 75) = PFloat (FDec 75 0)" "round_value (DFin 10) = PFloat (FDec 1 1)" "round_value (DFin 20) = PFloat (FDec 2 1)"
  using to_double_dyadic[of 125 1] by (simp_all add: round_value_def round_half_even_def trim_decimal.simps Let_def)

text \<open>The rows the demonstration writes: windows at 0, 300 and 600, the first of two samples.\<close>

definition demo_lines :: "line list" where
  "demo_lines = map (\<lambda>(t, n, a, m). (60, Some (PDict [(''t'', PInt t), (''n'', PInt n), (''cpu'', PFloat a), (''cpu_max'', PFloat m)])))
     [(0, 2, FDec 625 (- 1), FDec 75 0), (300, 1, FDec 1 1, FDec 1 1), (600, 1, FDec 2 1, FDec 2 1)]"

lemma demo_first_is: "demo_first = \<lparr>ro_mem = \<lparr>rm_loaded = True, rm_w5 = 600, rm_w1h = 0, rm_trim5 = 0, rm_trim1h = 0\<rparr>,
    ro_5m = take (Suc (Suc 0)) demo_lines, ro_1h = [], ro_file = None\<rparr>"
  by (simp add: demo_first_def rollup_eval row_eval pass_eval demo_rounds demo_lines_def)

lemma demo_second_is: "ro_5m demo_second = demo_lines"
  by (simp add: demo_second_def demo_first_is rollup_eval row_eval pass_eval demo_rounds demo_lines_def)

lemma demo_second_run: "(rollup_step (\<lambda>_. 60))\<^sup>*\<^sup>* (no_history None) demo_second"
proof -
  have 1: "rollup_step (\<lambda>_. 60) (no_history None) demo_first"
    unfolding demo_first_def by (rule rollup_step.tick) (simp_all add: demo_weather_def)
  have 2: "rollup_step (\<lambda>_. 60) demo_first (restart demo_first)" by (rule rollup_step.stop)
  have 3: "rollup_step (\<lambda>_. 60) (restart demo_first) demo_second"
    unfolding demo_second_def by (rule rollup_step.tick) (simp_all add: demo_weather_def)
  show ?thesis
    by (rule rtranclp.rtrancl_into_rtrancl[OF rtranclp.rtrancl_into_rtrancl[OF r_into_rtranclp[of "rollup_step (\<lambda>_. 60)", OF 1] 2] 3])
qed

text \<open>
  C37: over every run of passes and restarts that starts without history, each aggregate journal holds whole
  windows in strictly increasing order: no window is ever aggregated twice, whatever the clock and the raw journal do
  and whichever appends, trims and writes of the watermarks fail.
\<close>

theorem windows_once:
  assumes "(rollup_step sz)\<^sup>*\<^sup>* (no_history file) s" "\<And>d. sz d < 8192"
  shows "sorted_wrt (<) (map line_time (ro_5m s)) \<and> sorted_wrt (<) (map line_time (ro_1h s))
    \<and> list_all (\<lambda>l. 300 dvd line_time l) (ro_5m s) \<and> list_all (\<lambda>l. 3600 dvd line_time l) (ro_1h s)"
  using run_inv[OF assms] by (auto simp: rollup_inv_def tier_rows_def tier_line_def line_time_def list_all_iff win_5m_def win_1h_def)

theorem windows_once_witness: "sorted_wrt (<) (map line_time demo_lines) \<and> length demo_lines = 3"
  using windows_once[OF demo_second_run] demo_second_is by (simp add: demo_lines_def)

section \<open>One pass\<close>

text \<open>A source journal of readable rows in order of time, short enough for one read.\<close>

definition in_time :: "line list \<Rightarrow> bool" where
  "in_time ls \<longleftrightarrow> list_all (\<lambda>l. fst l < 8192 \<and> row_ts l \<noteq> None \<and> 0 \<le> line_time l \<and> line_time l < 2 ^ 53) ls
     \<and> sorted (map line_time ls) \<and> file_size ls \<le> rows_cap"

lemma in_time_drop: "in_time ls \<Longrightarrow> list_all (\<lambda>l. row_ts l = Some (line_time l)) ls"
  by (auto simp: in_time_def line_time_def list_all_iff)

definition line_row :: "line \<Rightarrow> pydict" where
  "line_row l = stamped (line_time l) (the (snd l))"

lemma kept_rows_map:
  "list_all (\<lambda>l. row_ts l = Some (line_time l)) ls \<Longrightarrow> kept_rows since ls = map line_row (filter (\<lambda>l. since \<le> line_time l) ls)"
  by (induction ls) (auto simp: line_row_def)

lemma row_time_line: "in_time ls \<Longrightarrow> l \<in> set ls \<Longrightarrow> row_time (line_row l) = Some (line_time l)"
  by (auto simp: in_time_def list_all_iff line_row_def stamped_def row_time_def sample_ts_def whole_int_ts dict_simps)

lemma scan_all:
  assumes "in_time ls" "cs \<noteq> []" "last cs = rows_cap"
  shows "scan_chunks cs since ls = kept_rows since ls"
  using assms(2,3)
proof (induction cs)
  case (Cons c cs)
  obtain k where k: "chunk_lines c ls = drop k ls" using chunk_lines_drop by blast
  have ts: "list_all (\<lambda>l. row_ts l = Some (line_time l)) ls" using in_time_drop[OF assms(1)] .
  then have td: "list_all (\<lambda>l. row_ts l = Some (line_time l)) (drop k ls)" by (auto simp: list_all_iff dest: in_set_dropD)
  have part: "kept_rows since (drop k ls) = kept_rows since ls" if l: "l \<in> set (drop k ls)" "line_time l < since" for l
  proof -
    have "sorted (map line_time (take k ls) @ map line_time (drop k ls))"
      using assms(1) by (simp add: in_time_def flip: map_append)
    then have "line_time l' \<le> line_time l" if "l' \<in> set (take k ls)" for l' using l(1) that by (auto simp: sorted_append)
    then have "filter (\<lambda>l. since \<le> line_time l) (take k ls) = []" using l(2) by (fastforce simp: filter_empty_conv)
    then have "filter (\<lambda>l. since \<le> line_time l) ls = filter (\<lambda>l. since \<le> line_time l) (drop k ls)"
      by (metis append_Nil append_take_drop_id filter_append)
    then show ?thesis using kept_rows_map[OF ts] kept_rows_map[OF td] by simp
  qed
  show ?case
  proof (cases "file_size ls \<le> c")
    case True
    then show ?thesis by (simp add: chunk_lines_def)
  next
    case False
    then have c: "\<not> rows_cap \<le> c" "cs \<noteq> []" "last cs = rows_cap" using assms(1) Cons.prems by (auto simp: in_time_def split: if_splits)
    show ?thesis
    proof (cases "list_ex (\<lambda>l. case row_ts l of None \<Rightarrow> False | Some t \<Rightarrow> t < since) (drop k ls)")
      case True
      then obtain l where "l \<in> set (drop k ls)" "line_time l < since" using td by (auto simp: list_ex_iff list_all_iff)
      then show ?thesis using True part k by simp
    next
      case no: False
      show ?thesis using Cons.IH[OF c(2,3)] c(1) False no k by simp
    qed
  qed
qed simp

lemma rows_since_all: "in_time ls \<Longrightarrow> rows_since (Some ls) since = map line_row (filter (\<lambda>l. since \<le> line_time l) ls)"
  using scan_all[of ls chunk_sizes since] kept_rows_map[OF in_time_drop] by (simp add: rows_since_def chunk_sizes_def rows_cap_def)

text \<open>The rows of a span of time, the weight each counts with, and the count a written row carries.\<close>

definition span_lines :: "int \<Rightarrow> int \<Rightarrow> line list \<Rightarrow> line list" where
  "span_lines mark target ls = filter (\<lambda>l. mark \<le> line_time l \<and> line_time l < target) ls"

definition line_weight :: "line \<Rightarrow> int" where
  "line_weight l = row_weight (line_row l)"

definition line_count :: "line \<Rightarrow> int" where
  "line_count l = (case snd l of Some (PDict d) \<Rightarrow> (case pyget d ''n'' of PInt i \<Rightarrow> i | _ \<Rightarrow> 0) | _ \<Rightarrow> 0)"

lemma first_row_first:
  assumes "in_time ls"
  shows "first_row_ts (Some ls) = (case ls of [] \<Rightarrow> None | l # _ \<Rightarrow> Some (line_time l))"
proof (cases ls)
  case (Cons l ls')
  then have "fst l \<le> 8192" "row_ts l = Some (line_time l)" using assms in_time_drop[OF assms] by (auto simp: in_time_def)
  then show ?thesis using Cons by (simp add: first_row_ts_def)
qed (simp add: first_row_ts_def)

lemma count_written:
  assumes "aggregate_window rows wt = Some d" "sum_list (map row_weight rows) < 10 ^ int_max_str_digits"
  shows "line_count (written sz d) = sum_list (map row_weight rows)"
proof -
  have "0 \<le> sum_list (map row_weight rows)" by (rule sum_list_nonneg) (auto simp: row_weight_nonneg)
  from written_get[OF aggregate_fields(1)[OF assms(1)] _ aggregate_fields(3)[OF assms(1)] capped_fits[OF this assms(2)], of sz]
  show ?thesis by (auto simp: line_count_def)
qed

lemma count_rows:
  assumes "those (map (\<lambda>b. aggregate_window (snd b) (fst b)) (buckets f rows)) = Some aggs"
    "sum_list (map row_weight rows) < 10 ^ int_max_str_digits"
  shows "sum_list (map line_count (map (written sz) aggs)) = sum_list (map row_weight rows)"
proof -
  have two: "list_all2 (\<lambda>b d. aggregate_window (snd b) (fst b) = Some d) (buckets f rows) aggs" using assms(1) by (simp add: those_map)
  have le: "sum_list (map row_weight (snd b)) \<le> sum_list (map row_weight rows)" if "b \<in> set (buckets f rows)" for b
  proof -
    have "snd b = filter (\<lambda>r. f r = fst b) rows" using bucket_rows[OF that] by blast
    moreover have "sum_list (map row_weight (filter P rows)) \<le> sum_list (map row_weight rows)" for P
      by (induction rows) (auto simp: row_weight_nonneg intro: add_increasing)
    ultimately show ?thesis by simp
  qed
  have "list_all2 (\<lambda>b d. line_count (written sz d) = sum_list (map row_weight (snd b))) (buckets f rows) aggs"
    using two
  proof (rule list.rel_mono_strong)
    fix b d assume b: "b \<in> set (buckets f rows)" and "d \<in> set aggs" and d: "aggregate_window (snd b) (fst b) = Some d"
    show "line_count (written sz d) = sum_list (map row_weight (snd b))"
      using count_written[OF d le_less_trans[OF le[OF b] assms(2)]] .
  qed
  then have "map (line_count \<circ> written sz) aggs = map (\<lambda>b. sum_list (map row_weight (snd b))) (buckets f rows)"
    by (auto simp: list_all2_conv_all_nth intro!: nth_equalityI)
  then show ?thesis using buckets_sum[of row_weight f rows] by simp
qed

lemma pass_counts:
  assumes "rollup_tier sz ok win (Some src) mark target dst = (False, k, mark', dst')" "ok" "in_time src"
    "0 < win" "win dvd target" "target < 2 ^ 53" "0 \<le> mark" "\<And>d. sz d < 8192"
    "sum_list (map line_weight src) < 10 ^ int_max_str_digits"
  obtains new where "dst' = dst @ new" "k = length new"
    "map line_time new = sort (remdups (map (\<lambda>l. line_time l div win * win) (span_lines mark target src)))"
    "sum_list (map line_count new) = sum_list (map line_weight (span_lines mark target src))"
proof (cases src)
  case Nil
  then show ?thesis using assms(1) that[of "[]"] by (simp add: rollup_tier_def first_row_ts_def span_lines_def)
next
  case (Cons l0 src')
  define oldest where "oldest = line_time l0"
  define start where "start = max mark (oldest div win * win)"
  define rows where "rows = filter (in_pass start target) (rows_since (Some src) start)"
  have first: "first_row_ts (Some src) = Some oldest" using first_row_first[OF assms(3)] by (simp add: Cons oldest_def)
  have "sorted (map line_time src)" using assms(3) by (simp add: in_time_def)
  then have old: "oldest \<le> line_time l" if "l \<in> set src" for l using that by (auto simp: Cons oldest_def)
  have "oldest div win * win \<le> oldest" using assms(4) by (simp add: minus_mod_eq_div_mult[symmetric])
  then have st: "start \<le> line_time l \<longleftrightarrow> mark \<le> line_time l" if "l \<in> set src" for l using old[OF that] by (auto simp: start_def)
  have r: "rows = map line_row (span_lines mark target src)"
  proof -
    have "rows = map line_row (filter (\<lambda>l. in_pass start target (line_row l)) (filter (\<lambda>l. start \<le> line_time l) src))"
      unfolding rows_def rows_since_all[OF assms(3)] by (simp add: filter_map comp_def)
    also have "filter (\<lambda>l. in_pass start target (line_row l)) (filter (\<lambda>l. start \<le> line_time l) src) = span_lines mark target src"
      unfolding span_lines_def filter_filter
      by (rule filter_cong) (auto simp: in_pass_def row_time_line[OF assms(3)] st)
    finally show ?thesis .
  qed
  have win: "map (window_of win) rows = map (\<lambda>l. line_time l div win * win) (span_lines mark target src)"
    unfolding r by (auto simp: window_of_def row_time_line[OF assms(3)] span_lines_def)
  have weights: "sum_list (map row_weight rows) = sum_list (map line_weight (span_lines mark target src))"
    unfolding r by (simp add: line_weight_def[abs_def] comp_def)
  have "sum_list (map line_weight (filter P src)) \<le> sum_list (map line_weight src)" for P
    by (induction src) (auto simp: line_weight_def row_weight_nonneg intro: add_increasing)
  then have small: "sum_list (map row_weight rows) < 10 ^ int_max_str_digits"
    unfolding weights span_lines_def using assms(9) by (rule le_less_trans)
  show ?thesis
  proof (cases rule: rollup_tier_cases[OF assms(1) first start_def rows_def, consumes 0, case_names idle grow])
    case idle
    then have "target \<le> start \<or> rows = []" using assms(2) by blast
    then have "span_lines mark target src = []" using st r by (fastforce simp: span_lines_def filter_empty_conv)
    then show ?thesis using idle(1,2) by (intro that[of "[]"]) simp_all
  next
    case (grow aggs)
    have i: "list_all (in_pass start target) rows" by (simp add: rows_def list_all_iff)
    have s: "0 \<le> start" using assms(7) by (simp add: start_def)
    have t: "map (row_ts \<circ> written sz) aggs = map Some (sort (remdups (map (window_of win) rows)))"
      by (rule pass_lines(1)[OF assms(4-6) s i assms(8) grow(1)])
    have "map line_time (map (written sz) aggs) = map the (map (row_ts \<circ> written sz) aggs)" by (simp add: line_time_def)
    also have "\<dots> = sort (remdups (map (window_of win) rows))" unfolding t by (simp add: comp_def)
    finally show ?thesis using grow(3,5) count_rows[OF grow(1) small, of sz] unfolding win weights by (intro that[of "map (written sz) aggs"]) simp_all
  qed
qed

text \<open>
  C38: a pass that gets its rows written counts every row of its span exactly once: it appends one row for each
  window that has a source row, in order, none for a window that has none, and the counts these rows carry add
  up to the weights of the source rows between the watermark and the target.
\<close>

theorem pass_counts_every_row:
  assumes "rollup_tier sz ok win (Some src) mark target dst = (False, k, mark', dst')" "ok" "in_time src"
    "0 < win" "win dvd target" "target < 2 ^ 53" "0 \<le> mark" "\<And>d. sz d < 8192"
    "sum_list (map line_weight src) < 10 ^ int_max_str_digits"
  shows "\<exists>new. dst' = dst @ new \<and> k = length new
    \<and> map line_time new = sort (remdups (map (\<lambda>l. line_time l div win * win) (span_lines mark target src)))
    \<and> sum_list (map line_count new) = sum_list (map line_weight (span_lines mark target src))"
  using pass_counts[OF assms] by metis

lemma demo_in_time: "in_time [demo_row 0 50, demo_row 90 75, demo_row 300 10]"
  by (simp add: in_time_def demo_row_def row_ts_def line_time_def pyget_def dict_get_def sample_ts_def ts_of_int_def
      to_double_numeral to_double_one file_size_def rows_cap_def)

lemma demo_pass: "rollup_tier (\<lambda>_. 60) True 300 (Some [demo_row 0 50, demo_row 90 75, demo_row 300 10]) 0 600 []
  = (False, 2, 600, take (Suc (Suc 0)) demo_lines)"
  by (simp add: rollup_eval row_eval demo_rounds demo_lines_def)

lemma demo_weights: "map line_weight [demo_row 0 50, demo_row 90 75, demo_row 300 10] = [1, 1, 1]"
  by (simp add: line_weight_def line_row_def rollup_eval row_eval)

theorem pass_counts_every_row_witness:
  "sum_list (map line_count (take (Suc (Suc 0)) demo_lines)) = 3"
proof -
  have "sum_list (map line_weight [demo_row 0 50, demo_row 90 75, demo_row 300 10]) < 10 ^ int_max_str_digits"
    unfolding demo_weights using double_below_cap by simp
  from pass_counts_every_row[OF demo_pass _ demo_in_time _ _ _ _ _ this]
  have "sum_list (map line_count (take (Suc (Suc 0)) demo_lines))
      = sum_list (map line_weight (span_lines 0 600 [demo_row 0 50, demo_row 90 75, demo_row 300 10]))" by simp
  also have "span_lines 0 600 [demo_row 0 50, demo_row 90 75, demo_row 300 10] = [demo_row 0 50, demo_row 90 75, demo_row 300 10]"
    by (simp add: span_lines_def demo_row_def row_ts_def line_time_def pyget_def dict_get_def sample_ts_def ts_of_int_def
        to_double_numeral to_double_one)
  finally show ?thesis unfolding demo_weights by simp
qed

text \<open>A count between zero and one weighs nothing, so the average of its window raises, on every later pass as well.\<close>

lemma zero_weight_raises:
  "rollup_tier sz ok 300 (Some [(30, Some (PDict [(''t'', PInt 0), (''n'', PFloat (FDec 5 (- 1))), (''cpu'', PInt 1)]))]) 0 600 []
   = (True, 0, 0, [])"
proof -
  have "\<lfloor>1 / 2 :: rat\<rfloor> = 0" by (simp add: floor_eq_iff)
  then show ?thesis by (simp add: rollup_eval row_eval float_rat_def to_double_half)
qed

section \<open>One query\<close>

lemma slot_bounds:
  assumes "0 < m" "in_pass since (until + 1) r"
  shows "slot_of since (slot_length since until m) r \<in> {0..m}"
proof -
  obtain t where t: "row_time r = Some t" "since \<le> t" "t \<le> until" using assms(2) by (auto simp: in_pass_def split: option.splits)
  let ?span = "max 1 (until - since)" and ?len = "slot_length since until m"
  have len: "?len = - ((- ?span) div m)" by (simp add: slot_length_def)
  have "(- ?span) div m * m \<le> - ?span" using assms(1) by (simp add: minus_mod_eq_div_mult[symmetric])
  moreover have "?len * m = - ((- ?span) div m * m)" unfolding len by simp
  ultimately have c: "?span \<le> ?len * m" by linarith
  then have l: "0 < ?len" using assms(1) by (smt (verit) mult_nonpos_nonneg)
  have "(t - since) div ?len \<le> (m * ?len) div ?len" using t c l by (intro zdiv_mono1) (simp_all add: mult.commute)
  then have "(t - since) div ?len \<le> m" using l by simp
  moreover have "0 \<le> (t - since) div ?len" using t(2) l by (simp add: pos_imp_zdiv_nonneg_iff)
  ultimately show ?thesis using t(1) by (simp add: slot_of_def)
qed

lemma decimate_length:
  assumes "decimate rows since until m = Some ps" "0 < m" "list_all (in_pass since (until + 1)) rows"
  shows "int (length ps) \<le> m + 1"
proof (cases "int (length rows) \<le> m")
  case False
  define len where "len = slot_length since until m"
  define bs where "bs = buckets (slot_of since len) (filter (\<lambda>r. row_time r \<noteq> None) rows)"
  have "those (map (\<lambda>b. aggregate_window (snd b) (since + fst b * len)) bs) = Some ps"
    using assms(1) False by (simp add: decimate_def Let_def bs_def len_def)
  then have l: "length ps = length bs" by (simp add: those_map list_all2_lengthD)
  have "fst ` set bs \<subseteq> {0..m}"
  proof (rule image_subsetI)
    fix b assume "b \<in> set bs"
    then obtain r where "r \<in> set rows" "slot_of since len r = fst b" using bucket_rows unfolding bs_def by fastforce
    then show "fst b \<in> {0..m}" using slot_bounds[OF assms(2)] assms(3) unfolding len_def list_all_iff by metis
  qed
  moreover have "distinct (map fst bs)" unfolding bs_def using buckets_sorted strict_sorted_iff by blast
  moreover from this have "length bs = card (fst ` set bs)" using distinct_card[of "map fst bs"] by simp
  ultimately have "length bs \<le> card {0..m}" using card_mono[of "{0..m}" "fst ` set bs"] by simp
  then show ?thesis using l assms(2) by simp
qed (use assms in \<open>simp add: decimate_def\<close>)

lemma query_rows_within:
  assumes "query_range raw j5 j1h history since until points = Some (ps, t)"
  shows "int (length ps) \<le> max 1 (min points max_query_points) + 1"
proof -
  obtain rows where d: "decimate (sort_key sort_key_time (rows_between since until rows)) since until (max 1 (min points max_query_points)) = Some ps"
    using assms by (auto simp: query_range_def Let_def)
  have "list_all (in_pass since (until + 1)) (sort_key sort_key_time (rows_between since until rows))"
    by (simp add: rows_between_def list_all_iff)
  from decimate_length[OF d _ this] show ?thesis by simp
qed

text \<open>
  C39: whatever the journals hold and whichever tier answers, a query of the history returns at most one point more
  than asked for, and never more than 1501.
\<close>

theorem query_within_one:
  assumes "query_range raw j5 j1h history since until points = Some (ps, t)"
  shows "int (length ps) \<le> max 1 points + 1 \<and> length ps \<le> 1501"
  using query_rows_within[OF assms] by (auto simp: max_query_points_def)

definition demo_history :: "pydict list" where
  "demo_history = map (\<lambda>t. [(''t'', PInt t)]) [0, 1, 100, 200, 300]"

text \<open>The cap can be passed by one: a row at the very end of the span falls into a slot of its own.\<close>

lemma query_over_cap: "\<exists>ps. query_range None None None demo_history 0 300 3 = Some (ps, Raw) \<and> length ps = 4"
  by (simp add: query_range_def demo_history_def pick_tier_def raw_query_span_def covers_def reaches_further_def first_row_ts_def
      max_query_points_def rows_between_def in_pass_def row_time_def pyget_def dict_get_def sample_ts_def ts_of_int_def to_double_numeral
      to_double_one sort_key_time_def decimate_def slot_length_def slot_of_def buckets_def aggregate_window_def add_row_def
      row_weight_def finite_num_def add_field_def own_field_def Let_def)

theorem query_within_one_witness:
  "\<exists>ps. query_range None None None demo_history 0 300 3 = Some (ps, Raw) \<and> int (length ps) \<le> 3 + 1"
proof -
  obtain ps where "query_range None None None demo_history 0 300 3 = Some (ps, Raw)" using query_over_cap by blast
  from this query_within_one[OF this] show ?thesis by simp
qed

end
