(* ===== verification/Spec2Isabelle.thy ===== *)
theory Spec2Isabelle
  imports Sched_Safety Sign_In_Safety Ups_Outage Ups_Routes Ws_Gate Alert_Claims Rollup_Claims
begin

text \<open>
  ServerHub is a web panel that administers a home server. This library models the parts of
  it that decide who may do what, and what runs when: the sign-in and its rate limiter, the
  accounts, the two-factor service, the session tokens, the API keys, the gate in front of every
  route, the guards of the requests the panel sends itself and of its privileged sockets, the scheduler of
  recurring jobs, the policy that shuts services down when the power fails, the engine that journals
  and announces alerts, and the rollups of the metrics history.

  \<^bold>\<open>How the parts interact.\<close> A browser signs in through \<open>hub/routers/auth_api.py\<close> and
  \<open>twofa_api.py\<close> (theory \<open>Sign_In\<close>): every attempt first reserves a slot of the limiter
  (\<open>Login_Limiter\<close>), then checks the password of an account (\<open>Auth_Config\<close>) and, where the
  store shows one for the account, its second factor (\<open>Twofa\<close>, over the codes of \<open>Totp\<close>; a store that cannot be read
  shows none); success sets a signed cookie (\<open>Sessions\<close>). Five other handlers renew or issue the
  cookie: the claim of the installation, a change of password, the confirming of a factor, and its disabling by
  its owner or by an administrator. Every later request passes \<open>require_auth\<close> (\<open>Request_Gate\<close>), which
  accepts a session, an API key (\<open>Api_Keys\<close>), the machine's own menu-bar client or Basic credentials; it
  leaves the mutating routes of the shares and of the launcher to a guard of their own (\<open>own_admin_guard\<close>,
  composed with the gate in \<open>route_entered\<close>). Accounts, their logout counters and the credential of the
  installation live in the \<open>settings.auth\<close> block of the configuration; the two-factor rows and the keys in
  one document each. The scheduler reads its jobs from the same configuration, asks the cron matcher
  every minute which are due, and runs each in a thread of its own.

  \<^bold>\<open>Shared foundations.\<close> \<open>Hub_Prelude\<close> holds results, association-list dictionaries with
  Python's order of insertion (\<open>dict_get\<close>, \<open>dict_set\<close>, \<open>dict_del\<close>) and the text operations
  of Python the code calls; \<open>Py_Value\<close> the values a YAML or JSON document can hold
  (\<open>pyval\<close>), their coercions and the clock readings (rationals rounded to double precision);
  \<open>Calendar\<close> civil time; \<open>Hashes\<close> executable SHA-1, SHA-256, HMAC, PBKDF2 and scrypt;
  \<open>Encodings\<close> UTF-8 and the base-64 alphabets. A document is \<open>doc\<close>, with \<open>None\<close> the missing
  file; a \<open>disk\<close> says whether the file reads and writes succeed, so that every failed read or
  write is a branch. One operation under the code's file lock is one function from the stored
  state to the stored state; an interleaving is a sequence of such operations.

  \<^bold>\<open>The scheduler\<close> (\<open>hub/scheduler_svc.py\<close>, \<open>hub/routers/scheduler_api.py\<close>). \<open>Cron\<close>
  translates the parser, the matcher and the search for the next run, and shows that the parsed
  sets are the denotation of the items, that a found run is the earliest match and that the
  search finds every run within its horizon, and which accepted expressions never fire (four years and two days of calendar days; the scan is structural over
  that many days, so it needs no fuel). \<open>Sched_Jobs\<close> has the job list and the routes that change it,
  \<open>Sched_Engine\<close> one execution split at its critical sections, the journal, the failure
  streaks and the tick. \<open>Sched_Safety\<close> composes them into a step relation of the threaded
  engine and proves by rule induction that no two runs of one job overlap and that launched
  minutes strictly increase. The run journal is the list of its physical lines; the
  JSON encoder and decoder (\<open>codec\<close>) and whether an append and a trim succeed (\<open>journal_disk\<close>) are
  arguments, so a record that cannot be encoded or appended is a branch, and the readers cut the text at every
  line boundary of \<open>str.splitlines\<close>, those inside a record included.

  \<^bold>\<open>Second factors\<close> (\<open>hub/totp.py\<close>, \<open>hub/twofa_svc.py\<close>). \<open>Totp\<close> has the whole module;
  verification returns exactly the last matching counter of the drift window. \<open>Twofa\<close> has the
  operations on the stored document and \<open>Twofa_Safety\<close> an abstract account state they refine,
  from which the single use of counters and recovery codes follows over every history of calls in which the account
  is not disabled (disabling forgets the counter).

  \<^bold>\<open>Accounts\<close> (\<open>hub/auth.py\<close>). \<open>Auth_Config\<close> has the block, the account table and every
  operation on it; \<open>Auth_Accounts\<close> shows what each operation does to the table, on every
  branch, through the rewriting of the block on the way to the file. Hypothesis \<open>plain_auth\<close> says
  that the block holds only values the YAML writer can render at its depth, which is what a loaded file holds.

  \<^bold>\<open>Sessions\<close> (\<open>hub/auth.py\<close>). The tokens are sealed by an HMAC; the locale \<open>sealed_tokens\<close>
  states the contract of sealing and its lemmas, and is interpreted on the model's own \<open>seal\<close> and
  \<open>unseal\<close>. No property assumes that digests do not collide: where it matters, the conclusion
  names the two stamps.

  \<^bold>\<open>The limiter\<close> (\<open>hub/auth.py\<close>). \<open>Login_Limiter\<close> has the attempt table with its pruning and
  its sweep, and shows that it refines the plain list of attempts of each client while the clock does not run
  backwards, and how many attempts get through in a window when buckets are cleared and slots given back; after a
  step back of the clock the sweep may drop an attempt that still counts (\<open>sweep_drops_live_attempt\<close>).

  \<^bold>\<open>API keys\<close> (\<open>hub/api_keys.py\<close>) and \<^bold>\<open>the gate\<close> (\<open>hub/auth.py\<close>). \<open>Api_Keys_Safety\<close>
  treats revocation and minting over every history of the store; \<open>Gate_Safety\<close> gives the
  authority behind every accepted request, and what a member gets to through the gate and the guards of the routes.

  \<^bold>\<open>The safe-shutdown policy\<close> (\<open>hub/ups_svc.py\<close>, \<open>hub/ups_policy.py\<close>,
  \<open>hub/routers/ups_api.py\<close>). \<open>Ups_Power\<close> parses the power reports and normalizes the settings;
  \<open>Ups_Policy\<close> has the persisted machine: a sweep decides under the file lock in one step, while the stop
  and restore sequences of the worker are split into program points (\<open>pc\<close>) whose every read, recorded step and
  command is one action (\<open>worker_act\<close>). \<open>Ups_Json\<close> shows what writing the state keeps of it, \<open>Ups_Safety\<close>
  composes sweeps, worker actions and deaths of the panel into a step relation, simulates it by an abstract
  soft landing, and draws from that, for every run, that what was stopped is started back and
  that one outage engages once. These runs assume that writes of the state succeed; lemma \<open>marker_lost\<close> shows what a failed one
  costs. \<open>Ups_Outage\<close> has the converse: an undisturbed outage goes through, in the plan's order,
  the trigger fires exactly at the floors, and the drill foretells the sweep. \<open>Ups_Settings\<close> and \<open>Ups_Routes\<close> treat the served
  settings (four of whose fields are served as stored), the merge of a patch into the configuration and the handlers that change it.

  \<^bold>\<open>The guards\<close> (\<open>hub/http_guard.py\<close>, \<open>hub/websocket_security.py\<close>). \<open>Net_Address\<close> reads addresses
  as the standard library does and classifies them as machine words; \<open>Http_Guard\<close> has the pieces of a URL and
  the judgements of origins, webhooks and peers. \<open>Http_Guard_Safety\<close> shows that a spelling of an address does
  not change its judgement, which version 4 addresses are local, and that a peer with an address was judged by the one
  lookup that named it; an unresolved name of the local network is handed out unjudged. \<open>Ws_Gate\<close> has the door of the privileged sockets. The C library's address parser, the
  lookup and two tables of Unicode are arguments (\<open>net_env\<close>); the lower case of a text is that of its ASCII
  letters, and only exact texts are read.

  \<^bold>\<open>The alerts\<close> (\<open>hub/alerts.py\<close>, \<open>hub/freshness_svc.py\<close>). One sweep (\<open>check_once\<close> of \<open>Alert_Sweep\<close>)
  runs five passes over the state the sweep before stored, and each pass writes its entries of the new
  state, rows of the journal and notices: the services, the resource thresholds and the power
  (\<open>Alert_Engine\<close>), the disks (\<open>Alert_Smart\<close>) and the artifacts of recurring jobs (\<open>Alert_Freshness\<close>), with the
  roundings of \<open>Py_Double\<close>. What a sweep reads is one record (\<open>feeds\<close>): the status, the sample, the
  disks and the power snapshot as they answer, the files as a view, the settings as read once, and the
  alerts of the shutdown policy and of the runtime watch. \<open>Alert_State\<close> shows what the state
  file keeps, \<open>Alert_Frames\<close> which entries each pass touches, and \<open>Alert_Safety\<close>, \<open>Alert_Runs\<close> and \<open>Alert_Resources\<close>
  that a run of sweeps treats each service and each resource as a machine of its own. \<open>Alert_Claims\<close>
  draws the promises from these machines, and the three ways in which an alert is resolved that was never
  announced, or announced and never resolved. Runs assume that the state file is written and that the services
  are readable (\<open>calm_feeds\<close>); what raises inside a pass is a branch of the definitions.

  \<^bold>\<open>The metrics history\<close> (\<open>hub/metrics_rollup.py\<close>). \<open>Metrics_Rows\<close> has the journals, as lines with their length and
  what they parse to, the bounded reads and the folding of rows; \<open>Metrics_Rollup\<close> the passes of the two tiers, their
  watermarks, the trims and the range query. The growing read is a recursion over its five sizes. \<open>Rollup_Safety\<close>
  keeps an invariant of the journals and the watermarks over every run of passes and restarts, and \<open>Rollup_Claims\<close> states what
  follows: no window is aggregated twice, a pass counts every row of its span once, a query keeps within one point
  of its cap. Appends are whole or not at all, and a negative zero is a zero.

  \<^bold>\<open>This theory\<close> holds the properties that span components: what a request presented when any
  of the seven handlers sets a cookie, that the two steps complete, and the installation is claimed once.

  \<^bold>\<open>Parameters.\<close> The key of the HMAC, the tokens of the first run and of the menu-bar client, random bytes and
  the clock readings are arguments, as are the outcomes of the commands a job runs.
  Clock readings satisfy \<open>reading\<close>: a double of the range a file's timestamp can have.

  \<^bold>\<open>Not modelled.\<close> The files of the secrets and tokens, the parsing of forwarded addresses for the
  limiter's client name (an argument here), the audit trail, the file of the alert journal and the
  channels its notices go to, cookie flags, read-only listings and the
  message texts; and the remaining services of the panel, which wrap command-line tools of the host.
  Values of Python that no document holds (subclasses with overridden methods, which the code guards against
  throughout) are outside \<open>pyval\<close>.

  \<^bold>\<open>Plan.\<close> Next the file of the alert journal and the grouping rules (\<open>hub/group_rules.py\<close>), then the
  allocation of addresses and the rendering of the configurations of WireGuard (\<open>hub/wireguard_svc.py\<close>).
\<close>

section \<open>Signing in\<close>

text \<open>
  The seven requests that may set a session cookie: the claim of the installation, the two steps of a
  sign-in, the change of a password, and the confirming, the disabling and an administrator's
  disabling of a second factor. \<open>issued_at\<close> is the reading each stamps its cookie with.
\<close>

datatype cookie_request =
    Claim request string bytes string string string
  | Login string string
  | SecondFactor string string pyval
  | ChangePassword string bytes string string string
  | ConfirmFactor string string pyval "nat \<Rightarrow> nat \<Rightarrow> nat" pyval
  | DisableFactor string string pyval
  | AdminDisable string string

fun cookie_step :: "disk \<Rightarrow> string \<Rightarrow> cookie_request \<Rightarrow> (nat \<Rightarrow> rat) \<Rightarrow> server \<Rightarrow> reply \<times> server" where
  "cookie_step dk client (Claim r expected salt supplied password username) clock sv =
     auth_setup r expected salt supplied password username (clock 0) sv"
| "cookie_step dk client (Login username password) clock sv = auth_login dk client username password clock sv"
| "cookie_step dk client (SecondFactor pending code stamp) clock sv = totp_verify_route dk client pending code stamp clock sv"
| "cookie_step dk client (ChangePassword old salt username current new) clock sv =
     auth_change_password client old salt username current new clock sv"
| "cookie_step dk client (ConfirmFactor old code stamp draws now) clock sv =
     totp_confirm dk client old code stamp draws now clock sv"
| "cookie_step dk client (DisableFactor old code stamp) clock sv = totp_disable dk client old code stamp clock sv"
| "cookie_step dk client (AdminDisable old username) clock sv = totp_admin_disable dk old username clock sv"

fun issued_at :: "cookie_request \<Rightarrow> nat" where
  "issued_at (Claim _ _ _ _ _ _) = 0"
| "issued_at (Login _ _) = 1"
| "issued_at (SecondFactor _ _ _) = 2"
| "issued_at (ChangePassword _ _ _ _ _) = 3"
| "issued_at (ConfirmFactor _ _ _ _ _) = 3"
| "issued_at (DisableFactor _ _ _) = 3"
| "issued_at (AdminDisable _ _) = 2"

fun cookie_of :: "reply \<Rightarrow> string option" where
  "cookie_of (SignedIn cookie _) = Some cookie"
| "cookie_of (NewCodes _ cookie) = cookie"
| "cookie_of _ = None"

text \<open>A cookie of the request opened a session of the account: it verified, and then gave the name.\<close>

abbreviation signed_in :: "server \<Rightarrow> string \<Rightarrow> (nat \<Rightarrow> rat) \<Rightarrow> string \<Rightarrow> bool" where
  "signed_in sv old clock u \<equiv>
     verify_session (sv_key sv) (sv_auth sv) old (clock 0) \<and> session_username (sv_key sv) (sv_auth sv) old (clock 1) = u"

text \<open>What each request presented, when a cookie for the account \<open>u\<close> comes back.\<close>

fun presented :: "disk \<Rightarrow> string \<Rightarrow> cookie_request \<Rightarrow> (nat \<Rightarrow> rat) \<Rightarrow> server \<Rightarrow> string \<Rightarrow> bool" where
  "presented dk client (Claim r expected salt supplied password username) clock sv u \<longleftrightarrow>
     setup_required (sv_auth sv) \<and> u = or_text (strip username) ''admin''
     \<and> (setup_token_required (sv_auth sv) r \<longrightarrow> supplied \<noteq> [] \<and> supplied = expected)"
| "presented dk client (Login username password) clock sv u \<longleftrightarrow>
     account (sv_auth sv) u \<noteq> None \<and> fst (attempt client (clock 0) sv)
     \<and> u = strip username \<and> verify_account_password (sv_auth sv) u password \<and> \<not> enabled dk u (sv_totp sv)"
| "presented dk client (SecondFactor pending code stamp) clock sv u \<longleftrightarrow>
     account (sv_auth sv) u \<noteq> None \<and> fst (attempt client (clock 0) sv)
     \<and> pending_totp_username (sv_key sv) (sv_auth sv) pending (clock 1) = u
     \<and> (\<exists>m. fst (verify_second_factor dk u code stamp (sv_totp sv)) = Inr (Some m))"
| "presented dk client (ChangePassword old salt username current new) clock sv u \<longleftrightarrow>
     u = strip username \<and> fst (attempt client (clock 2) sv)
     \<and> (\<exists>caller. signed_in sv old clock caller \<and> caller \<noteq> [] \<and> verify_account_password (sv_auth sv) caller current
         \<and> (u = caller \<or> is_admin (sv_auth sv) caller))"
| "presented dk client (ConfirmFactor old code stamp draws now) clock sv u \<longleftrightarrow>
     signed_in sv old clock u \<and> fst (attempt client (clock 2) sv)
     \<and> (\<exists>codes. fst (confirm_enrollment dk u code stamp draws now (sv_totp sv)) = Inr (Some codes))"
| "presented dk client (DisableFactor old code stamp) clock sv u \<longleftrightarrow>
     signed_in sv old clock u \<and> fst (attempt client (clock 2) sv) \<and> enabled dk u (sv_totp sv)
     \<and> (\<exists>m. fst (verify_second_factor dk u code stamp (sv_totp sv)) = Inr (Some m))"
| "presented dk client (AdminDisable old username) clock sv u \<longleftrightarrow>
     signed_in sv old clock u \<and> is_admin (sv_auth sv) u \<and> u = strip username"

lemma cookie_step_presented:
  assumes "cookie_step dk client op clock sv = (reply, sv')" "cookie_of reply = Some cookie"
  shows "\<exists>u. presented dk client op clock sv u \<and> cookie = create_session (sv_key sv') (sv_auth sv') u (clock (issued_at op))
    \<and> ((\<exists>n p. op = Login n p) \<or> (\<exists>p c s. op = SecondFactor p c s) \<longrightarrow> sv_data sv' = sv_data sv)"
proof -
  consider (signed) u where "reply = SignedIn cookie u" | (codes) codes where "reply = NewCodes codes (Some cookie)"
    using assms(2) by (cases reply) auto
  then show ?thesis
  proof cases
    case signed
    show ?thesis
    proof (cases op)
      case (Claim r expected salt supplied password username)
      show ?thesis using setup_cases[OF assms(1)[unfolded Claim cookie_step.simps] signed] by (auto simp: Claim)
    next
      case (Login username password)
      note l = login_cases[OF assms(1)[unfolded Login cookie_step.simps signed]]
      obtain ok sv1 where a: "attempt client (clock 0) sv = (ok, sv1)" by fastforce
      note k = attempt_state[OF a]
      have "sv_key sv' = sv_key sv" using assms(1) a k by (auto simp: Login auth_login_def Let_def split: if_splits)
      then show ?thesis using l verified_account by (auto simp: Login)
    next
      case (SecondFactor pending code stamp)
      note l = second_step_cases[OF assms(1)[unfolded SecondFactor cookie_step.simps signed]]
      obtain ok sv1 where a: "attempt client (clock 0) sv = (ok, sv1)" by fastforce
      note k = attempt_state[OF a]
      have "sv_key sv' = sv_key sv" using assms(1) a k
        by (auto simp: SecondFactor totp_verify_route_def Let_def split: prod.splits if_splits sum.splits option.splits)
      then show ?thesis using l pending_account by (auto simp: SecondFactor)
    next
      case (ChangePassword old salt username current new)
      show ?thesis using change_cases[OF assms(1)[unfolded ChangePassword cookie_step.simps] signed] by (auto simp: ChangePassword)
    next
      case (ConfirmFactor old code stamp draws now)
      then show ?thesis using no_other_cookies(5) assms(1) signed by (metis cookie_step.simps(5) fst_conv)
    next
      case (DisableFactor old code stamp)
      show ?thesis using disable_cases[OF assms(1)[unfolded DisableFactor cookie_step.simps] signed]
        session_user_Inr[of sv old clock u] by (auto simp: DisableFactor)
    next
      case (AdminDisable old username)
      show ?thesis using admin_disable_cases[OF assms(1)[unfolded AdminDisable cookie_step.simps] signed]
        session_user_Inr[of sv old clock u] by (auto simp: AdminDisable)
    qed
  next
    case codes
    have none: "fst (cookie_step dk client op clock sv) = NewCodes codes (Some cookie)" using assms(1) codes by simp
    show ?thesis
    proof (cases op)
      case (ConfirmFactor old code stamp draws now)
      from confirm_cases[OF assms(1)[unfolded ConfirmFactor cookie_step.simps] codes] show ?thesis
        using session_user_Inr[of sv old clock] by (auto simp: ConfirmFactor)
    qed (use none no_other_cookies in \<open>auto simp: \<close>)
  qed
qed

text \<open>
  C1: no session without every factor. Seven handlers set cookies, and whichever of them sets one, there
  is an account it is for, and: a claim found the installation unclaimed and, where a token is demanded, got
  exactly that token; a sign-in got the account's own password under the rate limit, with no second factor
  readable in the store, or a pending token of the account and an accepted second factor under the
  limit; every other request came with a session and, but for an administrator's own disabling of a factor,
  got the caller's password or an accepted code under the limit. The cookie never works for another account,
  whatever the configuration holds later; where the account is stored it works until seven
  days after its issue. The sign-in steps leave the configuration as it is.
\<close>

theorem no_session_without_every_factor:
  assumes "cookie_step dk client op clock sv = (reply, sv')" "cookie_of reply = Some cookie" "\<And>i. reading (clock i)"
  shows "\<exists>u. presented dk client op clock sv u
    \<and> (text_ok u \<longrightarrow>
        (\<forall>a now. session_username (sv_key sv') a cookie now \<in> {u, []})
        \<and> (account (sv_auth sv') u \<noteq> None \<longrightarrow>
            session_username (sv_key sv') (sv_auth sv') cookie now
              = (if now < of_int (\<lfloor>clock (issued_at op)\<rfloor> + session_ttl) then u else [])))
    \<and> ((\<exists>n p. op = Login n p) \<or> (\<exists>p c s. op = SecondFactor p c s) \<longrightarrow> sv_data sv' = sv_data sv)"
proof -
  obtain u where u: "presented dk client op clock sv u"
    and c: "cookie = create_session (sv_key sv') (sv_auth sv') u (clock (issued_at op))"
    and k: "(\<exists>n p. op = Login n p) \<or> (\<exists>p c s. op = SecondFactor p c s) \<longrightarrow> sv_data sv' = sv_data sv"
    using cookie_step_presented[OF assms(1,2)] by blast
  have "session_username (sv_key sv') a cookie now \<in> {u, []}" if "text_ok u" for a now
    using created_session_fields(1)[OF assms(3) that] by (simp add: c session_username_fields)
  moreover have "session_username (sv_key sv') (sv_auth sv') cookie now
      = (if now < of_int (\<lfloor>clock (issued_at op)\<rfloor> + session_ttl) then u else [])"
    if "text_ok u" "account (sv_auth sv') u \<noteq> None"
    using session_lifetime[OF _ that(1) assms(3)] that(2) unfolding c account_get by blast
  ultimately show ?thesis using u k by blast
qed

text \<open>
  The two steps complete. For an account with a second factor, the right password under the
  limiter's cap answers a pending token and gives the reserved slot back; presenting it within
  five minutes with an accepted code always signs in (the limiter refuses no second step of its
  own client), sets a working session and clears the client's bucket.
\<close>

lemma two_steps_complete:
  assumes "\<not> setup_required (sv_auth sv)" "orderly (clock 0) sv" "fst (attempt client (clock 0) sv)"
    and "verify_account_password (sv_auth sv) (strip username) password" "enabled dk (strip username) (sv_totp sv)"
    and "text_ok (strip username)" "reading (clock 1)" "clock 0 \<le> clock' 0"
    and "clock' 1 < of_int (\<lfloor>clock 1\<rfloor> + pending_ttl)" "reading (clock' 2)" "now < of_int (\<lfloor>clock' 2\<rfloor> + session_ttl)"
    and "fst (verify_second_factor dk (strip username) code stamp (sv_totp sv)) = Inr (Some m)"
  shows "\<exists>pending sv1 cookie sv2. auth_login dk client username password clock sv = (SecondStep pending, sv1)
    \<and> totp_verify_route dk client pending code stamp clock' sv1 = (SignedIn cookie (strip username), sv2)
    \<and> session_username (sv_key sv2) (sv_auth sv2) cookie now = strip username \<and> bucket (sv_attempts sv2) client = []"
proof -
  let ?u = "strip username" and ?a = "sv_auth sv"
  let ?pending = "create_pending_totp_token (sv_key sv) ?a ?u (clock 1)"
  let ?sv1 = "(snd (attempt client (clock 0) sv))\<lparr>sv_attempts := release_login_reservation client
      (sv_attempts (snd (attempt client (clock 0) sv)))\<rparr>"
  have login: "auth_login dk client username password clock sv = (SecondStep ?pending, ?sv1)"
    using assms(1,3-5) by (cases "attempt client (clock 0) sv")
      (use attempt_keeps[of client "clock 0" sv] in \<open>simp add: auth_login_def Let_def\<close>)
  have known: "dict_get (accounts ?a) ?u \<noteq> None" using verified_account[OF assms(4)] by (simp add: account_get)
  have pend: "pending_totp_username (sv_key sv) ?a ?pending (clock' 1) = ?u"
    using pending_lifetime[OF known assms(6,7), of "sv_key sv" "clock' 1"] assms(9) by simp
  have ne: "?u \<noteq> []" using verified_account[OF assms(4)] by (auto simp: account_def)
  have two: "fst (attempt client (clock' 0) ?sv1)" by (rule second_attempt[OF assms(2,3,8)])
  obtain sv3 where at: "attempt client (clock' 0) ?sv1 = (True, sv3)" using two by (cases "attempt client (clock' 0) ?sv1") auto
  have k: "sv_key sv3 = sv_key sv" "sv_data sv3 = sv_data sv" "sv_totp sv3 = sv_totp sv"
    using attempt_keeps[of client "clock' 0" ?sv1] at by simp_all
  let ?cookie = "create_session (sv_key sv) ?a ?u (clock' 2)"
  let ?sv2 = "sv3\<lparr>sv_attempts := clear_login_failures client (sv_attempts sv3),
      sv_totp := snd (verify_second_factor dk ?u code stamp (sv_totp sv))\<rparr>"
  have "totp_verify_route dk client ?pending code stamp clock' ?sv1 = (SignedIn ?cookie ?u, ?sv2)"
    using assms(1,12) at k pend ne
    by (cases "verify_second_factor dk ?u code stamp (sv_totp sv)") (simp add: totp_verify_route_def session_of_def Let_def)
  moreover have "session_username (sv_key ?sv2) (sv_auth ?sv2) ?cookie now = ?u"
    using session_lifetime[OF known assms(6,10), of "sv_key sv" now] assms(11) k by simp
  ultimately show ?thesis using login by (auto simp: clear_login_failures_def)
qed

text \<open>
  C6: the installation is claimed once. A claim that succeeds stores a credential its password
  verifies against, on an installation that had none; from then on no claim succeeds or changes the
  stored block, whatever token, password and name it presents and however stale the block its
  process has cached; and while a token is demanded, a success presented exactly that token.
\<close>

theorem claimed_once:
  assumes "plain_auth (stored_auth data)" "complete_setup snap expected salt supplied pw name need data = (Inr True, data')"
  shows "(need \<longrightarrow> supplied = expected) \<and> setup_required (stored_auth data) \<and> \<not> setup_required (stored_auth data')
    \<and> verify_password (stored_auth data') pw
    \<and> (let (res, data'') = complete_setup snap' expected' salt' supplied' pw' name' need' data'
       in res \<noteq> Inr True \<and> stored_auth data'' = stored_auth data')"
proof -
  have set: "set_password salt pw name True True data = (Inr True, data')" and tok: "need \<longrightarrow> supplied = expected"
    using assms(2) by (auto simp: complete_setup_def split: if_splits)
  note c = set_password_claims[OF assms(1) set]
  have "res \<noteq> Inr True \<and> stored_auth data'' = stored_auth data'"
    if "complete_setup snap' expected' salt' supplied' pw' name' need' data' = (res, data'')" for res data''
    using that set_password_claimed[of data' salt' pw' name' True] c
    by (auto simp: complete_setup_def split: if_splits)
  then show ?thesis using c tok by (auto simp: setup_required_def)
qed

section \<open>Witnesses\<close>

text \<open>A panel whose administrator \<open>a\<close> still has a plain password, with a given two-factor document.\<close>

definition demo :: "doc \<Rightarrow> server" where
  "demo file = \<lparr>sv_key = [], sv_data = [(''settings'', PDict [(''auth'', PDict [(''username'', PStr ''a''), (''password'', PStr ''opensesame'')])])],
     sv_attempts = [], sv_totp = file\<rparr>"

lemma demo_totp: "sv_totp (demo file) = file" "sv_key (demo file) = []"
  by (simp_all add: demo_def)

lemma demo_facts:
  "\<not> setup_required (sv_auth (demo file))" "verify_account_password (sv_auth (demo file)) ''a'' ''opensesame''"
  "strip ''a'' = ''a''" "text_ok ''a''" "fst (attempt ''c'' 1700000000 (demo file))"
proof -
  have d: "sv_auth (demo file) = [(''username'', PStr ''a''), (''password'', PStr ''opensesame'')]"
    "sv_attempts (demo file) = []" unfolding demo_def server.simps by code_simp+
  show "\<not> setup_required (sv_auth (demo file))" "verify_account_password (sv_auth (demo file)) ''a'' ''opensesame''"
    "strip ''a'' = ''a''" "text_ok ''a''" unfolding d by code_simp+
  show "fst (attempt ''c'' 1700000000 (demo file))"
    by (simp add: attempt_def d login_allowed_def Let_def sweep_login_attempts_def login_cap_def)
qed

lemma no_session_without_every_factor_witness:
  "\<exists>cookie sv'. cookie_step good_disk ''c'' (Login '' a'' ''opensesame'') (\<lambda>_. 1700000000) (demo None) = (SignedIn cookie ''a'', sv')
    \<and> session_username [] (sv_auth (demo None)) cookie 1700000009 = ''a''"
proof -
  have off: "\<not> enabled good_disk ''a'' None" by code_simp
  have st: "strip '' a'' = ''a''" by code_simp
  obtain ok sv1 where a: "attempt ''c'' 1700000000 (demo None) = (ok, sv1)" by fastforce
  then have k: "ok" "sv_key sv1 = sv_key (demo None)" "sv_data sv1 = sv_data (demo None)" "sv_totp sv1 = None"
    using attempt_state[OF a] demo_facts(5)[of None] by (simp_all add: demo_totp)
  obtain cookie sv' where l: "cookie_step good_disk ''c'' (Login '' a'' ''opensesame'') (\<lambda>_. 1700000000) (demo None) = (SignedIn cookie ''a'', sv')"
    and k': "sv_key sv' = sv_key (demo None)" "sv_data sv' = sv_data (demo None)"
    using demo_facts(1,2)[of None] demo_facts(3) off k a by (simp add: auth_login_def st Let_def demo_totp)
  have "account (sv_auth (demo None)) ''a'' \<noteq> None" by (rule verified_account[OF demo_facts(2)])
  then have "session_username [] (sv_auth (demo None)) cookie 1700000009 = ''a''"
    using no_session_without_every_factor[where now = 1700000009, OF l _ reading_2023] k' demo_facts(4)
    by (auto simp: st demo_totp session_ttl_def)
  then show ?thesis using l by blast
qed

lemma two_steps_complete_witness:
  "\<exists>pending sv1 cookie sv2. auth_login good_disk ''c'' ''a'' ''opensesame'' (\<lambda>_. 1700000000) (demo sample_doc) = (SecondStep pending, sv1)
    \<and> totp_verify_route good_disk ''c'' pending sample_code (PInt 95) (\<lambda>_. 1700000000) sv1 = (SignedIn cookie ''a'', sv2)"
proof -
  let ?sv = "demo sample_doc"
  have on: "enabled good_disk (strip ''a'') (sv_totp ?sv)"
    using sample_state(2) by (simp add: demo_facts(3) demo_def enabled_def abs_doc_def stored_entry_def entry_view_def)
  obtain m where m: "totp_verify (generate_secret sample_key) sample_code (PInt 95) = Inr (Some m)" "1 < m"
    using sample_code_accepted by blast
  obtain ans d where x: "exec (Second ''a'' sample_code (PInt 95)) sample_doc = (ans, d)" by fastforce
  have "ans = Factor (Some ByTotp)"
    using exec_spec[OF sample_state(1) x] m sample_secret_nonempty
    by (auto simp: sample_state(2) spec_second_def spec_code_def answer_of_def)
  then have f: "fst (verify_second_factor good_disk (strip ''a'') sample_code (PInt 95) (sv_totp ?sv)) = Inr (Some ByTotp)"
    using x by (auto simp: demo_facts(3) demo_totp exec.simps answered_def split: prod.splits sum.splits)
  have o: "orderly 1700000000 ?sv" by (simp add: orderly_def demo_def dict_ok_def)
  show ?thesis
    using two_steps_complete[where clock = "\<lambda>_. 1700000000" and clock' = "\<lambda>_. 1700000000" and now = 1700000000
        and sv = ?sv and username = "''a''" and password = "''opensesame''" and dk = good_disk and client = "''c''",
        OF demo_facts(1) o demo_facts(5) _ on _ reading_2023 _ _ reading_2023 _ f] demo_facts(2,3,4)
    by (auto simp: pending_ttl_def session_ttl_def)
qed

lemma claimed_once_witness:
  "\<exists>data'. complete_setup [] ''tok'' [] ''tok'' ''0123456789'' ''boss'' True [] = (Inr True, data')
    \<and> verify_password (stored_auth data') ''0123456789''
    \<and> fst (complete_setup [] ''tok'' [1] ''tok'' ''9876543210'' ''thief'' False data') \<noteq> Inr True"
proof -
  obtain enc where h: "hash_password [] ''0123456789'' = Inr enc" using hash_password_shape by blast
  have st: "strip ''boss'' = ''boss''" "valid_username ''boss''" "\<not> py_len ''0123456789'' < min_password_length"
    "setup_required []" "auth_block [] = ([], [])" "\<not> auth_is_claimed []" by code_simp+
  obtain data' where c: "complete_setup [] ''tok'' [] ''tok'' ''0123456789'' ''boss'' True [] = (Inr True, data')"
    by (simp add: complete_setup_def set_password_def st h Let_def or_text_def)
  show ?thesis
    using claimed_once[OF family_plain(2) c, of "[]" "''tok''" "[1]" "''tok''" "''9876543210''" "''thief''" False] c
    by (auto simp: case_prod_beta Let_def)
qed

end
